(* ===== verification/Prelude.thy ===== *)
theory Prelude
  imports Main "HOL-Library.Word" "HOL-Library.Signed_Division"
begin

text \<open>
  Shared ground of the development: the machine types of the target the library is built
  for (Linux on x86-64: 8-bit bytes, 32-bit \<^verbatim>\<open>int\<close>, 64-bit \<^verbatim>\<open>long\<close>, little-endian), the result
  type in which undefined behaviour is a value, the raw-memory primitives the sources use
  (\<^verbatim>\<open>memcpy\<close>, C strings, the object representation of integers) and the generic lemmas about
  them that the component theories rest on.
\<close>

unbundle bit_operations_syntax

named_theorems res_simps "rewriting of computations in the result type"
named_theorems layout_simps "object representations of integers"

section \<open>Machine types\<close>

type_synonym byte = "8 word"
type_synonym u16 = "16 word"
type_synonym u32 = "32 word"
type_synonym u64 = "64 word"
type_synonym std_string = "byte list"

text \<open>A string literal of the sources is the list of its character codes.\<close>

definition str :: "string \<Rightarrow> std_string" where
  "str s = map of_char s"

section \<open>Undefined behaviour as a value\<close>

text \<open>
  Every operation that can leave the defined behaviour of C++ returns an element of
  \<open>'a res\<close>: \<open>Inl\<close> names what went wrong, \<open>Inr\<close> carries the result. \<open>WouldBlock\<close> is the
  outcome of locking a mutex another thread holds, \<open>InactiveMember\<close> of reading a member of a
  union other than the one last written, \<open>NotOwner\<close> of leaving a critical section that is not held.
\<close>

datatype ub =
    OutOfBounds
  | NegativeLength
  | SignedOverflow
  | NullPointer
  | UseAfterFree
  | DoubleFree
  | EmptyContainer
  | DivisionByZero
  | WouldBlock
  | InactiveMember
  | NotOwner

type_synonym 'a res = "ub + 'a"

definition bind_res :: "'a res \<Rightarrow> ('a \<Rightarrow> 'b res) \<Rightarrow> 'b res" where
  "bind_res m f = (case m of Inl e \<Rightarrow> Inl e | Inr x \<Rightarrow> f x)"

definition is_ok :: "'a res \<Rightarrow> bool" where
  "is_ok m = (case m of Inl _ \<Rightarrow> False | Inr _ \<Rightarrow> True)"

definition INT_MAX :: int where "INT_MAX = 2147483647"
definition INT_MIN :: int where "INT_MIN = - 2147483648"

text \<open>The result of an \<^verbatim>\<open>int\<close> computation: undefined when it leaves the range of the type.\<close>

definition c_int :: "int \<Rightarrow> int res" where
  "c_int v = (if INT_MIN \<le> v \<and> v \<le> INT_MAX then Inr v else Inl SignedOverflow)"

text \<open>Conversion of any integer to \<^verbatim>\<open>int\<close>: the low 32 bits, read as two's complement.\<close>

definition to_int32 :: "int \<Rightarrow> int" where
  "to_int32 v = sint (word_of_int v :: u32)"

section \<open>Raw memory\<close>

text \<open>
  \<open>memcpy dst off src n\<close>: \<open>n\<close> bytes from the start of \<open>src\<close> to offset \<open>off\<close> of the object
  \<open>dst\<close>. The size parameter of the C function is unsigned, so a negative \<open>n\<close> is a request for
  more memory than exists.
\<close>

definition memcpy :: "byte list \<Rightarrow> int \<Rightarrow> byte list \<Rightarrow> int \<Rightarrow> byte list res" where
  "memcpy dst off src n =
     (if n < 0 then Inl NegativeLength
      else if off < 0 \<or> int (length dst) < off + n \<or> int (length src) < n then Inl OutOfBounds
      else Inr (take (nat off) dst @ take (nat n) src @ drop (nat (off + n)) dst))"

text \<open>Reading \<open>n\<close> bytes at offset \<open>off\<close> of an object.\<close>

definition read_mem :: "byte list \<Rightarrow> int \<Rightarrow> int \<Rightarrow> byte list res" where
  "read_mem src off n =
     (if n < 0 then Inl NegativeLength
      else if off < 0 \<or> int (length src) < off + n then Inl OutOfBounds
      else Inr (take (nat n) (drop (nat off) src)))"

text \<open>
  Constructing a \<^verbatim>\<open>std::string\<close> from a \<^verbatim>\<open>char *\<close>: the bytes up to the first NUL, undefined if the
  object ends before one.
\<close>

definition c_string :: "byte list \<Rightarrow> std_string res" where
  "c_string m = (if 0 \<in> set m then Inr (takeWhile (\<lambda>b. b \<noteq> 0) m) else Inl OutOfBounds)"

section \<open>Object representation of integers\<close>

fun le_bytes :: "nat \<Rightarrow> 'a::len word \<Rightarrow> byte list" where
  "le_bytes 0 w = []"
| "le_bytes (Suc n) w = ucast w # le_bytes n (drop_bit 8 w)"

fun of_le_bytes :: "byte list \<Rightarrow> 'a::len word" where
  "of_le_bytes [] = 0"
| "of_le_bytes (b # bs) = push_bit 8 (of_le_bytes bs) OR ucast b"

section \<open>Lemmas: results\<close>

lemma bind_res_Inr [simp, res_simps]: "bind_res (Inr x) f = f x"
  by (simp add: bind_res_def)

lemma bind_res_Inl [simp, res_simps]: "bind_res (Inl e) f = Inl e"
  by (simp add: bind_res_def)

lemma bind_res_eq_Inr: "bind_res m f = Inr y \<longleftrightarrow> (\<exists>x. m = Inr x \<and> f x = Inr y)"
  by (cases m) auto

lemma bind_res_eq_Inl: "bind_res m f = Inl e \<longleftrightarrow> m = Inl e \<or> (\<exists>x. m = Inr x \<and> f x = Inl e)"
  by (cases m) auto

lemma bind_res_assoc: "bind_res (bind_res m f) g = bind_res m (\<lambda>x. bind_res (f x) g)"
  by (cases m) auto

lemma bind_res_right: "bind_res m Inr = m"
  by (cases m) auto

lemma bind_res_cong [fundef_cong]:
  "m = m' \<Longrightarrow> (\<And>x. m' = Inr x \<Longrightarrow> f x = f' x) \<Longrightarrow> bind_res m f = bind_res m' f'"
  by (cases m') auto

lemma is_ok_simps [simp]: "is_ok (Inr x)" "\<not> is_ok (Inl e)"
  by (simp_all add: is_ok_def)

lemma is_ok_iff: "is_ok m \<longleftrightarrow> (\<exists>x. m = Inr x)"
  by (cases m) auto

lemma c_int_ok [res_simps]: "INT_MIN \<le> v \<Longrightarrow> v \<le> INT_MAX \<Longrightarrow> c_int v = Inr v"
  by (simp add: c_int_def)

lemma c_int_eq_Inr: "c_int v = Inr w \<longleftrightarrow> w = v \<and> INT_MIN \<le> v \<and> v \<le> INT_MAX"
  by (auto simp: c_int_def)

lemma sint_word_of_int:
  "- (2 ^ (LENGTH('a) - 1)) \<le> v \<Longrightarrow> v < 2 ^ (LENGTH('a) - 1) \<Longrightarrow>
   sint (word_of_int v :: 'a::len word) = v"
  by transfer (simp add: signed_take_bit_int_eq_self)

lemma to_int32_id [simp]: "INT_MIN \<le> v \<Longrightarrow> v \<le> INT_MAX \<Longrightarrow> to_int32 v = v"
  by (simp add: to_int32_def INT_MIN_def INT_MAX_def sint_word_of_int)

lemma to_int32_range: "INT_MIN \<le> to_int32 v \<and> to_int32 v \<le> INT_MAX"
proof -
  have "- (2 ^ (LENGTH(32) - 1)) \<le> sint (word_of_int v :: u32)"
    and "sint (word_of_int v :: u32) < 2 ^ (LENGTH(32) - 1)"
    by (rule sint_ge, rule sint_lt)
  then show ?thesis by (simp add: to_int32_def INT_MIN_def INT_MAX_def)
qed

section \<open>Lemmas: memory\<close>

lemma memcpy_eq_Inr:
  "memcpy dst off src n = Inr dst' \<longleftrightarrow>
     0 \<le> n \<and> 0 \<le> off \<and> off + n \<le> int (length dst) \<and> n \<le> int (length src) \<and>
     dst' = take (nat off) dst @ take (nat n) src @ drop (nat (off + n)) dst"
  by (auto simp: memcpy_def)

lemma memcpy_ok [res_simps]:
  "0 \<le> n \<Longrightarrow> 0 \<le> off \<Longrightarrow> off + n \<le> int (length dst) \<Longrightarrow> n \<le> int (length src) \<Longrightarrow>
   memcpy dst off src n = Inr (take (nat off) dst @ take (nat n) src @ drop (nat (off + n)) dst)"
  by (simp add: memcpy_def)

lemma memcpy_negative [res_simps]: "n < 0 \<Longrightarrow> memcpy dst off src n = Inl NegativeLength"
  by (simp add: memcpy_def)

lemma memcpy_length: "memcpy dst off src n = Inr dst' \<Longrightarrow> length dst' = length dst"
  by (auto simp: memcpy_eq_Inr)

text \<open>What a copy puts at the end of the part already written.\<close>

lemma memcpy_take:
  assumes "memcpy dst off src n = Inr dst'"
  shows "take (nat (off + n)) dst' = take (nat off) dst @ take (nat n) src"
  using assms by (auto simp: memcpy_eq_Inr nat_add_distrib)

lemma memcpy_take_before:
  assumes "memcpy dst off src n = Inr dst'" and "k \<le> nat off"
  shows "take k dst' = take k dst"
  using assms by (auto simp: memcpy_eq_Inr min_def)

lemma read_mem_ok [res_simps]:
  "0 \<le> n \<Longrightarrow> 0 \<le> off \<Longrightarrow> off + n \<le> int (length src) \<Longrightarrow>
   read_mem src off n = Inr (take (nat n) (drop (nat off) src))"
  by (simp add: read_mem_def)

lemma read_mem_eq_Inr:
  "read_mem src off n = Inr bs \<longleftrightarrow>
     0 \<le> n \<and> 0 \<le> off \<and> off + n \<le> int (length src) \<and> bs = take (nat n) (drop (nat off) src)"
  by (auto simp: read_mem_def)

lemma c_string_append: "0 \<notin> set s \<Longrightarrow> c_string (s @ 0 # m) = Inr s"
  by (induction s) (auto simp: c_string_def split: if_splits)

lemma c_string_no_nul: "c_string m = Inr s \<Longrightarrow> 0 \<notin> set s"
  by (auto simp: c_string_def dest: set_takeWhileD split: if_splits)

section \<open>Lemmas: object representations\<close>

lemma length_le_bytes [simp]: "length (le_bytes n w) = n"
  by (induction n arbitrary: w) auto

lemma le_bytes_numeral [simp, layout_simps]:
  "le_bytes (numeral k) w = ucast w # le_bytes (pred_numeral k) (drop_bit 8 w)"
  by (simp add: numeral_eq_Suc)

lemma of_le_bytes_le_bytes_take:
  "of_le_bytes (le_bytes n w) = take_bit (8 * n) (w :: 'a::len word)"
proof (induction n arbitrary: w)
  case 0
  then show ?case by simp
next
  case (Suc n)
  show ?case
    by (rule bit_word_eqI)
      (auto simp: Suc.IH bit_or_iff bit_push_bit_iff bit_take_bit_iff bit_drop_bit_eq
        bit_ucast_iff not_le)
qed

text \<open>Storing an integer and loading it back, for every width that fits.\<close>

lemma of_le_bytes_le_bytes:
  "LENGTH('a) \<le> 8 * n \<Longrightarrow> of_le_bytes (le_bytes n w) = (w :: 'a::len word)"
  by (simp add: of_le_bytes_le_bytes_take take_bit_word_eq_self)

text \<open>Splitting a word in two halves and joining them again, as the byte-wise code does.\<close>

lemma join_halves:
  fixes w :: "'a::len word"
  assumes "LENGTH('b) = n" and "LENGTH('a) \<le> n + LENGTH('c)"
  shows "push_bit n (ucast (ucast (drop_bit n w) :: 'c::len word)) +
    ucast (ucast w :: 'b::len word) = w"
proof -
  have "push_bit n (ucast (ucast (drop_bit n w) :: 'c word)) + ucast (ucast w :: 'b word) =
      push_bit n (ucast (ucast (drop_bit n w) :: 'c word)) OR (ucast (ucast w :: 'b word) :: 'a word)"
    by (rule disjunctive_add) (use assms in \<open>auto simp: bit_push_bit_iff bit_ucast_iff\<close>)
  also have "\<dots> = w"
    by (rule bit_word_eqI)
      (use assms in \<open>auto simp: bit_or_iff bit_push_bit_iff bit_ucast_iff bit_drop_bit_eq
        dest: bit_imp_le_length\<close>)
  finally show ?thesis .
qed

lemma ucast_shift_pair:
  assumes "LENGTH('b) \<le> LENGTH('a) - n"
  shows "ucast (drop_bit n (push_bit n (v :: 'a::len word))) = (ucast v :: 'b::len word)"
  by (rule bit_word_eqI) (use assms in \<open>auto simp: bit_ucast_iff bit_drop_bit_eq bit_push_bit_iff\<close>)

lemma ucast_mod_256: "ucast (v mod 256 :: u16) = (ucast v :: byte)"
proof -
  have "v mod 256 = take_bit 8 v" by (simp add: take_bit_eq_mod)
  then show ?thesis by (intro bit_word_eqI) (auto simp: bit_ucast_iff bit_take_bit_iff)
qed

lemma unat_bound: "unat (w :: 'a::len word) < 2 ^ LENGTH('a)"
  by (rule unsigned_less)

lemma unat_ucast_up:
  "LENGTH('a) \<le> LENGTH('b) \<Longrightarrow> unat (ucast (w :: 'a::len word) :: 'b::len word) = unat w"
proof -
  assume a: "LENGTH('a) \<le> LENGTH('b)"
  have "unat w < 2 ^ LENGTH('a)" by (rule unat_bound)
  also have "\<dots> \<le> (2::nat) ^ LENGTH('b)" using a by (rule power_increasing) simp
  finally show ?thesis by (simp add: unsigned_ucast_eq take_bit_nat_eq_self)
qed

lemma ucast_ucast_up:
  "LENGTH('a) \<le> LENGTH('b) \<Longrightarrow> ucast (ucast (w :: 'a::len word) :: 'b::len word) = w"
  by (rule bit_word_eqI) (auto simp: bit_ucast_iff)

text \<open>Reading a word of each width as a signed value undoes storing one in range.\<close>

lemmas sint_word_of_int_widths =
  sint_word_of_int [where 'a = 8] sint_word_of_int [where 'a = 16]
  sint_word_of_int [where 'a = 32] sint_word_of_int [where 'a = 64]

section \<open>Decimal digits\<close>

text \<open>\<^verbatim>\<open>operator <<\<close> of an unsigned number: its decimal digits.\<close>

fun decimal :: "nat \<Rightarrow> std_string" where
  "decimal n = (if n < 10 then [of_nat (48 + n)] else decimal (n div 10) @ [of_nat (48 + n mod 10)])"

declare decimal.simps [simp del]

lemma decimal_digits: "b \<in> set (decimal n) \<Longrightarrow> \<exists>d < 10. b = of_nat (48 + d)"
proof (induction n rule: decimal.induct)
  case (1 n)
  then show ?case
    by (subst (asm) (2) decimal.simps) (auto split: if_splits intro: exI[of _ n] exI[of _ "n mod 10"])
qed

lemma digit_byte: "d < 10 \<Longrightarrow> unat (of_nat (48 + d) :: byte) = 48 + d"
  by (simp add: unat_of_nat del: of_nat_add)

fun undecimal :: "std_string \<Rightarrow> nat" where
  "undecimal xs = foldl (\<lambda>a b. 10 * a + (unat b - 48)) 0 xs"

lemma undecimal_decimal: "undecimal (decimal n) = n"
proof (induction n rule: decimal.induct)
  case (1 n)
  show ?case
  proof (cases "n < 10")
    case True
    then show ?thesis by (subst decimal.simps) (simp add: digit_byte del: of_nat_add)
  next
    case False
    have "unat (of_nat (48 + n mod 10) :: byte) = 48 + n mod 10" by (rule digit_byte) simp
    with False 1[OF False] show ?thesis by (subst decimal.simps) (simp del: of_nat_add)
  qed
qed

lemma decimal_inject: "decimal a = decimal b \<longleftrightarrow> a = b"
  by (metis undecimal_decimal)

end
