(* ===== verification/ByteArray.thy ===== *)
theory ByteArray
  imports Prelude
begin

text \<open>
  The abstract class \<^verbatim>\<open>ByteArray\<close> (\<^verbatim>\<open>elegance/memory/byte_array/byte_array.hpp\<close>): its virtual
  functions as a table of operations, and the contract its clients rely on as a locale. A
  client (the generated message classes) is written against the table; what it needs of an
  implementation is that every write appends an encoding which the matching read consumes.
\<close>

section \<open>The interface\<close>

datatype Endian = FW_BIG_ENDIAN | FW_LITTLE_ENDIAN

text \<open>
  One field per pure virtual function that reads or writes. A \<^verbatim>\<open>float\<close> and a \<^verbatim>\<open>double\<close> are their
  32 and 64 bit patterns: the byte arrays only move them. A \<^verbatim>\<open>void *\<close> result is \<open>None\<close> for
  \<^verbatim>\<open>nullptr\<close> and otherwise the bytes it points to.
\<close>

record 'o ByteArray =
  vt_BytesAvailable :: "'o \<Rightarrow> u32"
  vt_ReadInt8 :: "'o \<Rightarrow> (int \<times> 'o) res"
  vt_ReadUint8 :: "'o \<Rightarrow> (byte \<times> 'o) res"
  vt_ReadInt16 :: "'o \<Rightarrow> (int \<times> 'o) res"
  vt_ReadUint16 :: "'o \<Rightarrow> (u16 \<times> 'o) res"
  vt_ReadInt32 :: "'o \<Rightarrow> (int \<times> 'o) res"
  vt_ReadUint32 :: "'o \<Rightarrow> (u32 \<times> 'o) res"
  vt_ReadFloat :: "'o \<Rightarrow> (u32 \<times> 'o) res"
  vt_ReadInt64 :: "'o \<Rightarrow> (int \<times> 'o) res"
  vt_ReadUint64 :: "'o \<Rightarrow> (u64 \<times> 'o) res"
  vt_ReadDouble :: "'o \<Rightarrow> (u64 \<times> 'o) res"
  vt_ReadString :: "'o \<Rightarrow> (std_string \<times> 'o) res"
  vt_ReadObject :: "u32 \<Rightarrow> 'o \<Rightarrow> (byte list option \<times> 'o) res"
  vt_WriteInt8 :: "int \<Rightarrow> 'o \<Rightarrow> 'o res"
  vt_WriteUint8 :: "byte \<Rightarrow> 'o \<Rightarrow> 'o res"
  vt_WriteInt16 :: "int \<Rightarrow> 'o \<Rightarrow> 'o res"
  vt_WriteUint16 :: "u16 \<Rightarrow> 'o \<Rightarrow> 'o res"
  vt_WriteInt32 :: "int \<Rightarrow> 'o \<Rightarrow> 'o res"
  vt_WriteUint32 :: "u32 \<Rightarrow> 'o \<Rightarrow> 'o res"
  vt_WriteFloat :: "u32 \<Rightarrow> 'o \<Rightarrow> 'o res"
  vt_WriteInt64 :: "int \<Rightarrow> 'o \<Rightarrow> 'o res"
  vt_WriteUint64 :: "u64 \<Rightarrow> 'o \<Rightarrow> 'o res"
  vt_WriteDouble :: "u64 \<Rightarrow> 'o \<Rightarrow> 'o res"
  vt_WriteString :: "std_string \<Rightarrow> 'o \<Rightarrow> 'o res"
  vt_WriteObject :: "byte list option \<Rightarrow> int \<Rightarrow> 'o \<Rightarrow> 'o res"
  vt_Clear :: "'o \<Rightarrow> 'o"

section \<open>Codecs\<close>

text \<open>
  How an implementation is looked at: its invariant, the bytes still to be read, the part of
  its state the encoding depends on, and whether \<open>n\<close> more bytes fit.
\<close>

record ('o, 'e) ba_view =
  bv_invar :: "'o \<Rightarrow> bool"
  bv_content :: "'o \<Rightarrow> byte list"
  bv_mode :: "'o \<Rightarrow> 'e"
  bv_fits :: "'o \<Rightarrow> nat \<Rightarrow> bool"

text \<open>
  A writer and a reader form a codec when the writer appends \<open>enc\<close> of the value and the reader
  takes exactly that off the front again, both keeping the invariant and the mode.
\<close>

definition write_law ::
  "('o, 'e) ba_view \<Rightarrow> ('v \<Rightarrow> 'o \<Rightarrow> 'o res) \<Rightarrow> ('e \<Rightarrow> 'v \<Rightarrow> byte list) \<Rightarrow> ('v \<Rightarrow> bool) \<Rightarrow> bool" where
  "write_law V wr enc ok \<longleftrightarrow>
     (\<forall>ob v m. bv_invar V ob \<longrightarrow> ok v \<longrightarrow> bv_fits V ob (length (enc (bv_mode V ob) v) + m) \<longrightarrow>
        (\<exists>ob'. wr v ob = Inr ob' \<and> bv_invar V ob' \<and> bv_mode V ob' = bv_mode V ob \<and>
           bv_content V ob' = bv_content V ob @ enc (bv_mode V ob) v \<and> bv_fits V ob' m))"

definition read_law ::
  "('o, 'e) ba_view \<Rightarrow> ('o \<Rightarrow> ('v \<times> 'o) res) \<Rightarrow> ('e \<Rightarrow> 'v \<Rightarrow> byte list) \<Rightarrow> ('v \<Rightarrow> bool) \<Rightarrow> bool" where
  "read_law V rd enc ok \<longleftrightarrow>
     (\<forall>ob v rest. bv_invar V ob \<longrightarrow> ok v \<longrightarrow> bv_content V ob = enc (bv_mode V ob) v @ rest \<longrightarrow>
        (\<exists>ob'. rd ob = Inr (v, ob') \<and> bv_invar V ob' \<and> bv_mode V ob' = bv_mode V ob \<and>
           bv_content V ob' = rest))"

definition codec ::
  "('o, 'e) ba_view \<Rightarrow> ('v \<Rightarrow> 'o \<Rightarrow> 'o res) \<Rightarrow> ('o \<Rightarrow> ('v \<times> 'o) res) \<Rightarrow>
   ('e \<Rightarrow> 'v \<Rightarrow> byte list) \<Rightarrow> ('v \<Rightarrow> bool) \<Rightarrow> bool" where
  "codec V wr rd enc ok \<longleftrightarrow> write_law V wr enc ok \<and> read_law V rd enc ok"

definition in_range :: "nat \<Rightarrow> int \<Rightarrow> bool" where
  "in_range n v \<longleftrightarrow> - (2 ^ (n - 1)) \<le> v \<and> v < 2 ^ (n - 1)"

lemma write_lawD:
  "write_law V wr enc ok \<Longrightarrow> bv_invar V ob \<Longrightarrow> ok v \<Longrightarrow>
   bv_fits V ob (length (enc (bv_mode V ob) v) + m) \<Longrightarrow>
   \<exists>ob'. wr v ob = Inr ob' \<and> bv_invar V ob' \<and> bv_mode V ob' = bv_mode V ob \<and>
     bv_content V ob' = bv_content V ob @ enc (bv_mode V ob) v \<and> bv_fits V ob' m"
  unfolding write_law_def by blast

lemma read_lawD:
  "read_law V rd enc ok \<Longrightarrow> bv_invar V ob \<Longrightarrow> ok v \<Longrightarrow>
   bv_content V ob = enc (bv_mode V ob) v @ rest \<Longrightarrow>
   \<exists>ob'. rd ob = Inr (v, ob') \<and> bv_invar V ob' \<and> bv_mode V ob' = bv_mode V ob \<and>
     bv_content V ob' = rest"
  unfolding read_law_def by blast

text \<open>Two codecs in sequence are a codec of pairs.\<close>

definition write_seq :: "('a \<Rightarrow> 'o \<Rightarrow> 'o res) \<Rightarrow> ('b \<Rightarrow> 'o \<Rightarrow> 'o res) \<Rightarrow> 'a \<times> 'b \<Rightarrow> 'o \<Rightarrow> 'o res" where
  "write_seq wa wb = (\<lambda>(a, b) ob. bind_res (wa a ob) (\<lambda>ob1. wb b ob1))"

definition read_seq ::
  "('o \<Rightarrow> ('a \<times> 'o) res) \<Rightarrow> ('o \<Rightarrow> ('b \<times> 'o) res) \<Rightarrow> 'o \<Rightarrow> (('a \<times> 'b) \<times> 'o) res" where
  "read_seq ra rb ob =
     bind_res (ra ob) (\<lambda>(a, ob1). bind_res (rb ob1) (\<lambda>(b, ob2). Inr ((a, b), ob2)))"

lemma codec_seq:
  assumes "codec V wa ra ea oka" and "codec V wb rb eb okb"
  shows "codec V (write_seq wa wb) (read_seq ra rb)
    (\<lambda>e (a, b). ea e a @ eb e b) (\<lambda>(a, b). oka a \<and> okb b)"
  unfolding codec_def
proof
  from assms have w: "write_law V wa ea oka" "write_law V wb eb okb" by (simp_all add: codec_def)
  show "write_law V (write_seq wa wb) (\<lambda>e (a, b). ea e a @ eb e b) (\<lambda>(a, b). oka a \<and> okb b)"
    unfolding write_law_def
  proof (intro allI impI, clarsimp)
    fix ob a b m
    assume i: "bv_invar V ob" and ok: "oka a" "okb b"
      and f: "bv_fits V ob (length (ea (bv_mode V ob) a) + length (eb (bv_mode V ob) b) + m)"
    from f have "bv_fits V ob (length (ea (bv_mode V ob) a) + (length (eb (bv_mode V ob) b) + m))"
      by (simp add: add.assoc)
    from write_lawD[OF w(1) i ok(1) this]
    obtain ob1 where 1: "wa a ob = Inr ob1" "bv_invar V ob1" "bv_mode V ob1 = bv_mode V ob"
      "bv_content V ob1 = bv_content V ob @ ea (bv_mode V ob) a"
      "bv_fits V ob1 (length (eb (bv_mode V ob1) b) + m)" by auto
    from write_lawD[OF w(2) 1(2) ok(2) 1(5)] 1 show "\<exists>ob'. write_seq wa wb (a, b) ob = Inr ob' \<and> bv_invar V ob' \<and>
        bv_mode V ob' = bv_mode V ob \<and>
        bv_content V ob' = bv_content V ob @ ea (bv_mode V ob) a @ eb (bv_mode V ob) b \<and>
        bv_fits V ob' m"
      by (auto simp: write_seq_def)
  qed
next
  from assms have r: "read_law V ra ea oka" "read_law V rb eb okb" by (simp_all add: codec_def)
  show "read_law V (read_seq ra rb) (\<lambda>e (a, b). ea e a @ eb e b) (\<lambda>(a, b). oka a \<and> okb b)"
    unfolding read_law_def
  proof (intro allI impI, clarsimp)
    fix ob a b rest
    assume i: "bv_invar V ob" and ok: "oka a" "okb b"
      and c: "bv_content V ob = ea (bv_mode V ob) a @ eb (bv_mode V ob) b @ rest"
    from read_lawD[OF r(1) i ok(1) c]
    obtain ob1 where 1: "ra ob = Inr (a, ob1)" "bv_invar V ob1" "bv_mode V ob1 = bv_mode V ob"
      "bv_content V ob1 = eb (bv_mode V ob1) b @ rest" by auto
    from read_lawD[OF r(2) 1(2) ok(2) 1(4)] 1 show "\<exists>ob'. read_seq ra rb ob = Inr ((a, b), ob') \<and> bv_invar V ob' \<and>
        bv_mode V ob' = bv_mode V ob \<and> bv_content V ob' = rest"
      by (auto simp: read_seq_def)
  qed
qed

text \<open>A codec of elements gives one of arrays of known length.\<close>

fun write_all :: "('a \<Rightarrow> 'o \<Rightarrow> 'o res) \<Rightarrow> 'a list \<Rightarrow> 'o \<Rightarrow> 'o res" where
  "write_all wr [] ob = Inr ob"
| "write_all wr (x # xs) ob = bind_res (wr x ob) (\<lambda>ob1. write_all wr xs ob1)"

fun read_many :: "('o \<Rightarrow> ('a \<times> 'o) res) \<Rightarrow> nat \<Rightarrow> 'o \<Rightarrow> ('a list \<times> 'o) res" where
  "read_many rd 0 ob = Inr ([], ob)"
| "read_many rd (Suc n) ob =
     bind_res (rd ob) (\<lambda>(x, ob1). bind_res (read_many rd n ob1) (\<lambda>(xs, ob2). Inr (x # xs, ob2)))"

definition enc_all :: "('e \<Rightarrow> 'a \<Rightarrow> byte list) \<Rightarrow> 'e \<Rightarrow> 'a list \<Rightarrow> byte list" where
  "enc_all enc e xs = concat (map (enc e) xs)"

lemma write_all_law:
  assumes "write_law V wr enc ok"
  shows "write_law V (write_all wr) (enc_all enc) (list_all ok)"
  unfolding write_law_def
proof (intro allI impI)
  fix ob xs m
  assume "bv_invar V ob" "list_all ok xs" "bv_fits V ob (length (enc_all enc (bv_mode V ob) xs) + m)"
  then show "\<exists>ob'. write_all wr xs ob = Inr ob' \<and> bv_invar V ob' \<and> bv_mode V ob' = bv_mode V ob \<and>
      bv_content V ob' = bv_content V ob @ enc_all enc (bv_mode V ob) xs \<and> bv_fits V ob' m"
  proof (induction xs arbitrary: ob)
    case Nil
    then show ?case by (simp add: enc_all_def)
  next
    case (Cons x xs)
    from Cons.prems(3) have
      "bv_fits V ob (length (enc (bv_mode V ob) x) + (length (enc_all enc (bv_mode V ob) xs) + m))"
      by (simp add: enc_all_def add.assoc)
    from write_lawD[OF assms Cons.prems(1) _ this] Cons.prems(2)
    obtain ob1 where 1: "wr x ob = Inr ob1" "bv_invar V ob1" "bv_mode V ob1 = bv_mode V ob"
      "bv_content V ob1 = bv_content V ob @ enc (bv_mode V ob) x"
      "bv_fits V ob1 (length (enc_all enc (bv_mode V ob1) xs) + m)" by auto
    from Cons.IH[OF 1(2) _ 1(5)] Cons.prems(2) 1 show ?case by (auto simp: enc_all_def)
  qed
qed

lemma read_many_law:
  assumes "read_law V rd enc ok"
  shows "read_law V (read_many rd n) (enc_all enc) (\<lambda>xs. list_all ok xs \<and> length xs = n)"
  unfolding read_law_def
proof (intro allI impI)
  fix ob xs rest
  assume "bv_invar V ob" "list_all ok xs \<and> length xs = n"
    "bv_content V ob = enc_all enc (bv_mode V ob) xs @ rest"
  then show "\<exists>ob'. read_many rd n ob = Inr (xs, ob') \<and> bv_invar V ob' \<and>
      bv_mode V ob' = bv_mode V ob \<and> bv_content V ob' = rest"
  proof (induction n arbitrary: ob xs)
    case 0
    then show ?case by (simp add: enc_all_def)
  next
    case (Suc n)
    then obtain x ys where xs: "xs = x # ys" "length ys = n" by (cases xs) auto
    with Suc.prems have "bv_content V ob = enc (bv_mode V ob) x @ enc_all enc (bv_mode V ob) ys @ rest"
      by (simp add: enc_all_def)
    from read_lawD[OF assms Suc.prems(1) _ this] Suc.prems(2) xs
    obtain ob1 where 1: "rd ob = Inr (x, ob1)" "bv_invar V ob1"
      "bv_mode V ob1 = bv_mode V ob" "bv_content V ob1 = enc_all enc (bv_mode V ob1) ys @ rest"
      by auto
    from Suc.IH[OF 1(2) _ 1(4)] Suc.prems(2) xs 1 show ?case by auto
  qed
qed

section \<open>Typed values\<close>

text \<open>
  A client is a sequence of typed writes, read back with the same types. \<open>ba_value\<close> is a
  value with its type, \<open>ba_kind\<close> the type alone.
\<close>

datatype ba_kind =
  KInt8 | KUint8 | KInt16 | KUint16 | KInt32 | KUint32 | KFloat | KInt64 | KUint64 | KDouble | KString

datatype ba_value =
    VInt8 int | VUint8 byte | VInt16 int | VUint16 u16 | VInt32 int | VUint32 u32 | VFloat u32
  | VInt64 int | VUint64 u64 | VDouble u64 | VString std_string

fun kind_of :: "ba_value \<Rightarrow> ba_kind" where
  "kind_of (VInt8 _) = KInt8"
| "kind_of (VUint8 _) = KUint8"
| "kind_of (VInt16 _) = KInt16"
| "kind_of (VUint16 _) = KUint16"
| "kind_of (VInt32 _) = KInt32"
| "kind_of (VUint32 _) = KUint32"
| "kind_of (VFloat _) = KFloat"
| "kind_of (VInt64 _) = KInt64"
| "kind_of (VUint64 _) = KUint64"
| "kind_of (VDouble _) = KDouble"
| "kind_of (VString _) = KString"

fun ba_write :: "'o ByteArray \<Rightarrow> ba_value \<Rightarrow> 'o \<Rightarrow> 'o res" where
  "ba_write vt (VInt8 v) ob = vt_WriteInt8 vt v ob"
| "ba_write vt (VUint8 v) ob = vt_WriteUint8 vt v ob"
| "ba_write vt (VInt16 v) ob = vt_WriteInt16 vt v ob"
| "ba_write vt (VUint16 v) ob = vt_WriteUint16 vt v ob"
| "ba_write vt (VInt32 v) ob = vt_WriteInt32 vt v ob"
| "ba_write vt (VUint32 v) ob = vt_WriteUint32 vt v ob"
| "ba_write vt (VFloat v) ob = vt_WriteFloat vt v ob"
| "ba_write vt (VInt64 v) ob = vt_WriteInt64 vt v ob"
| "ba_write vt (VUint64 v) ob = vt_WriteUint64 vt v ob"
| "ba_write vt (VDouble v) ob = vt_WriteDouble vt v ob"
| "ba_write vt (VString v) ob = vt_WriteString vt v ob"

definition tag_read :: "('v \<Rightarrow> ba_value) \<Rightarrow> ('v \<times> 'o) res \<Rightarrow> (ba_value \<times> 'o) res" where
  "tag_read c r = bind_res r (\<lambda>(v, ob). Inr (c v, ob))"

fun ba_read :: "'o ByteArray \<Rightarrow> ba_kind \<Rightarrow> 'o \<Rightarrow> (ba_value \<times> 'o) res" where
  "ba_read vt KInt8 ob = tag_read VInt8 (vt_ReadInt8 vt ob)"
| "ba_read vt KUint8 ob = tag_read VUint8 (vt_ReadUint8 vt ob)"
| "ba_read vt KInt16 ob = tag_read VInt16 (vt_ReadInt16 vt ob)"
| "ba_read vt KUint16 ob = tag_read VUint16 (vt_ReadUint16 vt ob)"
| "ba_read vt KInt32 ob = tag_read VInt32 (vt_ReadInt32 vt ob)"
| "ba_read vt KUint32 ob = tag_read VUint32 (vt_ReadUint32 vt ob)"
| "ba_read vt KFloat ob = tag_read VFloat (vt_ReadFloat vt ob)"
| "ba_read vt KInt64 ob = tag_read VInt64 (vt_ReadInt64 vt ob)"
| "ba_read vt KUint64 ob = tag_read VUint64 (vt_ReadUint64 vt ob)"
| "ba_read vt KDouble ob = tag_read VDouble (vt_ReadDouble vt ob)"
| "ba_read vt KString ob = tag_read VString (vt_ReadString vt ob)"

fun ba_read_all :: "'o ByteArray \<Rightarrow> ba_kind list \<Rightarrow> 'o \<Rightarrow> (ba_value list \<times> 'o) res" where
  "ba_read_all vt [] ob = Inr ([], ob)"
| "ba_read_all vt (k # ks) ob =
     bind_res (ba_read vt k ob) (\<lambda>(v, ob1).
     bind_res (ba_read_all vt ks ob1) (\<lambda>(vs, ob2). Inr (v # vs, ob2)))"

fun value_ok :: "(std_string \<Rightarrow> bool) \<Rightarrow> ba_value \<Rightarrow> bool" where
  "value_ok sok (VInt8 v) = in_range 8 v"
| "value_ok sok (VInt16 v) = in_range 16 v"
| "value_ok sok (VInt32 v) = in_range 32 v"
| "value_ok sok (VInt64 v) = in_range 64 v"
| "value_ok sok (VString s) = sok s"
| "value_ok sok _ = True"

text \<open>
  The values an implementation can carry; one that is not \<open>wide\<close> has no defined \<^verbatim>\<open>int\<close> and \<^verbatim>\<open>float\<close>.
\<close>

definition carried :: "bool \<Rightarrow> (std_string \<Rightarrow> bool) \<Rightarrow> ba_value \<Rightarrow> bool" where
  "carried wide sok v \<longleftrightarrow> value_ok sok v \<and> (wide \<or> kind_of v \<noteq> KInt32 \<and> kind_of v \<noteq> KFloat)"

lemma carried_wide [simp]: "carried True sok = value_ok sok"
  by (simp add: carried_def fun_eq_iff)

text \<open>The wire format of a value, given the layouts of 16, 32 and 64 bit words.\<close>

fun value_enc ::
  "('e \<Rightarrow> u16 \<Rightarrow> byte list) \<Rightarrow> ('e \<Rightarrow> u32 \<Rightarrow> byte list) \<Rightarrow> ('e \<Rightarrow> u64 \<Rightarrow> byte list) \<Rightarrow>
   'e \<Rightarrow> ba_value \<Rightarrow> byte list" where
  "value_enc e16 e32 e64 e (VInt8 v) = [word_of_int v]"
| "value_enc e16 e32 e64 e (VUint8 v) = [v]"
| "value_enc e16 e32 e64 e (VInt16 v) = e16 e (word_of_int v)"
| "value_enc e16 e32 e64 e (VUint16 v) = e16 e v"
| "value_enc e16 e32 e64 e (VInt32 v) = e32 e (word_of_int v)"
| "value_enc e16 e32 e64 e (VUint32 v) = e32 e v"
| "value_enc e16 e32 e64 e (VFloat v) = e32 e v"
| "value_enc e16 e32 e64 e (VInt64 v) = e64 e (word_of_int v)"
| "value_enc e16 e32 e64 e (VUint64 v) = e64 e v"
| "value_enc e16 e32 e64 e (VDouble v) = e64 e v"
| "value_enc e16 e32 e64 e (VString s) = e16 e (of_nat (length s)) @ s"

lemma tag_read_law:
  assumes "read_law V rd enc ok"
  shows "bv_invar V ob \<Longrightarrow> ok v \<Longrightarrow> bv_content V ob = enc (bv_mode V ob) v @ rest \<Longrightarrow>
    \<exists>ob'. tag_read c (rd ob) = Inr (c v, ob') \<and> bv_invar V ob' \<and> bv_mode V ob' = bv_mode V ob \<and>
      bv_content V ob' = rest"
  using read_lawD[OF assms, of ob v rest] by (auto simp: tag_read_def)

section \<open>The contract\<close>

text \<open>
  What \<^verbatim>\<open>ByteArray\<close> promises its clients: each read function undoes the write function of its
  type. The encodings of 16, 32 and 64 bit words and the strings that can be carried are
  parameters, since they differ between the implementations, and so is whether \<^verbatim>\<open>int\<close> and \<^verbatim>\<open>float\<close> are carried.
\<close>

locale byte_array =
  fixes V :: "('o, 'e) ba_view"
    and vt :: "'o ByteArray"
    and enc16 :: "'e \<Rightarrow> u16 \<Rightarrow> byte list"
    and enc32 :: "'e \<Rightarrow> u32 \<Rightarrow> byte list"
    and enc64 :: "'e \<Rightarrow> u64 \<Rightarrow> byte list"
    and str_ok :: "std_string \<Rightarrow> bool"
    and wide :: bool
  assumes codec_Int8: "codec V (vt_WriteInt8 vt) (vt_ReadInt8 vt) (\<lambda>e v. [word_of_int v]) (in_range 8)"
    and codec_Uint8: "codec V (vt_WriteUint8 vt) (vt_ReadUint8 vt) (\<lambda>e v. [v]) (\<lambda>v. True)"
    and codec_Int16: "codec V (vt_WriteInt16 vt) (vt_ReadInt16 vt) (\<lambda>e v. enc16 e (word_of_int v)) (in_range 16)"
    and codec_Uint16: "codec V (vt_WriteUint16 vt) (vt_ReadUint16 vt) enc16 (\<lambda>v. True)"
    and codec_Int32: "codec V (vt_WriteInt32 vt) (vt_ReadInt32 vt) (\<lambda>e v. enc32 e (word_of_int v)) (\<lambda>v. wide \<and> in_range 32 v)"
    and codec_Uint32: "codec V (vt_WriteUint32 vt) (vt_ReadUint32 vt) enc32 (\<lambda>v. True)"
    and codec_Float: "codec V (vt_WriteFloat vt) (vt_ReadFloat vt) enc32 (\<lambda>v. wide)"
    and codec_Int64: "codec V (vt_WriteInt64 vt) (vt_ReadInt64 vt) (\<lambda>e v. enc64 e (word_of_int v)) (in_range 64)"
    and codec_Uint64: "codec V (vt_WriteUint64 vt) (vt_ReadUint64 vt) enc64 (\<lambda>v. True)"
    and codec_Double: "codec V (vt_WriteDouble vt) (vt_ReadDouble vt) enc64 (\<lambda>v. True)"
    and codec_String: "codec V (vt_WriteString vt) (vt_ReadString vt)
          (\<lambda>e s. enc16 e (of_nat (length s)) @ s) str_ok"
    and enc_length: "length (enc16 e w) = 2" "length (enc32 e x) = 4" "length (enc64 e y) = 8"
begin

lemma write_then_read:
  assumes "codec V wr rd enc ok" and "bv_invar V ob" and "ok v" and "bv_content V ob = []"
    and "bv_fits V ob (length (enc (bv_mode V ob) v))"
  shows "\<exists>ob1 ob2. wr v ob = Inr ob1 \<and> rd ob1 = Inr (v, ob2) \<and> bv_content V ob2 = []"
proof -
  from assms(1) have w: "write_law V wr enc ok" and r: "read_law V rd enc ok"
    by (simp_all add: codec_def)
  from write_lawD[OF w assms(2,3), of 0] assms(4,5)
  obtain ob1 where 1: "wr v ob = Inr ob1" "bv_invar V ob1" "bv_mode V ob1 = bv_mode V ob"
    "bv_content V ob1 = enc (bv_mode V ob1) v @ []" by auto
  from read_lawD[OF r 1(2) assms(3) 1(4)] 1(1) show ?thesis by auto
qed

lemmas write_laws =
  codec_Int8 [unfolded codec_def, THEN conjunct1] codec_Uint8 [unfolded codec_def, THEN conjunct1]
  codec_Int16 [unfolded codec_def, THEN conjunct1] codec_Uint16 [unfolded codec_def, THEN conjunct1]
  codec_Int32 [unfolded codec_def, THEN conjunct1] codec_Uint32 [unfolded codec_def, THEN conjunct1]
  codec_Float [unfolded codec_def, THEN conjunct1] codec_Int64 [unfolded codec_def, THEN conjunct1]
  codec_Uint64 [unfolded codec_def, THEN conjunct1] codec_Double [unfolded codec_def, THEN conjunct1]
  codec_String [unfolded codec_def, THEN conjunct1]

lemmas read_laws =
  codec_Int8 [unfolded codec_def, THEN conjunct2] codec_Uint8 [unfolded codec_def, THEN conjunct2]
  codec_Int16 [unfolded codec_def, THEN conjunct2] codec_Uint16 [unfolded codec_def, THEN conjunct2]
  codec_Int32 [unfolded codec_def, THEN conjunct2] codec_Uint32 [unfolded codec_def, THEN conjunct2]
  codec_Float [unfolded codec_def, THEN conjunct2] codec_Int64 [unfolded codec_def, THEN conjunct2]
  codec_Uint64 [unfolded codec_def, THEN conjunct2] codec_Double [unfolded codec_def, THEN conjunct2]
  codec_String [unfolded codec_def, THEN conjunct2]

lemma ba_write_law: "write_law V (ba_write vt) (value_enc enc16 enc32 enc64) (carried wide str_ok)"
  unfolding write_law_def
proof (intro allI impI)
  fix ob v m
  assume "bv_invar V ob" "carried wide str_ok v"
    "bv_fits V ob (length (value_enc enc16 enc32 enc64 (bv_mode V ob) v) + m)"
  then show "\<exists>ob'. ba_write vt v ob = Inr ob' \<and> bv_invar V ob' \<and> bv_mode V ob' = bv_mode V ob \<and>
      bv_content V ob' = bv_content V ob @ value_enc enc16 enc32 enc64 (bv_mode V ob) v \<and>
      bv_fits V ob' m"
    using write_laws [THEN write_lawD, of ob] by (cases v) (auto simp: carried_def)
qed

lemma ba_read_value:
  assumes "bv_invar V ob" and "carried wide str_ok v"
    and "bv_content V ob = value_enc enc16 enc32 enc64 (bv_mode V ob) v @ rest"
  shows "\<exists>ob'. ba_read vt (kind_of v) ob = Inr (v, ob') \<and> bv_invar V ob' \<and>
    bv_mode V ob' = bv_mode V ob \<and> bv_content V ob' = rest"
  using assms read_laws [THEN tag_read_law, of ob _ rest] by (cases v) (auto simp: carried_def)

lemma ba_read_all_values:
  assumes "bv_invar V ob" and "list_all (carried wide str_ok) vs"
    and "bv_content V ob = enc_all (value_enc enc16 enc32 enc64) (bv_mode V ob) vs @ rest"
  shows "\<exists>ob'. ba_read_all vt (map kind_of vs) ob = Inr (vs, ob') \<and> bv_invar V ob' \<and>
    bv_mode V ob' = bv_mode V ob \<and> bv_content V ob' = rest"
  using assms
proof (induction vs arbitrary: ob)
  case Nil
  then show ?case by (simp add: enc_all_def)
next
  case (Cons v vs)
  then have "bv_content V ob = value_enc enc16 enc32 enc64 (bv_mode V ob) v @
      (enc_all (value_enc enc16 enc32 enc64) (bv_mode V ob) vs @ rest)"
    by (simp add: enc_all_def)
  from ba_read_value[OF Cons.prems(1) _ this] Cons.prems(2)
  obtain ob1 where 1: "ba_read vt (kind_of v) ob = Inr (v, ob1)" "bv_invar V ob1"
    "bv_mode V ob1 = bv_mode V ob"
    "bv_content V ob1 = enc_all (value_enc enc16 enc32 enc64) (bv_mode V ob1) vs @ rest" by auto
  from Cons.IH[OF 1(2) _ 1(4)] Cons.prems(2) 1 show ?case by auto
qed

text \<open>
  The main fact about the interface: what was written with any sequence of typed writes is
  read back by the reads of the same types, and nothing is left over.
\<close>

theorem values_roundtrip:
  assumes "bv_invar V ob" and "bv_content V ob = []" and "list_all (carried wide str_ok) vs"
    and "bv_fits V ob (length (enc_all (value_enc enc16 enc32 enc64) (bv_mode V ob) vs))"
  shows "\<exists>ob1 ob2. write_all (ba_write vt) vs ob = Inr ob1 \<and>
    bv_content V ob1 = enc_all (value_enc enc16 enc32 enc64) (bv_mode V ob) vs \<and>
    ba_read_all vt (map kind_of vs) ob1 = Inr (vs, ob2) \<and> bv_invar V ob2 \<and> bv_content V ob2 = []"
proof -
  from write_lawD[OF write_all_law[OF ba_write_law] assms(1,3), of 0] assms(2,4)
  obtain ob1 where 1: "write_all (ba_write vt) vs ob = Inr ob1" "bv_invar V ob1"
    "bv_mode V ob1 = bv_mode V ob"
    "bv_content V ob1 = enc_all (value_enc enc16 enc32 enc64) (bv_mode V ob1) vs @ []" by auto
  from ba_read_all_values[OF 1(2) assms(3) 1(4)] 1 show ?thesis by auto
qed

end

text \<open>
  What an implementation promises of \<^verbatim>\<open>WriteObject\<close> and \<^verbatim>\<open>ReadObject\<close>: the bytes of an object come back whole or, when
  there are not enough, \<^verbatim>\<open>nullptr\<close> does and nothing is taken.
\<close>

definition object_ok :: "byte list \<Rightarrow> bool" where
  "object_ok obj \<longleftrightarrow> obj \<noteq> [] \<and> length obj \<le> 1073741823"

lemma unat_object: "object_ok obj \<Longrightarrow> unat (of_nat (length obj) :: u32) = length obj" "object_ok obj \<Longrightarrow> (of_nat (length obj) :: u32) \<noteq> 0"
proof -
  assume o: "object_ok obj"
  then show u: "unat (of_nat (length obj) :: u32) = length obj" by (simp add: object_ok_def unat_of_nat)
  show "(of_nat (length obj) :: u32) \<noteq> 0" using u o by (auto simp: object_ok_def simp del: of_nat_0)
qed

locale object_array = byte_array V vt enc16 enc32 enc64 str_ok wide
  for V :: "('o, 'e) ba_view" and vt enc16 enc32 enc64 str_ok wide +
  assumes write_object: "write_law V (\<lambda>obj. vt_WriteObject vt (Some obj) (int (length obj))) (\<lambda>e obj. obj) object_ok"
    and read_object: "bv_invar V ob \<Longrightarrow> object_ok obj \<Longrightarrow> bv_content V ob = obj @ rest \<Longrightarrow>
      \<exists>ob'. vt_ReadObject vt (of_nat (length obj)) ob = Inr (Some obj, ob') \<and> bv_invar V ob' \<and> bv_mode V ob' = bv_mode V ob \<and>
        bv_content V ob' = rest"
    and read_short: "bv_invar V ob \<Longrightarrow> length (bv_content V ob) < unat n \<Longrightarrow> vt_ReadObject vt n ob = Inr (None, ob)"
begin

lemma values_then_object:
  assumes "bv_invar V ob" and "bv_content V ob = []" and "list_all (carried wide str_ok) vs" and "object_ok obj"
    and "bv_fits V ob (length (enc_all (value_enc enc16 enc32 enc64) (bv_mode V ob) vs) + length obj)"
  obtains ob1 ob2 ob3 where "write_all (ba_write vt) vs ob = Inr ob1" "vt_WriteObject vt (Some obj) (int (length obj)) ob1 = Inr ob2"
    "ba_read_all vt (map kind_of vs) ob2 = Inr (vs, ob3)" "bv_invar V ob3" "bv_mode V ob3 = bv_mode V ob" "bv_content V ob3 = obj"
proof -
  from write_lawD[OF write_all_law[OF ba_write_law] assms(1,3,5)] assms(2)
  obtain ob1 where 1: "write_all (ba_write vt) vs ob = Inr ob1" "bv_invar V ob1" "bv_mode V ob1 = bv_mode V ob"
    "bv_content V ob1 = enc_all (value_enc enc16 enc32 enc64) (bv_mode V ob) vs" "bv_fits V ob1 (length obj)" by auto
  from write_lawD[OF write_object 1(2) assms(4), of 0] 1(3-5)
  obtain ob2 where 2: "vt_WriteObject vt (Some obj) (int (length obj)) ob1 = Inr ob2" "bv_invar V ob2" "bv_mode V ob2 = bv_mode V ob"
    "bv_content V ob2 = enc_all (value_enc enc16 enc32 enc64) (bv_mode V ob2) vs @ obj" by auto
  from ba_read_all_values[OF 2(2) assms(3) 2(4)] 2(3)
  obtain ob3 where 3: "ba_read_all vt (map kind_of vs) ob2 = Inr (vs, ob3)" "bv_invar V ob3" "bv_mode V ob3 = bv_mode V ob"
    "bv_content V ob3 = obj" by auto
  show thesis by (rule that[OF 1(1) 2(1) 3])
qed

end

end
