(* ===== verification/QueueByteArray.thy ===== *)
theory QueueByteArray
  imports ByteArray
begin

text \<open>
  \<^verbatim>\<open>QueueByteArray\<close> (\<^verbatim>\<open>elegance/memory/byte_array/queue_byte_array.hpp\<close> and \<^verbatim>\<open>.cpp\<close>): an
  unbounded byte queue that is written at the back and read at the front, in the byte order
  chosen by \<^verbatim>\<open>SetEndian\<close>. Every member function is one definition; the debug output under
  \<^verbatim>\<open>show_debug_msg_\<close> has no effect on the state and is left out. The theorems show that each
  read undoes the write of its type in both byte orders where that is defined, that reads from a queue that is too
  short are harmless, and that the class meets the contract of \<^verbatim>\<open>ByteArray\<close>.
\<close>

section \<open>State\<close>

record QueueByteArray =
  bytes_queue :: "byte list"
  cur_endian :: Endian
  show_debug_msg :: bool

definition QueueByteArray_new :: QueueByteArray where
  "QueueByteArray_new =
     \<lparr>bytes_queue = [], cur_endian = FW_LITTLE_ENDIAN, show_debug_msg = False\<rparr>"

definition QueueByteArray_SetEndian :: "Endian \<Rightarrow> QueueByteArray \<Rightarrow> QueueByteArray" where
  "QueueByteArray_SetEndian e q = q\<lparr>cur_endian := e\<rparr>"

definition QueueByteArray_BytesAvailable :: "QueueByteArray \<Rightarrow> u32" where
  "QueueByteArray_BytesAvailable q = of_nat (length (bytes_queue q))"

definition QueueByteArray_Clear :: "QueueByteArray \<Rightarrow> QueueByteArray" where
  "QueueByteArray_Clear q = q\<lparr>bytes_queue := []\<rparr>"

section \<open>Reading\<close>

text \<open>
  \<^verbatim>\<open>TransformType<T>(p)\<close> reads a \<^verbatim>\<open>T\<close> from the address of another object. Where \<^verbatim>\<open>T\<close> is \<^verbatim>\<open>long\<close> and the object
  has four bytes, the read is defined where \<^verbatim>\<open>long\<close> has four bytes too, as on Windows, and goes out of the object where
  it has eight, as on Linux: \<open>long_size\<close> is \<^verbatim>\<open>sizeof(long)\<close>.
\<close>

definition TransformType_long :: "nat \<Rightarrow> u32 \<Rightarrow> u64 res" where
  "TransformType_long long_size v = bind_res (read_mem (le_bytes 4 v) 0 (int long_size)) (\<lambda>bs. Inr (of_le_bytes bs))"

definition QueueByteArray_ReadInt8 :: "QueueByteArray \<Rightarrow> int \<times> QueueByteArray" where
  "QueueByteArray_ReadInt8 q =
     (case bytes_queue q of
        [] \<Rightarrow> (0, q)
      | tmp # rest \<Rightarrow> (sint tmp, q\<lparr>bytes_queue := rest\<rparr>))"

definition QueueByteArray_ReadUint8 :: "QueueByteArray \<Rightarrow> byte \<times> QueueByteArray" where
  "QueueByteArray_ReadUint8 q =
     (case bytes_queue q of
        [] \<Rightarrow> (0, q)
      | tmp # rest \<Rightarrow> (tmp, q\<lparr>bytes_queue := rest\<rparr>))"

definition QueueByteArray_ReadUint16 :: "QueueByteArray \<Rightarrow> u16 \<times> QueueByteArray" where
  "QueueByteArray_ReadUint16 q =
     (let (left, q1) = QueueByteArray_ReadUint8 q;
          (right, q2) = QueueByteArray_ReadUint8 q1
      in if cur_endian q = FW_BIG_ENDIAN
         then (push_bit 8 (ucast left) + ucast right, q2)
         else (ucast left + push_bit 8 (ucast right), q2))"

definition QueueByteArray_ReadInt16 :: "QueueByteArray \<Rightarrow> int \<times> QueueByteArray" where
  "QueueByteArray_ReadInt16 q =
     (let (val, q1) = QueueByteArray_ReadUint16 q in (sint val, q1))"

definition QueueByteArray_ReadUint32 :: "QueueByteArray \<Rightarrow> u32 \<times> QueueByteArray" where
  "QueueByteArray_ReadUint32 q =
     (let (left, q1) = QueueByteArray_ReadUint16 q;
          (right, q2) = QueueByteArray_ReadUint16 q1
      in if cur_endian q = FW_BIG_ENDIAN
         then (push_bit 16 (ucast left) + ucast right, q2)
         else (ucast left + push_bit 16 (ucast right), q2))"

definition QueueByteArray_ReadInt32 :: "nat \<Rightarrow> QueueByteArray \<Rightarrow> (int \<times> QueueByteArray) res" where
  "QueueByteArray_ReadInt32 long_size q =
     (let (val, q1) = QueueByteArray_ReadUint32 q
      in bind_res (TransformType_long long_size val) (\<lambda>realValue. Inr (sint (ucast realValue :: u32), q1)))"

definition QueueByteArray_ReadFloat :: "QueueByteArray \<Rightarrow> u32 \<times> QueueByteArray" where
  "QueueByteArray_ReadFloat q =
     (let (v, q1) = QueueByteArray_ReadUint32 q; val = (ucast v :: u64)
      in (ucast val, q1))"

definition QueueByteArray_ReadUint64 :: "QueueByteArray \<Rightarrow> u64 \<times> QueueByteArray" where
  "QueueByteArray_ReadUint64 q =
     (let (rawLeft, q1) = QueueByteArray_ReadUint32 q;
          (rawRight, q2) = QueueByteArray_ReadUint32 q1
      in if cur_endian q = FW_BIG_ENDIAN
         then (push_bit 32 (ucast rawLeft) + ucast rawRight, q2)
         else (ucast rawLeft + push_bit 32 (ucast rawRight), q2))"

definition QueueByteArray_ReadDouble :: "QueueByteArray \<Rightarrow> u64 \<times> QueueByteArray" where
  "QueueByteArray_ReadDouble q = (let (val, q1) = QueueByteArray_ReadUint64 q in (val, q1))"

definition QueueByteArray_ReadInt64 :: "QueueByteArray \<Rightarrow> int \<times> QueueByteArray" where
  "QueueByteArray_ReadInt64 q = (let (val, q1) = QueueByteArray_ReadUint64 q in (sint val, q1))"

text \<open>The loops that pop \<open>n\<close> bytes off the front one by one.\<close>

fun pop_front_loop :: "nat \<Rightarrow> byte list \<Rightarrow> byte list \<Rightarrow> byte list \<times> byte list" where
  "pop_front_loop 0 acc bs = (acc, bs)"
| "pop_front_loop (Suc n) acc [] = (acc, [])"
| "pop_front_loop (Suc n) acc (b # bs) = pop_front_loop n (acc @ [b]) bs"

definition QueueByteArray_ReadString :: "QueueByteArray \<Rightarrow> std_string \<times> QueueByteArray" where
  "QueueByteArray_ReadString q =
     (case bytes_queue q of
        b0 # b1 # rest \<Rightarrow>
          (let len = (if cur_endian q = FW_BIG_ENDIAN
                      then (push_bit 8 (ucast b0) + ucast b1 :: u32)
                      else (push_bit 8 (ucast b1) + ucast b0 :: u32))
           in if length (bytes_queue q) < unat (2 + len) then ([], q)
              else (let (s, rest') = pop_front_loop (unat len) [] rest
                    in (s, q\<lparr>bytes_queue := rest'\<rparr>)))
      | _ \<Rightarrow> ([], q))"

definition QueueByteArray_ReadObject ::
  "u32 \<Rightarrow> QueueByteArray \<Rightarrow> byte list option \<times> QueueByteArray" where
  "QueueByteArray_ReadObject sz q =
     (if length (bytes_queue q) < unat sz then (None, q)
      else (let n = (if sz = 0 then unat (of_nat (length (bytes_queue q)) :: u32) else unat sz);
                (data, rest) = pop_front_loop n [] (bytes_queue q)
            in (Some data, q\<lparr>bytes_queue := rest\<rparr>)))"

section \<open>Writing\<close>

definition QueueByteArray_WriteUint8 :: "byte \<Rightarrow> QueueByteArray \<Rightarrow> QueueByteArray" where
  "QueueByteArray_WriteUint8 v q = q\<lparr>bytes_queue := bytes_queue q @ [v]\<rparr>"

definition QueueByteArray_WriteInt8 :: "int \<Rightarrow> QueueByteArray \<Rightarrow> QueueByteArray" where
  "QueueByteArray_WriteInt8 v q =
     (let realValue = word_of_int v in q\<lparr>bytes_queue := bytes_queue q @ [realValue]\<rparr>)"

definition QueueByteArray_WriteUint16 :: "u16 \<Rightarrow> QueueByteArray \<Rightarrow> QueueByteArray" where
  "QueueByteArray_WriteUint16 v q =
     (case cur_endian q of
        FW_BIG_ENDIAN \<Rightarrow>
          QueueByteArray_WriteUint8 (ucast (v mod 256))
            (QueueByteArray_WriteUint8 (ucast (drop_bit 8 v)) q)
      | FW_LITTLE_ENDIAN \<Rightarrow>
          QueueByteArray_WriteUint8 (ucast (drop_bit 8 v))
            (QueueByteArray_WriteUint8 (ucast (v mod 256)) q))"

definition QueueByteArray_WriteInt16 :: "int \<Rightarrow> QueueByteArray \<Rightarrow> QueueByteArray" where
  "QueueByteArray_WriteInt16 v q = QueueByteArray_WriteUint16 (word_of_int v) q"

definition QueueByteArray_WriteUint32 :: "u32 \<Rightarrow> QueueByteArray \<Rightarrow> QueueByteArray" where
  "QueueByteArray_WriteUint32 v q =
     (case cur_endian q of
        FW_BIG_ENDIAN \<Rightarrow>
          QueueByteArray_WriteUint16 (ucast (drop_bit 16 (push_bit 16 v)))
            (QueueByteArray_WriteUint16 (ucast (drop_bit 16 v)) q)
      | FW_LITTLE_ENDIAN \<Rightarrow>
          QueueByteArray_WriteUint16 (ucast (drop_bit 16 v))
            (QueueByteArray_WriteUint16 (ucast (drop_bit 16 (push_bit 16 v))) q))"

definition QueueByteArray_WriteInt32 :: "int \<Rightarrow> QueueByteArray \<Rightarrow> QueueByteArray" where
  "QueueByteArray_WriteInt32 v q = QueueByteArray_WriteUint32 (word_of_int v) q"

definition QueueByteArray_WriteFloat :: "nat \<Rightarrow> u32 \<Rightarrow> QueueByteArray \<Rightarrow> QueueByteArray res" where
  "QueueByteArray_WriteFloat long_size v q =
     bind_res (TransformType_long long_size v) (\<lambda>realValue. Inr (QueueByteArray_WriteUint32 (ucast realValue) q))"

definition QueueByteArray_WriteUint64 :: "u64 \<Rightarrow> QueueByteArray \<Rightarrow> QueueByteArray" where
  "QueueByteArray_WriteUint64 v q =
     (case cur_endian q of
        FW_BIG_ENDIAN \<Rightarrow>
          QueueByteArray_WriteUint32 (ucast (drop_bit 32 (push_bit 32 v)))
            (QueueByteArray_WriteUint32 (ucast (drop_bit 32 v)) q)
      | FW_LITTLE_ENDIAN \<Rightarrow>
          QueueByteArray_WriteUint32 (ucast (drop_bit 32 v))
            (QueueByteArray_WriteUint32 (ucast (drop_bit 32 (push_bit 32 v))) q))"

definition QueueByteArray_WriteInt64 :: "int \<Rightarrow> QueueByteArray \<Rightarrow> QueueByteArray" where
  "QueueByteArray_WriteInt64 v q = QueueByteArray_WriteUint64 (word_of_int v) q"

definition QueueByteArray_WriteDouble :: "u64 \<Rightarrow> QueueByteArray \<Rightarrow> QueueByteArray" where
  "QueueByteArray_WriteDouble v q = QueueByteArray_WriteUint64 v q"

definition USHRT_MAX :: nat where "USHRT_MAX = 65535"

definition QueueByteArray_WriteString :: "std_string \<Rightarrow> QueueByteArray \<Rightarrow> QueueByteArray" where
  "QueueByteArray_WriteString s q =
     (if USHRT_MAX < length s then q
      else (let len = (of_nat (length s) :: u16);
                q1 = QueueByteArray_WriteUint16 len q
            in fold (\<lambda>i q'. q'\<lparr>bytes_queue := bytes_queue q' @ [s ! i]\<rparr>) [0..<unat len] q1))"

text \<open>
  \<^verbatim>\<open>WriteObject\<close> reads \<^verbatim>\<open>bytesLen\<close> bytes through the pointer: undefined for a null pointer or an
  object that is shorter.
\<close>

definition QueueByteArray_WriteObject ::
  "byte list option \<Rightarrow> int \<Rightarrow> QueueByteArray \<Rightarrow> QueueByteArray res" where
  "QueueByteArray_WriteObject obj bytesLen q =
     (if bytesLen \<le> 0 then Inr q
      else case obj of
        None \<Rightarrow> Inl NullPointer
      | Some data \<Rightarrow>
          bind_res (read_mem data 0 bytesLen)
            (\<lambda>bs. Inr (q\<lparr>bytes_queue := bytes_queue q @ bs\<rparr>)))"

text \<open>The virtual functions of this class.\<close>

definition QueueByteArray_vt :: "nat \<Rightarrow> QueueByteArray ByteArray" where
  "QueueByteArray_vt long_size = \<lparr>
     vt_BytesAvailable = QueueByteArray_BytesAvailable,
     vt_ReadInt8 = Inr \<circ> QueueByteArray_ReadInt8,
     vt_ReadUint8 = Inr \<circ> QueueByteArray_ReadUint8,
     vt_ReadInt16 = Inr \<circ> QueueByteArray_ReadInt16,
     vt_ReadUint16 = Inr \<circ> QueueByteArray_ReadUint16,
     vt_ReadInt32 = QueueByteArray_ReadInt32 long_size,
     vt_ReadUint32 = Inr \<circ> QueueByteArray_ReadUint32,
     vt_ReadFloat = Inr \<circ> QueueByteArray_ReadFloat,
     vt_ReadInt64 = Inr \<circ> QueueByteArray_ReadInt64,
     vt_ReadUint64 = Inr \<circ> QueueByteArray_ReadUint64,
     vt_ReadDouble = Inr \<circ> QueueByteArray_ReadDouble,
     vt_ReadString = Inr \<circ> QueueByteArray_ReadString,
     vt_ReadObject = (\<lambda>sz. Inr \<circ> QueueByteArray_ReadObject sz),
     vt_WriteInt8 = (\<lambda>v. Inr \<circ> QueueByteArray_WriteInt8 v),
     vt_WriteUint8 = (\<lambda>v. Inr \<circ> QueueByteArray_WriteUint8 v),
     vt_WriteInt16 = (\<lambda>v. Inr \<circ> QueueByteArray_WriteInt16 v),
     vt_WriteUint16 = (\<lambda>v. Inr \<circ> QueueByteArray_WriteUint16 v),
     vt_WriteInt32 = (\<lambda>v. Inr \<circ> QueueByteArray_WriteInt32 v),
     vt_WriteUint32 = (\<lambda>v. Inr \<circ> QueueByteArray_WriteUint32 v),
     vt_WriteFloat = QueueByteArray_WriteFloat long_size,
     vt_WriteInt64 = (\<lambda>v. Inr \<circ> QueueByteArray_WriteInt64 v),
     vt_WriteUint64 = (\<lambda>v. Inr \<circ> QueueByteArray_WriteUint64 v),
     vt_WriteDouble = (\<lambda>v. Inr \<circ> QueueByteArray_WriteDouble v),
     vt_WriteString = (\<lambda>s. Inr \<circ> QueueByteArray_WriteString s),
     vt_WriteObject = QueueByteArray_WriteObject,
     vt_Clear = QueueByteArray_Clear\<rparr>"

text \<open>
  \<^verbatim>\<open>ReadFromByteArray\<close> takes any byte array, so it calls the other object through its table. The
  buffer \<^verbatim>\<open>ReadObject\<close> allocates is never deleted.
\<close>

definition QueueByteArray_ReadFromByteArray ::
  "'o ByteArray \<Rightarrow> int \<Rightarrow> 'o \<Rightarrow> QueueByteArray \<Rightarrow> (QueueByteArray \<times> 'o) res" where
  "QueueByteArray_ReadFromByteArray vt bytesLen other q =
     (let avail = vt_BytesAvailable vt other;
          len = (if bytesLen = 0 \<or> avail < word_of_int bytesLen then sint avail else bytesLen)
      in bind_res (vt_ReadObject vt (word_of_int len) other) (\<lambda>(obj, other').
         bind_res (QueueByteArray_WriteObject obj len q) (\<lambda>q'. Inr (q', other'))))"

definition QueueByteArray_operator_plus ::
  "nat \<Rightarrow> QueueByteArray \<Rightarrow> QueueByteArray \<Rightarrow> (QueueByteArray \<times> QueueByteArray) res" where
  "QueueByteArray_operator_plus long_size other q =
     QueueByteArray_ReadFromByteArray (QueueByteArray_vt long_size)
       (sint (QueueByteArray_BytesAvailable other)) other q"

text \<open>For assignment, \<open>same\<close> says whether both sides are one object.\<close>

definition QueueByteArray_operator_assign ::
  "nat \<Rightarrow> bool \<Rightarrow> QueueByteArray \<Rightarrow> QueueByteArray \<Rightarrow> (QueueByteArray \<times> QueueByteArray) res" where
  "QueueByteArray_operator_assign long_size same other q =
     (if same then Inr (q, other)
      else QueueByteArray_ReadFromByteArray (QueueByteArray_vt long_size)
             (sint (QueueByteArray_BytesAvailable other)) other (QueueByteArray_Clear q))"

text \<open>The lines \<^verbatim>\<open>ShowAllBytes\<close> prints: index and byte.\<close>

definition QueueByteArray_ShowAllBytes :: "QueueByteArray \<Rightarrow> (nat \<times> byte) list" where
  "QueueByteArray_ShowAllBytes q =
     map (\<lambda>i. (i, bytes_queue q ! i)) [0..<nat (sint (QueueByteArray_BytesAvailable q))]"

section \<open>The wire format\<close>

definition q_enc16 :: "Endian \<Rightarrow> u16 \<Rightarrow> byte list" where
  "q_enc16 e v = (case e of
       FW_BIG_ENDIAN \<Rightarrow> [ucast (drop_bit 8 v), ucast v]
     | FW_LITTLE_ENDIAN \<Rightarrow> [ucast v, ucast (drop_bit 8 v)])"

definition q_enc32 :: "Endian \<Rightarrow> u32 \<Rightarrow> byte list" where
  "q_enc32 e v = (case e of
       FW_BIG_ENDIAN \<Rightarrow> q_enc16 e (ucast (drop_bit 16 v)) @ q_enc16 e (ucast v)
     | FW_LITTLE_ENDIAN \<Rightarrow> q_enc16 e (ucast v) @ q_enc16 e (ucast (drop_bit 16 v)))"

definition q_enc64 :: "Endian \<Rightarrow> u64 \<Rightarrow> byte list" where
  "q_enc64 e v = (case e of
       FW_BIG_ENDIAN \<Rightarrow> q_enc32 e (ucast (drop_bit 32 v)) @ q_enc32 e (ucast v)
     | FW_LITTLE_ENDIAN \<Rightarrow> q_enc32 e (ucast v) @ q_enc32 e (ucast (drop_bit 32 v)))"

definition queue_view :: "(QueueByteArray, Endian) ba_view" where
  "queue_view = \<lparr>bv_invar = (\<lambda>_. True), bv_content = bytes_queue, bv_mode = cur_endian,
     bv_fits = (\<lambda>_ _. True)\<rparr>"

lemma q_enc_length [simp]:
  "length (q_enc16 e a) = 2" "length (q_enc32 e b) = 4" "length (q_enc64 e c) = 8"
  by (simp_all add: q_enc16_def q_enc32_def q_enc64_def split: Endian.splits)

text \<open>In little-endian order the format is the memory image of the integer on the target.\<close>

lemma q_enc16_le: "q_enc16 FW_LITTLE_ENDIAN v = le_bytes 2 v"
  by (simp add: q_enc16_def)

lemma q_enc32_le: "q_enc32 FW_LITTLE_ENDIAN v = le_bytes 4 v"
  by (simp add: q_enc32_def q_enc16_def, intro conjI)
    (rule bit_word_eqI; auto simp: bit_ucast_iff bit_drop_bit_eq)+

lemma q_enc64_le: "q_enc64 FW_LITTLE_ENDIAN v = le_bytes 8 v"
  by (simp add: q_enc64_def q_enc32_def q_enc16_def, intro conjI)
    (rule bit_word_eqI; auto simp: bit_ucast_iff bit_drop_bit_eq)+

section \<open>What each operation does\<close>

lemma TransformType_long_4: "TransformType_long 4 v = Inr (ucast v)"
proof -
  have "le_bytes 4 v = le_bytes 4 (ucast v :: u64)"
    by (simp, intro conjI) (rule bit_word_eqI; auto simp: bit_ucast_iff bit_drop_bit_eq)+
  then have "of_le_bytes (le_bytes 4 v) = take_bit 32 (ucast v :: u64)" by (simp only: of_le_bytes_le_bytes_take) simp
  also have "\<dots> = ucast v" by (rule bit_word_eqI) (auto simp: bit_take_bit_iff bit_ucast_iff dest: bit_imp_le_length)
  finally show ?thesis by (simp add: TransformType_long_def read_mem_def del: le_bytes_numeral)
qed

lemma TransformType_long_beyond: "4 < long_size \<Longrightarrow> TransformType_long long_size v = Inl OutOfBounds"
  by (simp add: TransformType_long_def read_mem_def)

lemma WriteUint16_eq:
  "QueueByteArray_WriteUint16 v q = q\<lparr>bytes_queue := bytes_queue q @ q_enc16 (cur_endian q) v\<rparr>"
  by (simp add: QueueByteArray_WriteUint16_def QueueByteArray_WriteUint8_def q_enc16_def
      ucast_mod_256 split: Endian.splits)

lemma WriteUint32_eq:
  "QueueByteArray_WriteUint32 v q = q\<lparr>bytes_queue := bytes_queue q @ q_enc32 (cur_endian q) v\<rparr>"
  by (simp add: QueueByteArray_WriteUint32_def WriteUint16_eq q_enc32_def ucast_shift_pair
      split: Endian.splits)

lemma WriteUint64_eq:
  "QueueByteArray_WriteUint64 v q = q\<lparr>bytes_queue := bytes_queue q @ q_enc64 (cur_endian q) v\<rparr>"
  by (simp add: QueueByteArray_WriteUint64_def WriteUint32_eq q_enc64_def ucast_shift_pair
      split: Endian.splits)

lemma ReadUint16_eq:
  "bytes_queue q = q_enc16 (cur_endian q) v @ rest \<Longrightarrow>
   QueueByteArray_ReadUint16 q = (v, q\<lparr>bytes_queue := rest\<rparr>)"
  by (simp add: QueueByteArray_ReadUint16_def QueueByteArray_ReadUint8_def q_enc16_def
      add.commute[of "ucast _"] join_halves Let_def split: Endian.splits)

lemma ReadUint32_eq:
  "bytes_queue q = q_enc32 (cur_endian q) v @ rest \<Longrightarrow>
   QueueByteArray_ReadUint32 q = (v, q\<lparr>bytes_queue := rest\<rparr>)"
  by (cases "cur_endian q") (simp_all add: QueueByteArray_ReadUint32_def ReadUint16_eq q_enc32_def
      add.commute[of "ucast _"] join_halves Let_def)

lemma ReadUint64_eq:
  "bytes_queue q = q_enc64 (cur_endian q) v @ rest \<Longrightarrow>
   QueueByteArray_ReadUint64 q = (v, q\<lparr>bytes_queue := rest\<rparr>)"
  by (cases "cur_endian q") (simp_all add: QueueByteArray_ReadUint64_def ReadUint32_eq q_enc64_def
      add.commute[of "ucast _"] join_halves Let_def)

lemma pop_front_loop_eq: "pop_front_loop n acc bs = (acc @ take n bs, drop n bs)"
  by (induction n acc bs rule: pop_front_loop.induct) auto

lemma push_back_loop:
  "n \<le> length s \<Longrightarrow>
   fold (\<lambda>i q'. q'\<lparr>bytes_queue := bytes_queue q' @ [s ! i]\<rparr>) [0..<n] q =
   q\<lparr>bytes_queue := bytes_queue q @ take n s\<rparr>"
  by (induction n) (auto simp: take_Suc_conv_app_nth)

lemma WriteString_eq:
  "length s \<le> USHRT_MAX \<Longrightarrow> QueueByteArray_WriteString s q =
   q\<lparr>bytes_queue := bytes_queue q @ q_enc16 (cur_endian q) (of_nat (length s)) @ s\<rparr>"
  by (simp add: QueueByteArray_WriteString_def WriteUint16_eq USHRT_MAX_def push_back_loop unat_of_nat)

text \<open>The length field of a string, computed in \<^verbatim>\<open>unsigned int\<close>.\<close>

lemma push_add_ucast:
  "push_bit 8 (ucast a) + ucast b =
   (ucast (push_bit 8 (ucast (a :: byte)) + ucast (b :: byte) :: u16) :: u32)"
proof -
  have 1: "push_bit 8 (ucast a) + ucast b = (push_bit 8 (ucast a) OR ucast b :: u32)"
    by (rule disjunctive_add) (auto simp: bit_push_bit_iff bit_ucast_iff dest: bit_imp_le_length)
  have 2: "push_bit 8 (ucast a) + ucast b = (push_bit 8 (ucast a) OR ucast b :: u16)"
    by (rule disjunctive_add) (auto simp: bit_push_bit_iff bit_ucast_iff dest: bit_imp_le_length)
  show ?thesis
    unfolding 1 2
    by (rule bit_word_eqI)
      (auto simp: bit_or_iff bit_push_bit_iff bit_ucast_iff dest: bit_imp_le_length)
qed

lemma byte_of_sum:
  "ucast (push_bit 8 (ucast (a :: byte)) + ucast (b :: byte) :: u16) = b"
  "ucast (drop_bit 8 (push_bit 8 (ucast (a :: byte)) + ucast (b :: byte) :: u16)) = a"
proof -
  have 1: "push_bit 8 (ucast a) + ucast b = (push_bit 8 (ucast a) OR ucast b :: u16)"
    by (rule disjunctive_add) (auto simp: bit_push_bit_iff bit_ucast_iff dest: bit_imp_le_length)
  show "ucast (push_bit 8 (ucast a) + ucast b :: u16) = b"
    unfolding 1 by (rule bit_word_eqI) (auto simp: bit_or_iff bit_push_bit_iff bit_ucast_iff)
  show "ucast (drop_bit 8 (push_bit 8 (ucast a) + ucast b :: u16)) = a"
    unfolding 1 by (rule bit_word_eqI)
      (auto simp: bit_or_iff bit_push_bit_iff bit_ucast_iff bit_drop_bit_eq dest: bit_imp_le_length)
qed

lemma unat_2_plus: "unat (2 + ucast (w :: u16) :: u32) = 2 + unat w"
  using unat_bound[of w] by (simp add: unat_word_ariths unat_ucast_up)

lemma ReadString_eq:
  assumes "length s \<le> USHRT_MAX"
    and "bytes_queue q = q_enc16 (cur_endian q) (of_nat (length s)) @ s @ rest"
  shows "QueueByteArray_ReadString q = (s, q\<lparr>bytes_queue := rest\<rparr>)"
  using assms
  by (cases "cur_endian q")
    (simp_all add: QueueByteArray_ReadString_def q_enc16_def push_add_ucast join_halves Let_def
      unat_2_plus unat_ucast_up unat_of_nat USHRT_MAX_def pop_front_loop_eq)

lemmas queue_signed_defs =
  QueueByteArray_WriteInt8_def QueueByteArray_ReadInt8_def
  QueueByteArray_WriteUint8_def QueueByteArray_ReadUint8_def
  QueueByteArray_WriteInt16_def QueueByteArray_ReadInt16_def
  QueueByteArray_WriteInt32_def QueueByteArray_ReadInt32_def
  QueueByteArray_WriteInt64_def QueueByteArray_ReadInt64_def
  QueueByteArray_WriteFloat_def QueueByteArray_ReadFloat_def
  QueueByteArray_WriteDouble_def QueueByteArray_ReadDouble_def

lemmas queue_word_eqs =
  WriteUint16_eq WriteUint32_eq WriteUint64_eq WriteString_eq
  ReadUint16_eq ReadUint32_eq ReadUint64_eq ReadString_eq
  TransformType_long_4 ucast_ucast_up

text \<open>The class meets the contract of \<^verbatim>\<open>ByteArray\<close>, with \<^verbatim>\<open>int\<close> and \<^verbatim>\<open>float\<close> where a \<^verbatim>\<open>long\<close> has four bytes.\<close>

interpretation qba: byte_array queue_view "QueueByteArray_vt long_size" q_enc16 q_enc32 q_enc64
    "\<lambda>s. length s \<le> USHRT_MAX" "long_size = 4" for long_size
  by unfold_locales
    (auto simp: codec_def write_law_def read_law_def queue_view_def QueueByteArray_vt_def
      in_range_def queue_signed_defs queue_word_eqs sint_word_of_int_widths Let_def)

lemma queue_view_simps [simp]:
  "bv_invar queue_view q" "bv_content queue_view = bytes_queue" "bv_mode queue_view = cur_endian"
  "bv_fits queue_view q n"
  by (simp_all add: queue_view_def)

interpretation qoa: object_array queue_view "QueueByteArray_vt long_size" q_enc16 q_enc32 q_enc64
    "\<lambda>s. length s \<le> USHRT_MAX" "long_size = 4" for long_size
proof (unfold_locales, goal_cases)
  case 1
  then show ?case
    by (auto simp: write_law_def QueueByteArray_vt_def QueueByteArray_WriteObject_def read_mem_def object_ok_def)
next
  case (2 ob obj rest)
  then show ?case using unat_object[of obj]
    by (simp add: QueueByteArray_vt_def QueueByteArray_ReadObject_def pop_front_loop_eq Let_def)
next
  case (3 ob n)
  then show ?case by (simp add: QueueByteArray_vt_def QueueByteArray_ReadObject_def)
qed

section \<open>Properties\<close>

text \<open>
  C20: What is written to an empty \<^verbatim>\<open>QueueByteArray\<close>, in either byte order, the reads of the same types return, in
  order, and leave the queue empty: any sequence of values of the eleven types where a \<^verbatim>\<open>long\<close> has four bytes, and any
  sequence without \<^verbatim>\<open>int\<close> and \<^verbatim>\<open>float\<close> whatever its size. Strings have at most 65535 bytes. Where a \<^verbatim>\<open>long\<close> has eight
  bytes, every \<^verbatim>\<open>ReadInt32\<close> and every \<^verbatim>\<open>WriteFloat\<close> reads out of bounds.
\<close>

theorem queue_write_read_sequence:
  assumes "bytes_queue q = []"
    and "list_all (value_ok (\<lambda>s. length s \<le> USHRT_MAX)) vs"
    and "long_size = 4 \<or> KInt32 \<notin> kind_of ` set vs \<and> KFloat \<notin> kind_of ` set vs"
  shows "(\<exists>q1 q2. write_all (ba_write (QueueByteArray_vt long_size)) vs q = Inr q1 \<and>
      ba_read_all (QueueByteArray_vt long_size) (map kind_of vs) q1 = Inr (vs, q2) \<and> bytes_queue q2 = []) \<and>
    ba_read (QueueByteArray_vt 8) KInt32 q' = Inl OutOfBounds \<and> ba_write (QueueByteArray_vt 8) (VFloat v) q' = Inl OutOfBounds"
proof
  have "list_all (carried (long_size = 4) (\<lambda>s. length s \<le> USHRT_MAX)) vs"
    using assms(2,3) by (auto simp: carried_def list_all_iff image_iff)
  then show "\<exists>q1 q2. write_all (ba_write (QueueByteArray_vt long_size)) vs q = Inr q1 \<and>
      ba_read_all (QueueByteArray_vt long_size) (map kind_of vs) q1 = Inr (vs, q2) \<and> bytes_queue q2 = []"
    using qba.values_roundtrip[of q long_size vs] assms(1) by auto
  show "ba_read (QueueByteArray_vt 8) KInt32 q' = Inl OutOfBounds \<and> ba_write (QueueByteArray_vt 8) (VFloat v) q' = Inl OutOfBounds"
    by (simp add: QueueByteArray_vt_def QueueByteArray_ReadInt32_def QueueByteArray_WriteFloat_def TransformType_long_beyond
        tag_read_def bind_res_def Let_def split_def)
qed

theorem queue_write_read_sequence_witness:
  "(\<exists>q1 q2. write_all (ba_write (QueueByteArray_vt 4)) [VInt16 (-2), VFloat 5, VString [104, 105]]
      (QueueByteArray_SetEndian FW_BIG_ENDIAN QueueByteArray_new) = Inr q1 \<and>
    ba_read_all (QueueByteArray_vt 4) [KInt16, KFloat, KString] q1 =
      Inr ([VInt16 (-2), VFloat 5, VString [104, 105]], q2) \<and> bytes_queue q2 = []) \<and>
   (\<exists>q1 q2. write_all (ba_write (QueueByteArray_vt 8)) [VInt16 (-2), VUint32 5] QueueByteArray_new = Inr q1 \<and>
    ba_read_all (QueueByteArray_vt 8) [KInt16, KUint32] q1 = Inr ([VInt16 (-2), VUint32 5], q2) \<and> bytes_queue q2 = [])"
  using queue_write_read_sequence
    [of "QueueByteArray_SetEndian FW_BIG_ENDIAN QueueByteArray_new" "[VInt16 (-2), VFloat 5, VString [104, 105]]" 4]
    queue_write_read_sequence [of QueueByteArray_new "[VInt16 (-2), VUint32 5]" 8]
  by (simp add: QueueByteArray_SetEndian_def QueueByteArray_new_def in_range_def USHRT_MAX_def)

text \<open>
  \<^verbatim>\<open>ReadString\<close> is all or nothing: either the queue holds a length field and that many bytes,
  and exactly those are taken, or the queue is left as it was and the empty string returned.
\<close>

theorem queue_ReadString_all_or_nothing:
  "(\<exists>len s rest. bytes_queue q = q_enc16 (cur_endian q) len @ s @ rest \<and> length s = unat len \<and>
      QueueByteArray_ReadString q = (s, q\<lparr>bytes_queue := rest\<rparr>)) \<or>
   (\<nexists>len s rest. bytes_queue q = q_enc16 (cur_endian q) len @ s @ rest \<and> length s = unat len) \<and>
      QueueByteArray_ReadString q = ([], q)"
proof (cases "\<exists>len s rest. bytes_queue q = q_enc16 (cur_endian q) len @ s @ rest \<and> length s = unat len")
  case True
  then obtain len s rest where 1: "bytes_queue q = q_enc16 (cur_endian q) len @ s @ rest"
    and 2: "length s = unat len" by blast
  from 2 have l: "length s \<le> USHRT_MAX" "of_nat (length s) = len"
    using unat_bound[of len] by (auto simp: USHRT_MAX_def)
  from ReadString_eq[OF l(1)] 1 2 l(2) show ?thesis by metis
next
  case False
  have "QueueByteArray_ReadString q = ([], q)"
  proof (rule ccontr)
    assume n: "QueueByteArray_ReadString q \<noteq> ([], q)"
    then obtain b0 b1 cs where b: "bytes_queue q = b0 # b1 # cs"
      by (auto simp: QueueByteArray_ReadString_def split: list.splits)
    define len :: u16 where "len = (if cur_endian q = FW_BIG_ENDIAN
      then push_bit 8 (ucast b0) + ucast b1 else push_bit 8 (ucast b1) + ucast b0)"
    have "unat len \<le> length cs"
      using n b by (cases "cur_endian q")
        (auto simp: QueueByteArray_ReadString_def push_add_ucast unat_2_plus len_def Let_def
          split: if_splits)
    moreover have "[b0, b1] = q_enc16 (cur_endian q) len"
      by (cases "cur_endian q") (auto simp: q_enc16_def len_def byte_of_sum)
    ultimately have "bytes_queue q = q_enc16 (cur_endian q) len @ take (unat len) cs @ drop (unat len) cs"
      and "length (take (unat len) cs) = unat len" using b by auto
    with False show False by blast
  qed
  with False show ?thesis by blast
qed

end
