(* ===== verification/StdMap.thy ===== *)
theory StdMap
  imports Prelude
begin

text \<open>
  \<^verbatim>\<open>std::map\<close> with an explicit comparator, as an association list in the order of its iterators.
  Two keys are the same to the container when neither is less than the other; what that means for
  a key type is a property of its \<^verbatim>\<open>operator <\<close>, so the laws are proved once, in a locale, for every
  comparator that is a strict weak order. Maps the program never iterates and whose keys are
  integers or pointers are plain HOL maps elsewhere.
\<close>

definition equiv_key :: "('k \<Rightarrow> 'k \<Rightarrow> bool) \<Rightarrow> 'k \<Rightarrow> 'k \<Rightarrow> bool" where
  "equiv_key lt a b \<longleftrightarrow> \<not> lt a b \<and> \<not> lt b a"

type_synonym ('k, 'v) std_map = "('k \<times> 'v) list"

fun map_find :: "('k \<Rightarrow> 'k \<Rightarrow> bool) \<Rightarrow> 'k \<Rightarrow> ('k, 'v) std_map \<Rightarrow> 'v option" where
  "map_find lt k [] = None"
| "map_find lt k ((k', v) # m) = (if equiv_key lt k' k then Some v else map_find lt k m)"

text \<open>\<^verbatim>\<open>m[k] = v\<close>: an equivalent key that is already there stays, and gets the new value.\<close>

fun map_put :: "('k \<Rightarrow> 'k \<Rightarrow> bool) \<Rightarrow> 'k \<Rightarrow> 'v \<Rightarrow> ('k, 'v) std_map \<Rightarrow> ('k, 'v) std_map" where
  "map_put lt k v [] = [(k, v)]"
| "map_put lt k v ((k', v') # m) =
     (if equiv_key lt k' k then (k', v) # m
      else if lt k k' then (k, v) # (k', v') # m
      else (k', v') # map_put lt k v m)"

definition map_erase :: "('k \<Rightarrow> 'k \<Rightarrow> bool) \<Rightarrow> 'k \<Rightarrow> ('k, 'v) std_map \<Rightarrow> ('k, 'v) std_map" where
  "map_erase lt k m = filter (\<lambda>(k', _). \<not> equiv_key lt k' k) m"

text \<open>The keys are in the order of the comparator, so no two of them are equivalent.\<close>

definition map_ok :: "('k \<Rightarrow> 'k \<Rightarrow> bool) \<Rightarrow> ('k, 'v) std_map \<Rightarrow> bool" where
  "map_ok lt m = sorted_wrt (\<lambda>x y. lt (fst x) (fst y)) m"

locale key_order =
  fixes lt :: "'k \<Rightarrow> 'k \<Rightarrow> bool"
  assumes irrefl: "\<not> lt a a"
    and trans: "lt a b \<Longrightarrow> lt b c \<Longrightarrow> lt a c"
    and equiv_trans: "equiv_key lt a b \<Longrightarrow> equiv_key lt b c \<Longrightarrow> equiv_key lt a c"
begin

lemma equiv_refl [simp]: "equiv_key lt a a"
  by (simp add: equiv_key_def irrefl)

lemma equiv_sym: "equiv_key lt a b \<longleftrightarrow> equiv_key lt b a"
  by (auto simp: equiv_key_def)

lemma equiv_cong: "equiv_key lt a b \<Longrightarrow> equiv_key lt a c \<longleftrightarrow> equiv_key lt b c"
  using equiv_trans equiv_sym by blast

lemma less_equiv: "lt a b \<Longrightarrow> equiv_key lt b c \<Longrightarrow> lt a c"
  by (metis equiv_key_def equiv_sym equiv_trans irrefl trans)

lemma find_put: "map_find lt j (map_put lt k v m) = (if equiv_key lt k j then Some v else map_find lt j m)"
proof (induction m)
  case (Cons e m)
  obtain k' v' where e: "e = (k', v')" by (cases e)
  show ?case
  proof (cases "equiv_key lt k' k")
    case True
    then show ?thesis using equiv_cong[OF True, of j] by (simp add: e)
  next
    case False
    then show ?thesis using Cons equiv_cong[of k' j k] equiv_sym[of j k] by (auto simp: e)
  qed
qed simp

lemma find_erase: "map_find lt j (map_erase lt k m) = (if equiv_key lt k j then None else map_find lt j m)"
proof (induction m)
  case (Cons e m)
  obtain k' v' where e: "e = (k', v')" by (cases e)
  show ?case
  proof (cases "equiv_key lt k' k")
    case True
    then show ?thesis using Cons equiv_cong[OF True, of j] by (auto simp: e map_erase_def)
  next
    case False
    then show ?thesis using Cons equiv_cong[of k' j k] equiv_sym[of j k] by (auto simp: e map_erase_def)
  qed
qed (simp add: map_erase_def)

lemma find_cong:
  assumes "equiv_key lt j k"
  shows "map_find lt j m = map_find lt k m"
proof -
  have "equiv_key lt a j \<longleftrightarrow> equiv_key lt a k" for a
    using equiv_cong[OF assms, of a] equiv_sym by blast
  then show ?thesis by (induction m) auto
qed

lemma ok_erase: "map_ok lt m \<Longrightarrow> map_ok lt (map_erase lt k m)"
  by (simp add: map_ok_def map_erase_def sorted_wrt_filter)

lemma put_keys: "x \<in> set (map_put lt k v m) \<Longrightarrow> fst x = k \<or> fst x \<in> fst ` set m"
proof (induction m)
  case (Cons e m)
  then show ?case by (cases e) (auto simp: image_iff split: if_splits)
qed auto

lemma put_ok: "map_ok lt m \<Longrightarrow> map_ok lt (map_put lt k v m)"
proof (induction m)
  case (Cons e m)
  obtain k' v' where e: "e = (k', v')" by (cases e)
  from Cons.prems have m: "map_ok lt m" and k': "\<And>x. x \<in> set m \<Longrightarrow> lt k' (fst x)"
    by (auto simp: map_ok_def e)
  show ?case
  proof (cases "equiv_key lt k' k \<or> lt k k'")
    case True
    then show ?thesis using Cons.prems k' trans by (auto simp: e map_ok_def)
  next
    case False
    then have "lt k' k" by (auto simp: equiv_key_def)
    then have "lt k' (fst x)" if "x \<in> set (map_put lt k v m)" for x
      using put_keys[OF that] k' by auto
    with Cons.IH[OF m] False show ?thesis by (auto simp: e map_ok_def)
  qed
qed (simp add: map_ok_def)

text \<open>In such a map a lookup finds an entry exactly when it has one with an equivalent key.\<close>

lemma find_Some: "map_find lt k m = Some v \<Longrightarrow> \<exists>k'. (k', v) \<in> set m \<and> equiv_key lt k' k"
  by (induction m) (auto split: if_splits)

lemma find_mem: "map_ok lt m \<Longrightarrow> (k, v) \<in> set m \<Longrightarrow> map_find lt k m = Some v"
proof (induction m)
  case (Cons e m)
  then have "fst e = k \<or> \<not> equiv_key lt (fst e) k" by (auto simp: map_ok_def equiv_key_def)
  with Cons show ?case by (cases e) (auto simp: map_ok_def irrefl)
qed simp

end

text \<open>Integer keys.\<close>

interpretation int_keys: key_order "(<) :: int \<Rightarrow> int \<Rightarrow> bool"
  by unfold_locales (auto simp: equiv_key_def)

lemma equiv_key_int [simp]: "equiv_key ((<) :: int \<Rightarrow> int \<Rightarrow> bool) a b \<longleftrightarrow> a = b"
  by (auto simp: equiv_key_def)

text \<open>\<^verbatim>\<open>std::string\<close> keys: lexicographic order on the unsigned values of the characters.\<close>

fun string_lt :: "std_string \<Rightarrow> std_string \<Rightarrow> bool" where
  "string_lt _ [] = False"
| "string_lt [] (_ # _) = True"
| "string_lt (a # as) (b # bs) = (a < b \<or> (a = b \<and> string_lt as bs))"

lemma string_lt_irrefl [simp]: "\<not> string_lt a a"
  by (induction a) auto

lemma string_lt_trans: "string_lt a b \<Longrightarrow> string_lt b c \<Longrightarrow> string_lt a c"
proof (induction a b arbitrary: c rule: string_lt.induct)
  case (3 a as b bs)
  then show ?case by (cases c) auto
qed (auto elim: string_lt.elims)

lemma string_lt_total: "a = b \<or> string_lt a b \<or> string_lt b a"
proof (induction a b rule: string_lt.induct)
  case (1 a)
  then show ?case by (cases a) auto
next
  case (3 a as b bs)
  then show ?case by (auto simp: neq_iff)
qed auto

lemma equiv_key_string [simp]: "equiv_key string_lt a b \<longleftrightarrow> a = b"
  using string_lt_total[of a b] by (auto simp: equiv_key_def)

interpretation string_keys: key_order string_lt
  by unfold_locales (auto intro: string_lt_trans)

end
