(* ===== verification/SerializeBase.thy ===== *)
theory SerializeBase
  imports QueueByteArray StdMap
begin

text \<open>
  \<^verbatim>\<open>elegance/memory/serialize/serialize_base.*\<close>: the registry of message classes and the contract the
  network side relies on. The registry maps the name of a class to its describe object, here to the
  object that \<^verbatim>\<open>CreateSerialize\<close> of the describe object makes; the nullptr result is \<open>None\<close>.
\<close>

type_synonym 'm registry = "(std_string, 'm) std_map"

definition CreateSerialize :: "'m registry \<Rightarrow> std_string \<Rightarrow> 'm option" where
  "CreateSerialize reg class_name = map_find string_lt class_name reg"

text \<open>The constructor of a describe object enters it under the name of its class.\<close>

definition Describe :: "std_string \<Rightarrow> 'm \<Rightarrow> 'm registry \<Rightarrow> 'm registry" where
  "Describe class_name object reg = map_put string_lt class_name object reg"

lemma CreateSerialize_Describe [simp]:
  "CreateSerialize (Describe n ob reg) k = (if n = k then Some ob else CreateSerialize reg k)"
  by (simp add: CreateSerialize_def Describe_def string_keys.find_put)

lemma CreateSerialize_empty [simp]: "CreateSerialize [] k = None"
  by (simp add: CreateSerialize_def)

definition SERIALIZE_CLASS_NAME_MAX_LEN :: int where "SERIALIZE_CLASS_NAME_MAX_LEN = 256"

text \<open>The virtual functions of \<^verbatim>\<open>SerializeBase\<close>, at the byte array the network side uses.\<close>

record 'm serialize_vt =
  sv_GetTypeName :: "'m \<Rightarrow> std_string"
  sv_Serialize :: "'m \<Rightarrow> QueueByteArray \<Rightarrow> QueueByteArray res"
  sv_Unserialize :: "'m \<Rightarrow> QueueByteArray \<Rightarrow> ('m \<times> QueueByteArray) res"

section \<open>The contract of a family of message classes\<close>

text \<open>
  An object that is \<open>ok\<close> has a name that fits the protocol and is registered, is written as its
  \<open>payload\<close>, and is read back into a fresh object of its class.
\<close>

locale serialize_classes =
  fixes vt :: "'m serialize_vt"
    and reg :: "'m registry"
    and ok :: "'m \<Rightarrow> bool"
    and payload :: "'m \<Rightarrow> byte list"
  assumes name_ok: "ok m \<Longrightarrow> sv_GetTypeName vt m \<noteq> [] \<and> length (sv_GetTypeName vt m) < 256 \<and>
      0 \<notin> set (sv_GetTypeName vt m)"
    and registered: "ok m \<Longrightarrow> CreateSerialize reg (sv_GetTypeName vt m) \<noteq> None"
    and writes: "ok m \<Longrightarrow> cur_endian q = FW_LITTLE_ENDIAN \<Longrightarrow>
      \<exists>q'. sv_Serialize vt m q = Inr q' \<and> bytes_queue q' = bytes_queue q @ payload m \<and>
        cur_endian q' = FW_LITTLE_ENDIAN"
    and reads: "ok m \<Longrightarrow> CreateSerialize reg (sv_GetTypeName vt m) = Some b \<Longrightarrow>
      cur_endian q = FW_LITTLE_ENDIAN \<Longrightarrow> bytes_queue q = payload m \<Longrightarrow>
      \<exists>q'. sv_Unserialize vt b q = Inr (m, q')"

end
