(* ===== verification/FlexibleBuffer.thy ===== *)
theory FlexibleBuffer
  imports Prelude
begin

text \<open>
  \<^verbatim>\<open>FlexibleBuffer\<close> (\<^verbatim>\<open>elegance/memory/flexible_buffer.hpp\<close>): an owned heap block and its size. The
  pointer is modelled with the states it can be in, so that a use after \<^verbatim>\<open>delete[]\<close> and a second
  \<^verbatim>\<open>delete[]\<close> are outcomes of the model. \<^verbatim>\<open>new\<close> is taken to succeed.
\<close>

section \<open>Owned heap blocks\<close>

datatype heap_ptr = Null | Live "byte list" | Dangling

definition ptr_read :: "heap_ptr \<Rightarrow> int \<Rightarrow> int \<Rightarrow> byte list res" where
  "ptr_read p off n = (case p of
       Null \<Rightarrow> Inl NullPointer
     | Dangling \<Rightarrow> Inl UseAfterFree
     | Live blk \<Rightarrow> read_mem blk off n)"

definition ptr_write :: "heap_ptr \<Rightarrow> int \<Rightarrow> byte list \<Rightarrow> int \<Rightarrow> heap_ptr res" where
  "ptr_write p off src n = (case p of
       Null \<Rightarrow> Inl NullPointer
     | Dangling \<Rightarrow> Inl UseAfterFree
     | Live blk \<Rightarrow> bind_res (memcpy blk off src n) (\<lambda>blk'. Inr (Live blk')))"

definition ptr_delete :: "heap_ptr \<Rightarrow> heap_ptr res" where
  "ptr_delete p = (case p of
       Null \<Rightarrow> Inr Null
     | Dangling \<Rightarrow> Inl DoubleFree
     | Live blk \<Rightarrow> Inr Dangling)"

section \<open>The buffer\<close>

record FlexibleBuffer =
  buffer :: heap_ptr
  buffer_size :: int

definition FlexibleBuffer_new :: FlexibleBuffer where
  "FlexibleBuffer_new = \<lparr>buffer = Null, buffer_size = 0\<rparr>"

definition FlexibleBuffer_GetBuffer :: "FlexibleBuffer \<Rightarrow> heap_ptr" where
  "FlexibleBuffer_GetBuffer fb = buffer fb"

definition FlexibleBuffer_GetBufferSize :: "FlexibleBuffer \<Rightarrow> int" where
  "FlexibleBuffer_GetBufferSize fb = buffer_size fb"

definition FlexibleBuffer_ChangeBufferSize :: "int \<Rightarrow> FlexibleBuffer \<Rightarrow> (bool \<times> FlexibleBuffer) res" where
  "FlexibleBuffer_ChangeBufferSize sz fb =
     (if buffer_size fb = sz then Inr (True, fb)
      else
        let min_buffer_size = (if sz < buffer_size fb then sz else buffer_size fb);
            fb1 = fb\<lparr>buffer_size := sz\<rparr>;
            old_buffer = buffer fb
        in bind_res
             (if sz > 0 then
                let new_buffer = Live (replicate (nat sz) 0)
                in if old_buffer \<noteq> Null
                   then bind_res (ptr_read old_buffer 0 min_buffer_size)
                          (\<lambda>old. ptr_write new_buffer 0 old min_buffer_size)
                   else Inr new_buffer
              else Inr old_buffer)
             (\<lambda>new_buffer. bind_res (ptr_delete old_buffer)
                (\<lambda>old_after. Inr (True, fb1\<lparr>buffer := (if sz > 0 then new_buffer else old_after)\<rparr>))))"

definition FlexibleBuffer_SetBuffer ::
  "byte list \<Rightarrow> int \<Rightarrow> FlexibleBuffer \<Rightarrow> (bool \<times> FlexibleBuffer) res" where
  "FlexibleBuffer_SetBuffer buff len fb =
     (if 0 \<ge> len then Inr (False, fb)
      else bind_res (FlexibleBuffer_ChangeBufferSize len fb) (\<lambda>(_, fb1).
             bind_res (ptr_write (buffer fb1) 0 buff len) (\<lambda>p. Inr (True, fb1\<lparr>buffer := p\<rparr>))))"

definition FlexibleBuffer_ZeroAllBytes :: "FlexibleBuffer \<Rightarrow> (bool \<times> FlexibleBuffer) res" where
  "FlexibleBuffer_ZeroAllBytes fb =
     (if buffer fb = Null \<or> buffer_size fb \<le> 0 then Inr (False, fb)
      else bind_res (ptr_write (buffer fb) 0 (replicate (nat (buffer_size fb)) 0) (buffer_size fb))
             (\<lambda>p. Inr (True, fb\<lparr>buffer := p\<rparr>)))"

definition FlexibleBuffer_delete :: "FlexibleBuffer \<Rightarrow> FlexibleBuffer res" where
  "FlexibleBuffer_delete fb = bind_res (FlexibleBuffer_ChangeBufferSize 0 fb) (\<lambda>(_, fb1). Inr fb1)"

section \<open>Invariant\<close>

text \<open>Either nothing was allocated yet, or the block is live and as long as recorded.\<close>

definition flex_ok :: "FlexibleBuffer \<Rightarrow> bool" where
  "flex_ok fb \<longleftrightarrow> (case buffer fb of
       Null \<Rightarrow> buffer_size fb = 0
     | Live blk \<Rightarrow> 0 < buffer_size fb \<and> int (length blk) = buffer_size fb
     | Dangling \<Rightarrow> False)"

definition flex_bytes :: "FlexibleBuffer \<Rightarrow> byte list" where
  "flex_bytes fb = (case buffer fb of Live blk \<Rightarrow> blk | _ \<Rightarrow> [])"

lemma flex_ok_new [simp]: "flex_ok FlexibleBuffer_new"
  by (simp add: flex_ok_def FlexibleBuffer_new_def)

lemma flex_ok_size: "flex_ok fb \<Longrightarrow> buffer_size fb = int (length (flex_bytes fb))"
  by (auto simp: flex_ok_def flex_bytes_def split: heap_ptr.splits)

lemma flex_ok_live: "flex_ok fb \<Longrightarrow> 0 < buffer_size fb \<Longrightarrow> buffer fb = Live (flex_bytes fb)"
  by (auto simp: flex_ok_def flex_bytes_def split: heap_ptr.splits)

text \<open>Growing and shrinking keep the common prefix and fill with zeroes.\<close>

lemma ChangeBufferSize_law:
  assumes "flex_ok fb" and "0 < sz"
  shows "\<exists>fb'. FlexibleBuffer_ChangeBufferSize sz fb = Inr (True, fb') \<and> flex_ok fb' \<and>
    buffer_size fb' = sz \<and>
    flex_bytes fb' = take (nat sz) (flex_bytes fb @ replicate (nat sz) 0)"
proof (cases "buffer fb")
  case Null
  with assms show ?thesis
    by (auto simp: FlexibleBuffer_ChangeBufferSize_def flex_ok_def flex_bytes_def ptr_delete_def Let_def)
next
  case Dangling
  with assms show ?thesis by (simp add: flex_ok_def)
next
  case (Live blk)
  with assms have l: "buffer_size fb = int (length blk)" "0 < length blk" by (auto simp: flex_ok_def)
  from Live assms l show ?thesis
    by (cases "sz < int (length blk)")
      (auto simp: FlexibleBuffer_ChangeBufferSize_def flex_ok_def flex_bytes_def ptr_delete_def
        ptr_read_def ptr_write_def memcpy_def read_mem_def Let_def min_def nat_diff_distrib)
qed

lemma ptr_write_flex:
  assumes "flex_ok fb" and "0 < buffer_size fb" and "0 \<le> off" and "0 \<le> n"
    and "off + n \<le> buffer_size fb" and "n \<le> int (length src)"
  shows "ptr_write (buffer fb) off src n =
    Inr (Live (take (nat off) (flex_bytes fb) @ take (nat n) src @ drop (nat (off + n)) (flex_bytes fb)))"
  using assms flex_ok_live[OF assms(1,2)] flex_ok_size[OF assms(1)]
  by (simp add: ptr_write_def memcpy_def)

lemma flex_ok_Live [simp]:
  "flex_ok (fb\<lparr>buffer := Live blk\<rparr>) \<longleftrightarrow> 0 < buffer_size fb \<and> int (length blk) = buffer_size fb"
  by (simp add: flex_ok_def)

lemma flex_bytes_Live [simp]: "flex_bytes (fb\<lparr>buffer := Live blk\<rparr>) = blk"
  by (simp add: flex_bytes_def)

lemma SetBuffer_law:
  assumes "flex_ok fb" and "0 < len" and "len \<le> int (length buff)"
  shows "\<exists>fb'. FlexibleBuffer_SetBuffer buff len fb = Inr (True, fb') \<and> flex_ok fb' \<and>
    buffer_size fb' = len \<and> flex_bytes fb' = take (nat len) buff"
proof -
  from ChangeBufferSize_law[OF assms(1,2)] obtain fb1 where
    1: "FlexibleBuffer_ChangeBufferSize len fb = Inr (True, fb1)" "flex_ok fb1" "buffer_size fb1 = len"
    by auto
  from 1 assms flex_ok_size[OF 1(2)] show ?thesis
    by (simp add: FlexibleBuffer_SetBuffer_def ptr_write_flex)
qed

lemma ZeroAllBytes_law:
  assumes "flex_ok fb"
  shows "\<exists>b fb'. FlexibleBuffer_ZeroAllBytes fb = Inr (b, fb') \<and> flex_ok fb' \<and>
    buffer_size fb' = buffer_size fb \<and> flex_bytes fb' = replicate (length (flex_bytes fb)) 0"
proof (cases "0 < buffer_size fb")
  case True
  then show ?thesis using assms flex_ok_live[OF assms True] flex_ok_size[OF assms]
    by (auto simp: FlexibleBuffer_ZeroAllBytes_def ptr_write_def memcpy_def)
next
  case False
  then show ?thesis using assms flex_ok_size[OF assms] by (auto simp: FlexibleBuffer_ZeroAllBytes_def)
qed

section \<open>Properties\<close>

text \<open>
  C28: Resizing to any positive size keeps the bytes both sizes have room for, fills the rest with
  zeroes, and leaves one live block of exactly the recorded size.
\<close>

theorem flexible_buffer_resize:
  assumes "flex_ok fb" and "0 < sz"
  shows "\<exists>fb'. FlexibleBuffer_ChangeBufferSize sz fb = Inr (True, fb') \<and> flex_ok fb' \<and>
    FlexibleBuffer_GetBufferSize fb' = sz \<and>
    FlexibleBuffer_GetBuffer fb' = Live (take (nat sz) (flex_bytes fb @ replicate (nat sz) 0))"
proof -
  from ChangeBufferSize_law[OF assms] obtain fb' where
    "FlexibleBuffer_ChangeBufferSize sz fb = Inr (True, fb')" "flex_ok fb'" "buffer_size fb' = sz"
    "flex_bytes fb' = take (nat sz) (flex_bytes fb @ replicate (nat sz) 0)" by blast
  with flex_ok_live[of fb'] assms(2) show ?thesis
    by (simp add: FlexibleBuffer_GetBufferSize_def FlexibleBuffer_GetBuffer_def)
qed

theorem flexible_buffer_resize_witness:
  "\<exists>fb fb'. FlexibleBuffer_SetBuffer [1, 2, 3] 3 FlexibleBuffer_new = Inr (True, fb) \<and>
     FlexibleBuffer_ChangeBufferSize 5 fb = Inr (True, fb') \<and> flex_ok fb' \<and>
     FlexibleBuffer_GetBufferSize fb' = 5 \<and> FlexibleBuffer_GetBuffer fb' = Live [1, 2, 3, 0, 0]"
proof -
  from SetBuffer_law[of FlexibleBuffer_new 3 "[1, 2, 3]"] obtain fb where
    fb: "FlexibleBuffer_SetBuffer [1, 2, 3] 3 FlexibleBuffer_new = Inr (True, fb)" "flex_ok fb"
      "flex_bytes fb = [1, 2, 3]" by auto
  from flexible_buffer_resize[OF fb(2), of 5] fb show ?thesis by (simp add: numeral_eq_Suc)
qed

text \<open>
  Resizing a used buffer to 0 frees the block but keeps the pointer, so the next resize to a
  positive size copies from the freed block and frees it again.
\<close>

theorem flexible_buffer_reuse_after_zero:
  assumes "flex_ok fb" and "0 < buffer_size fb" and "0 < n"
  shows "\<exists>fb'. FlexibleBuffer_ChangeBufferSize 0 fb = Inr (True, fb') \<and>
    \<not> is_ok (FlexibleBuffer_ChangeBufferSize n fb')"
  using assms flex_ok_live[OF assms(1,2)]
  by (simp add: FlexibleBuffer_ChangeBufferSize_def ptr_delete_def ptr_read_def)

theorem flexible_buffer_reuse_after_zero_witness:
  "\<exists>fb'. FlexibleBuffer_ChangeBufferSize 0 \<lparr>buffer = Live [7, 8], buffer_size = 2\<rparr> = Inr (True, fb') \<and>
    \<not> is_ok (FlexibleBuffer_ChangeBufferSize 3 fb')"
  using flexible_buffer_reuse_after_zero [of "\<lparr>buffer = Live [7, 8], buffer_size = 2\<rparr>" 3]
  by (simp add: flex_ok_def)

end
