(* ===== verification/SocketDef.thy ===== *)
theory SocketDef
  imports StdMap
begin

text \<open>
  The vocabulary of the network layer (\<^verbatim>\<open>elegance/platform/network/socket_def.hpp\<close>): addresses,
  ports, connection numbers, buffer sizes, and the \<^verbatim>\<open>Endpoint\<close> that names a connection, with the
  comparator under which it is a key of \<^verbatim>\<open>std::map\<close>.
\<close>

type_synonym Port = u16
type_synonym IPAddr = std_string
type_synonym NetworkID = int

definition MAX_SOCKET_MSG_BUFF_LENGTH :: int where "MAX_SOCKET_MSG_BUFF_LENGTH = 1024 * 4"
definition MAX_BACKLOG :: int where "MAX_BACKLOG = 128"
definition MAX_EPOLL_EVENTS :: int where "MAX_EPOLL_EVENTS = 1024"

record Endpoint =
  remote_ip_addr :: IPAddr
  remote_port :: Port
  local_port :: Port

definition Endpoint_new :: Endpoint where
  "Endpoint_new = \<lparr>remote_ip_addr = [], remote_port = 0, local_port = 0\<rparr>"

definition Endpoint_less :: "Endpoint \<Rightarrow> Endpoint \<Rightarrow> bool" where
  "Endpoint_less this other =
     (if length (remote_ip_addr this) < length (remote_ip_addr other) then True
      else if length (remote_ip_addr this) > length (remote_ip_addr other) then False
      else if remote_port this < remote_port other then True
      else if remote_port this > remote_port other then False
      else local_port this < local_port other)"

lemma Endpoint_less_lex:
  "Endpoint_less a b \<longleftrightarrow>
     length (remote_ip_addr a) < length (remote_ip_addr b) \<or>
     length (remote_ip_addr a) = length (remote_ip_addr b) \<and>
       (remote_port a < remote_port b \<or>
        remote_port a = remote_port b \<and> local_port a < local_port b)"
  by (auto simp: Endpoint_less_def)

text \<open>What the comparator sees of an address is its length.\<close>

lemma equiv_Endpoint:
  "equiv_key Endpoint_less a b \<longleftrightarrow>
     length (remote_ip_addr a) = length (remote_ip_addr b) \<and>
     remote_port a = remote_port b \<and> local_port a = local_port b"
  unfolding equiv_key_def Endpoint_less_lex by (metis less_irrefl linorder_neqE)

interpretation endpoint_keys: key_order Endpoint_less
  by unfold_locales (auto simp: Endpoint_less_lex equiv_Endpoint)

section \<open>Properties\<close>

text \<open>
  As a key of \<^verbatim>\<open>std::map\<close> an endpoint is only the length of its address and its two ports:
  after storing a value under one endpoint, looking up any other endpoint with an address of the
  same length and the same ports finds that value, and every other key finds what it found before.
\<close>

theorem endpoint_map_put_find:
  "map_find Endpoint_less b (map_put Endpoint_less a v m) =
     (if length (remote_ip_addr a) = length (remote_ip_addr b) \<and>
         remote_port a = remote_port b \<and> local_port a = local_port b
      then Some v else map_find Endpoint_less b m)"
  by (simp add: endpoint_keys.find_put equiv_Endpoint)

end
