(* ===== verification/NetworkPacker.thy ===== *)
theory NetworkPacker
  imports FlexibleBuffer SocketDef
begin

text \<open>
  The message framing layer: \<^verbatim>\<open>INetworkPackager\<close> and its factory
  (\<^verbatim>\<open>elegance/network/network_packer_factory.*\<close>) and the only packager there is,
  \<^verbatim>\<open>NetworkPackagerFixHead\<close> (\<^verbatim>\<open>elegance/network/network_packer/*\<close>). A message travels as a 4 byte
  length in host order followed by its bytes; \<^verbatim>\<open>UnPack\<close> is fed whatever pieces the socket delivers.
  The calls \<^verbatim>\<open>ManagerSend\<close> and \<^verbatim>\<open>ManagerRecv\<close> make to the network manager are returned as values.
\<close>

section \<open>State\<close>

definition NET_PACKER_FIXHEAD_HEADER_LENGTH :: int where
  "NET_PACKER_FIXHEAD_HEADER_LENGTH = 4"

record NetPackerFixHeadMsgCacheBuffer =
  cache_buffer :: FlexibleBuffer
  cur_read_size :: int

definition NetPackerFixHeadMsgCacheBuffer_new :: NetPackerFixHeadMsgCacheBuffer where
  "NetPackerFixHeadMsgCacheBuffer_new = \<lparr>cache_buffer = FlexibleBuffer_new, cur_read_size = 0\<rparr>"

record NetworkPackagerFixHead =
  has_net_manager :: bool
  net_id_to_buffer_map :: "NetworkID \<rightharpoonup> NetPackerFixHeadMsgCacheBuffer"

datatype NetworkPackerType = FIX_HEAD

definition CreatePacker :: "NetworkPackerType \<Rightarrow> bool \<Rightarrow> NetworkPackagerFixHead" where
  "CreatePacker type mgr =
     (case type of FIX_HEAD \<Rightarrow> \<lparr>has_net_manager = mgr, net_id_to_buffer_map = Map.empty\<rparr>)"

text \<open>What is handed to the manager: a connection and the bytes.\<close>

type_synonym transfer = "NetworkID \<times> byte list"

definition ManagerSend :: "NetworkPackagerFixHead \<Rightarrow> NetworkID \<Rightarrow> byte list \<Rightarrow> transfer list" where
  "ManagerSend pk net_id data = (if \<not> has_net_manager pk then [] else [(net_id, data)])"

definition ManagerRecv :: "NetworkPackagerFixHead \<Rightarrow> NetworkID \<Rightarrow> byte list \<Rightarrow> transfer list" where
  "ManagerRecv pk net_id data = (if \<not> has_net_manager pk then [] else [(net_id, data)])"

section \<open>Sending\<close>

definition header_bytes :: "int \<Rightarrow> byte list" where
  "header_bytes package_length = le_bytes 4 (word_of_int package_length :: u32)"

definition PackAndSend ::
  "NetworkPackagerFixHead \<Rightarrow> NetworkID \<Rightarrow> byte list \<Rightarrow> int \<Rightarrow> transfer list res" where
  "PackAndSend pk net_id data len =
     bind_res (c_int (NET_PACKER_FIXHEAD_HEADER_LENGTH + len)) (\<lambda>total.
     bind_res (FlexibleBuffer_ChangeBufferSize total FlexibleBuffer_new) (\<lambda>(_, fb).
     bind_res (ptr_write (buffer fb) 0 (header_bytes len) NET_PACKER_FIXHEAD_HEADER_LENGTH) (\<lambda>p1.
     bind_res (ptr_write p1 NET_PACKER_FIXHEAD_HEADER_LENGTH data len) (\<lambda>p2.
     bind_res (ptr_read p2 0 (buffer_size fb)) (\<lambda>out.
     bind_res (FlexibleBuffer_delete (fb\<lparr>buffer := p2\<rparr>)) (\<lambda>_.
       Inr (ManagerSend pk net_id out)))))))"

section \<open>Receiving\<close>

text \<open>\<^verbatim>\<open>header->package_length\<close>: the first four bytes of the cache, as an \<^verbatim>\<open>int\<close>.\<close>

definition package_length :: "FlexibleBuffer \<Rightarrow> int res" where
  "package_length fb =
     bind_res (ptr_read (buffer fb) 0 NET_PACKER_FIXHEAD_HEADER_LENGTH)
       (\<lambda>bs. Inr (sint (of_le_bytes bs :: u32)))"

text \<open>
  The branch that reads the body of a message: the new cache, the message handed up if it is
  complete, and \<^verbatim>\<open>copy_bytes\<close>.
\<close>

definition unpack_body ::
  "NetPackerFixHeadMsgCacheBuffer \<Rightarrow> byte list \<Rightarrow> int \<Rightarrow>
   (NetPackerFixHeadMsgCacheBuffer \<times> byte list option \<times> int) res" where
  "unpack_body c data len =
     bind_res (package_length (cache_buffer c)) (\<lambda>pl.
     bind_res (c_int (NET_PACKER_FIXHEAD_HEADER_LENGTH + pl)) (\<lambda>whole.
     bind_res (c_int (whole - cur_read_size c)) (\<lambda>left_bytes.
     let copy_bytes = (if len \<ge> left_bytes then left_bytes else len) in
     bind_res (ptr_write (buffer (cache_buffer c)) (cur_read_size c) data copy_bytes) (\<lambda>p.
     let fb = (cache_buffer c)\<lparr>buffer := p\<rparr> in
     bind_res (c_int (cur_read_size c + copy_bytes)) (\<lambda>cur.
     bind_res (package_length fb) (\<lambda>pl2.
     bind_res (c_int (NET_PACKER_FIXHEAD_HEADER_LENGTH + pl2)) (\<lambda>whole2.
     if cur = whole2 then
       bind_res (ptr_read p NET_PACKER_FIXHEAD_HEADER_LENGTH pl2) (\<lambda>msg.
       bind_res (FlexibleBuffer_ZeroAllBytes fb) (\<lambda>(_, fb2).
         Inr (\<lparr>cache_buffer = fb2, cur_read_size = 0\<rparr>, Some msg, copy_bytes)))
     else Inr (\<lparr>cache_buffer = fb, cur_read_size = cur\<rparr>, None, copy_bytes))))))))"

text \<open>The branch that reads the header, creating the cache entry on the first read.\<close>

definition unpack_header ::
  "NetPackerFixHeadMsgCacheBuffer option \<Rightarrow> byte list \<Rightarrow> int \<Rightarrow>
   (NetPackerFixHeadMsgCacheBuffer \<times> int) res" where
  "unpack_header co data len =
     bind_res (case co of
         None \<Rightarrow> bind_res
           (FlexibleBuffer_ChangeBufferSize NET_PACKER_FIXHEAD_HEADER_LENGTH FlexibleBuffer_new)
           (\<lambda>(_, fb). Inr \<lparr>cache_buffer = fb, cur_read_size = 0\<rparr>)
       | Some c \<Rightarrow> Inr c) (\<lambda>c.
     bind_res (c_int (NET_PACKER_FIXHEAD_HEADER_LENGTH - cur_read_size c)) (\<lambda>left_bytes.
     let copy_bytes = (if len \<ge> left_bytes then left_bytes else len) in
     bind_res (ptr_write (buffer (cache_buffer c)) (cur_read_size c) data copy_bytes) (\<lambda>p.
     let fb = (cache_buffer c)\<lparr>buffer := p\<rparr> in
     bind_res (c_int (cur_read_size c + copy_bytes)) (\<lambda>cur.
     if cur \<ge> NET_PACKER_FIXHEAD_HEADER_LENGTH then
       bind_res (package_length fb) (\<lambda>pl.
       bind_res (c_int (NET_PACKER_FIXHEAD_HEADER_LENGTH + pl)) (\<lambda>all_pack_size.
       if buffer_size fb < all_pack_size then
         bind_res (FlexibleBuffer_ChangeBufferSize all_pack_size fb) (\<lambda>(_, fb2).
           Inr (\<lparr>cache_buffer = fb2, cur_read_size = cur\<rparr>, copy_bytes))
       else Inr (\<lparr>cache_buffer = fb, cur_read_size = cur\<rparr>, copy_bytes)))
     else Inr (\<lparr>cache_buffer = fb, cur_read_size = cur\<rparr>, copy_bytes)))))"

definition in_body :: "NetPackerFixHeadMsgCacheBuffer option \<Rightarrow> bool" where
  "in_body co = (case co of None \<Rightarrow> False
     | Some c \<Rightarrow> cur_read_size c \<ge> NET_PACKER_FIXHEAD_HEADER_LENGTH)"

definition put_cache ::
  "NetworkPackagerFixHead \<Rightarrow> NetworkID \<Rightarrow> NetPackerFixHeadMsgCacheBuffer \<Rightarrow> NetworkPackagerFixHead" where
  "put_cache pk net_id c = pk\<lparr>net_id_to_buffer_map := (net_id_to_buffer_map pk)(net_id \<mapsto> c)\<rparr>"

text \<open>
  \<^verbatim>\<open>UnPack\<close> with its recursive calls: the packager with the new cache and the messages handed up in
  order. A call in the body branch that goes on has completed its message, so it goes on in the
  header branch, which always consumes.
\<close>

function (sequential) UnPack ::
  "NetworkPackagerFixHead \<Rightarrow> NetworkID \<Rightarrow> byte list \<Rightarrow> int \<Rightarrow>
   (NetworkPackagerFixHead \<times> transfer list) res" where
  "UnPack pk net_id data len =
     (if in_body (net_id_to_buffer_map pk net_id) then
        bind_res (unpack_body (the (net_id_to_buffer_map pk net_id)) data len) (\<lambda>(c, msg, copy_bytes).
          let pk1 = put_cache pk net_id c;
              recvs = (case msg of None \<Rightarrow> [] | Some x \<Rightarrow> ManagerRecv pk net_id x);
              remain_bytes = len - copy_bytes
          in if remain_bytes > 0 then
               bind_res (UnPack pk1 net_id (drop (nat copy_bytes) data) remain_bytes)
                 (\<lambda>(pk', more). Inr (pk', recvs @ more))
             else Inr (pk1, recvs))
      else
        bind_res (unpack_header (net_id_to_buffer_map pk net_id) data len) (\<lambda>(c, copy_bytes).
          let pk1 = put_cache pk net_id c;
              remain_bytes = len - copy_bytes
          in if remain_bytes > 0 then UnPack pk1 net_id (drop (nat copy_bytes) data) remain_bytes
             else Inr (pk1, [])))"
  by pat_completeness auto

text \<open>Every call that goes on either has fewer bytes or has left the body branch.\<close>

lemma ptr_read_written:
  assumes "ptr_write p off src n = Inr p'" and "0 \<le> k" and "k \<le> off"
  shows "ptr_read p' 0 k = ptr_read p 0 k"
proof (cases p)
  case (Live blk)
  with assms obtain blk' where b: "memcpy blk off src n = Inr blk'" "p' = Live blk'"
    by (auto simp: ptr_write_def bind_res_eq_Inr)
  from memcpy_take_before[OF b(1), of "nat k"] assms(3) memcpy_length[OF b(1)] b(2) Live
  show ?thesis by (simp add: ptr_read_def read_mem_def)
qed (use assms in \<open>simp_all add: ptr_write_def\<close>)

lemma ptr_write_nonneg: "ptr_write p off src n = Inr p' \<Longrightarrow> 0 \<le> n"
  by (cases p) (auto simp: ptr_write_def bind_res_eq_Inr memcpy_eq_Inr)

lemma unpack_body_goes_on:
  assumes "unpack_body c data len = Inr (c', msg, k)" and "k < len"
    and "NET_PACKER_FIXHEAD_HEADER_LENGTH \<le> cur_read_size c"
  shows "0 \<le> k \<and> cur_read_size c' = 0"
proof -
  from assms(1) obtain pl whole left p where
    1: "package_length (cache_buffer c) = Inr pl" "whole = NET_PACKER_FIXHEAD_HEADER_LENGTH + pl"
      "left = whole - cur_read_size c" "k = (if left \<le> len then left else len)"
      "ptr_write (buffer (cache_buffer c)) (cur_read_size c) data k = Inr p"
    and 2: "bind_res (package_length ((cache_buffer c)\<lparr>buffer := p\<rparr>)) (\<lambda>pl2.
     bind_res (c_int (NET_PACKER_FIXHEAD_HEADER_LENGTH + pl2)) (\<lambda>whole2.
     if cur_read_size c + k = whole2 then
       bind_res (ptr_read p NET_PACKER_FIXHEAD_HEADER_LENGTH pl2) (\<lambda>msg.
       bind_res (FlexibleBuffer_ZeroAllBytes ((cache_buffer c)\<lparr>buffer := p\<rparr>)) (\<lambda>(_, fb2).
         Inr (\<lparr>cache_buffer = fb2, cur_read_size = 0\<rparr>, Some msg, k)))
     else Inr (\<lparr>cache_buffer = (cache_buffer c)\<lparr>buffer := p\<rparr>, cur_read_size = cur_read_size c + k\<rparr>,
       None, k))) = Inr (c', msg, k)"
    by (auto simp: unpack_body_def Let_def bind_res_eq_Inr c_int_eq_Inr split: if_splits)
  from assms(2) 1(4) have kl: "k = left" by (auto split: if_splits)
  from ptr_read_written[OF 1(5), of NET_PACKER_FIXHEAD_HEADER_LENGTH] assms(3) 1(1)
  have "package_length ((cache_buffer c)\<lparr>buffer := p\<rparr>) = Inr pl"
    by (simp add: package_length_def NET_PACKER_FIXHEAD_HEADER_LENGTH_def)
  with 2 kl 1(2,3) have "cur_read_size c' = 0" by (auto simp: bind_res_eq_Inr c_int_eq_Inr)
  with ptr_write_nonneg[OF 1(5)] show ?thesis by simp
qed

lemma unpack_header_consumes:
  assumes "unpack_header co data len = Inr (c', k)" and "k < len" and "\<not> in_body co"
  shows "0 < k"
  using assms
  by (cases co) (auto simp: unpack_header_def in_body_def Let_def bind_res_eq_Inr c_int_eq_Inr
    NET_PACKER_FIXHEAD_HEADER_LENGTH_def split: if_splits)

termination UnPack
proof (relation "measures [\<lambda>(pk, net_id, data, len). nat len,
    \<lambda>(pk, net_id, data, len). if in_body (net_id_to_buffer_map pk net_id) then 1 else 0]", goal_cases)
  case 1
  show ?case by simp
next
  case (2 pk net_id data len x c y msg k pk1 recvs remain)
  then have "NET_PACKER_FIXHEAD_HEADER_LENGTH \<le> cur_read_size (the (net_id_to_buffer_map pk net_id))"
    by (auto simp: in_body_def split: option.splits)
  with 2 unpack_body_goes_on[of "the (net_id_to_buffer_map pk net_id)" data len c msg k]
  have "0 \<le> k" "cur_read_size c = 0" "k < len" by auto
  with 2 show ?case
    by (auto simp: in_body_def NET_PACKER_FIXHEAD_HEADER_LENGTH_def put_cache_def)
next
  case (3 pk net_id data len x c k pk1 remain)
  with unpack_header_consumes[of "net_id_to_buffer_map pk net_id" data len c k]
  have "0 < k" "k < len" by auto
  with 3 show ?case by auto
qed

declare UnPack.simps [simp del]


section \<open>Specification: parsing a byte stream\<close>

definition stream_header :: "byte list \<Rightarrow> int" where
  "stream_header s = sint (of_le_bytes (take 4 s) :: u32)"

text \<open>
  What a receiver promises, with no cache and no pieces: the messages of a byte stream and the
  bytes left over. A message is complete when a byte of it or of the next one has been seen after
  its header, so an empty message at the end of the stream stays left over. A length field for
  which \<^verbatim>\<open>int\<close> has no room for the whole frame, and a negative one that any byte follows, have no
  defined outcome.
\<close>

function (sequential) parse_stream :: "byte list \<Rightarrow> (byte list list \<times> byte list) res" where
  "parse_stream s =
     (if length s < 4 then Inr ([], s)
      else if INT_MAX < 4 + stream_header s then Inl SignedOverflow
      else if length s = 4 then Inr ([], s)
      else if stream_header s < 0 then Inl NegativeLength
      else if int (length s) < 4 + stream_header s then Inr ([], s)
      else bind_res (parse_stream (drop (4 + nat (stream_header s)) s))
             (\<lambda>(ms, r). Inr (take (nat (stream_header s)) (drop 4 s) # ms, r)))"
  by pat_completeness auto

termination parse_stream
  by (relation "measure length") auto

declare parse_stream.simps [simp del]

definition frame :: "byte list \<Rightarrow> byte list" where
  "frame m = header_bytes (int (length m)) @ m"

text \<open>The cache entry holds the bytes \<open>p\<close> seen since the last complete message.\<close>

definition holds :: "NetPackerFixHeadMsgCacheBuffer option \<Rightarrow> byte list \<Rightarrow> bool" where
  "holds co p = (case co of
       None \<Rightarrow> p = []
     | Some c \<Rightarrow> flex_ok (cache_buffer c) \<and> 4 \<le> buffer_size (cache_buffer c) \<and>
         cur_read_size c = int (length p) \<and> take (length p) (flex_bytes (cache_buffer c)) = p \<and>
         (4 \<le> length p \<longrightarrow> 4 + stream_header p \<le> INT_MAX \<and>
            4 + stream_header p \<le> buffer_size (cache_buffer c) \<and>
            (length p = 4 \<or> int (length p) < 4 + stream_header p)))"

lemma stream_header_append [simp]: "4 \<le> length p \<Longrightarrow> stream_header (p @ q) = stream_header p"
  by (simp add: stream_header_def)

lemma stream_header_range: "INT_MIN \<le> stream_header s \<and> stream_header s \<le> INT_MAX"
  using to_int32_range[of "uint (of_le_bytes (take 4 s) :: u32)"]
  by (simp add: to_int32_def stream_header_def)

lemma package_length_eq:
  assumes "flex_ok fb" and "4 \<le> buffer_size fb"
  shows "package_length fb = Inr (stream_header (flex_bytes fb))"
proof -
  from assms have "buffer fb = Live (flex_bytes fb)" by (intro flex_ok_live) auto
  with assms flex_ok_size[OF assms(1)] show ?thesis
    by (simp add: package_length_def ptr_read_def read_mem_ok NET_PACKER_FIXHEAD_HEADER_LENGTH_def
      stream_header_def)
qed

lemma stream_header_cong: "take 4 s = take 4 t \<Longrightarrow> stream_header s = stream_header t"
  by (simp add: stream_header_def)

lemma take_overwrite:
  assumes "take n blk = p" and "length p = n" and "n + k \<le> length blk" and "k \<le> length d"
  shows "take (n + k) (take n blk @ take k d @ drop (n + k) blk) = p @ take k d"
  using assms by auto

text \<open>The cache after copying \<open>k\<close> more bytes.\<close>

lemma copied_cache:
  assumes "flex_ok fb" and "take (length p) (flex_bytes fb) = p" and "0 < buffer_size fb"
    and "int (length p) + int k \<le> buffer_size fb" and "k \<le> length d"
  shows "\<exists>blk. ptr_write (buffer fb) (int (length p)) d (int k) = Inr (Live blk) \<and>
    int (length blk) = buffer_size fb \<and> take (length p + k) blk = p @ take k d"
  using assms flex_ok_size[OF assms(1)]
  by (simp add: ptr_write_flex nat_add_distrib nat_int_add)

text \<open>The header branch, short of a full header.\<close>

lemma fresh_cache:
  "holds co p \<Longrightarrow> \<exists>c. holds (Some c) p \<and> (case co of
         None \<Rightarrow> bind_res
           (FlexibleBuffer_ChangeBufferSize NET_PACKER_FIXHEAD_HEADER_LENGTH FlexibleBuffer_new)
           (\<lambda>(_, fb). Inr \<lparr>cache_buffer = fb, cur_read_size = 0\<rparr>)
       | Some c \<Rightarrow> Inr c) = Inr c"
  using ChangeBufferSize_law[of FlexibleBuffer_new NET_PACKER_FIXHEAD_HEADER_LENGTH]
  by (auto simp: holds_def NET_PACKER_FIXHEAD_HEADER_LENGTH_def split: option.splits)

lemma unpack_header_short:
  assumes "holds co p" and "length p + length d < 4"
  shows "\<exists>c. unpack_header co d (int (length d)) = Inr (c, int (length d)) \<and> holds (Some c) (p @ d)"
proof -
  from fresh_cache[OF assms(1)] obtain c where c: "holds (Some c) p"
    "unpack_header co d (int (length d)) = unpack_header (Some c) d (int (length d))"
    by (auto simp: unpack_header_def)
  from c(1) have 1: "flex_ok (cache_buffer c)" "4 \<le> buffer_size (cache_buffer c)"
    "cur_read_size c = int (length p)" "take (length p) (flex_bytes (cache_buffer c)) = p"
    by (auto simp: holds_def)
  from copied_cache[OF 1(1,4), of "length d" d] 1 assms(2) obtain blk where
    "ptr_write (buffer (cache_buffer c)) (int (length p)) d (int (length d)) = Inr (Live blk)"
    "int (length blk) = buffer_size (cache_buffer c)" "take (length p + length d) blk = p @ d" by auto
  with 1 assms(2) show ?thesis unfolding c(2)
    by (simp add: unpack_header_def holds_def c_int_def INT_MIN_def INT_MAX_def
      NET_PACKER_FIXHEAD_HEADER_LENGTH_def Let_def)
qed

lemma unpack_header_full:
  assumes "holds co p" and "length p < 4" and "4 \<le> length p + length d"
  defines "q \<equiv> p @ take (4 - length p) d"
  shows "if INT_MAX < 4 + stream_header q
    then unpack_header co d (int (length d)) = Inl SignedOverflow
    else \<exists>c. unpack_header co d (int (length d)) = Inr (c, 4 - int (length p)) \<and> holds (Some c) q"
proof -
  from fresh_cache[OF assms(1)] obtain c where c: "holds (Some c) p"
    "unpack_header co d (int (length d)) = unpack_header (Some c) d (int (length d))"
    by (auto simp: unpack_header_def)
  from c(1) have 1: "flex_ok (cache_buffer c)" "4 \<le> buffer_size (cache_buffer c)"
    "cur_read_size c = int (length p)" "take (length p) (flex_bytes (cache_buffer c)) = p"
    by (auto simp: holds_def)
  have "4 - length p \<le> length d" using assms(3) by linarith
  from copied_cache[OF 1(1,4) _ _ this] 1 assms(2) obtain blk where
    w: "ptr_write (buffer (cache_buffer c)) (int (length p)) d (4 - int (length p)) = Inr (Live blk)"
    "int (length blk) = buffer_size (cache_buffer c)" "take 4 blk = q" by (auto simp: q_def)
  define fb where "fb = (cache_buffer c)\<lparr>buffer := Live blk\<rparr>"
  have fb: "flex_ok fb" "buffer_size fb = buffer_size (cache_buffer c)" "take 4 (flex_bytes fb) = q"
    using w 1 by (simp_all add: fb_def)
  have lq: "length q = 4" using assms(2,3) by (simp add: q_def)
  have h: "package_length fb = Inr (stream_header q)"
    using package_length_eq[OF fb(1)] fb(2,3) 1(2) stream_header_cong[of "flex_bytes fb" q] lq by simp
  have r: "unpack_header (Some c) d (int (length d)) =
     bind_res (c_int (4 + stream_header q)) (\<lambda>all_pack_size.
       if buffer_size fb < all_pack_size then
         bind_res (FlexibleBuffer_ChangeBufferSize all_pack_size fb) (\<lambda>(_, fb2).
           Inr (\<lparr>cache_buffer = fb2, cur_read_size = 4\<rparr>, 4 - int (length p)))
       else Inr (\<lparr>cache_buffer = fb, cur_read_size = 4\<rparr>, 4 - int (length p)))"
    using 1 w(1) h assms(2,3) fb_def
    by (simp add: unpack_header_def c_int_def INT_MIN_def INT_MAX_def
      NET_PACKER_FIXHEAD_HEADER_LENGTH_def Let_def)
  show ?thesis
  proof (cases "INT_MAX < 4 + stream_header q")
    case True
    then show ?thesis using c(2) r by (simp add: c_int_def)
  next
    case False
    with r stream_header_range[of q] have r2: "unpack_header (Some c) d (int (length d)) =
      (if buffer_size fb < 4 + stream_header q then
         bind_res (FlexibleBuffer_ChangeBufferSize (4 + stream_header q) fb) (\<lambda>(_, fb2).
           Inr (\<lparr>cache_buffer = fb2, cur_read_size = 4\<rparr>, 4 - int (length p)))
       else Inr (\<lparr>cache_buffer = fb, cur_read_size = 4\<rparr>, 4 - int (length p)))"
      by (simp add: c_int_def)
    show ?thesis
    proof (cases "buffer_size fb < 4 + stream_header q")
      case True
      with ChangeBufferSize_law[OF fb(1), of "4 + stream_header q"] fb(2) 1(2) obtain fb2 where
        "FlexibleBuffer_ChangeBufferSize (4 + stream_header q) fb = Inr (True, fb2)" "flex_ok fb2"
        "buffer_size fb2 = 4 + stream_header q"
        "flex_bytes fb2 = take (nat (4 + stream_header q)) (flex_bytes fb @ replicate (nat (4 + stream_header q)) 0)"
        by auto
      moreover from this True fb 1(2) flex_ok_size[OF fb(1)] have "take 4 (flex_bytes fb2) = q"
        by (auto simp: min_def)
      ultimately show ?thesis using False True r2 c(2) fb 1(2) lq by (auto simp: holds_def)
    next
      case False2: False
      then show ?thesis using False r2 c(2) fb 1(2) lq by (auto simp: holds_def)
    qed
  qed
qed


lemma unpack_body_negative:
  assumes "holds (Some c) p" and "4 \<le> length p" and "stream_header p < 0"
  shows "unpack_body c d (int (length d)) = Inl NegativeLength"
proof -
  from assms have 1: "flex_ok (cache_buffer c)" "4 \<le> buffer_size (cache_buffer c)"
    "cur_read_size c = 4" "take 4 (flex_bytes (cache_buffer c)) = p" "length p = 4"
    by (auto simp: holds_def)
  from 1 have "stream_header (flex_bytes (cache_buffer c)) = stream_header p"
    by (intro stream_header_cong) auto
  with package_length_eq[OF 1(1,2)] have h: "package_length (cache_buffer c) = Inr (stream_header p)"
    by simp
  have "buffer (cache_buffer c) = Live (flex_bytes (cache_buffer c))"
    using 1 by (intro flex_ok_live) auto
  then have "ptr_write (buffer (cache_buffer c)) 4 d (stream_header p) = Inl NegativeLength"
    using assms(3) by (simp add: ptr_write_def memcpy_negative)
  with h 1 assms(3) stream_header_range[of p] show ?thesis
    by (simp add: unpack_body_def c_int_def INT_MIN_def INT_MAX_def
      NET_PACKER_FIXHEAD_HEADER_LENGTH_def)
qed

lemma unpack_body_step:
  assumes "holds (Some c) p" and "4 \<le> length p" and "0 \<le> stream_header p"
    and "k = min (length d) (4 + nat (stream_header p) - length p)"
  shows "\<exists>fb. flex_ok fb \<and> buffer_size fb = buffer_size (cache_buffer c) \<and>
    take (length p + k) (flex_bytes fb) = p @ take k d \<and>
    unpack_body c d (int (length d)) =
      (if length p + k = 4 + nat (stream_header p)
       then bind_res (FlexibleBuffer_ZeroAllBytes fb) (\<lambda>(_, fb2).
         Inr (\<lparr>cache_buffer = fb2, cur_read_size = 0\<rparr>, Some (drop 4 (p @ take k d)), int k))
       else Inr (\<lparr>cache_buffer = fb, cur_read_size = int (length p + k)\<rparr>, None, int k))"
proof -
  from assms have 1: "flex_ok (cache_buffer c)" "4 \<le> buffer_size (cache_buffer c)"
    "cur_read_size c = int (length p)" "take (length p) (flex_bytes (cache_buffer c)) = p"
    "4 + stream_header p \<le> INT_MAX" "4 + stream_header p \<le> buffer_size (cache_buffer c)"
    "int (length p) \<le> 4 + stream_header p"
    by (auto simp: holds_def)
  define n where "n = nat (stream_header p)"
  have n: "stream_header p = int n" using assms(3) by (simp add: n_def)
  have k: "int (length p) + int k \<le> 4 + int n" "k \<le> length d"
    "int k = (if int (length d) \<ge> 4 + int n - int (length p) then 4 + int n - int (length p) else int (length d))"
  proof -
    have "k = min (length d) (4 + n - length p)" using assms(4) unfolding n_def .
    moreover have "length p \<le> 4 + n" using 1(7) n by simp
    ultimately show "int (length p) + int k \<le> 4 + int n" "k \<le> length d"
      "int k = (if int (length d) \<ge> 4 + int n - int (length p) then 4 + int n - int (length p) else int (length d))"
      by (auto simp: min_def)
  qed
  from copied_cache[OF 1(1,4) _ _ k(2)] 1(2,6) k(1) n obtain blk where
    w: "ptr_write (buffer (cache_buffer c)) (int (length p)) d (int k) = Inr (Live blk)"
    "int (length blk) = buffer_size (cache_buffer c)" "take (length p + k) blk = p @ take k d" by auto
  define fb where "fb = (cache_buffer c)\<lparr>buffer := Live blk\<rparr>"
  have fb: "flex_ok fb" "buffer_size fb = buffer_size (cache_buffer c)" "flex_bytes fb = blk"
    using w 1 by (simp_all add: fb_def)
  have t4: "take 4 (flex_bytes (cache_buffer c)) = take 4 p"
    using 1(4) assms(2) by (metis min.absorb1 take_take)
  have "take 4 (take (length p + k) blk) = take 4 p" using w(3) assms(2) by simp
  then have "take 4 blk = take 4 p" using assms(2) by (simp add: min_def)
  then have h2: "package_length fb = Inr (int n)"
    using package_length_eq[OF fb(1)] fb(2,3) 1(2) stream_header_cong[of blk p] n by simp
  have h1: "package_length (cache_buffer c) = Inr (int n)"
    using package_length_eq[OF 1(1,2)] stream_header_cong[OF t4] n by simp
  have m: "ptr_read (Live blk) 4 (int n) = Inr (drop 4 (p @ take k d))"
    if "length p + k = 4 + n"
  proof -
    have "take n (drop 4 blk) = drop 4 (take (4 + n) blk)" by (simp add: drop_take)
    then show ?thesis using that w(2,3) 1(6) n by (simp add: ptr_read_def read_mem_ok)
  qed
  have "unpack_body c d (int (length d)) =
      (if length p + k = 4 + n
       then bind_res (FlexibleBuffer_ZeroAllBytes fb) (\<lambda>(_, fb2).
         Inr (\<lparr>cache_buffer = fb2, cur_read_size = 0\<rparr>, Some (drop 4 (p @ take k d)), int k))
       else Inr (\<lparr>cache_buffer = fb, cur_read_size = int (length p + k)\<rparr>, None, int k))"
    unfolding unpack_body_def NET_PACKER_FIXHEAD_HEADER_LENGTH_def h1 1(3)
    using h2 w(1) k 1(5,7) n m
    by (simp add: c_int_def INT_MIN_def INT_MAX_def Let_def fb_def[symmetric])
  with fb w(3) show ?thesis unfolding n_def by auto
qed


section \<open>Refinement\<close>

definition delivered :: "NetworkPackagerFixHead \<Rightarrow> NetworkID \<Rightarrow> byte list list \<Rightarrow> transfer list" where
  "delivered pk net_id ms = concat (map (ManagerRecv pk net_id) ms)"

lemma ManagerRecv_put_cache [simp]: "ManagerRecv (put_cache pk net_id' c) = ManagerRecv pk"
  by (intro ext) (simp add: ManagerRecv_def put_cache_def)

lemma delivered_simps [simp]:
  "delivered pk net_id [] = []"
  "delivered pk net_id (m # ms) = ManagerRecv pk net_id m @ delivered pk net_id ms"
  "delivered (put_cache pk net_id' c) net_id ms = delivered pk net_id ms"
  by (simp_all add: delivered_def)

definition unpack_meets ::
  "NetworkPackagerFixHead \<Rightarrow> NetworkID \<Rightarrow> byte list \<Rightarrow>
   (NetworkPackagerFixHead \<times> transfer list) res \<Rightarrow> bool" where
  "unpack_meets pk net_id s r = (case parse_stream s of
       Inl e \<Rightarrow> r = Inl e
     | Inr (ms, rest) \<Rightarrow> \<exists>c. holds (Some c) rest \<and>
         r = Inr (put_cache pk net_id c, delivered pk net_id ms))"

lemma put_cache_simps [simp]:
  "net_id_to_buffer_map (put_cache pk net_id c) = (net_id_to_buffer_map pk)(net_id \<mapsto> c)"
  "has_net_manager (put_cache pk net_id c) = has_net_manager pk"
  "put_cache (put_cache pk net_id c) net_id c' = put_cache pk net_id c'"
  by (simp_all add: put_cache_def)

lemma unpack_meets_update [simp]:
  "unpack_meets (put_cache pk net_id c) net_id s r = unpack_meets pk net_id s r"
  by (cases "parse_stream s") (auto simp: unpack_meets_def)

lemma holds_in_body: "holds co p \<Longrightarrow> in_body co \<longleftrightarrow> 4 \<le> length p"
  by (auto simp: holds_def in_body_def NET_PACKER_FIXHEAD_HEADER_LENGTH_def split: option.splits)

lemma holds_body_Some: "holds co p \<Longrightarrow> 4 \<le> length p \<Longrightarrow> co = Some (the co)"
  by (auto simp: holds_def split: option.splits)

lemma holds_shape:
  "holds co p \<Longrightarrow> 4 \<le> length p \<Longrightarrow>
   4 + stream_header p \<le> INT_MAX \<and> (length p = 4 \<or> int (length p) < 4 + stream_header p)"
  by (auto simp: holds_def split: option.splits)

text \<open>Parsing, by what has been seen of the first frame.\<close>

lemma parse_stream_short:
  "length s < 4 \<Longrightarrow> parse_stream s = Inr ([], s)"
  "length s = 4 \<Longrightarrow> 4 + stream_header s \<le> INT_MAX \<Longrightarrow> parse_stream s = Inr ([], s)"
  "4 \<le> length s \<Longrightarrow> INT_MAX < 4 + stream_header s \<Longrightarrow> parse_stream s = Inl SignedOverflow"
  by (simp_all add: parse_stream.simps[of s])

lemma parse_stream_negative:
  "4 < length s \<Longrightarrow> stream_header s < 0 \<Longrightarrow> parse_stream s = Inl NegativeLength"
  by (simp add: parse_stream.simps[of s] INT_MAX_def)

lemma parse_stream_partial:
  "int (length s) < 4 + stream_header s \<Longrightarrow> 4 + stream_header s \<le> INT_MAX \<Longrightarrow>
   parse_stream s = Inr ([], s)"
  by (auto simp: parse_stream.simps[of s])

lemma parse_stream_whole:
  assumes "4 < length s" and "0 \<le> stream_header s" and "4 + stream_header s \<le> INT_MAX"
    and "4 + stream_header s \<le> int (length s)"
  shows "parse_stream s = bind_res (parse_stream (drop (4 + nat (stream_header s)) s))
             (\<lambda>(ms, r). Inr (take (nat (stream_header s)) (drop 4 s) # ms, r))"
  using assms by (simp add: parse_stream.simps[of s])

text \<open>A call in the header branch, given that shorter calls meet the specification.\<close>

lemma UnPack_meets_header:
  assumes h: "holds (net_id_to_buffer_map pk net_id) p" and l: "length p < 4" and d: "d \<noteq> []"
    and IH: "\<And>pk q d'. holds (net_id_to_buffer_map pk net_id) q \<Longrightarrow> d' \<noteq> [] \<Longrightarrow> length d' < length d \<Longrightarrow>
      unpack_meets pk net_id (q @ d') (UnPack pk net_id d' (int (length d')))"
  shows "unpack_meets pk net_id (p @ d) (UnPack pk net_id d (int (length d)))"
proof -
  let ?co = "net_id_to_buffer_map pk net_id"
  have nb: "\<not> in_body ?co" using holds_in_body[OF h] l by simp
  note U = UnPack.simps[of pk net_id d "int (length d)"]
  consider (short) "length p + length d < 4" | (full) "4 \<le> length p + length d" by linarith
  then show ?thesis
  proof cases
    case short
    from unpack_header_short[OF h short] nb short show ?thesis
      by (auto simp: U unpack_meets_def parse_stream_short)
  next
    case full
    define q where "q = p @ take (4 - length p) d"
    define d' where "d' = drop (4 - length p) d"
    have q: "length q = 4" "q @ d' = p @ d" using full l by (auto simp: q_def d'_def)
    have hq: "stream_header (p @ d) = stream_header q"
      using q stream_header_append[of q d'] by simp
    have len: "int (length d) - (4 - int (length p)) = int (length d')"
      "nat (4 - int (length p)) = 4 - length p" "length d' < length d"
      "4 - int (length p) < int (length d) \<longleftrightarrow> d' \<noteq> []"
      using full l d by (auto simp: d'_def)
    note step = unpack_header_full[OF h l full, folded q_def]
    show ?thesis
    proof (cases "INT_MAX < 4 + stream_header q")
      case True
      with step nb full hq show ?thesis by (simp add: U unpack_meets_def parse_stream_short)
    next
      case False
      then obtain c where c: "unpack_header ?co d (int (length d)) = Inr (c, 4 - int (length p))"
        "holds (Some c) q" using step by auto
      from IH[of "put_cache pk net_id c" q d'] c(2) len(3) q(2)
      have "d' \<noteq> [] \<Longrightarrow> unpack_meets pk net_id (p @ d)
          (UnPack (put_cache pk net_id c) net_id d' (int (length d')))" by simp
      moreover have "d' = [] \<Longrightarrow> p @ d = q" using q(2) by simp
      ultimately show ?thesis using nb c False q
        by (cases "d' = []")
          (auto simp: U len Let_def d'_def[symmetric] unpack_meets_def parse_stream_short)
    qed
  qed
qed

lemma unpack_meets_cons:
  assumes "parse_stream s = bind_res (parse_stream s') (\<lambda>(ms, r). Inr (m # ms, r))"
    and "unpack_meets pk net_id s' r"
  shows "unpack_meets pk net_id s
    (bind_res r (\<lambda>(pk', more). Inr (pk', ManagerRecv pk net_id m @ more)))"
  using assms by (cases "parse_stream s'") (auto simp: unpack_meets_def)

text \<open>A call in the body branch, given that calls with no more bytes meet it in the header branch.\<close>

lemma UnPack_meets_body:
  assumes h: "holds (net_id_to_buffer_map pk net_id) p" and l: "4 \<le> length p" and d: "d \<noteq> []"
    and IH: "\<And>pk d'. holds (net_id_to_buffer_map pk net_id) [] \<Longrightarrow> d' \<noteq> [] \<Longrightarrow> length d' \<le> length d \<Longrightarrow>
      unpack_meets pk net_id d' (UnPack pk net_id d' (int (length d')))"
  shows "unpack_meets pk net_id (p @ d) (UnPack pk net_id d (int (length d)))"
proof -
  from holds_body_Some[OF h l] obtain c where c: "net_id_to_buffer_map pk net_id = Some c" by auto
  note h = h[unfolded c]
  have b: "in_body (Some c)" using holds_in_body[OF h] l by simp
  note U = UnPack.simps[of pk net_id d "int (length d)"]
  have sh: "stream_header (p @ d) = stream_header p" "4 < length (p @ d)"
    using l d by (simp_all add: length_greater_0_conv[symmetric] del: length_greater_0_conv)
  show ?thesis
  proof (cases "stream_header p < 0")
    case True
    with unpack_body_negative[OF h l True, of d] b sh show ?thesis
      by (simp add: U c unpack_meets_def parse_stream_negative)
  next
    case False
    define n where "n = nat (stream_header p)"
    have n: "stream_header p = int n" using False by (simp add: n_def)
    define k where "k = min (length d) (4 + n - length p)"
    from unpack_body_step[OF h l, of k d] False obtain fb where
      fb: "flex_ok fb" "buffer_size fb = buffer_size (cache_buffer c)"
        "take (length p + k) (flex_bytes fb) = p @ take k d"
      and step: "unpack_body c d (int (length d)) =
      (if length p + k = 4 + n
       then bind_res (FlexibleBuffer_ZeroAllBytes fb) (\<lambda>(_, fb2).
         Inr (\<lparr>cache_buffer = fb2, cur_read_size = 0\<rparr>, Some (drop 4 (p @ take k d)), int k))
       else Inr (\<lparr>cache_buffer = fb, cur_read_size = int (length p + k)\<rparr>, None, int k))"
      by (auto simp: n_def k_def)
    from holds_shape[OF h l] have pn: "4 + int n \<le> INT_MAX" "length p \<le> 4 + n" by (auto simp: n)
    from h have bs: "4 \<le> buffer_size fb" "4 + int n \<le> buffer_size fb"
      using fb(2) n l by (auto simp: holds_def)
    show ?thesis
    proof (cases "length p + k = 4 + n")
      case complete: True
      from ZeroAllBytes_law[OF fb(1)] obtain bb fb2 where
        z: "FlexibleBuffer_ZeroAllBytes fb = Inr (bb, fb2)" "flex_ok fb2"
          "buffer_size fb2 = buffer_size fb" by auto
      define c2 where "c2 = \<lparr>cache_buffer = fb2, cur_read_size = 0\<rparr>"
      have h2: "holds (Some c2) []" using z bs by (simp add: holds_def c2_def)
      define m where "m = drop 4 (p @ take k d)"
      have lk: "k \<le> length d" by (simp add: k_def)
      have kk: "4 + n - length p = k" "n + 4 - length p = k" using complete by linarith+
      have "parse_stream (p @ d) = bind_res (parse_stream (drop k d)) (\<lambda>(ms, r). Inr (m # ms, r))"
        using parse_stream_whole[of "p @ d"] sh n pn complete lk l kk
        by (simp add: m_def)
      from unpack_meets_cons[OF this]
      have cons: "unpack_meets pk net_id (drop k d) r \<Longrightarrow> unpack_meets pk net_id (p @ d)
         (bind_res r (\<lambda>(pk', more). Inr (pk', ManagerRecv pk net_id m @ more)))" for r .
      have s2: "unpack_body c d (int (length d)) = Inr (c2, Some m, int k)"
        using step complete z by (simp add: c2_def m_def)
      show ?thesis
      proof (cases "drop k d = []")
        case True
        then have "unpack_meets pk net_id (drop k d) (Inr (put_cache pk net_id c2, []))"
          using h2 by (auto simp: unpack_meets_def parse_stream_short)
        from cons[OF this] True lk s2 b show ?thesis by (subst U) (simp add: c)
      next
        case False
        from IH[of "put_cache pk net_id c2" "drop k d"] False h2 lk
        have "unpack_meets pk net_id (drop k d)
          (UnPack (put_cache pk net_id c2) net_id (drop k d) (int (length d) - int k))"
          by (simp add: of_nat_diff)
        from cons[OF this] False lk s2 b show ?thesis by (simp add: U c)
      qed
    next
      case False
      then have k: "k = length d" "length p + length d < 4 + n" using pn by (auto simp: k_def)
      define c2 where "c2 = \<lparr>cache_buffer = fb, cur_read_size = int (length p + length d)\<rparr>"
      have "holds (Some c2) (p @ d)"
        using fb k bs sh n pn by (simp add: holds_def c2_def)
      moreover have "parse_stream (p @ d) = Inr ([], p @ d)"
        using parse_stream_partial[of "p @ d"] sh n k pn by simp
      moreover have "unpack_body c d (int (length d)) = Inr (c2, None, int (length d))"
        using step False k by (simp add: c2_def)
      ultimately show ?thesis using b by (auto simp: U c unpack_meets_def)
    qed
  qed
qed

lemma UnPack_meets:
  assumes "holds (net_id_to_buffer_map pk net_id) p" and "d \<noteq> []"
  shows "unpack_meets pk net_id (p @ d) (UnPack pk net_id d (int (length d)))"
  using assms
proof (induction "length d" arbitrary: pk p d rule: less_induct)
  case less
  have header: "unpack_meets pk net_id (q @ d') (UnPack pk net_id d' (int (length d')))"
    if "holds (net_id_to_buffer_map pk net_id) q" "length q < 4" "d' \<noteq> []" "length d' \<le> length d"
    for pk q d'
    by (rule UnPack_meets_header[OF that(1-3)], rule less.hyps) (use that(4) in auto)
  show ?case
  proof (cases "length p < 4")
    case True
    from header[OF less.prems(1) True less.prems(2)] show ?thesis by simp
  next
    case False
    then have "4 \<le> length p" by simp
    from UnPack_meets_body[OF less.prems(1) this less.prems(2)] header[of _ "[]"]
    show ?thesis by simp
  qed
qed


lemma length_header_bytes [simp]: "length (header_bytes n) = 4"
  by (simp add: header_bytes_def del: le_bytes_numeral)

lemma PackAndSend_frame:
  assumes "4 + int (length data) \<le> INT_MAX"
  shows "PackAndSend pk net_id data (int (length data)) = Inr (ManagerSend pk net_id (frame data))"
proof -
  define n where "n = length data"
  obtain fb where fb: "FlexibleBuffer_ChangeBufferSize (4 + int n) FlexibleBuffer_new = Inr (True, fb)"
    "flex_ok fb" "buffer_size fb = 4 + int n"
    using ChangeBufferSize_law[of FlexibleBuffer_new "4 + int n"] by auto
  have l: "length (flex_bytes fb) = 4 + n" using flex_ok_size[OF fb(2)] fb(3) by simp
  have w1: "ptr_write (buffer fb) 0 (header_bytes (int n)) 4 =
      Inr (Live (header_bytes (int n) @ drop 4 (flex_bytes fb)))"
    using fb l by (simp add: ptr_write_flex)
  have w2: "ptr_write (Live (header_bytes (int n) @ drop 4 (flex_bytes fb))) 4 data (int n) =
      Inr (Live (frame data))"
    using l by (simp add: ptr_write_def memcpy_def n_def frame_def nat_add_distrib)
  show ?thesis
    using assms fb w1 w2 unfolding PackAndSend_def n_def[symmetric] NET_PACKER_FIXHEAD_HEADER_LENGTH_def
    by (simp add: c_int_def INT_MIN_def ptr_read_def read_mem_ok n_def frame_def
      FlexibleBuffer_delete_def FlexibleBuffer_ChangeBufferSize_def ptr_delete_def)
qed

section \<open>Properties\<close>

text \<open>
  C16: One call of \<^verbatim>\<open>UnPack\<close> refines the stream parser: if the cache of a connection holds the bytes
  \<open>p\<close> seen since the last complete message, a call with the bytes \<open>d\<close> hands up exactly the
  messages of \<open>p @ d\<close>, leaves the cache holding what is left over and touches no other connection;
  and its outcome is undefined exactly when the parser says so.
\<close>

theorem UnPack_refines_parse_stream:
  assumes "holds (net_id_to_buffer_map pk net_id) p" and "d \<noteq> []"
  shows "case parse_stream (p @ d) of
      Inl e \<Rightarrow> UnPack pk net_id d (int (length d)) = Inl e
    | Inr (ms, rest) \<Rightarrow> \<exists>c. UnPack pk net_id d (int (length d)) =
          Inr (put_cache pk net_id c, delivered pk net_id ms) \<and> holds (Some c) rest"
  using UnPack_meets[OF assms] by (auto simp: unpack_meets_def split: sum.splits)

theorem UnPack_refines_parse_stream_witness:
  "\<exists>c. UnPack (CreatePacker FIX_HEAD True) 3 [2, 0, 0, 0, 65] 5 =
     Inr (put_cache (CreatePacker FIX_HEAD True) 3 c, []) \<and> holds (Some c) [2, 0, 0, 0, 65]"
  using UnPack_refines_parse_stream [of "CreatePacker FIX_HEAD True" 3 "[]" "[2, 0, 0, 0, 65]"]
  by (simp add: CreatePacker_def holds_def parse_stream.simps stream_header_def INT_MAX_def)

text \<open>Feeding a connection piece by piece.\<close>

fun unpack_all ::
  "NetworkPackagerFixHead \<Rightarrow> NetworkID \<Rightarrow> byte list list \<Rightarrow>
   (NetworkPackagerFixHead \<times> transfer list) res" where
  "unpack_all pk net_id [] = Inr (pk, [])"
| "unpack_all pk net_id (d # ds) =
     bind_res (UnPack pk net_id d (int (length d))) (\<lambda>(pk1, t1).
     bind_res (unpack_all pk1 net_id ds) (\<lambda>(pk2, t2). Inr (pk2, t1 @ t2)))"

lemma stream_header_frame:
  assumes "int (length m) \<le> INT_MAX"
  shows "stream_header (frame m @ s) = int (length m)"
proof -
  have "take 4 (frame m @ s) = header_bytes (int (length m))"
    by (simp add: frame_def header_bytes_def del: le_bytes_numeral)
  then show ?thesis
    using assms sint_word_of_int[where 'a = 32, of "int (length m)"]
    by (simp add: stream_header_def header_bytes_def of_le_bytes_le_bytes INT_MAX_def
      del: le_bytes_numeral)
qed

text \<open>More bytes never change the messages already parsed.\<close>

lemma parse_stream_append:
  assumes "parse_stream s = Inr (ms, r)"
  shows "parse_stream (s @ t) = bind_res (parse_stream (r @ t)) (\<lambda>(ms', r'). Inr (ms @ ms', r'))"
  using assms
proof (induction s arbitrary: ms r rule: parse_stream.induct)
  case (1 s)
  show ?case
  proof (cases "4 < length s \<and> 0 \<le> stream_header s \<and> 4 + stream_header s \<le> INT_MAX \<and>
      4 + stream_header s \<le> int (length s)")
    case True
    define n where "n = nat (stream_header s)"
    from True 1(2) parse_stream_whole[of s] obtain ms' where
      p: "parse_stream (drop (4 + n) s) = Inr (ms', r)" "ms = take n (drop 4 s) # ms'"
      by (auto simp: n_def bind_res_eq_Inr)
    have IH: "parse_stream (drop (4 + n) s @ t) =
        bind_res (parse_stream (r @ t)) (\<lambda>(m, r'). Inr (ms' @ m, r'))"
      using 1(1) p(1) True by (simp add: n_def)
    have "4 + n \<le> length s" "stream_header (s @ t) = stream_header s" using True by (auto simp: n_def)
    then have "parse_stream (s @ t) = bind_res (parse_stream (drop (4 + n) s @ t))
        (\<lambda>(m, r'). Inr (take n (drop 4 s) # m, r'))"
      using parse_stream_whole[of "s @ t"] True by (simp add: n_def)
    then show ?thesis using IH p(2) by (cases "parse_stream (r @ t)") auto
  next
    case False
    with 1(2) have "ms = []" "r = s"
      by (auto simp: parse_stream.simps[of s] split: if_splits)
    then show ?thesis by (cases "parse_stream (s @ t)") auto
  qed
qed

lemma parse_stream_append_error: "parse_stream s = Inl e \<Longrightarrow> parse_stream (s @ t) = Inl e"
proof (induction s rule: parse_stream.induct)
  case (1 s)
  then have l: "4 \<le> length s" by (auto simp: parse_stream.simps[of s] split: if_splits)
  then have "stream_header (s @ t) = stream_header s" by simp
  with 1 l show ?case
    by (auto simp: parse_stream.simps[of s] parse_stream.simps[of "s @ t"] bind_res_eq_Inl
      split: if_splits)
qed

lemma holds_idle:
  assumes "holds co p"
  shows "parse_stream p = Inr ([], p)"
proof (cases "length p < 4")
  case True
  then show ?thesis by (rule parse_stream_short)
next
  case False
  with holds_shape[OF assms] show ?thesis by (auto intro: parse_stream_short parse_stream_partial)
qed

lemma unpack_all_append:
  "unpack_all pk i (as @ bs) =
     bind_res (unpack_all pk i as) (\<lambda>(pk1, t1). bind_res (unpack_all pk1 i bs) (\<lambda>(pk2, t2). Inr (pk2, t1 @ t2)))"
  by (induction as arbitrary: pk) (auto simp: bind_res_assoc bind_res_right split_def)

lemma unpack_all_meets:
  assumes "holds (net_id_to_buffer_map pk net_id) p" and "[] \<notin> set ds"
    and "parse_stream (p @ concat ds) = Inr (ms, r)"
  shows "\<exists>pk'. unpack_all pk net_id ds = Inr (pk', delivered pk net_id ms) \<and>
    holds (net_id_to_buffer_map pk' net_id) r \<and> has_net_manager pk' = has_net_manager pk \<and>
    (\<forall>i. i \<noteq> net_id \<longrightarrow> net_id_to_buffer_map pk' i = net_id_to_buffer_map pk i)"
  using assms
proof (induction ds arbitrary: pk p ms)
  case Nil
  then show ?case using holds_idle[OF Nil(1)] by auto
next
  case (Cons d ds)
  have d: "d \<noteq> []" using Cons.prems(2) by auto
  obtain m1 r1 where p1: "parse_stream (p @ d) = Inr (m1, r1)"
    using parse_stream_append_error[of "p @ d" _ "concat ds"] Cons.prems(3)
    by (cases "parse_stream (p @ d)") auto
  from UnPack_meets[OF Cons.prems(1) d] p1 obtain c where
    c: "UnPack pk net_id d (int (length d)) = Inr (put_cache pk net_id c, delivered pk net_id m1)"
      "holds (Some c) r1" by (auto simp: unpack_meets_def)
  from parse_stream_append[OF p1, of "concat ds"] Cons.prems(3) obtain m2 where
    p2: "parse_stream (r1 @ concat ds) = Inr (m2, r)" "ms = m1 @ m2"
    by (auto simp: bind_res_eq_Inr)
  from Cons.IH[of "put_cache pk net_id c" r1 m2] c(2) Cons.prems(2) p2(1) obtain pk' where
    "unpack_all (put_cache pk net_id c) net_id ds = Inr (pk', delivered pk net_id m2)"
    "holds (net_id_to_buffer_map pk' net_id) r" "has_net_manager pk' = has_net_manager pk"
    "\<forall>i. i \<noteq> net_id \<longrightarrow> net_id_to_buffer_map pk' i = net_id_to_buffer_map pk i" by auto
  with c(1) p2(2) show ?case by (auto simp: delivered_def)
qed

text \<open>A stream of framed messages parses into them.\<close>

lemma parse_stream_frames:
  assumes "\<forall>m \<in> set ms. 4 + int (length m) \<le> INT_MAX" and "ms \<noteq> [] \<Longrightarrow> last ms \<noteq> []"
  shows "parse_stream (concat (map frame ms)) = Inr (ms, [])"
  using assms
proof (induction ms)
  case Nil
  then show ?case by (simp add: parse_stream_short)
next
  case (Cons m ms)
  let ?s = "concat (map frame ms)"
  have h: "stream_header (frame m @ ?s) = int (length m)"
    using Cons.prems(1) by (intro stream_header_frame) auto
  have "4 < length (frame m @ ?s)"
    using Cons.prems(2) by (cases ms) (auto simp: frame_def)
  with parse_stream_whole[of "frame m @ ?s"] h Cons.prems(1)
  have "parse_stream (frame m @ ?s) =
      bind_res (parse_stream ?s) (\<lambda>(ms', r). Inr (m # ms', r))"
    by (simp add: frame_def)
  moreover have "parse_stream ?s = Inr (ms, [])"
    using Cons.prems by (intro Cons.IH) (auto split: if_splits)
  ultimately show ?case by simp
qed

text \<open>
  C1: However the socket cuts the byte stream of a connection into pieces, the messages handed up
  are exactly the messages sent, in order, and the cache ends empty; other connections are
  untouched. The last message must not be empty: an empty one is only handed up when the next
  byte arrives.
\<close>

theorem UnPack_any_chunking:
  assumes "holds (net_id_to_buffer_map pk net_id) []"
    and "\<forall>m \<in> set ms. 4 + int (length m) \<le> INT_MAX" and "ms \<noteq> []" and "last ms \<noteq> []"
    and "concat pieces = concat (map frame ms)" and "[] \<notin> set pieces"
  shows "\<exists>pk'. unpack_all pk net_id pieces = Inr (pk', delivered pk net_id ms) \<and>
    holds (net_id_to_buffer_map pk' net_id) [] \<and>
    (\<forall>i. i \<noteq> net_id \<longrightarrow> net_id_to_buffer_map pk' i = net_id_to_buffer_map pk i)"
  using unpack_all_meets[OF assms(1,6), of ms "[]"] parse_stream_frames[OF assms(2)] assms(4,5) by auto

theorem UnPack_any_chunking_witness:
  "\<exists>pk'. unpack_all (CreatePacker FIX_HEAD True) 3 [[2, 0], [0, 0, 65, 66, 0], [0, 0, 0, 1, 0, 0, 0, 67]] =
     Inr (pk', [(3, [65, 66]), (3, []), (3, [67])]) \<and> holds (net_id_to_buffer_map pk' 3) []"
  using UnPack_any_chunking [of "CreatePacker FIX_HEAD True" 3 "[[65, 66], [], [67]]"
      "[[2, 0], [0, 0, 65, 66, 0], [0, 0, 0, 1, 0, 0, 0, 67]]"]
  by (auto simp: CreatePacker_def holds_def INT_MAX_def frame_def header_bytes_def delivered_def
    ManagerRecv_def)

text \<open>
  \<^verbatim>\<open>PackAndSend\<close> sends exactly the frame of its bytes, in one piece, for every length whose
  frame an \<^verbatim>\<open>int\<close> can count.
\<close>

theorem PackAndSend_sends_frame:
  assumes "4 + int (length data) \<le> INT_MAX"
  shows "PackAndSend pk net_id data (int (length data)) = Inr (ManagerSend pk net_id (frame data))"
  using assms by (rule PackAndSend_frame)

theorem PackAndSend_sends_frame_witness:
  "PackAndSend (CreatePacker FIX_HEAD True) 3 [65, 66] 2 = Inr [(3, [2, 0, 0, 0, 65, 66])]"
  using PackAndSend_sends_frame [of "[65, 66]" "CreatePacker FIX_HEAD True" 3]
  by (simp add: INT_MAX_def ManagerSend_def CreatePacker_def frame_def header_bytes_def)

text \<open>
  C31: A peer can put the receiver into undefined behaviour with five bytes: a header with any
  negative length followed by one more byte makes \<^verbatim>\<open>UnPack\<close> call \<^verbatim>\<open>memcpy\<close> with that negative length.
\<close>

theorem UnPack_negative_length_header:
  assumes "holds (net_id_to_buffer_map pk net_id) []" and "length h = 4" and "stream_header h < 0"
  shows "UnPack pk net_id (h @ b # bs) (int (length (h @ b # bs))) = Inl NegativeLength"
  using UnPack_meets[OF assms(1), of "h @ b # bs"] assms(2,3)
    parse_stream_negative[of "h @ b # bs"]
  by (simp add: unpack_meets_def)

theorem UnPack_negative_length_header_witness:
  "UnPack (CreatePacker FIX_HEAD True) 3 [255, 255, 255, 255, 0] 5 = Inl NegativeLength"
  using UnPack_negative_length_header [of "CreatePacker FIX_HEAD True" 3 "[255, 255, 255, 255]" 0 "[]"]
  by (simp add: CreatePacker_def holds_def stream_header_def)

end
