(* ===== verification/Sockets.thy ===== *)
theory Sockets
  imports SocketDef
begin

text \<open>
  \<^verbatim>\<open>SocketAccept\<close> and \<^verbatim>\<open>SocketConnect\<close> on Linux (\<^verbatim>\<open>elegance/platform/network/socket_accept.*\<close> and
  \<^verbatim>\<open>socket_connect.*\<close>). The operating system is a parameter: the results of its calls are arguments
  of the definitions, the calls that act on it are returned as a list of actions, and the calls
  to the \<^verbatim>\<open>ISocketHandler\<close> are returned as a list of events. One pass of the event loops is one
  definition; the loops consume a trace of \<^verbatim>\<open>epoll_wait\<close> results.
\<close>

section \<open>What the sockets and the operating system say to each other\<close>

datatype socket_event =
    EvAccept IPAddr Port Port
  | EvConnect IPAddr Port Port
  | EvRecv IPAddr Port Port "byte list"
  | EvDisconnect IPAddr Port Port

datatype os_action = OsSend int "byte list" | OsClose int | OsEpollAdd int | OsEpollDel int

text \<open>The result of \<^verbatim>\<open>read\<close>: the bytes it stored (none at the end of the stream) or -1.\<close>

datatype read_result = ReadBytes "byte list" | ReadError

definition read_size :: "read_result \<Rightarrow> int" where
  "read_size r = (case r of ReadBytes bs \<Rightarrow> int (length bs) | ReadError \<Rightarrow> -1)"

record epoll_event =
  ev_fd :: int
  ev_out :: bool
  ev_in :: bool

record listen_os =
  os_socket :: int
  os_bind :: int
  os_listen :: int
  os_epoll_create :: int
  os_epoll_ctl :: int

text \<open>What the system answers while one event is handled.\<close>

record event_os =
  os_accept :: int
  os_getfl :: int
  os_setfl :: int
  os_add :: int
  os_peer_ip :: IPAddr
  os_peer_port :: Port
  os_reads :: "read_result list"

section \<open>SocketAccept\<close>

record SocketAccept =
  acc_handler :: bool
  listening :: bool
  acc_local_port :: Port
  acc_local_sock :: int
  acc_epoll_fd :: int
  acc_buff :: "byte list"
  endpoint_sock_map :: "(Endpoint, int) std_map"
  sock_endpoint_map :: "int \<rightharpoonup> Endpoint"

text \<open>\<^verbatim>\<open>local_sock_\<close>, \<^verbatim>\<open>epoll_fd_\<close> and \<^verbatim>\<open>buff_\<close> are not initialised; their values are never read before
  they are set.\<close>

definition SocketAccept_new :: "byte list \<Rightarrow> SocketAccept" where
  "SocketAccept_new buff = \<lparr>acc_handler = False, listening = False, acc_local_port = 0,
     acc_local_sock = 0, acc_epoll_fd = 0, acc_buff = buff,
     endpoint_sock_map = [], sock_endpoint_map = Map.empty\<rparr>"

definition SocketAccept_ResetHandler :: "bool \<Rightarrow> SocketAccept \<Rightarrow> SocketAccept" where
  "SocketAccept_ResetHandler handler a = a\<lparr>acc_handler := handler\<rparr>"

text \<open>\<^verbatim>\<open>Listen\<close> up to the loop: whether the loop is entered.\<close>

definition SocketAccept_Listen_setup :: "listen_os \<Rightarrow> Port \<Rightarrow> SocketAccept \<Rightarrow> bool \<times> SocketAccept" where
  "SocketAccept_Listen_setup os port a =
     (if listening a then (False, a)
      else let a1 = a\<lparr>acc_local_sock := os_socket os\<rparr>
      in if os_socket os < 0 then (False, a1)
      else if os_bind os = -1 then (False, a1)
      else if os_listen os = -1 then (False, a1)
      else let a2 = a1\<lparr>acc_epoll_fd := os_epoll_create os\<rparr>
      in if os_epoll_create os = -1 then (False, a2)
      else if os_epoll_ctl os = -1 then (False, a2)
      else (True, a2\<lparr>acc_local_port := port, listening := True\<rparr>))"

text \<open>
  The loop around \<^verbatim>\<open>read\<close>: every piece is stored, terminated with a NUL and handed on, until a
  read gives nothing. When the trace ends, the next read would block.
\<close>

fun recv_loop ::
  "(byte list \<Rightarrow> socket_event list) \<Rightarrow> byte list \<Rightarrow> read_result list \<Rightarrow>
   (byte list \<times> socket_event list) res" where
  "recv_loop emit buff [] = Inr (buff, [])"
| "recv_loop emit buff (r # rs) =
     (case r of
        ReadError \<Rightarrow> Inr (buff, [])
      | ReadBytes bs \<Rightarrow>
          if read_size r > 0 then
            bind_res (memcpy buff 0 bs (read_size r)) (\<lambda>buff1.
            bind_res (memcpy buff1 (read_size r) [0] 1) (\<lambda>buff2.
            bind_res (read_mem buff2 0 (read_size r)) (\<lambda>data.
            bind_res (recv_loop emit buff2 rs) (\<lambda>(buff3, evs). Inr (buff3, emit data @ evs)))))
          else Inr (buff, []))"

definition first_read_positive :: "read_result list \<Rightarrow> bool" where
  "first_read_positive rs = (case rs of [] \<Rightarrow> False | r # _ \<Rightarrow> read_size r > 0)"

text \<open>Giving a connection up: the handler is told before the maps are cleared.\<close>

definition accept_drop :: "int \<Rightarrow> SocketAccept \<Rightarrow> SocketAccept \<times> socket_event list \<times> os_action list" where
  "accept_drop fd a =
     (let acts = [OsEpollDel fd, OsClose fd] in
      case sock_endpoint_map a fd of
        None \<Rightarrow> (a, [], acts)
      | Some e \<Rightarrow>
          (a\<lparr>endpoint_sock_map := map_erase Endpoint_less e (endpoint_sock_map a),
             sock_endpoint_map := (sock_endpoint_map a)(fd := None)\<rparr>,
           (if acc_handler a then [EvDisconnect (remote_ip_addr e) (remote_port e) (local_port e)] else []),
           acts))"

text \<open>
  One ready descriptor of the loop in \<^verbatim>\<open>Listen\<close>. The last component says whether the loop goes on;
  if not, \<^verbatim>\<open>Listen\<close> returns false.
\<close>

definition SocketAccept_event ::
  "epoll_event \<Rightarrow> event_os \<Rightarrow> SocketAccept \<Rightarrow>
   (SocketAccept \<times> socket_event list \<times> os_action list \<times> bool) res" where
  "SocketAccept_event ev os a =
     (if ev_fd ev = acc_local_sock a then
        (if os_accept os = -1 then Inr (a, [], [], False)
         else if os_getfl os < 0 then Inr (a, [], [], False)
         else if os_setfl os < 0 then Inr (a, [], [], False)
         else if os_add os = -1 then Inr (a, [], [], False)
         else
           let e = \<lparr>remote_ip_addr = os_peer_ip os, remote_port = os_peer_port os,
                    local_port = acc_local_port a\<rparr>;
               a1 = a\<lparr>sock_endpoint_map := (sock_endpoint_map a)(os_accept os \<mapsto> e),
                      endpoint_sock_map := map_put Endpoint_less e (os_accept os) (endpoint_sock_map a)\<rparr>
           in Inr (a1,
                (if acc_handler a then [EvAccept (remote_ip_addr e) (remote_port e) (local_port e)] else []),
                [OsEpollAdd (os_accept os)], True))
      else if ev_out ev then Inr (a, [], [], True)
      else if ev_in ev then
        (if first_read_positive (os_reads os) then
           bind_res (recv_loop
               (\<lambda>data. case sock_endpoint_map a (ev_fd ev) of
                  None \<Rightarrow> []
                | Some e \<Rightarrow> if acc_handler a
                    then [EvRecv (remote_ip_addr e) (remote_port e) (local_port e) data] else [])
               (acc_buff a) (os_reads os))
             (\<lambda>(buff, evs). Inr (a\<lparr>acc_buff := buff\<rparr>, evs, [], True))
         else let (a1, evs, acts) = accept_drop (ev_fd ev) a in Inr (a1, evs, acts, True))
      else let (a1, evs, acts) = accept_drop (ev_fd ev) a in Inr (a1, evs, acts, True))"

text \<open>
  The loop: the descriptors of one \<^verbatim>\<open>epoll_wait\<close>, and the sequence of waits (\<open>None\<close> when one fails).
  The last component is false once \<^verbatim>\<open>Listen\<close> has returned (always with false).
\<close>

fun SocketAccept_pass ::
  "(epoll_event \<times> event_os) list \<Rightarrow> SocketAccept \<Rightarrow>
   (SocketAccept \<times> socket_event list \<times> os_action list \<times> bool) res" where
  "SocketAccept_pass [] a = Inr (a, [], [], True)"
| "SocketAccept_pass ((ev, os) # es) a =
     bind_res (SocketAccept_event ev os a) (\<lambda>(a1, evs1, acts1, go).
       if go then
         bind_res (SocketAccept_pass es a1) (\<lambda>(a2, evs2, acts2, go2).
           Inr (a2, evs1 @ evs2, acts1 @ acts2, go2))
       else Inr (a1, evs1, acts1, False))"

fun SocketAccept_loop ::
  "(epoll_event \<times> event_os) list option list \<Rightarrow> SocketAccept \<Rightarrow>
   (SocketAccept \<times> socket_event list \<times> os_action list \<times> bool) res" where
  "SocketAccept_loop [] a = Inr (a, [], [], True)"
| "SocketAccept_loop (None # ws) a = Inr (a, [], [], False)"
| "SocketAccept_loop (Some es # ws) a =
     bind_res (SocketAccept_pass es a) (\<lambda>(a1, evs1, acts1, go).
       if go then
         bind_res (SocketAccept_loop ws a1) (\<lambda>(a2, evs2, acts2, go2).
           Inr (a2, evs1 @ evs2, acts1 @ acts2, go2))
       else Inr (a1, evs1, acts1, False))"

text \<open>
  \<open>OsSend\<close> is the call of \<^verbatim>\<open>send\<close> on the non-blocking socket and \<open>os_send\<close> its result. The code only compares the
  result with -1: of a short write the rest is not sent, and \<^verbatim>\<open>Write\<close> still returns true.
\<close>

definition SocketAccept_Write ::
  "int \<Rightarrow> IPAddr \<Rightarrow> Port \<Rightarrow> byte list option \<Rightarrow> int \<Rightarrow> SocketAccept \<Rightarrow> (bool \<times> os_action list) res" where
  "SocketAccept_Write os_send ip port data len a =
     (case data of
        None \<Rightarrow> Inr (False, [])
      | Some bs \<Rightarrow>
          if len \<le> 0 then Inr (False, [])
          else case map_find Endpoint_less
              \<lparr>remote_ip_addr = ip, remote_port = port, local_port = acc_local_port a\<rparr>
              (endpoint_sock_map a) of
            None \<Rightarrow> Inr (False, [])
          | Some cur_sock \<Rightarrow>
              bind_res (read_mem bs 0 len) (\<lambda>out. Inr (os_send \<noteq> -1, [OsSend cur_sock out])))"

definition SocketAccept_Disconnect ::
  "IPAddr \<Rightarrow> Port \<Rightarrow> SocketAccept \<Rightarrow> bool \<times> os_action list" where
  "SocketAccept_Disconnect ip port a =
     (case map_find Endpoint_less
          \<lparr>remote_ip_addr = ip, remote_port = port, local_port = acc_local_port a\<rparr>
          (endpoint_sock_map a) of
        None \<Rightarrow> (False, [])
      | Some cur_sock \<Rightarrow> (True, [OsClose cur_sock]))"

definition SocketAccept_CheckOnHandle :: "IPAddr \<Rightarrow> Port \<Rightarrow> SocketAccept \<Rightarrow> bool" where
  "SocketAccept_CheckOnHandle ip port a =
     (map_find Endpoint_less
        \<lparr>remote_ip_addr = ip, remote_port = port, local_port = acc_local_port a\<rparr>
        (endpoint_sock_map a) \<noteq> None)"

section \<open>SocketConnect\<close>

record SocketConnect =
  con_handler :: bool
  running :: bool
  con_remote_ip :: IPAddr
  con_remote_port :: Port
  con_local_port :: Port
  con_buff :: "byte list"
  con_local_sock :: int
  con_epoll_fd :: int

definition SocketConnect_new :: "byte list \<Rightarrow> SocketConnect" where
  "SocketConnect_new buff = \<lparr>con_handler = False, running = False, con_remote_ip = [],
     con_remote_port = 0, con_local_port = 0, con_buff = buff, con_local_sock = 0, con_epoll_fd = 0\<rparr>"

definition SocketConnect_ResetHandler :: "bool \<Rightarrow> SocketConnect \<Rightarrow> SocketConnect" where
  "SocketConnect_ResetHandler handler c = c\<lparr>con_handler := handler\<rparr>"

definition SocketConnect_Disconnect :: "SocketConnect \<Rightarrow> bool \<times> SocketConnect" where
  "SocketConnect_Disconnect c = (True, c\<lparr>running := False\<rparr>)"

definition SocketConnect_GetLocalPort :: "SocketConnect \<Rightarrow> Port" where
  "SocketConnect_GetLocalPort c = con_local_port c"

definition SocketConnect_CheckOnHandle :: "IPAddr \<Rightarrow> Port \<Rightarrow> SocketConnect \<Rightarrow> bool" where
  "SocketConnect_CheckOnHandle ip port c = (ip = con_remote_ip c \<and> port = con_remote_port c)"

record connect_os =
  co_socket :: int
  co_connect :: int
  co_sockname_port :: Port
  co_getfl :: int
  co_setfl :: int
  co_epoll_create :: int
  co_epoll_ctl :: int

text \<open>
  \<^verbatim>\<open>Connect\<close> up to the call of the handler, and from there to the loop: whether to go on, and the
  events so far.
\<close>

definition SocketConnect_open :: "connect_os \<Rightarrow> IPAddr \<Rightarrow> Port \<Rightarrow> SocketConnect \<Rightarrow> bool \<times> SocketConnect" where
  "SocketConnect_open os ip port c =
     (if running c then (False, c)
      else let c1 = c\<lparr>con_local_sock := co_socket os\<rparr>
      in if co_socket os < 0 then (False, c1)
      else if co_connect os = -1 then (False, c1)
      else let c2 = c1\<lparr>con_local_port := co_sockname_port os\<rparr>
      in if co_getfl os < 0 then (False, c2)
      else if co_setfl os < 0 then (False, c2)
      else let c3 = c2\<lparr>con_epoll_fd := co_epoll_create os\<rparr>
      in if co_epoll_create os = -1 then (False, c3)
      else (True, c3\<lparr>con_remote_ip := ip, con_remote_port := port\<rparr>))"

definition SocketConnect_connected :: "SocketConnect \<Rightarrow> socket_event list" where
  "SocketConnect_connected c =
     (if con_handler c then [EvConnect (con_remote_ip c) (con_remote_port c) (con_local_port c)] else [])"

definition SocketConnect_enter_loop :: "connect_os \<Rightarrow> SocketConnect \<Rightarrow> bool \<times> SocketConnect" where
  "SocketConnect_enter_loop os c =
     (if co_epoll_ctl os = -1 then (False, c) else (True, c\<lparr>running := True\<rparr>))"

definition connect_lost :: "SocketConnect \<Rightarrow> int \<Rightarrow> socket_event list \<times> os_action list" where
  "connect_lost c fd =
     ((if con_handler c then [EvDisconnect (con_remote_ip c) (con_remote_port c) (con_local_port c)] else []),
      [OsEpollDel fd, OsClose fd])"

text \<open>One ready descriptor of the loop in \<^verbatim>\<open>Connect\<close>; the last component is \<^verbatim>\<open>socket_error\<close>.\<close>

definition SocketConnect_event ::
  "epoll_event \<Rightarrow> read_result list \<Rightarrow> SocketConnect \<Rightarrow>
   (SocketConnect \<times> socket_event list \<times> os_action list \<times> bool) res" where
  "SocketConnect_event ev reads c =
     (if ev_out ev then Inr (c, [], [], False)
      else if ev_in ev then
        (if first_read_positive reads then
           bind_res (recv_loop
               (\<lambda>data. if con_handler c
                  then [EvRecv (con_remote_ip c) (con_remote_port c) (con_local_port c) data] else [])
               (con_buff c) reads)
             (\<lambda>(buff, evs). Inr (c\<lparr>con_buff := buff\<rparr>, evs, [], False))
         else let (evs, acts) = connect_lost c (ev_fd ev) in Inr (c, evs, acts, True))
      else let (evs, acts) = connect_lost c (ev_fd ev) in Inr (c, evs, acts, True))"

text \<open>
  One pass of the \<^verbatim>\<open>while\<close> loop over the descriptors \<^verbatim>\<open>epoll_wait\<close> gave: whether one of them failed.
\<close>

fun SocketConnect_pass ::
  "(epoll_event \<times> read_result list) list \<Rightarrow> SocketConnect \<Rightarrow>
   (SocketConnect \<times> socket_event list \<times> os_action list \<times> bool) res" where
  "SocketConnect_pass [] c = Inr (c, [], [], False)"
| "SocketConnect_pass ((ev, reads) # es) c =
     bind_res (SocketConnect_event ev reads c) (\<lambda>(c1, evs1, acts1, err1).
     bind_res (SocketConnect_pass es c1) (\<lambda>(c2, evs2, acts2, err2).
       Inr (c2, evs1 @ evs2, acts1 @ acts2, err1 \<or> err2)))"

definition SocketConnect_Write :: "int \<Rightarrow> byte list \<Rightarrow> int \<Rightarrow> SocketConnect \<Rightarrow> (bool \<times> os_action list) res" where
  "SocketConnect_Write os_send data len c =
     bind_res (read_mem data 0 len) (\<lambda>out. Inr (os_send \<noteq> -1, [OsSend (con_local_sock c) out]))"

section \<open>Receiving\<close>

text \<open>The pieces a sequence of reads stores before one gives nothing.\<close>

fun pieces :: "read_result list \<Rightarrow> byte list list" where
  "pieces [] = []"
| "pieces (ReadError # rs) = []"
| "pieces (ReadBytes bs # rs) = (if bs = [] then [] else bs # pieces rs)"

lemma recv_loop_exact:
  assumes "int (length buff) = MAX_SOCKET_MSG_BUFF_LENGTH"
    and "\<forall>bs \<in> set (pieces rs). int (length bs) < MAX_SOCKET_MSG_BUFF_LENGTH"
  shows "\<exists>buff'. recv_loop emit buff rs = Inr (buff', concat (map emit (pieces rs))) \<and>
    int (length buff') = MAX_SOCKET_MSG_BUFF_LENGTH"
  using assms
proof (induction emit buff rs rule: recv_loop.induct)
  case (1 emit buff)
  then show ?case by simp
next
  case (2 emit buff r rs)
  show ?case
  proof (cases r)
    case ReadError
    with 2 show ?thesis by simp
  next
    case (ReadBytes bs)
    show ?thesis
    proof (cases "bs = []")
      case True
      with 2 ReadBytes show ?thesis by (simp add: read_size_def)
    next
      case False
      define n where "n = length bs"
      have n: "0 < n" "int n < int (length buff)" "read_size r = int n"
        using 2(2,3) ReadBytes False by (auto simp: n_def read_size_def)
      define b1 where "b1 = bs @ drop n buff"
      define b2 where "b2 = bs @ 0 # drop (Suc n) buff"
      have m1: "memcpy buff 0 bs (int n) = Inr b1"
        using n by (simp add: memcpy_def b1_def n_def)
      have m2: "memcpy b1 (int n) [0] 1 = Inr b2"
        using n by (simp add: memcpy_def b1_def b2_def n_def nat_add_distrib)
      have m3: "read_mem b2 0 (int n) = Inr bs" by (simp add: read_mem_def b2_def n_def)
      have l2: "int (length b2) = MAX_SOCKET_MSG_BUFF_LENGTH" using n 2(2) by (simp add: b2_def n_def)
      have "\<exists>buff'. recv_loop emit b2 rs = Inr (buff', concat (map emit (pieces rs))) \<and>
          int (length buff') = MAX_SOCKET_MSG_BUFF_LENGTH"
        using "2.IH"[of bs b1 b2 bs] ReadBytes n m1 m2 m3 l2 2(3) False by simp
      with ReadBytes n m1 m2 m3 False show ?thesis by auto
    qed
  qed
qed

lemma recv_loop_full_buffer:
  assumes "int (length buff) = MAX_SOCKET_MSG_BUFF_LENGTH"
    and "int (length bs) = MAX_SOCKET_MSG_BUFF_LENGTH"
  shows "recv_loop emit buff (ReadBytes bs # rs) = Inl OutOfBounds"
  using assms by (simp add: read_size_def memcpy_def MAX_SOCKET_MSG_BUFF_LENGTH_def)

lemma accept_event_pieces:
  assumes "int (length (acc_buff a)) = MAX_SOCKET_MSG_BUFF_LENGTH"
    and "\<forall>bs \<in> set (pieces (os_reads os)). int (length bs) < MAX_SOCKET_MSG_BUFF_LENGTH"
    and "pieces (os_reads os) \<noteq> []" and "ev_fd ev \<noteq> acc_local_sock a" and "\<not> ev_out ev" and "ev_in ev"
    and "sock_endpoint_map a (ev_fd ev) = Some e" and "acc_handler a"
  shows "\<exists>buff. SocketAccept_event ev os a = Inr (a\<lparr>acc_buff := buff\<rparr>,
      map (EvRecv (remote_ip_addr e) (remote_port e) (local_port e)) (pieces (os_reads os)), [], True) \<and>
    int (length buff) = MAX_SOCKET_MSG_BUFF_LENGTH"
proof -
  have f: "first_read_positive (os_reads os)"
    using assms(3) by (cases "os_reads os" rule: pieces.cases)
      (auto simp: first_read_positive_def read_size_def split: if_splits)
  have c: "concat (map (\<lambda>x. [f x]) xs) = map f xs" for f :: "byte list \<Rightarrow> socket_event" and xs
    by (induction xs) auto
  from recv_loop_exact[OF assms(1,2),
      of "\<lambda>data. [EvRecv (remote_ip_addr e) (remote_port e) (local_port e) data]"] f assms(4-)
  show ?thesis by (auto simp: SocketAccept_event_def c)
qed

lemma connect_event_pieces:
  assumes "int (length (con_buff c)) = MAX_SOCKET_MSG_BUFF_LENGTH"
    and "\<forall>bs \<in> set (pieces rs). int (length bs) < MAX_SOCKET_MSG_BUFF_LENGTH"
    and "pieces rs \<noteq> []" and "\<not> ev_out ev" and "ev_in ev" and "con_handler c"
  shows "\<exists>buff. SocketConnect_event ev rs c = Inr (c\<lparr>con_buff := buff\<rparr>,
      map (EvRecv (con_remote_ip c) (con_remote_port c) (con_local_port c)) (pieces rs), [], False) \<and>
    int (length buff) = MAX_SOCKET_MSG_BUFF_LENGTH"
proof -
  have f: "first_read_positive rs"
    using assms(3) by (cases rs rule: pieces.cases)
      (auto simp: first_read_positive_def read_size_def split: if_splits)
  have c: "concat (map (\<lambda>x. [f x]) xs) = map f xs" for f :: "byte list \<Rightarrow> socket_event" and xs
    by (induction xs) auto
  from recv_loop_exact[OF assms(1,2),
      of "\<lambda>data. [EvRecv (con_remote_ip c) (con_remote_port c) (con_local_port c) data]"] f assms(4-)
  show ?thesis by (auto simp: SocketConnect_event_def c)
qed

section \<open>The two maps of SocketAccept\<close>

text \<open>
  Every open descriptor has an endpoint with the local port, the endpoint leads back to it, and
  every endpoint in the other map belongs to an open descriptor.
\<close>

definition accept_ok :: "SocketAccept \<Rightarrow> bool" where
  "accept_ok a \<longleftrightarrow>
     (\<forall>fd e. sock_endpoint_map a fd = Some e \<longrightarrow>
        local_port e = acc_local_port a \<and> map_find Endpoint_less e (endpoint_sock_map a) = Some fd) \<and>
     (\<forall>fd e. map_find Endpoint_less e (endpoint_sock_map a) = Some fd \<longrightarrow>
        (\<exists>e'. sock_endpoint_map a fd = Some e' \<and> equiv_key Endpoint_less e' e))"

text \<open>
  A peer that is new to both maps: its descriptor is not a key of \<^verbatim>\<open>sock_endpoint_map_\<close> and no key of
  \<^verbatim>\<open>endpoint_sock_map_\<close> has an address of the same length and the same port. \<^verbatim>\<open>Disconnect\<close> leaves its peer in the maps,
  so this is more than that the descriptor is not open.
\<close>

definition fresh_peer :: "event_os \<Rightarrow> SocketAccept \<Rightarrow> bool" where
  "fresh_peer os a \<longleftrightarrow> sock_endpoint_map a (os_accept os) = None \<and>
     map_find Endpoint_less
       \<lparr>remote_ip_addr = os_peer_ip os, remote_port = os_peer_port os, local_port = acc_local_port a\<rparr>
       (endpoint_sock_map a) = None"

lemma accept_okD:
  assumes "accept_ok a"
  shows "\<And>fd e. sock_endpoint_map a fd = Some e \<Longrightarrow>
      local_port e = acc_local_port a \<and> map_find Endpoint_less e (endpoint_sock_map a) = Some fd"
    and "\<And>fd e. map_find Endpoint_less e (endpoint_sock_map a) = Some fd \<Longrightarrow>
      \<exists>e'. sock_endpoint_map a fd = Some e' \<and> equiv_key Endpoint_less e' e"
  using assms by (auto simp: accept_ok_def)

lemma accept_ok_put:
  assumes "accept_ok a" and "sock_endpoint_map a fd = None"
    and "map_find Endpoint_less e (endpoint_sock_map a) = None" and "local_port e = acc_local_port a"
  shows "accept_ok (a\<lparr>sock_endpoint_map := (sock_endpoint_map a)(fd \<mapsto> e),
    endpoint_sock_map := map_put Endpoint_less e fd (endpoint_sock_map a)\<rparr>)"
proof -
  have n: "\<not> equiv_key Endpoint_less e e'" if "sock_endpoint_map a fd' = Some e'" for fd' e'
    using assms(1,3) that endpoint_keys.find_cong[of e e' "endpoint_sock_map a"]
    by (auto simp: accept_ok_def)
  note D = accept_okD[OF assms(1)]
  have o: "map_find Endpoint_less e' (endpoint_sock_map a) \<noteq> Some fd" for e'
    using D(2)[of e' fd] assms(2) by auto
  show ?thesis unfolding accept_ok_def
    using D n o assms(4) by (simp add: endpoint_keys.find_put)
qed

lemma accept_ok_erase:
  assumes "accept_ok a" and "sock_endpoint_map a fd = Some e"
  shows "accept_ok (a\<lparr>endpoint_sock_map := map_erase Endpoint_less e (endpoint_sock_map a),
    sock_endpoint_map := (sock_endpoint_map a)(fd := None)\<rparr>)"
proof -
  note D = accept_okD[OF assms(1)]
  have inj: "\<not> equiv_key Endpoint_less e e'" if "fd' \<noteq> fd" "sock_endpoint_map a fd' = Some e'" for fd' e'
    using that D(1)[OF assms(2)] D(1)[OF that(2)] endpoint_keys.find_cong[of e e' "endpoint_sock_map a"]
    by auto
  have rev: "fd' \<noteq> fd" if "\<not> equiv_key Endpoint_less e e'"
      "map_find Endpoint_less e' (endpoint_sock_map a) = Some fd'" for fd' e'
    using that D(2)[OF that(2)] assms(2) by auto
  show ?thesis unfolding accept_ok_def
  proof (intro conjI allI impI, goal_cases)
    case (1 fd' e')
    then show ?case using D(1)[of fd' e'] by (simp split: if_splits)
  next
    case (2 fd' e')
    then show ?case using D(1)[of fd' e'] inj[of fd' e'] by (simp add: endpoint_keys.find_erase split: if_splits)
  next
    case (3 fd' e')
    then have "\<not> equiv_key Endpoint_less e e'" "map_find Endpoint_less e' (endpoint_sock_map a) = Some fd'"
      by (simp_all add: endpoint_keys.find_erase split: if_splits)
    then show ?case using rev D(2)[of e' fd'] by simp
  qed
qed

lemma accept_ok_drop: "accept_ok a \<Longrightarrow> accept_drop fd a = (a', evs, acts) \<Longrightarrow> accept_ok a'"
  using accept_ok_erase[of a fd] by (auto simp: accept_drop_def Let_def split: option.splits)

lemma accept_ok_event:
  assumes "accept_ok a" and "ev_fd ev = acc_local_sock a \<Longrightarrow> fresh_peer os a"
    and "SocketAccept_event ev os a = Inr (a', evs, acts, go)"
  shows "accept_ok a'"
proof -
  have upd: "accept_ok (a\<lparr>acc_buff := b\<rparr>)" for b using assms(1) by (simp add: accept_ok_def)
  consider (acc) "ev_fd ev = acc_local_sock a"
    | (recv) "a' = a \<or> (\<exists>b. a' = a\<lparr>acc_buff := b\<rparr>)"
    | (drop) "\<exists>evs acts. accept_drop (ev_fd ev) a = (a', evs, acts)"
    using assms(3) by (auto simp: SocketAccept_event_def bind_res_eq_Inr split: if_splits prod.splits)
  then show ?thesis
  proof cases
    case acc
    with assms accept_ok_put[OF assms(1)] show ?thesis
      by (auto simp: SocketAccept_event_def fresh_peer_def Let_def split: if_splits)
  next
    case recv
    then show ?thesis using assms(1) upd by auto
  next
    case drop
    then show ?thesis using accept_ok_drop[OF assms(1)] by auto
  qed
qed

text \<open>
  The states a listening socket reaches while every accepted peer is new to its maps; in them the
  maps are inverse to each other.
\<close>

inductive accept_reachable :: "SocketAccept \<Rightarrow> bool" where
  start: "SocketAccept_Listen_setup os port (SocketAccept_ResetHandler h (SocketAccept_new buff)) = (True, a) \<Longrightarrow>
    accept_reachable a"
| event: "accept_reachable a \<Longrightarrow> (ev_fd ev = acc_local_sock a \<Longrightarrow> fresh_peer os a) \<Longrightarrow>
    SocketAccept_event ev os a = Inr (a', evs, acts, go) \<Longrightarrow> accept_reachable a'"

lemma accept_reachable_ok: "accept_reachable a \<Longrightarrow> accept_ok a"
proof (induction rule: accept_reachable.induct)
  case (start os port h buff a)
  then show ?case
    by (auto simp: SocketAccept_Listen_setup_def SocketAccept_ResetHandler_def SocketAccept_new_def
      accept_ok_def Let_def split: if_splits)
next
  case (event a ev os a' evs acts go)
  then show ?case using accept_ok_event by blast
qed

text \<open>What a write, a disconnect and a check find for an open peer.\<close>

lemma found_write:
  assumes "local_port e = acc_local_port a" and "map_find Endpoint_less e (endpoint_sock_map a) = Some fd" and "data \<noteq> []"
  shows "SocketAccept_Write r (remote_ip_addr e) (remote_port e) (Some data) (int (length data)) a =
      Inr (r \<noteq> -1, [OsSend fd data]) \<and>
    SocketAccept_Disconnect (remote_ip_addr e) (remote_port e) a = (True, [OsClose fd]) \<and>
    SocketAccept_CheckOnHandle (remote_ip_addr e) (remote_port e) a"
proof -
  have "e = \<lparr>remote_ip_addr = remote_ip_addr e, remote_port = remote_port e, local_port = acc_local_port a\<rparr>"
    using assms(1) by auto
  then have "map_find Endpoint_less \<lparr>remote_ip_addr = remote_ip_addr e, remote_port = remote_port e,
      local_port = acc_local_port a\<rparr> (endpoint_sock_map a) = Some fd" using assms(2) by simp
  with assms(3) show ?thesis
    by (simp add: SocketAccept_Write_def SocketAccept_Disconnect_def SocketAccept_CheckOnHandle_def
      read_mem_def)
qed

lemma accept_ok_write:
  assumes "accept_ok a" and "sock_endpoint_map a fd = Some e" and "data \<noteq> []"
  shows "SocketAccept_Write r (remote_ip_addr e) (remote_port e) (Some data) (int (length data)) a =
      Inr (r \<noteq> -1, [OsSend fd data]) \<and>
    SocketAccept_Disconnect (remote_ip_addr e) (remote_port e) a = (True, [OsClose fd]) \<and>
    SocketAccept_CheckOnHandle (remote_ip_addr e) (remote_port e) a"
  using accept_okD(1)[OF assms(1,2)] found_write[OF _ _ assms(3)] by blast

section \<open>Open descriptors\<close>

text \<open>
  The socket beside the descriptors of peers that are open in the process. The system accepts with a
  descriptor that is not open and reports events of descriptors that are. \<^verbatim>\<open>Disconnect\<close> may be called at any
  time; it closes a descriptor and leaves the maps, so a descriptor may come back while the maps
  still hold its old peer. \<^verbatim>\<open>operator<\<close> does not tell peers with the same port and addresses of
  the same length apart, so a new peer is asked to differ in one of them from the open ones.
\<close>

definition closed_by :: "os_action list \<Rightarrow> int set" where
  "closed_by acts = {fd. OsClose fd \<in> set acts}"

definition distinct_peer :: "event_os \<Rightarrow> SocketAccept \<Rightarrow> int set \<Rightarrow> bool" where
  "distinct_peer os a F \<longleftrightarrow> (\<forall>fd e. fd \<in> F \<longrightarrow> sock_endpoint_map a fd = Some e \<longrightarrow>
     length (remote_ip_addr e) \<noteq> length (os_peer_ip os) \<or> remote_port e \<noteq> os_peer_port os)"

inductive serving :: "SocketAccept \<Rightarrow> int set \<Rightarrow> bool" where
  start: "SocketAccept_Listen_setup os port (SocketAccept_ResetHandler h (SocketAccept_new buff)) = (True, a) \<Longrightarrow>
    serving a {}"
| accepting: "serving a F \<Longrightarrow> ev_fd ev = acc_local_sock a \<Longrightarrow> os_accept os \<notin> F \<Longrightarrow> distinct_peer os a F \<Longrightarrow>
    SocketAccept_event ev os a = Inr (a', evs, acts, go) \<Longrightarrow> serving a' (if go then insert (os_accept os) F else F)"
| event: "serving a F \<Longrightarrow> ev_fd ev \<noteq> acc_local_sock a \<Longrightarrow> ev_fd ev \<in> F \<Longrightarrow>
    SocketAccept_event ev os a = Inr (a', evs, acts, go) \<Longrightarrow> serving a' (F - closed_by acts)"
| disconnect: "serving a F \<Longrightarrow> SocketAccept_Disconnect ip port a = (r, acts) \<Longrightarrow> serving a (F - closed_by acts)"

definition open_found :: "SocketAccept \<Rightarrow> int set \<Rightarrow> bool" where
  "open_found a F \<longleftrightarrow> (\<forall>fd \<in> F. \<exists>e. sock_endpoint_map a fd = Some e \<and> local_port e = acc_local_port a \<and>
     map_find Endpoint_less e (endpoint_sock_map a) = Some fd)"

lemma open_found_subset: "open_found a F \<Longrightarrow> F' \<subseteq> F \<Longrightarrow> open_found a F'"
  by (auto simp: open_found_def)

lemma open_found_accept:
  assumes "open_found a F" and "fd \<notin> F" and "distinct_peer os a F"
    and "e = \<lparr>remote_ip_addr = os_peer_ip os, remote_port = os_peer_port os, local_port = acc_local_port a\<rparr>"
  shows "open_found (a\<lparr>sock_endpoint_map := (sock_endpoint_map a)(fd \<mapsto> e),
    endpoint_sock_map := map_put Endpoint_less e fd (endpoint_sock_map a)\<rparr>) (insert fd F)"
  unfolding open_found_def
proof
  fix fd' assume f: "fd' \<in> insert fd F"
  show "\<exists>e'. sock_endpoint_map (a\<lparr>sock_endpoint_map := (sock_endpoint_map a)(fd \<mapsto> e),
      endpoint_sock_map := map_put Endpoint_less e fd (endpoint_sock_map a)\<rparr>) fd' = Some e' \<and>
    local_port e' = acc_local_port (a\<lparr>sock_endpoint_map := (sock_endpoint_map a)(fd \<mapsto> e),
      endpoint_sock_map := map_put Endpoint_less e fd (endpoint_sock_map a)\<rparr>) \<and>
    map_find Endpoint_less e' (endpoint_sock_map (a\<lparr>sock_endpoint_map := (sock_endpoint_map a)(fd \<mapsto> e),
      endpoint_sock_map := map_put Endpoint_less e fd (endpoint_sock_map a)\<rparr>)) = Some fd'"
  proof (cases "fd' = fd")
    case True
    then show ?thesis using assms(4) by (simp add: endpoint_keys.find_put equiv_Endpoint)
  next
    case False
    with f assms(1) obtain e' where e': "sock_endpoint_map a fd' = Some e'" "local_port e' = acc_local_port a"
      "map_find Endpoint_less e' (endpoint_sock_map a) = Some fd'" by (auto simp: open_found_def)
    have "length (remote_ip_addr e') \<noteq> length (os_peer_ip os) \<or> remote_port e' \<noteq> os_peer_port os"
      using assms(3) e'(1) f False unfolding distinct_peer_def by blast
    then have "\<not> equiv_key Endpoint_less e e'" using assms(4) by (auto simp: equiv_Endpoint)
    with e' False show ?thesis by (simp add: endpoint_keys.find_put)
  qed
qed

lemma open_found_drop:
  assumes "open_found a F" and "fd \<in> F" and "accept_drop fd a = (a', evs, acts)"
  shows "open_found a' (F - closed_by acts)"
  unfolding open_found_def
proof
  from assms(1,2) obtain e where e: "sock_endpoint_map a fd = Some e" "map_find Endpoint_less e (endpoint_sock_map a) = Some fd"
    by (auto simp: open_found_def)
  have a': "a' = a\<lparr>endpoint_sock_map := map_erase Endpoint_less e (endpoint_sock_map a), sock_endpoint_map := (sock_endpoint_map a)(fd := None)\<rparr>"
    "fd \<in> closed_by acts" using assms(3) e(1) by (auto simp: accept_drop_def closed_by_def Let_def)
  fix fd' assume "fd' \<in> F - closed_by acts"
  then have f: "fd' \<in> F" "fd' \<noteq> fd" using a'(2) by auto
  with assms(1) obtain e' where e': "sock_endpoint_map a fd' = Some e'" "local_port e' = acc_local_port a"
    "map_find Endpoint_less e' (endpoint_sock_map a) = Some fd'" by (auto simp: open_found_def)
  then have "\<not> equiv_key Endpoint_less e e'" using f(2) e(2) endpoint_keys.find_cong[of e e' "endpoint_sock_map a"] by auto
  then show "\<exists>e'. sock_endpoint_map a' fd' = Some e' \<and> local_port e' = acc_local_port a' \<and>
      map_find Endpoint_less e' (endpoint_sock_map a') = Some fd'"
    using e' f(2) by (simp add: a'(1) endpoint_keys.find_erase)
qed

lemma open_found_event:
  assumes "open_found a F" and "ev_fd ev \<noteq> acc_local_sock a" and "ev_fd ev \<in> F"
    and "SocketAccept_event ev os a = Inr (a', evs, acts, go)"
  shows "open_found a' (F - closed_by acts)"
proof -
  have "open_found (a\<lparr>acc_buff := b\<rparr>) (F - C)" for b C using assms(1) by (auto simp: open_found_def)
  moreover have "open_found a (F - C)" for C using open_found_subset[OF assms(1), of "F - C"] by auto
  moreover consider "a' = a" | b where "a' = a\<lparr>acc_buff := b\<rparr>" | evs where "accept_drop (ev_fd ev) a = (a', evs, acts)"
    using assms(2,4) by (auto simp: SocketAccept_event_def bind_res_eq_Inr split: if_splits prod.splits)
  ultimately show ?thesis using open_found_drop[OF assms(1,3)] by metis
qed

lemma serving_found: "serving a F \<Longrightarrow> open_found a F"
proof (induction rule: serving.induct)
  case (start os port h buff a)
  then show ?case by (simp add: open_found_def)
next
  case (accepting a F ev os a' evs acts go)
  show ?case
  proof (cases go)
    case True
    then show ?thesis using accepting open_found_accept[OF accepting.IH accepting(3,4) refl]
      by (auto simp: SocketAccept_event_def Let_def split: if_splits)
  next
    case False
    then have "a' = a" using accepting(2,5) by (auto simp: SocketAccept_event_def Let_def split: if_splits)
    then show ?thesis using accepting.IH False by simp
  qed
next
  case (event a F ev os a' evs acts go)
  then show ?case using open_found_event by blast
next
  case (disconnect a F ip port r acts)
  then show ?case using open_found_subset by blast
qed

section \<open>Properties\<close>

text \<open>
  C26: A write to the address of an open peer goes to that peer's descriptor, and so does a call of
  \<^verbatim>\<open>Disconnect\<close>: in every state reached by events of open descriptors and calls of \<^verbatim>\<open>Disconnect\<close>, in any order but not
  overlapping in time, as long as the system accepts with descriptors that are not open (they may
  still be in the maps after a \<^verbatim>\<open>Disconnect\<close>) and no peer is accepted while another with the same port and an
  address of the same length is open. \<open>OsSend\<close> is the call of \<^verbatim>\<open>send\<close> with all the bytes; the code does not look at
  how many of them it took.
\<close>

theorem accept_write_reaches_peer:
  assumes "serving a F" and "fd \<in> F" and "data \<noteq> []"
  shows "\<exists>e. sock_endpoint_map a fd = Some e \<and>
    SocketAccept_Write r (remote_ip_addr e) (remote_port e) (Some data) (int (length data)) a =
      Inr (r \<noteq> -1, [OsSend fd data]) \<and>
    SocketAccept_Disconnect (remote_ip_addr e) (remote_port e) a = (True, [OsClose fd]) \<and>
    SocketAccept_CheckOnHandle (remote_ip_addr e) (remote_port e) a"
proof -
  obtain e where e: "sock_endpoint_map a fd = Some e" "local_port e = acc_local_port a"
    "map_find Endpoint_less e (endpoint_sock_map a) = Some fd"
    using serving_found[OF assms(1)] assms(2) by (auto simp: open_found_def)
  with found_write[OF e(2,3) assms(3), of r] show ?thesis by blast
qed

definition demo_os :: listen_os where
  "demo_os = \<lparr>os_socket = 3, os_bind = 0, os_listen = 0, os_epoll_create = 4, os_epoll_ctl = 0\<rparr>"

definition demo_answers :: "int \<Rightarrow> IPAddr \<Rightarrow> Port \<Rightarrow> read_result list \<Rightarrow> event_os" where
  "demo_answers fd ip port reads = \<lparr>os_accept = fd, os_getfl = 0, os_setfl = 0, os_add = 0,
     os_peer_ip = ip, os_peer_port = port, os_reads = reads\<rparr>"

definition demo_listening :: SocketAccept where
  "demo_listening = \<lparr>acc_handler = True, listening = True, acc_local_port = 80,
     acc_local_sock = 3, acc_epoll_fd = 4, acc_buff = replicate 4096 0,
     endpoint_sock_map = [], sock_endpoint_map = Map.empty\<rparr>"

definition demo_peer :: Endpoint where
  "demo_peer = \<lparr>remote_ip_addr = str ''10.0.0.1'', remote_port = 5000, local_port = 80\<rparr>"

definition demo_connected :: SocketAccept where
  "demo_connected = demo_listening\<lparr>sock_endpoint_map := [7 \<mapsto> demo_peer], endpoint_sock_map := [(demo_peer, 7)]\<rparr>"

lemma demo_reachable: "accept_reachable demo_connected"
proof -
  have "accept_reachable demo_listening"
    by (rule accept_reachable.start[of demo_os 80 True "replicate 4096 0"])
      (simp add: demo_listening_def SocketAccept_Listen_setup_def demo_os_def SocketAccept_ResetHandler_def
        SocketAccept_new_def)
  then show ?thesis
    by (rule accept_reachable.event[where ev = "\<lparr>ev_fd = 3, ev_out = False, ev_in = True\<rparr>"
          and os = "demo_answers 7 (str ''10.0.0.1'') 5000 []"])
      (simp_all add: demo_connected_def demo_listening_def demo_peer_def SocketAccept_event_def
        demo_answers_def fresh_peer_def Let_def)
qed

text \<open>Descriptor 7 is closed by \<^verbatim>\<open>Disconnect\<close> and handed out again to another peer.\<close>

definition demo_reused :: SocketAccept where
  "demo_reused = demo_listening\<lparr>sock_endpoint_map := [7 \<mapsto> \<lparr>remote_ip_addr = str ''10.0.0.2'', remote_port = 6000, local_port = 80\<rparr>],
     endpoint_sock_map := [(demo_peer, 7), (\<lparr>remote_ip_addr = str ''10.0.0.2'', remote_port = 6000, local_port = 80\<rparr>, 7)]\<rparr>"

lemma demo_reused_serving: "serving demo_reused {7}"
proof -
  let ?ev = "\<lparr>ev_fd = 3, ev_out = False, ev_in = True\<rparr>"
  have 1: "serving demo_listening {}"
    by (rule serving.start[of demo_os 80 True "replicate 4096 0"])
      (simp add: demo_listening_def SocketAccept_Listen_setup_def demo_os_def SocketAccept_ResetHandler_def SocketAccept_new_def)
  have a: "SocketAccept_event ?ev (demo_answers 7 (str ''10.0.0.1'') 5000 []) demo_listening =
      Inr (demo_connected, [EvAccept (str ''10.0.0.1'') 5000 80], [OsEpollAdd 7], True)"
    by (simp add: demo_connected_def demo_listening_def demo_peer_def SocketAccept_event_def demo_answers_def Let_def)
  have "serving demo_connected (if True then insert (os_accept (demo_answers 7 (str ''10.0.0.1'') 5000 [])) {} else {})"
    by (rule serving.accepting[OF 1 _ _ _ a]) (simp_all add: demo_listening_def distinct_peer_def)
  then have 2: "serving demo_connected {7}" by (simp add: demo_answers_def)
  have d: "SocketAccept_Disconnect (str ''10.0.0.1'') 5000 demo_connected = (True, [OsClose 7])"
    by (simp add: SocketAccept_Disconnect_def demo_connected_def demo_listening_def demo_peer_def Endpoint_less_def)
  have 3: "serving demo_connected {}" using serving.disconnect[OF 2 d] by (simp add: closed_by_def)
  have b: "SocketAccept_event ?ev (demo_answers 7 (str ''10.0.0.2'') 6000 []) demo_connected =
      Inr (demo_reused, [EvAccept (str ''10.0.0.2'') 6000 80], [OsEpollAdd 7], True)"
    by (simp add: demo_reused_def demo_connected_def demo_listening_def demo_peer_def SocketAccept_event_def demo_answers_def Let_def
      equiv_key_def Endpoint_less_def str_def)
  have "serving demo_reused (if True then insert (os_accept (demo_answers 7 (str ''10.0.0.2'') 6000 [])) {} else {})"
    by (rule serving.accepting[OF 3 _ _ _ b]) (simp_all add: demo_connected_def demo_listening_def distinct_peer_def)
  then show ?thesis by (simp add: demo_answers_def)
qed

theorem accept_write_reaches_peer_witness:
  "SocketAccept_Write 2 (str ''10.0.0.2'') 6000 (Some [1, 2]) 2 demo_reused = Inr (True, [OsSend 7 [1, 2]])"
  using accept_write_reaches_peer [OF demo_reused_serving, of 7 "[1, 2]" 2]
  by (simp add: demo_reused_def)

text \<open>
  As long as every read stores less than a whole buffer, a readable connection hands its handler
  exactly the pieces read, in order, under its own endpoint, and stays open.
\<close>

theorem accept_recv_exact:
  assumes "int (length (acc_buff a)) = MAX_SOCKET_MSG_BUFF_LENGTH"
    and "\<forall>bs \<in> set (pieces (os_reads os)). int (length bs) < MAX_SOCKET_MSG_BUFF_LENGTH"
    and "pieces (os_reads os) \<noteq> []" and "ev_fd ev \<noteq> acc_local_sock a" and "\<not> ev_out ev" and "ev_in ev"
    and "sock_endpoint_map a (ev_fd ev) = Some e" and "acc_handler a"
  shows "\<exists>buff. SocketAccept_event ev os a = Inr (a\<lparr>acc_buff := buff\<rparr>,
      map (EvRecv (remote_ip_addr e) (remote_port e) (local_port e)) (pieces (os_reads os)), [], True)"
  using accept_event_pieces[OF assms] by blast

theorem accept_recv_exact_witness:
  "\<exists>buff. SocketAccept_event \<lparr>ev_fd = 7, ev_out = False, ev_in = True\<rparr>
      (demo_answers 0 [] 0 [ReadBytes [1, 2], ReadBytes [3], ReadError]) demo_connected =
    Inr (demo_connected\<lparr>acc_buff := buff\<rparr>,
      [EvRecv (str ''10.0.0.1'') 5000 80 [1, 2], EvRecv (str ''10.0.0.1'') 5000 80 [3]], [], True)"
  using accept_recv_exact [of demo_connected
      "demo_answers 0 [] 0 [ReadBytes [1, 2], ReadBytes [3], ReadError]"
      "\<lparr>ev_fd = 7, ev_out = False, ev_in = True\<rparr>" demo_peer]
  by (simp add: demo_connected_def demo_listening_def demo_peer_def demo_answers_def
    MAX_SOCKET_MSG_BUFF_LENGTH_def)

text \<open>
  C35: A read that fills the whole buffer makes the terminating NUL the first byte behind it, on both
  kinds of socket: a peer only has to send 4096 bytes at once.
\<close>

theorem full_read_overruns_buffer:
  assumes "int (length (acc_buff a)) = MAX_SOCKET_MSG_BUFF_LENGTH"
    and "int (length (con_buff c)) = MAX_SOCKET_MSG_BUFF_LENGTH"
    and "int (length bs) = MAX_SOCKET_MSG_BUFF_LENGTH"
    and "ev_fd ev \<noteq> acc_local_sock a" and "\<not> ev_out ev" and "ev_in ev" and "os_reads os = ReadBytes bs # rs"
  shows "SocketAccept_event ev os a = Inl OutOfBounds \<and>
    SocketConnect_event ev (ReadBytes bs # rs) c = Inl OutOfBounds"
proof -
  have "first_read_positive (ReadBytes bs # rs)"
    using assms(3) by (simp add: first_read_positive_def read_size_def MAX_SOCKET_MSG_BUFF_LENGTH_def)
  then show ?thesis using assms recv_loop_full_buffer[OF assms(1,3)] recv_loop_full_buffer[OF assms(2,3)]
    by (simp add: SocketAccept_event_def SocketConnect_event_def del: recv_loop.simps)
qed

theorem full_read_overruns_buffer_witness:
  "SocketAccept_event \<lparr>ev_fd = 7, ev_out = False, ev_in = True\<rparr>
      (demo_answers 0 [] 0 [ReadBytes (replicate 4096 65)]) demo_connected = Inl OutOfBounds \<and>
    SocketConnect_event \<lparr>ev_fd = 7, ev_out = False, ev_in = True\<rparr> [ReadBytes (replicate 4096 65)]
      (SocketConnect_new (replicate 4096 0)) = Inl OutOfBounds"
  by (rule full_read_overruns_buffer)
    (simp_all add: demo_connected_def demo_listening_def demo_answers_def SocketConnect_new_def
      MAX_SOCKET_MSG_BUFF_LENGTH_def)

text \<open>
  A peer that sends and closes before the event is handled is never given up: the reads end
  with the end of the stream, and the event neither closes the descriptor nor tells the handler.
  The registration is edge triggered, so no other event follows.
\<close>

theorem data_then_eof_loses_disconnect:
  assumes "int (length (acc_buff a)) = MAX_SOCKET_MSG_BUFF_LENGTH"
    and "bs \<noteq> []" and "int (length bs) < MAX_SOCKET_MSG_BUFF_LENGTH"
    and "ev_fd ev \<noteq> acc_local_sock a" and "\<not> ev_out ev" and "ev_in ev"
    and "os_reads os = [ReadBytes bs, ReadBytes []]"
  shows "\<exists>buff evs. SocketAccept_event ev os a = Inr (a\<lparr>acc_buff := buff\<rparr>, evs, [], True) \<and>
    (\<nexists>ip p l. EvDisconnect ip p l \<in> set evs)"
proof -
  define emit where "emit = (\<lambda>data. case sock_endpoint_map a (ev_fd ev) of None \<Rightarrow> []
    | Some e \<Rightarrow> if acc_handler a then [EvRecv (remote_ip_addr e) (remote_port e) (local_port e) data] else [])"
  have p: "pieces (os_reads os) = [bs]" "first_read_positive (os_reads os)"
    using assms by (simp_all add: first_read_positive_def read_size_def)
  then have "\<forall>x \<in> set (pieces (os_reads os)). int (length x) < MAX_SOCKET_MSG_BUFF_LENGTH"
    using assms(3) by simp
  from recv_loop_exact[OF assms(1) this, of emit] obtain buff where
    "recv_loop emit (acc_buff a) (os_reads os) = Inr (buff, emit bs)" using p by auto
  moreover have "EvDisconnect ip p l \<notin> set (emit bs)" for ip p l
    by (simp add: emit_def split: option.splits)
  moreover have "SocketAccept_event ev os a = bind_res (recv_loop emit (acc_buff a) (os_reads os))
      (\<lambda>(buff, evs). Inr (a\<lparr>acc_buff := buff\<rparr>, evs, [], True))"
    using assms(4-6) p(2) by (simp add: SocketAccept_event_def emit_def)
  ultimately show ?thesis by auto
qed

theorem data_then_eof_loses_disconnect_witness:
  "\<exists>buff evs. SocketAccept_event \<lparr>ev_fd = 7, ev_out = False, ev_in = True\<rparr>
      (demo_answers 0 [] 0 [ReadBytes [1, 2], ReadBytes []]) demo_connected =
    Inr (demo_connected\<lparr>acc_buff := buff\<rparr>, evs, [], True) \<and> (\<nexists>ip p l. EvDisconnect ip p l \<in> set evs)"
  by (rule data_then_eof_loses_disconnect [of _ "[1, 2]"])
    (simp_all add: demo_connected_def demo_listening_def demo_answers_def
      MAX_SOCKET_MSG_BUFF_LENGTH_def)

text \<open>
  \<^verbatim>\<open>Disconnect\<close> closes the descriptor but leaves the maps: when the system gives the number to
  the next peer, what is written to the old peer's address goes to the new peer.
\<close>

theorem disconnect_then_reuse_misdirects:
  assumes "accept_reachable a" and "sock_endpoint_map a fd = Some e" and "data \<noteq> []"
    and "os_accept os = fd" and "fd \<noteq> -1" and "0 \<le> os_getfl os" and "0 \<le> os_setfl os" and "os_add os \<noteq> -1"
    and "ev_fd ev = acc_local_sock a"
    and "os_peer_port os \<noteq> remote_port e"
  shows "SocketAccept_Disconnect (remote_ip_addr e) (remote_port e) a = (True, [OsClose fd]) \<and>
    (\<exists>a' evs. SocketAccept_event ev os a = Inr (a', evs, [OsEpollAdd fd], True) \<and>
      sock_endpoint_map a' fd = Some \<lparr>remote_ip_addr = os_peer_ip os, remote_port = os_peer_port os,
        local_port = acc_local_port a\<rparr> \<and>
      SocketAccept_Write r (remote_ip_addr e) (remote_port e) (Some data) (int (length data)) a' =
        Inr (r \<noteq> -1, [OsSend fd data]))"
proof -
  have e: "e = \<lparr>remote_ip_addr = remote_ip_addr e, remote_port = remote_port e, local_port = acc_local_port a\<rparr>"
    and f: "map_find Endpoint_less e (endpoint_sock_map a) = Some fd"
    using accept_okD(1)[OF accept_reachable_ok[OF assms(1)] assms(2)] by auto
  then have "map_find Endpoint_less \<lparr>remote_ip_addr = remote_ip_addr e, remote_port = remote_port e,
      local_port = acc_local_port a\<rparr> (endpoint_sock_map a) = Some fd" by simp
  with assms(3-) show ?thesis
    by (simp add: SocketAccept_Disconnect_def SocketAccept_event_def SocketAccept_Write_def Let_def
      endpoint_keys.find_put equiv_Endpoint read_mem_def)
qed

theorem disconnect_then_reuse_misdirects_witness:
  "\<exists>a' evs. SocketAccept_event \<lparr>ev_fd = 3, ev_out = False, ev_in = True\<rparr>
      (demo_answers 7 (str ''10.0.0.2'') 6000 []) demo_connected = Inr (a', evs, [OsEpollAdd 7], True) \<and>
    SocketAccept_Write 2 (str ''10.0.0.1'') 5000 (Some [1, 2]) 2 a' = Inr (True, [OsSend 7 [1, 2]])"
  using disconnect_then_reuse_misdirects [OF demo_reachable, of 7 demo_peer "[1, 2]"
      "demo_answers 7 (str ''10.0.0.2'') 6000 []" "\<lparr>ev_fd = 3, ev_out = False, ev_in = True\<rparr>" 2]
  by (auto simp: demo_connected_def demo_peer_def demo_answers_def demo_listening_def
   )

end
