(* ===== verification/Threads.thy ===== *)
theory Threads
  imports Prelude
begin

text \<open>
  \<^verbatim>\<open>Thread\<close> and \<^verbatim>\<open>IThreadTask\<close> on Linux (\<^verbatim>\<open>elegance/platform/thread/thread.*\<close>). The member functions
  take the results of the pthread calls as arguments. \<^verbatim>\<open>Run\<close> and \<^verbatim>\<open>StartRoutine\<close> write the same fields
  from two threads, so they are modelled a second time as a step relation over their interleavings.
\<close>

section \<open>The object\<close>

text \<open>A \<^verbatim>\<open>thread_id_\<close> of 0 means that there is no thread to join.\<close>

record 'task Thread =
  thread_id :: nat
  cur_task :: "'task option"
  thread_running :: bool

definition Thread_new :: "'task Thread" where
  "Thread_new = \<lparr>thread_id = 0, cur_task = None, thread_running = False\<rparr>"

text \<open>
  \<^verbatim>\<open>Run\<close> with the result and the new id of \<^verbatim>\<open>pthread_create\<close>; the last component is the tasks it
  deletes.
\<close>

definition Thread_Run ::
  "int \<Rightarrow> nat \<Rightarrow> 'task option \<Rightarrow> 'task Thread \<Rightarrow> bool \<times> 'task Thread \<times> 'task list" where
  "Thread_Run ret new_id func th =
     (case func of
        None \<Rightarrow> (False, th, [])
      | Some task \<Rightarrow>
          if thread_id th \<noteq> 0 then (False, th, [])
          else if ret = 0
            then (True, th\<lparr>cur_task := Some task, thread_id := new_id, thread_running := True\<rparr>, [])
            else (False, th\<lparr>cur_task := None\<rparr>, [task]))"

definition Thread_Join :: "int \<Rightarrow> 'task Thread \<Rightarrow> bool \<times> 'task Thread" where
  "Thread_Join ret th =
     (if thread_id th = 0 then (False, th)
      else (ret = 0, if ret = 0 then th\<lparr>thread_id := 0\<rparr> else th))"

definition Thread_Terminate :: "int \<Rightarrow> 'task Thread \<Rightarrow> bool \<times> 'task Thread" where
  "Thread_Terminate ret th =
     (if thread_id th = 0 then (False, th)
      else (ret = 0, (if ret = 0 then th\<lparr>thread_id := 0\<rparr> else th)\<lparr>thread_running := False\<rparr>))"

definition Thread_Detach :: "int \<Rightarrow> 'task Thread \<Rightarrow> bool \<times> 'task Thread" where
  "Thread_Detach ret th =
     (if thread_id th = 0 then (False, th) else (ret = 0, th\<lparr>thread_id := 0\<rparr>))"

definition Thread_delete :: "int \<Rightarrow> 'task Thread \<Rightarrow> 'task Thread" where
  "Thread_delete ret th = snd (Thread_Detach ret th)"

definition Thread_IsRunning :: "'task Thread \<Rightarrow> bool" where
  "Thread_IsRunning th = thread_running th"

definition Thread_GetThreadID :: "'task Thread \<Rightarrow> nat" where
  "Thread_GetThreadID th = thread_id th"

section \<open>Starter and started thread\<close>

text \<open>
  After \<^verbatim>\<open>pthread_create\<close> has succeeded the starter has one write left, \<^verbatim>\<open>running_ = true\<close>, and the new
  thread executes \<^verbatim>\<open>StartRoutine\<close>.
\<close>

datatype starter_pc = S_set_running | S_returned

datatype routine_pc = R_start | R_run | R_delete | R_clear | R_detach | R_stop | R_exit

record 'task start_state =
  st_thread :: "'task Thread"
  st_starter :: starter_pc
  st_routine :: routine_pc
  st_ran :: "'task list"
  st_deleted :: "'task list"

definition start_init :: "nat \<Rightarrow> 'task \<Rightarrow> 'task start_state" where
  "start_init new_id task =
     \<lparr>st_thread = \<lparr>thread_id = new_id, cur_task = Some task, thread_running = False\<rparr>,
      st_starter = S_set_running, st_routine = R_start, st_ran = [], st_deleted = []\<rparr>"

definition starter_step :: "'task start_state \<Rightarrow> 'task start_state option" where
  "starter_step s = (case st_starter s of
       S_set_running \<Rightarrow> Some (s\<lparr>st_thread := (st_thread s)\<lparr>thread_running := True\<rparr>, st_starter := S_returned\<rparr>)
     | S_returned \<Rightarrow> None)"

text \<open>\<^verbatim>\<open>StartRoutine\<close>, one access to the shared object at a time.\<close>

definition routine_step :: "'task start_state \<Rightarrow> 'task start_state option" where
  "routine_step s = (let th = st_thread s in case st_routine s of
       R_start \<Rightarrow> Some (s\<lparr>st_routine := (if cur_task th = None then R_exit else R_run)\<rparr>)
     | R_run \<Rightarrow> (case cur_task th of
         None \<Rightarrow> None
       | Some task \<Rightarrow> Some (s\<lparr>st_ran := st_ran s @ [task], st_routine := R_delete\<rparr>))
     | R_delete \<Rightarrow> (case cur_task th of
         None \<Rightarrow> Some (s\<lparr>st_routine := R_clear\<rparr>)
       | Some task \<Rightarrow> Some (s\<lparr>st_deleted := st_deleted s @ [task], st_routine := R_clear\<rparr>))
     | R_clear \<Rightarrow> Some (s\<lparr>st_thread := th\<lparr>cur_task := None\<rparr>, st_routine := R_detach\<rparr>)
     | R_detach \<Rightarrow> Some (s\<lparr>st_thread := snd (Thread_Detach 0 th), st_routine := R_stop\<rparr>)
     | R_stop \<Rightarrow> Some (s\<lparr>st_thread := th\<lparr>thread_running := False\<rparr>, st_routine := R_exit\<rparr>)
     | R_exit \<Rightarrow> None)"

inductive start_step :: "'task start_state \<Rightarrow> 'task start_state \<Rightarrow> bool" where
  starter: "starter_step s = Some s' \<Longrightarrow> start_step s s'"
| routine: "routine_step s = Some s' \<Longrightarrow> start_step s s'"

inductive start_reaches :: "'task start_state \<Rightarrow> 'task start_state \<Rightarrow> bool" where
  start_here: "start_reaches s s"
| start_next: "start_reaches s s' \<Longrightarrow> start_step s' s'' \<Longrightarrow> start_reaches s s''"

inductive_cases start_stepE: "start_step s s'"

section \<open>Invariant\<close>

text \<open>What each point of the routine knows.\<close>

definition start_inv :: "'task \<Rightarrow> 'task start_state \<Rightarrow> bool" where
  "start_inv task s \<longleftrightarrow>
     cur_task (st_thread s) = (if st_routine s \<in> {R_start, R_run, R_delete, R_clear} then Some task else None) \<and>
     st_ran s = (if st_routine s \<in> {R_start, R_run} then [] else [task]) \<and>
     st_deleted s = (if st_routine s \<in> {R_start, R_run, R_delete} then [] else [task]) \<and>
     (st_routine s \<in> {R_stop, R_exit} \<longrightarrow> thread_id (st_thread s) = 0)"

lemma start_inv_init: "start_inv task (start_init new_id task)"
  by (simp add: start_inv_def start_init_def)

lemma start_inv_step:
  assumes "start_inv task s" and "start_step s s'"
  shows "start_inv task s'"
  using assms(2)
proof (rule start_stepE)
  assume "starter_step s = Some s'"
  with assms(1) show ?thesis
    by (cases "st_starter s") (auto simp: starter_step_def start_inv_def)
next
  assume "routine_step s = Some s'"
  with assms(1) show ?thesis
    by (cases "st_routine s") (auto simp: routine_step_def start_inv_def Thread_Detach_def Let_def)
qed

lemma start_inv_reaches: "start_reaches s s' \<Longrightarrow> start_inv task s \<Longrightarrow> start_inv task s'"
  by (induction rule: start_reaches.induct) (auto intro: start_inv_step)

text \<open>The execution in which the starter's write comes last.\<close>

definition late_flag :: "'task \<Rightarrow> routine_pc \<Rightarrow> 'task start_state" where
  "late_flag task r =
     \<lparr>st_thread = \<lparr>thread_id = (if r \<in> {R_stop, R_exit} then 0 else 5),
        cur_task = (if r \<in> {R_start, R_run, R_delete, R_clear} then Some task else None),
        thread_running = False\<rparr>,
      st_starter = S_set_running, st_routine = r,
      st_ran = (if r \<in> {R_start, R_run} then [] else [task]),
      st_deleted = (if r \<in> {R_start, R_run, R_delete} then [] else [task])\<rparr>"

definition late_flag_end :: "'task \<Rightarrow> 'task start_state" where
  "late_flag_end task =
     \<lparr>st_thread = \<lparr>thread_id = 0, cur_task = None, thread_running = True\<rparr>,
      st_starter = S_returned, st_routine = R_exit, st_ran = [task], st_deleted = [task]\<rparr>"

lemma late_flag_steps:
  "routine_step (late_flag task R_start) = Some (late_flag task R_run)"
  "routine_step (late_flag task R_run) = Some (late_flag task R_delete)"
  "routine_step (late_flag task R_delete) = Some (late_flag task R_clear)"
  "routine_step (late_flag task R_clear) = Some (late_flag task R_detach)"
  "routine_step (late_flag task R_detach) = Some (late_flag task R_stop)"
  "routine_step (late_flag task R_stop) = Some (late_flag task R_exit)"
  "starter_step (late_flag task R_exit) = Some (late_flag_end task)"
  by (simp_all add: late_flag_def late_flag_end_def routine_step_def starter_step_def Thread_Detach_def Let_def)

lemma late_flag_reached: "start_reaches (start_init 5 task) (late_flag_end task)"
proof -
  have "start_init 5 task = late_flag task R_start" by (simp add: start_init_def late_flag_def)
  then show ?thesis
    by (auto intro!: start_reaches.start_here late_flag_steps start_reaches.start_next[OF _ start_step.routine]
        start_reaches.start_next[OF _ start_step.starter[OF late_flag_steps(7)]]
        start_reaches.start_next[OF _ start_step.routine[OF late_flag_steps(6)]]
        start_reaches.start_next[OF _ start_step.routine[OF late_flag_steps(5)]]
        start_reaches.start_next[OF _ start_step.routine[OF late_flag_steps(4)]]
        start_reaches.start_next[OF _ start_step.routine[OF late_flag_steps(3)]]
        start_reaches.start_next[OF _ start_step.routine[OF late_flag_steps(2)]]
        start_reaches.start_next[OF _ start_step.routine[OF late_flag_steps(1)]])
qed

lemma late_flag_stuck: "\<not> start_step (late_flag_end task) s"
  by (auto simp: late_flag_end_def starter_step_def routine_step_def Let_def elim!: start_stepE)

section \<open>Properties\<close>

text \<open>
  C25: Whatever the interleaving of the starter and the started thread, the task runs at most once and
  is deleted at most once and only after it ran; when the routine is over it ran and was deleted
  exactly once, the object no longer points to it, and the object is free for the next \<^verbatim>\<open>Run\<close>.
\<close>

theorem thread_task_runs_once:
  assumes "start_reaches (start_init new_id task) s"
  shows "st_ran s \<in> {[], [task]} \<and> st_deleted s \<in> {[], st_ran s} \<and>
    (st_routine s = R_exit \<longrightarrow> st_ran s = [task] \<and> st_deleted s = [task] \<and>
       cur_task (st_thread s) = None \<and> Thread_GetThreadID (st_thread s) = 0)"
  using start_inv_reaches[OF assms start_inv_init]
  by (cases "st_routine s") (simp_all add: start_inv_def Thread_GetThreadID_def)

theorem thread_task_runs_once_witness:
  "st_ran (late_flag_end (1 :: nat)) = [1] \<and> st_deleted (late_flag_end (1 :: nat)) = [1] \<and>
   Thread_GetThreadID (st_thread (late_flag_end (1 :: nat))) = 0"
  using thread_task_runs_once [OF late_flag_reached, of "1 :: nat"] by (simp add: late_flag_end_def)

text \<open>
  The starter's write can come last: the task is over and the thread gone, but \<^verbatim>\<open>IsRunning\<close>
  says true for ever, so the object is never chosen for another task.
\<close>

theorem thread_running_flag_lost:
  "\<exists>s. start_reaches (start_init 5 task) s \<and> st_starter s = S_returned \<and> st_routine s = R_exit \<and>
     Thread_GetThreadID (st_thread s) = 0 \<and> Thread_IsRunning (st_thread s) \<and> (\<nexists>s'. start_step s s')"
  using late_flag_reached[of task] late_flag_stuck[of task]
  by (intro exI[of _ "late_flag_end task"])
    (simp add: late_flag_end_def Thread_GetThreadID_def Thread_IsRunning_def)

end
