(* ===== verification/MemPool.thy ===== *)
theory MemPool
  imports StdMap
begin

text \<open>
  \<^verbatim>\<open>Mutex\<close> on Linux (\<^verbatim>\<open>elegance/platform/thread/mutex.*\<close>) and the memory pools (\<^verbatim>\<open>elegance/memory/mempool.*\<close>).
  A \<^verbatim>\<open>void *\<close> into the heap is a block and an offset, and the heap is the table of live blocks with
  their sizes; \<^verbatim>\<open>new char[n]\<close> takes the next block number and is taken to succeed. The contract of
  an allocator (the chunks handed out do not overlap) is a locale, proved for both pools.
\<close>

section \<open>Mutex\<close>

type_synonym thread_id = nat

text \<open>A recursive mutex: who holds it and how often.\<close>

record Mutex =
  mutex_owner :: "thread_id option"
  mutex_depth :: nat

definition Mutex_new :: Mutex where
  "Mutex_new = \<lparr>mutex_owner = None, mutex_depth = 0\<rparr>"

definition Mutex_Lock :: "thread_id \<Rightarrow> Mutex \<Rightarrow> (bool \<times> Mutex) res" where
  "Mutex_Lock t m = (case mutex_owner m of
       None \<Rightarrow> Inr (True, \<lparr>mutex_owner = Some t, mutex_depth = 1\<rparr>)
     | Some t' \<Rightarrow> if t' = t then Inr (True, m\<lparr>mutex_depth := mutex_depth m + 1\<rparr>) else Inl WouldBlock)"

definition Mutex_TryLock :: "thread_id \<Rightarrow> Mutex \<Rightarrow> bool \<times> Mutex" where
  "Mutex_TryLock t m = (case mutex_owner m of
       None \<Rightarrow> (True, \<lparr>mutex_owner = Some t, mutex_depth = 1\<rparr>)
     | Some t' \<Rightarrow> if t' = t then (True, m\<lparr>mutex_depth := mutex_depth m + 1\<rparr>) else (False, m))"

definition Mutex_Unlock :: "thread_id \<Rightarrow> Mutex \<Rightarrow> bool \<times> Mutex" where
  "Mutex_Unlock t m =
     (if mutex_owner m \<noteq> Some t then (False, m)
      else if mutex_depth m \<le> 1 then (True, Mutex_new)
      else (True, m\<lparr>mutex_depth := mutex_depth m - 1\<rparr>))"

section \<open>The heap\<close>

type_synonym mem_ptr = "nat \<times> int"

record heap =
  next_block :: nat
  block_size :: "nat \<rightharpoonup> int"

definition heap_new :: "int \<Rightarrow> heap \<Rightarrow> (nat \<times> heap) res" where
  "heap_new n h =
     (if n < 0 then Inl NegativeLength
      else Inr (next_block h, \<lparr>next_block = next_block h + 1,
                               block_size = (block_size h)(next_block h \<mapsto> n)\<rparr>))"

definition heap_delete :: "nat \<Rightarrow> heap \<Rightarrow> heap res" where
  "heap_delete b h =
     (if block_size h b = None then Inl DoubleFree
      else Inr (h\<lparr>block_size := (block_size h)(b := None)\<rparr>))"

section \<open>MemoryPool\<close>

definition MEMORY_POOL_DEFAULT_INCREASE_ALLOC_NUM :: int where
  "MEMORY_POOL_DEFAULT_INCREASE_ALLOC_NUM = 10"

text \<open>The stack of free chunks has its top at the head of the list.\<close>

record MemoryPool =
  item_len :: int
  increase_num :: int
  free_buffers :: "mem_ptr list"
  real_buffer_ptrs :: "nat list"

definition MemoryPool_new :: "int \<Rightarrow> int \<Rightarrow> MemoryPool" where
  "MemoryPool_new len num = \<lparr>item_len = len, increase_num = num, free_buffers = [], real_buffer_ptrs = []\<rparr>"

text \<open>The loop that pushes the chunks of a new block, from the first to the last.\<close>

fun push_chunks :: "nat \<Rightarrow> nat \<Rightarrow> int \<Rightarrow> mem_ptr list" where
  "push_chunks b 0 len = []"
| "push_chunks b (Suc i) len = (b, int i * len) # push_chunks b i len"

text \<open>\<^verbatim>\<open>Alloc\<close> by its accesses to the stack: a new block when it is empty, the top, the pop.\<close>

definition pool_refill :: "heap \<times> MemoryPool \<Rightarrow> (heap \<times> MemoryPool) res" where
  "pool_refill = (\<lambda>(h, pool).
     if free_buffers pool = [] then
       bind_res (c_int (increase_num pool * item_len pool)) (\<lambda>n.
       bind_res (heap_new n h) (\<lambda>(b, h1).
         Inr (h1, pool\<lparr>real_buffer_ptrs := real_buffer_ptrs pool @ [b],
                       free_buffers := push_chunks b (nat (increase_num pool)) (item_len pool)\<rparr>)))
     else Inr (h, pool))"

definition pool_top :: "MemoryPool \<Rightarrow> mem_ptr res" where
  "pool_top pool = (case free_buffers pool of [] \<Rightarrow> Inl EmptyContainer | mem # rest \<Rightarrow> Inr mem)"

definition pool_pop :: "MemoryPool \<Rightarrow> MemoryPool res" where
  "pool_pop pool = (case free_buffers pool of [] \<Rightarrow> Inl EmptyContainer | mem # rest \<Rightarrow> Inr (pool\<lparr>free_buffers := rest\<rparr>))"

definition MemoryPool_Alloc :: "heap \<times> MemoryPool \<Rightarrow> (mem_ptr \<times> heap \<times> MemoryPool) res" where
  "MemoryPool_Alloc st =
     bind_res (pool_refill st) (\<lambda>(h1, pool1).
     bind_res (pool_top pool1) (\<lambda>mem.
     bind_res (pool_pop pool1) (\<lambda>pool2. Inr (mem, h1, pool2))))"

definition MemoryPool_Free :: "mem_ptr \<Rightarrow> heap \<times> MemoryPool \<Rightarrow> bool \<times> heap \<times> MemoryPool" where
  "MemoryPool_Free memory = (\<lambda>(h, pool). (True, h, pool\<lparr>free_buffers := memory # free_buffers pool\<rparr>))"

fun delete_blocks :: "nat list \<Rightarrow> heap \<Rightarrow> heap res" where
  "delete_blocks [] h = Inr h"
| "delete_blocks (b # bs) h = bind_res (heap_delete b h) (delete_blocks bs)"

definition MemoryPool_delete :: "heap \<times> MemoryPool \<Rightarrow> heap res" where
  "MemoryPool_delete = (\<lambda>(h, pool). delete_blocks (real_buffer_ptrs pool) h)"

section \<open>MemoryPoolManager\<close>

record MemoryPoolManager =
  memory_to_size_map_lock :: Mutex
  memory_to_size_map :: "mem_ptr \<rightharpoonup> int"
  memory_size_to_pool_map_lock :: Mutex
  memory_size_to_pool_map :: "(int, MemoryPool) std_map"

definition MemoryPoolManager_new :: MemoryPoolManager where
  "MemoryPoolManager_new = \<lparr>memory_to_size_map_lock = Mutex_new, memory_to_size_map = Map.empty,
     memory_size_to_pool_map_lock = Mutex_new, memory_size_to_pool_map = []\<rparr>"

text \<open>\<^verbatim>\<open>size + align - size % align\<close> with \<^verbatim>\<open>align\<close> the 8 bytes of a \<^verbatim>\<open>long\<close>.\<close>

definition fix_size :: "int \<Rightarrow> int res" where
  "fix_size sz = bind_res (c_int (sz + 8)) (\<lambda>s8. c_int (s8 - (sz smod 8)))"

text \<open>
  \<^verbatim>\<open>Alloc\<close> in two parts: with the lock of the pools taken, up to the top of the stack; then the pop, the end of the lock and the
  entry in the map of sizes. The pool stays in the map, so the second part finds it there.
\<close>

definition Alloc_top ::
  "thread_id \<Rightarrow> int \<Rightarrow> heap \<times> MemoryPoolManager \<Rightarrow> (int \<times> mem_ptr \<times> heap \<times> MemoryPoolManager) res" where
  "Alloc_top t sz = (\<lambda>(h, mgr).
     bind_res (fix_size sz) (\<lambda>fs.
     bind_res (Mutex_Lock t (memory_size_to_pool_map_lock mgr)) (\<lambda>(_, l1).
     let pool = (case map_find (<) fs (memory_size_to_pool_map mgr) of
          None \<Rightarrow> MemoryPool_new fs MEMORY_POOL_DEFAULT_INCREASE_ALLOC_NUM
        | Some pool \<Rightarrow> pool)
     in bind_res (pool_refill (h, pool)) (\<lambda>(h1, pool1).
        bind_res (pool_top pool1) (\<lambda>mem.
          Inr (fs, mem, h1, mgr\<lparr>memory_size_to_pool_map := map_put (<) fs pool1 (memory_size_to_pool_map mgr),
                                memory_size_to_pool_map_lock := l1\<rparr>))))))"

definition Alloc_pop ::
  "thread_id \<Rightarrow> int \<Rightarrow> mem_ptr \<Rightarrow> heap \<times> MemoryPoolManager \<Rightarrow> (mem_ptr \<times> heap \<times> MemoryPoolManager) res" where
  "Alloc_pop t fs mem = (\<lambda>(h, mgr).
     case map_find (<) fs (memory_size_to_pool_map mgr) of
       None \<Rightarrow> Inl UseAfterFree
     | Some pool \<Rightarrow>
         bind_res (pool_pop pool) (\<lambda>pool1.
         let mgr1 = mgr\<lparr>memory_size_to_pool_map := map_put (<) fs pool1 (memory_size_to_pool_map mgr),
                        memory_size_to_pool_map_lock := snd (Mutex_Unlock t (memory_size_to_pool_map_lock mgr))\<rparr>
         in bind_res (Mutex_Lock t (memory_to_size_map_lock mgr1)) (\<lambda>(_, l2).
            Inr (mem, h, mgr1\<lparr>memory_to_size_map := (memory_to_size_map mgr1)(mem \<mapsto> fs),
                              memory_to_size_map_lock := snd (Mutex_Unlock t l2)\<rparr>))))"

definition MemoryPoolManager_Alloc ::
  "thread_id \<Rightarrow> int \<Rightarrow> heap \<times> MemoryPoolManager \<Rightarrow> (mem_ptr \<times> heap \<times> MemoryPoolManager) res" where
  "MemoryPoolManager_Alloc t sz s = bind_res (Alloc_top t sz s) (\<lambda>(fs, mem, s1). Alloc_pop t fs mem s1)"

text \<open>
  \<^verbatim>\<open>Free\<close> in two parts: the look-ups under the locks, of which both early returns leave the lock they took; then, with no lock
  held any more, the push on the stack of the pool.
\<close>

definition Free_find ::
  "thread_id \<Rightarrow> mem_ptr \<Rightarrow> heap \<times> MemoryPoolManager \<Rightarrow> (int option \<times> heap \<times> MemoryPoolManager) res" where
  "Free_find t memory = (\<lambda>(h, mgr).
     bind_res (Mutex_Lock t (memory_to_size_map_lock mgr)) (\<lambda>(_, l1).
     case memory_to_size_map mgr memory of
       None \<Rightarrow> Inr (None, h, mgr\<lparr>memory_to_size_map_lock := l1\<rparr>)
     | Some sz \<Rightarrow>
         let mgr1 = mgr\<lparr>memory_to_size_map_lock := snd (Mutex_Unlock t l1)\<rparr>
         in bind_res (Mutex_Lock t (memory_size_to_pool_map_lock mgr1)) (\<lambda>(_, l2).
            case map_find (<) sz (memory_size_to_pool_map mgr1) of
              None \<Rightarrow> Inr (None, h, mgr1\<lparr>memory_size_to_pool_map_lock := l2\<rparr>)
            | Some pool \<Rightarrow> Inr (Some sz, h, mgr1\<lparr>memory_size_to_pool_map_lock := snd (Mutex_Unlock t l2)\<rparr>))))"

definition Free_push :: "int \<Rightarrow> mem_ptr \<Rightarrow> heap \<times> MemoryPoolManager \<Rightarrow> (bool \<times> heap \<times> MemoryPoolManager) res" where
  "Free_push sz memory = (\<lambda>(h, mgr).
     case map_find (<) sz (memory_size_to_pool_map mgr) of
       None \<Rightarrow> Inl UseAfterFree
     | Some pool \<Rightarrow>
         let (r, h1, pool1) = MemoryPool_Free memory (h, pool)
         in Inr (r, h1, mgr\<lparr>memory_size_to_pool_map := map_put (<) sz pool1 (memory_size_to_pool_map mgr)\<rparr>))"

definition MemoryPoolManager_Free ::
  "thread_id \<Rightarrow> mem_ptr \<Rightarrow> heap \<times> MemoryPoolManager \<Rightarrow> (bool \<times> heap \<times> MemoryPoolManager) res" where
  "MemoryPoolManager_Free t memory s =
     bind_res (Free_find t memory s) (\<lambda>(r, s1). case r of None \<Rightarrow> Inr (False, s1) | Some sz \<Rightarrow> Free_push sz memory s1)"

fun delete_pools :: "(int, MemoryPool) std_map \<Rightarrow> heap \<Rightarrow> heap res" where
  "delete_pools [] h = Inr h"
| "delete_pools ((_, pool) # ps) h = bind_res (MemoryPool_delete (h, pool)) (delete_pools ps)"

definition MemoryPoolManager_delete :: "heap \<times> MemoryPoolManager \<Rightarrow> heap res" where
  "MemoryPoolManager_delete = (\<lambda>(h, mgr). delete_pools (memory_size_to_pool_map mgr) h)"

lemmas Alloc_defs = MemoryPool_Alloc_def pool_refill_def pool_top_def pool_pop_def

lemma MemoryPool_Alloc_parts:
  "MemoryPool_Alloc st = Inr (mem, h1, pool2) \<longleftrightarrow>
     (\<exists>pool1. pool_refill st = Inr (h1, pool1) \<and> pool_top pool1 = Inr mem \<and> pool_pop pool1 = Inr pool2)"
  by (cases mem) (auto simp: MemoryPool_Alloc_def bind_res_eq_Inr)

text \<open>The pool an allocation uses, found or new.\<close>

definition pool_for :: "MemoryPoolManager \<Rightarrow> int \<Rightarrow> MemoryPool" where
  "pool_for mgr fs = (case map_find (<) fs (memory_size_to_pool_map mgr) of
       None \<Rightarrow> MemoryPool_new fs MEMORY_POOL_DEFAULT_INCREASE_ALLOC_NUM
     | Some pl \<Rightarrow> pl)"

lemma put_put: "map_put ((<) :: int \<Rightarrow> int \<Rightarrow> bool) k v (map_put (<) k w m) = map_put (<) k v m"
  by (induction m) auto

lemma Mutex_free [simp]:
  "Mutex_Lock t Mutex_new = Inr (True, \<lparr>mutex_owner = Some t, mutex_depth = 1\<rparr>)"
  "Mutex_Unlock t \<lparr>mutex_owner = Some t, mutex_depth = Suc 0\<rparr> = (True, Mutex_new)"
  by (simp_all add: Mutex_Lock_def Mutex_Unlock_def Mutex_new_def)

text \<open>Whole calls that find both locks free.\<close>

lemma manager_Alloc_free:
  assumes "fix_size sz = Inr fs" and "memory_to_size_map_lock mgr = Mutex_new" "memory_size_to_pool_map_lock mgr = Mutex_new"
    and "MemoryPool_Alloc (h, pool_for mgr fs) = Inr (mem, h1, pool2)"
  shows "MemoryPoolManager_Alloc t sz (h, mgr) =
    Inr (mem, h1, mgr\<lparr>memory_size_to_pool_map := map_put (<) fs pool2 (memory_size_to_pool_map mgr),
      memory_to_size_map := (memory_to_size_map mgr)(mem \<mapsto> fs)\<rparr>)"
proof -
  obtain pool1 where "pool_refill (h, pool_for mgr fs) = Inr (h1, pool1)" "pool_top pool1 = Inr mem" "pool_pop pool1 = Inr pool2"
    using assms(4) by (auto simp: MemoryPool_Alloc_parts)
  with assms(1-3) show ?thesis
    by (simp add: MemoryPoolManager_Alloc_def Alloc_top_def Alloc_pop_def Let_def int_keys.find_put put_put flip: pool_for_def)
qed

lemma manager_Alloc_sizes:
  assumes "MemoryPoolManager_Alloc t sz (h, mgr) = Inr (p, h', mgr')" and "fix_size sz = Inr fs"
  shows "memory_to_size_map mgr' = (memory_to_size_map mgr)(p \<mapsto> fs)"
  using assms by (auto simp: MemoryPoolManager_Alloc_def Alloc_top_def Alloc_pop_def bind_res_eq_Inr Let_def split: option.splits)

lemma Alloc_pop_same: "Alloc_pop t fs mem (h, mgr) = Inr (p, h', mgr') \<Longrightarrow> p = mem \<and> h' = h"
  by (auto simp: Alloc_pop_def bind_res_eq_Inr Let_def split: option.splits)

lemma manager_Free_free:
  assumes "memory_to_size_map_lock mgr = Mutex_new" "memory_size_to_pool_map_lock mgr = Mutex_new"
    and "memory_to_size_map mgr p = Some fs" and "map_find (<) fs (memory_size_to_pool_map mgr) = Some pl"
  shows "Free_find t p (h, mgr) = Inr (Some fs, h, mgr)"
    and "MemoryPoolManager_Free t p (h, mgr) = Inr (True, h, mgr\<lparr>memory_size_to_pool_map :=
      map_put (<) fs (pl\<lparr>free_buffers := p # free_buffers pl\<rparr>) (memory_size_to_pool_map mgr)\<rparr>)"
proof -
  show f: "Free_find t p (h, mgr) = Inr (Some fs, h, mgr)" using assms by (simp add: Free_find_def Let_def)
  show "MemoryPoolManager_Free t p (h, mgr) = Inr (True, h, mgr\<lparr>memory_size_to_pool_map :=
      map_put (<) fs (pl\<lparr>free_buffers := p # free_buffers pl\<rparr>) (memory_size_to_pool_map mgr)\<rparr>)"
    using assms(4) by (simp add: MemoryPoolManager_Free_def f Free_push_def MemoryPool_Free_def)
qed

section \<open>The contract of an allocator\<close>

text \<open>Two chunks with no byte in common.\<close>

definition chunks_apart :: "mem_ptr \<Rightarrow> int \<Rightarrow> mem_ptr \<Rightarrow> int \<Rightarrow> bool" where
  "chunks_apart p n q k \<longleftrightarrow> fst p \<noteq> fst q \<or> snd p + n \<le> snd q \<or> snd q + k \<le> snd p"

text \<open>A chunk inside a live block.\<close>

definition chunk_valid :: "heap \<Rightarrow> mem_ptr \<Rightarrow> int \<Rightarrow> bool" where
  "chunk_valid h p n \<longleftrightarrow> (case block_size h (fst p) of None \<Rightarrow> False | Some k \<Rightarrow> 0 \<le> snd p \<and> snd p + n \<le> k)"

text \<open>
  A client allocates, and frees chunks it still has (named by their position among these); the
  result is the list of chunks it has at the end.
\<close>

datatype ('r, 't) alloc_op = AllocOp 'r | FreeOp 't nat

fun alloc_run ::
  "('r \<Rightarrow> 's \<Rightarrow> ('p \<times> 's) res) \<Rightarrow> ('t \<Rightarrow> 'p \<Rightarrow> 's \<Rightarrow> (bool \<times> 's) res) \<Rightarrow>
   ('r, 't) alloc_op list \<Rightarrow> 'p list \<times> 's \<Rightarrow> ('p list \<times> 's) res" where
  "alloc_run alloc release [] st = Inr st"
| "alloc_run alloc release (AllocOp r # ops) (ps, s) =
     bind_res (alloc r s) (\<lambda>(p, s1). alloc_run alloc release ops (p # ps, s1))"
| "alloc_run alloc release (FreeOp t i # ops) (ps, s) =
     (if i < length ps
      then bind_res (release t (ps ! i) s)
             (\<lambda>(_, s1). alloc_run alloc release ops (take i ps @ drop (Suc i) ps, s1))
      else alloc_run alloc release ops (ps, s))"

fun requests_ok :: "('r \<Rightarrow> bool) \<Rightarrow> ('r, 't) alloc_op list \<Rightarrow> bool" where
  "requests_ok ok [] = True"
| "requests_ok ok (AllocOp r # ops) = (ok r \<and> requests_ok ok ops)"
| "requests_ok ok (FreeOp t i # ops) = requests_ok ok ops"

locale chunk_allocator =
  fixes alloc :: "'r \<Rightarrow> 's \<Rightarrow> (mem_ptr \<times> 's) res"
    and release :: "'t \<Rightarrow> mem_ptr \<Rightarrow> 's \<Rightarrow> (bool \<times> 's) res"
    and invar :: "mem_ptr set \<Rightarrow> 's \<Rightarrow> bool"
    and request_ok :: "'r \<Rightarrow> bool"
    and extent :: "'s \<Rightarrow> mem_ptr \<Rightarrow> int"
    and the_heap :: "'s \<Rightarrow> heap"
  assumes alloc_law: "invar A s \<Longrightarrow> request_ok r \<Longrightarrow>
      \<exists>p s'. alloc r s = Inr (p, s') \<and> p \<notin> A \<and> invar (insert p A) s'"
    and release_law: "invar A s \<Longrightarrow> p \<in> A \<Longrightarrow>
      \<exists>s'. release t p s = Inr (True, s') \<and> invar (A - {p}) s'"
    and invar_valid: "invar A s \<Longrightarrow> p \<in> A \<Longrightarrow> chunk_valid (the_heap s) p (extent s p)"
    and invar_apart: "invar A s \<Longrightarrow> p \<in> A \<Longrightarrow> q \<in> A \<Longrightarrow> p \<noteq> q \<Longrightarrow>
      chunks_apart p (extent s p) q (extent s q)"
begin

lemma run_ok:
  assumes "invar (set ps) s" and "distinct ps" and "requests_ok request_ok ops"
  shows "\<exists>ps' s'. alloc_run alloc release ops (ps, s) = Inr (ps', s') \<and> distinct ps' \<and> invar (set ps') s'"
  using assms
proof (induction ops arbitrary: ps s)
  case Nil
  then show ?case by simp
next
  case (Cons x ops)
  show ?case
  proof (cases x)
    case (AllocOp r)
    with Cons.prems alloc_law[of "set ps" s r] obtain p s1 where
      "alloc r s = Inr (p, s1)" "p \<notin> set ps" "invar (set (p # ps)) s1" by auto
    with Cons.IH[of "p # ps" s1] Cons.prems AllocOp show ?thesis by simp
  next
    case (FreeOp t i)
    show ?thesis
    proof (cases "i < length ps")
      case True
      let ?ps = "take i ps @ drop (Suc i) ps"
      from id_take_nth_drop[OF True] have ps: "ps = take i ps @ ps ! i # drop (Suc i) ps" .
      with Cons.prems(2) have "distinct (take i ps @ ps ! i # drop (Suc i) ps)" by metis
      then have d: "distinct ?ps" "ps ! i \<notin> set ?ps" by auto
      from ps have "set ps = insert (ps ! i) (set ?ps)" by (metis Un_insert_right list.simps(15) set_append)
      with d(2) have e: "set ps - {ps ! i} = set ?ps" by auto
      from release_law[OF Cons.prems(1), of "ps ! i" t] True e obtain s1 where
        "release t (ps ! i) s = Inr (True, s1)" "invar (set ?ps) s1" by auto
      with Cons.IH[of ?ps s1] Cons.prems FreeOp True d show ?thesis by simp
    next
      case False
      with Cons FreeOp show ?thesis by simp
    qed
  qed
qed

lemma run_apart:
  assumes "invar {} s" and "requests_ok request_ok ops"
  shows "\<exists>ps' s'. alloc_run alloc release ops ([], s) = Inr (ps', s') \<and> distinct ps' \<and>
    (\<forall>p \<in> set ps'. chunk_valid (the_heap s') p (extent s' p)) \<and>
    (\<forall>p \<in> set ps'. \<forall>q \<in> set ps'. p \<noteq> q \<longrightarrow> chunks_apart p (extent s' p) q (extent s' q))"
proof -
  from run_ok[of "[]" s ops] assms obtain ps' s' where
    r: "alloc_run alloc release ops ([], s) = Inr (ps', s')" "distinct ps'" "invar (set ps') s'" by auto
  from invar_valid[OF r(3)] invar_apart[OF r(3)] r(1,2) show ?thesis by auto
qed

end

section \<open>Invariants\<close>

definition heap_ok :: "heap \<Rightarrow> bool" where
  "heap_ok h \<longleftrightarrow> (\<forall>b. block_size h b \<noteq> None \<longrightarrow> b < next_block h)"

definition heap_extends :: "heap \<Rightarrow> heap \<Rightarrow> bool" where
  "heap_extends h h' \<longleftrightarrow> (\<forall>b n. block_size h b = Some n \<longrightarrow> block_size h' b = Some n)"

definition pool_chunks :: "MemoryPool \<Rightarrow> mem_ptr set" where
  "pool_chunks pool =
     {(b, int i * item_len pool) | b i. b \<in> set (real_buffer_ptrs pool) \<and> int i < increase_num pool}"

text \<open>
  Given the chunks \<open>A\<close> that are handed out: every chunk is handed out or free or neither, never
  two of these and never twice, and lies in one of the pool's live blocks.
\<close>

definition pool_ok :: "heap \<Rightarrow> MemoryPool \<Rightarrow> mem_ptr set \<Rightarrow> bool" where
  "pool_ok h pool A \<longleftrightarrow> 0 < item_len pool \<and> 0 < increase_num pool \<and>
     increase_num pool * item_len pool \<le> INT_MAX \<and>
     distinct (free_buffers pool) \<and> set (free_buffers pool) \<inter> A = {} \<and>
     set (free_buffers pool) \<union> A \<subseteq> pool_chunks pool \<and>
     (\<forall>b \<in> set (real_buffer_ptrs pool). block_size h b = Some (increase_num pool * item_len pool))"

lemma set_push_chunks: "set (push_chunks b n len) = {(b, int i * len) | i. i < n}"
  by (induction n) (auto simp: less_Suc_eq)

lemma distinct_push_chunks: "0 < len \<Longrightarrow> distinct (push_chunks b n len)"
  by (induction n) (auto simp: set_push_chunks)

lemma pool_ok_extends: "pool_ok h pool A \<Longrightarrow> heap_extends h h' \<Longrightarrow> pool_ok h' pool A"
  by (auto simp: pool_ok_def heap_extends_def)

lemma pool_ok_new:
  "0 < len \<Longrightarrow> 0 < num \<Longrightarrow> num * len \<le> INT_MAX \<Longrightarrow> pool_ok h (MemoryPool_new len num) {}"
  by (simp add: pool_ok_def MemoryPool_new_def)

lemma Alloc_nonempty:
  assumes "pool_ok h pool A" and "free_buffers pool = mem # rest"
  shows "MemoryPool_Alloc (h, pool) = Inr (mem, h, pool\<lparr>free_buffers := rest\<rparr>) \<and> mem \<notin> A \<and>
    pool_ok h (pool\<lparr>free_buffers := rest\<rparr>) (insert mem A)"
  using assms by (auto simp: Alloc_defs pool_ok_def pool_chunks_def)

definition refill :: "nat \<Rightarrow> MemoryPool \<Rightarrow> MemoryPool" where
  "refill b pool = pool\<lparr>real_buffer_ptrs := real_buffer_ptrs pool @ [b],
                        free_buffers := push_chunks b (nat (increase_num pool)) (item_len pool)\<rparr>"

definition grow :: "int \<Rightarrow> heap \<Rightarrow> heap" where
  "grow n h = \<lparr>next_block = next_block h + 1, block_size = (block_size h)(next_block h \<mapsto> n)\<rparr>"

lemma grow_ok: "heap_ok h \<Longrightarrow> heap_ok (grow n h) \<and> heap_extends h (grow n h)"
  by (auto simp: heap_ok_def heap_extends_def grow_def less_Suc_eq)

lemma pool_block_live: "pool_ok h pool A \<Longrightarrow> heap_ok h \<Longrightarrow> b \<in> set (real_buffer_ptrs pool) \<Longrightarrow> b < next_block h"
  by (auto simp: pool_ok_def heap_ok_def)

lemma chunks_refill:
  "pool_chunks (refill b pool) = pool_chunks pool \<union> set (push_chunks b (nat (increase_num pool)) (item_len pool))"
  by (auto simp: pool_chunks_def refill_def set_push_chunks zless_nat_eq_int_zless)

lemma refill_ok:
  assumes "pool_ok h pool A" and "heap_ok h" and "free_buffers pool = []"
  shows "pool_ok (grow (increase_num pool * item_len pool) h) (refill (next_block h) pool) A"
proof -
  let ?n = "increase_num pool * item_len pool"
  have "fst p \<in> set (real_buffer_ptrs pool)" if "p \<in> A" for p
    using assms(1) that by (auto simp: pool_ok_def pool_chunks_def)
  with pool_block_live[OF assms(1,2)] have fresh: "fst p \<noteq> next_block h" if "p \<in> A" for p
    using that by fastforce
  have "A \<subseteq> pool_chunks (refill (next_block h) pool)" "0 < item_len pool" "0 < increase_num pool"
    "?n \<le> INT_MAX" using assms(1) by (auto simp: pool_ok_def chunks_refill)
  moreover have "set (free_buffers (refill (next_block h) pool)) \<inter> A = {}"
    by (auto simp: refill_def set_push_chunks dest!: fresh)
  moreover have "\<forall>b \<in> set (real_buffer_ptrs pool). block_size (grow ?n h) b = Some ?n"
    using assms(1) grow_ok[OF assms(2), of ?n] by (auto simp: pool_ok_def heap_extends_def)
  ultimately show ?thesis
    by (auto simp: pool_ok_def chunks_refill)
      (auto simp: refill_def distinct_push_chunks grow_def)
qed

text \<open>What one allocation does, seen from the pool and from the rest of the heap.\<close>

lemma Alloc_law:
  assumes "pool_ok h pool A" and "heap_ok h"
  shows "\<exists>mem h1 pool1. MemoryPool_Alloc (h, pool) = Inr (mem, h1, pool1) \<and> mem \<notin> A \<and>
    pool_ok h1 pool1 (insert mem A) \<and> heap_ok h1 \<and> heap_extends h h1 \<and>
    item_len pool1 = item_len pool \<and> increase_num pool1 = increase_num pool \<and>
    set (real_buffer_ptrs pool) \<subseteq> set (real_buffer_ptrs pool1) \<and>
    (\<forall>b \<in> set (real_buffer_ptrs pool1). b \<in> set (real_buffer_ptrs pool) \<or> next_block h \<le> b)"
proof (cases "free_buffers pool")
  case (Cons mem rest)
  with Alloc_nonempty[OF assms(1) Cons] assms(2) show ?thesis by (auto simp: heap_extends_def)
next
  case Nil
  let ?n = "increase_num pool * item_len pool"
  define h1 where "h1 = grow ?n h"
  define pool1 where "pool1 = refill (next_block h) pool"
  have ok: "pool_ok h1 pool1 A" unfolding h1_def pool1_def by (rule refill_ok[OF assms Nil])
  have n: "0 < ?n" "?n \<le> INT_MAX" "0 < increase_num pool" using assms(1) by (auto simp: pool_ok_def)
  obtain k where "nat (increase_num pool) = Suc k" using n(3) by (metis gr0_implies_Suc zero_less_nat_eq)
  then obtain mem rest where f: "free_buffers pool1 = mem # rest" by (simp add: pool1_def refill_def)
  from n Nil have "MemoryPool_Alloc (h, pool) = MemoryPool_Alloc (h1, pool1)"
    unfolding Alloc_defs using f
    by (simp add: c_int_def INT_MIN_def heap_new_def h1_def grow_def pool1_def refill_def)
  with Alloc_nonempty[OF ok f] grow_ok[OF assms(2), of ?n] show ?thesis
    by (auto simp: h1_def pool1_def refill_def)
qed

lemma MemoryPool_Free_law:
  assumes "pool_ok h pool A" and "p \<in> A"
  shows "pool_ok h (pool\<lparr>free_buffers := p # free_buffers pool\<rparr>) (A - {p})"
  using assms by (auto simp: pool_ok_def pool_chunks_def)

lemma pool_chunk_valid:
  assumes "pool_ok h pool A" and "p \<in> A"
  shows "chunk_valid h p (item_len pool)"
proof -
  from assms obtain b i where p: "p = (b, int i * item_len pool)" "int i + 1 \<le> increase_num pool"
    "0 < item_len pool" "block_size h b = Some (increase_num pool * item_len pool)"
    by (auto simp: pool_ok_def pool_chunks_def)
  from mult_right_mono[OF p(2), of "item_len pool"] p show ?thesis
    by (simp add: chunk_valid_def distrib_right)
qed

lemma grid_apart:
  assumes "0 < n" and "i \<noteq> j"
  shows "int i * n + n \<le> int j * n \<or> int j * n + n \<le> int i * n"
proof (cases "i < j")
  case True
  then have "int i + 1 \<le> int j" by simp
  from mult_right_mono[OF this, of n] assms(1) show ?thesis by (simp add: distrib_right)
next
  case False
  with assms(2) have "int j + 1 \<le> int i" by simp
  from mult_right_mono[OF this, of n] assms(1) show ?thesis by (simp add: distrib_right)
qed

lemma pool_chunks_apart:
  assumes "0 < item_len pool" and "p \<in> pool_chunks pool" and "q \<in> pool_chunks pool" and "p \<noteq> q"
  shows "chunks_apart p (item_len pool) q (item_len pool)"
proof -
  from assms(2,3) obtain b i c j where "p = (b, int i * item_len pool)" "q = (c, int j * item_len pool)"
    by (auto simp: pool_chunks_def)
  with grid_apart[OF assms(1), of i j] assms(4) show ?thesis by (auto simp: chunks_apart_def)
qed

section \<open>MemoryPool meets the contract\<close>

definition pool_invar :: "mem_ptr set \<Rightarrow> heap \<times> MemoryPool \<Rightarrow> bool" where
  "pool_invar A = (\<lambda>(h, pool). heap_ok h \<and> pool_ok h pool A)"

interpretation pool: chunk_allocator
    "\<lambda>(_ :: unit). MemoryPool_Alloc" "\<lambda>(_ :: unit) p s. Inr (MemoryPool_Free p s)" pool_invar
    "\<lambda>_. True" "\<lambda>(h, pl) p. item_len pl" fst
proof (unfold_locales, goal_cases)
  case (1 A s r)
  obtain h pl where s: "s = (h, pl)" by (cases s)
  from 1 Alloc_law[of h pl A] show ?case by (auto simp: pool_invar_def s)
next
  case (2 A s p t)
  obtain h pl where s: "s = (h, pl)" by (cases s)
  from 2 MemoryPool_Free_law[of h pl A p] show ?case by (auto simp: pool_invar_def s MemoryPool_Free_def)
next
  case (3 A s p)
  then show ?case by (cases s) (auto simp: pool_invar_def intro: pool_chunk_valid)
next
  case (4 A s p q)
  then show ?case by (cases s) (auto simp: pool_invar_def pool_ok_def intro: pool_chunks_apart)
qed

section \<open>MemoryPoolManager meets the contract\<close>

definition of_size :: "MemoryPoolManager \<Rightarrow> mem_ptr set \<Rightarrow> int \<Rightarrow> mem_ptr set" where
  "of_size mgr A fs = {p \<in> A. memory_to_size_map mgr p = Some fs}"

abbreviation pool_at :: "MemoryPoolManager \<Rightarrow> int \<Rightarrow> MemoryPool option" where
  "pool_at mgr fs \<equiv> map_find (<) fs (memory_size_to_pool_map mgr)"

text \<open>
  Between calls both locks are free; the pool of a size serves the chunks recorded with that
  size; and no two pools share a block.
\<close>

definition manager_invar :: "mem_ptr set \<Rightarrow> heap \<times> MemoryPoolManager \<Rightarrow> bool" where
  "manager_invar A = (\<lambda>(h, mgr). heap_ok h \<and>
     memory_to_size_map_lock mgr = Mutex_new \<and> memory_size_to_pool_map_lock mgr = Mutex_new \<and>
     (\<forall>p \<in> A. \<exists>fs. memory_to_size_map mgr p = Some fs \<and> pool_at mgr fs \<noteq> None) \<and>
     (\<forall>fs pl. pool_at mgr fs = Some pl \<longrightarrow> item_len pl = fs \<and> pool_ok h pl (of_size mgr A fs)) \<and>
     (\<forall>fs fs' pl pl'. fs \<noteq> fs' \<longrightarrow> pool_at mgr fs = Some pl \<longrightarrow> pool_at mgr fs' = Some pl' \<longrightarrow>
        set (real_buffer_ptrs pl) \<inter> set (real_buffer_ptrs pl') = {}))"

definition size_ok :: "int \<Rightarrow> bool" where
  "size_ok sz \<longleftrightarrow> 0 \<le> sz \<and> MEMORY_POOL_DEFAULT_INCREASE_ALLOC_NUM * (sz + 8) \<le> INT_MAX"

text \<open>The rounded size: a positive multiple of 8 with room for the request.\<close>

lemma fix_size_ok:
  assumes "size_ok sz"
  shows "\<exists>fs. fix_size sz = Inr fs \<and> sz < fs \<and> fs \<le> sz + 8 \<and> 8 dvd fs"
proof -
  have r: "sz smod 8 = sz mod 8" using assms
    by (simp add: size_ok_def signed_modulo_int_def sgn_if)
  have b: "0 \<le> sz mod 8" "sz mod 8 < 8" by simp_all
  have z: "0 \<le> sz" "10 * (sz + 8) \<le> 2147483647"
    using assms by (simp_all add: size_ok_def INT_MAX_def MEMORY_POOL_DEFAULT_INCREASE_ALLOC_NUM_def)
  from z(2) have "sz \<le> 214748356" by presburger
  with z(1) b have "INT_MIN \<le> sz + 8 \<and> sz + 8 \<le> INT_MAX \<and>
      INT_MIN \<le> sz + 8 - sz mod 8 \<and> sz + 8 - sz mod 8 \<le> INT_MAX"
    unfolding INT_MIN_def INT_MAX_def by linarith
  then have "fix_size sz = Inr (sz + 8 - sz mod 8)" by (simp add: fix_size_def r c_int_ok)
  moreover have "8 dvd sz + 8 - sz mod 8" by presburger
  moreover have "sz < sz + 8 - sz mod 8" "sz + 8 - sz mod 8 \<le> sz + 8" by (use b in linarith)+
  ultimately show ?thesis by blast
qed

lemma manager_invarD:
  assumes "manager_invar A (h, mgr)"
  shows "heap_ok h" "memory_to_size_map_lock mgr = Mutex_new" "memory_size_to_pool_map_lock mgr = Mutex_new"
    "\<And>p. p \<in> A \<Longrightarrow> \<exists>fs pl. memory_to_size_map mgr p = Some fs \<and> pool_at mgr fs = Some pl"
    "\<And>fs pl. pool_at mgr fs = Some pl \<Longrightarrow> item_len pl = fs \<and> pool_ok h pl (of_size mgr A fs)"
    "\<And>fs fs' pl pl'. fs \<noteq> fs' \<Longrightarrow> pool_at mgr fs = Some pl \<Longrightarrow> pool_at mgr fs' = Some pl' \<Longrightarrow>
        set (real_buffer_ptrs pl) \<inter> set (real_buffer_ptrs pl') = {}"
  using assms by (auto simp: manager_invar_def)

lemma pool_for_ok:
  assumes "manager_invar A (h, mgr)" and "0 < fs"
    and "MEMORY_POOL_DEFAULT_INCREASE_ALLOC_NUM * fs \<le> INT_MAX"
  shows "item_len (pool_for mgr fs) = fs" "pool_ok h (pool_for mgr fs) (of_size mgr A fs)"
    "\<And>g pl. g \<noteq> fs \<Longrightarrow> pool_at mgr g = Some pl \<Longrightarrow>
       set (real_buffer_ptrs (pool_for mgr fs)) \<inter> set (real_buffer_ptrs pl) = {}"
proof -
  note D = manager_invarD[OF assms(1)]
  have "of_size mgr A fs = {}" if "pool_at mgr fs = None" using D(4) that by (fastforce simp: of_size_def)
  then show "pool_ok h (pool_for mgr fs) (of_size mgr A fs)"
    using D(5)[of fs] pool_ok_new[of fs MEMORY_POOL_DEFAULT_INCREASE_ALLOC_NUM h] assms(2,3)
    by (auto simp: pool_for_def MEMORY_POOL_DEFAULT_INCREASE_ALLOC_NUM_def split: option.splits)
  show "item_len (pool_for mgr fs) = fs"
    using D(5)[of fs] by (auto simp: pool_for_def MemoryPool_new_def split: option.splits)
  show "\<And>g pl. g \<noteq> fs \<Longrightarrow> pool_at mgr g = Some pl \<Longrightarrow>
       set (real_buffer_ptrs (pool_for mgr fs)) \<inter> set (real_buffer_ptrs pl) = {}"
    using D(6) by (fastforce simp: pool_for_def MemoryPool_new_def split: option.splits)
qed

lemma pool_member_block: "pool_ok h pl A \<Longrightarrow> p \<in> A \<Longrightarrow> fst p \<in> set (real_buffer_ptrs pl)"
  by (auto simp: pool_ok_def pool_chunks_def)

text \<open>Putting a pool back after it changed keeps the invariant, if it stays clear of the others.\<close>

lemma manager_invar_put:
  assumes I: "manager_invar A (h, mgr)" and h: "heap_ok h1" "heap_extends h h1"
    and pl: "item_len pl = fs" "pool_ok h1 pl (of_size mgr' A' fs)"
    and other: "\<And>g pl'. g \<noteq> fs \<Longrightarrow> pool_at mgr g = Some pl' \<Longrightarrow>
        set (real_buffer_ptrs pl) \<inter> set (real_buffer_ptrs pl') = {}"
    and same: "\<And>g. g \<noteq> fs \<Longrightarrow> of_size mgr' A' g = of_size mgr A g"
    and A': "\<And>p. p \<in> A' \<Longrightarrow> p \<in> A \<or> memory_to_size_map mgr' p = Some fs"
    and kept: "\<And>p. p \<in> A' \<Longrightarrow> memory_to_size_map mgr' p = Some fs \<or>
        memory_to_size_map mgr' p = memory_to_size_map mgr p"
    and mgr': "memory_size_to_pool_map mgr' = map_put (<) fs pl (memory_size_to_pool_map mgr)"
      "memory_to_size_map_lock mgr' = Mutex_new" "memory_size_to_pool_map_lock mgr' = Mutex_new"
  shows "manager_invar A' (h1, mgr')"
proof -
  note D = manager_invarD[OF I]
  have at: "pool_at mgr' g = (if g = fs then Some pl else pool_at mgr g)" for g
    by (simp add: mgr' int_keys.find_put)
  have "\<exists>g. memory_to_size_map mgr' p = Some g \<and> pool_at mgr' g \<noteq> None" if p: "p \<in> A'" for p
  proof (cases "memory_to_size_map mgr' p = Some fs")
    case False
    with A'[OF p] kept[OF p] D(4)[of p] obtain g pl' where
      "memory_to_size_map mgr' p = Some g" "pool_at mgr g = Some pl'" by auto
    then show ?thesis using at[of g] by (intro exI[of _ g]) auto
  qed (use at in auto)
  moreover have "item_len pl' = g \<and> pool_ok h1 pl' (of_size mgr' A' g)" if "pool_at mgr' g = Some pl'" for g pl'
    using that at pl same[of g] D(5)[of g pl'] pool_ok_extends[OF _ h(2)] by (auto split: if_splits)
  moreover have "set (real_buffer_ptrs p1) \<inter> set (real_buffer_ptrs p2) = {}"
    if "g \<noteq> g'" "pool_at mgr' g = Some p1" "pool_at mgr' g' = Some p2" for g g' p1 p2
  proof (cases "g = fs \<or> g' = fs")
    case True
    then show ?thesis using that at other[of g p1] other[of g' p2] by (auto split: if_splits)
  next
    case False
    then show ?thesis using that at D(6)[of g g' p1 p2] by simp
  qed
  ultimately show ?thesis unfolding manager_invar_def using h(1) mgr'(2,3) by auto
qed

lemma manager_alloc_law:
  assumes I: "manager_invar A (h, mgr)" and "size_ok sz"
  shows "\<exists>p s'. MemoryPoolManager_Alloc t sz (h, mgr) = Inr (p, s') \<and> p \<notin> A \<and> manager_invar (insert p A) s'"
proof -
  note D = manager_invarD[OF I]
  from fix_size_ok[OF assms(2)] obtain fs where fs: "fix_size sz = Inr fs" "sz < fs" "fs \<le> sz + 8" by auto
  with assms(2) have fs2: "0 < fs" "MEMORY_POOL_DEFAULT_INCREASE_ALLOC_NUM * fs \<le> INT_MAX"
    by (auto simp: size_ok_def MEMORY_POOL_DEFAULT_INCREASE_ALLOC_NUM_def)
  note P = pool_for_ok[OF I fs2]
  from Alloc_law[OF P(2) D(1)] obtain mem h1 pool1 where
    a: "MemoryPool_Alloc (h, pool_for mgr fs) = Inr (mem, h1, pool1)"
      "mem \<notin> of_size mgr A fs" "pool_ok h1 pool1 (insert mem (of_size mgr A fs))" "heap_ok h1"
      "heap_extends h h1" "item_len pool1 = fs"
      "\<forall>b \<in> set (real_buffer_ptrs pool1). b \<in> set (real_buffer_ptrs (pool_for mgr fs)) \<or> next_block h \<le> b"
    using P(1) by auto
  have other: "set (real_buffer_ptrs pool1) \<inter> set (real_buffer_ptrs pl') = {}"
    if "g \<noteq> fs" "pool_at mgr g = Some pl'" for g pl'
    using a(7) P(3)[OF that] pool_block_live[OF _ D(1)] D(5)[OF that(2)] by fastforce
  have new: "mem \<notin> A"
  proof
    assume mem: "mem \<in> A"
    from D(4)[OF mem] obtain g pl where g: "memory_to_size_map mgr mem = Some g" "pool_at mgr g = Some pl"
      by auto
    then have "g \<noteq> fs" using a(2) mem by (auto simp: of_size_def)
    moreover have "fst mem \<in> set (real_buffer_ptrs pl)"
      using D(5)[OF g(2)] mem g(1) by (intro pool_member_block[of h pl "of_size mgr A g"]) (auto simp: of_size_def)
    moreover have "fst mem \<in> set (real_buffer_ptrs pool1)" using a(3) pool_member_block by blast
    ultimately show False using other[of g pl] g(2) by auto
  qed
  define mgr' where "mgr' = mgr\<lparr>memory_size_to_pool_map := map_put (<) fs pool1 (memory_size_to_pool_map mgr),
    memory_to_size_map := (memory_to_size_map mgr)(mem \<mapsto> fs)\<rparr>"
  have "MemoryPoolManager_Alloc t sz (h, mgr) = Inr (mem, h1, mgr')"
    using manager_Alloc_free[OF fs(1) D(2,3) a(1)] by (simp add: mgr'_def)
  moreover have "manager_invar (insert mem A) (h1, mgr')"
  proof (rule manager_invar_put[OF I a(4,5,6) _ other])
    have "of_size mgr' (insert mem A) fs = insert mem (of_size mgr A fs)"
      using new by (auto simp: of_size_def mgr'_def)
    with a(3) show "pool_ok h1 pool1 (of_size mgr' (insert mem A) fs)" by simp
  qed (use new D(2,3) in \<open>auto simp: of_size_def mgr'_def\<close>)
  ultimately show ?thesis using new by blast
qed

lemma manager_release_law:
  assumes I: "manager_invar A (h, mgr)" and p: "p \<in> A"
  shows "\<exists>s'. MemoryPoolManager_Free t p (h, mgr) = Inr (True, s') \<and> manager_invar (A - {p}) s'"
proof -
  note D = manager_invarD[OF I]
  from D(4)[OF p] obtain fs pl where fs: "memory_to_size_map mgr p = Some fs" "pool_at mgr fs = Some pl"
    by auto
  define pool1 where "pool1 = pl\<lparr>free_buffers := p # free_buffers pl\<rparr>"
  define mgr' where "mgr' = mgr\<lparr>memory_size_to_pool_map := map_put (<) fs pool1 (memory_size_to_pool_map mgr)\<rparr>"
  have "MemoryPoolManager_Free t p (h, mgr) = Inr (True, h, mgr')"
    using manager_Free_free(2)[OF D(2,3) fs] by (simp add: mgr'_def pool1_def)
  moreover have "manager_invar (A - {p}) (h, mgr')"
  proof (rule manager_invar_put[OF I D(1)])
    show "item_len pool1 = fs" using D(5)[OF fs(2)] by (simp add: pool1_def)
    have "of_size mgr' (A - {p}) fs = of_size mgr A fs - {p}" by (auto simp: of_size_def mgr'_def)
    moreover have "p \<in> of_size mgr A fs" using p fs(1) by (simp add: of_size_def)
    ultimately show "pool_ok h pool1 (of_size mgr' (A - {p}) fs)"
      using D(5)[OF fs(2)] MemoryPool_Free_law[of h pl "of_size mgr A fs" p] by (simp add: pool1_def)
    show "\<And>g pl'. g \<noteq> fs \<Longrightarrow> pool_at mgr g = Some pl' \<Longrightarrow>
        set (real_buffer_ptrs pool1) \<inter> set (real_buffer_ptrs pl') = {}"
      using D(6) fs(2) by (fastforce simp: pool1_def)
  qed (use D(2,3) fs in \<open>auto simp: of_size_def mgr'_def heap_extends_def\<close>)
  ultimately show ?thesis by blast
qed

definition chunk_size :: "heap \<times> MemoryPoolManager \<Rightarrow> mem_ptr \<Rightarrow> int" where
  "chunk_size = (\<lambda>(h, mgr) p. case memory_to_size_map mgr p of None \<Rightarrow> 0 | Some fs \<Rightarrow> fs)"

interpretation manager: chunk_allocator
    "\<lambda>(t, sz). MemoryPoolManager_Alloc t sz" MemoryPoolManager_Free manager_invar
    "\<lambda>(t, sz). size_ok sz" chunk_size fst
proof (unfold_locales, goal_cases)
  case (1 A s r)
  then show ?case using manager_alloc_law[of A "fst s" "snd s"] by (cases s; cases r) auto
next
  case (2 A s p t)
  then show ?case using manager_release_law[of A "fst s" "snd s"] by (cases s) auto
next
  case (3 A s p)
  obtain h mgr where s: "s = (h, mgr)" by (cases s)
  note D = manager_invarD[OF 3(1)[unfolded s]]
  from D(4)[OF 3(2)] D(5) pool_chunk_valid 3(2) show ?case
    by (fastforce simp: s chunk_size_def of_size_def)
next
  case (4 A s p q)
  obtain h mgr where s: "s = (h, mgr)" by (cases s)
  note D = manager_invarD[OF 4(1)[unfolded s]]
  from D(4)[OF 4(2)] D(4)[OF 4(3)] obtain f g pl pm where
    1: "memory_to_size_map mgr p = Some f" "pool_at mgr f = Some pl"
      "memory_to_size_map mgr q = Some g" "pool_at mgr g = Some pm" by auto
  have m: "p \<in> of_size mgr A f" "q \<in> of_size mgr A g" using 1 4 by (auto simp: of_size_def)
  show ?case
  proof (cases "f = g")
    case True
    have "pool_ok h pl (of_size mgr A f)" "item_len pl = f" using D(5)[OF 1(2)] by auto
    with m True 4(4) pool_chunks_apart[of pl p q] 1 show ?thesis
      by (auto simp: pool_ok_def s chunk_size_def)
  next
    case False
    have "pool_ok h pl (of_size mgr A f)" "pool_ok h pm (of_size mgr A g)"
      using D(5)[OF 1(2)] D(5)[OF 1(4)] by auto
    from pool_member_block[OF this(1) m(1)] pool_member_block[OF this(2) m(2)]
      D(6)[OF False 1(2,4)] show ?thesis by (auto simp: chunks_apart_def)
  qed
qed

section \<open>Properties\<close>

lemma manager_invar_new: "heap_ok h \<Longrightarrow> manager_invar {} (h, MemoryPoolManager_new)"
  by (simp add: manager_invar_def MemoryPoolManager_new_def)

text \<open>
  C19: As long as no two calls of a \<^verbatim>\<open>MemoryPoolManager\<close> overlap in time: whichever threads allocate and free, in
  whatever order, freeing only chunks they have, every call returns, every chunk handed out and not
  freed is inside a live block, and no two of them share a byte. Requests are bounded by what the
  product of the chunk size and the number of chunks per block leaves of an \<^verbatim>\<open>int\<close>. Calls that do overlap are
  not safe, see \<open>manager_free_race\<close>.
\<close>

theorem manager_chunks_never_overlap:
  assumes "heap_ok h" and "requests_ok (\<lambda>(t, sz). size_ok sz) ops"
  shows "\<exists>ps s. alloc_run (\<lambda>(t, sz). MemoryPoolManager_Alloc t sz) MemoryPoolManager_Free ops
      ([], h, MemoryPoolManager_new) = Inr (ps, s) \<and> distinct ps \<and>
    (\<forall>p \<in> set ps. chunk_valid (fst s) p (chunk_size s p)) \<and>
    (\<forall>p \<in> set ps. \<forall>q \<in> set ps. p \<noteq> q \<longrightarrow> chunks_apart p (chunk_size s p) q (chunk_size s q))"
  using manager.run_apart[OF manager_invar_new[OF assms(1)] assms(2)] by auto

theorem manager_chunks_never_overlap_witness:
  "\<exists>ps s. alloc_run (\<lambda>(t, sz). MemoryPoolManager_Alloc t sz) MemoryPoolManager_Free
      [AllocOp (1, 20), AllocOp (2, 20), AllocOp (1, 64), FreeOp 2 1, AllocOp (2, 17)]
      ([], \<lparr>next_block = 0, block_size = Map.empty\<rparr>, MemoryPoolManager_new) = Inr (ps, s) \<and> distinct ps \<and>
    (\<forall>p \<in> set ps. \<forall>q \<in> set ps. p \<noteq> q \<longrightarrow> chunks_apart p (chunk_size s p) q (chunk_size s q))"
proof -
  have h: "heap_ok \<lparr>next_block = 0, block_size = Map.empty\<rparr>" by (simp add: heap_ok_def)
  show ?thesis
    using manager_chunks_never_overlap [OF h,
      of "[AllocOp (1, 20), AllocOp (2, 20), AllocOp (1, 64), FreeOp 2 1, AllocOp (2, 17)]"]
    by (auto simp: size_ok_def MEMORY_POOL_DEFAULT_INCREASE_ALLOC_NUM_def INT_MAX_def)
qed

text \<open>
  C32: The race of \<^verbatim>\<open>Free\<close>. It gives the lock of the pools back before it pushes the chunk on the stack of its pool. When the
  push falls between the top and the pop of an allocation of that size by another thread, the pop takes
  the chunk just pushed, and the chunk the allocation returns is still on the stack: the next allocation
  of that size returns it again, whoever asks, so two callers hold the same bytes.
\<close>

theorem manager_free_race:
  assumes "manager_invar A (h, mgr)" and "p \<in> A" and "size_ok sz"
    and "fix_size sz = Inr fs" and "memory_to_size_map mgr p = Some fs"
  shows "\<exists>s1 mem s2 s3 s4 s5. Free_find t1 p (h, mgr) = Inr (Some fs, s1) \<and>
    Alloc_top t2 sz s1 = Inr (fs, mem, s2) \<and> Free_push fs p s2 = Inr (True, s3) \<and> Alloc_pop t2 fs mem s3 = Inr (mem, s4) \<and>
    mem \<notin> A \<and> MemoryPoolManager_Alloc t3 sz s4 = Inr (mem, s5)"
proof -
  note D = manager_invarD[OF assms(1)]
  from D(4)[OF assms(2)] assms(5) obtain pl where pl: "pool_at mgr fs = Some pl" by auto
  have P: "pool_for mgr fs = pl" "pool_ok h pl (of_size mgr A fs)" using pl D(5) by (simp_all add: pool_for_def)
  from manager_alloc_law[OF assms(1,3), of t2] obtain mem h1 mgr' where
    a: "MemoryPoolManager_Alloc t2 sz (h, mgr) = Inr (mem, h1, mgr')" "mem \<notin> A" by auto
  then obtain pool1 where p1: "Alloc_top t2 sz (h, mgr) = Inr (fs, mem, h1, mgr\<lparr>memory_size_to_pool_map :=
        map_put (<) fs pool1 (memory_size_to_pool_map mgr), memory_size_to_pool_map_lock := \<lparr>mutex_owner = Some t2, mutex_depth = 1\<rparr>\<rparr>)"
      "pool_refill (h, pl) = Inr (h1, pool1)" "pool_top pool1 = Inr mem"
    using assms(4) D(3) pl by (auto simp: MemoryPoolManager_Alloc_def Alloc_top_def bind_res_eq_Inr Let_def dest: Alloc_pop_same)
  then obtain rest where f: "free_buffers pool1 = mem # rest" by (auto simp: pool_top_def split: list.splits)
  let ?put = "\<lambda>fb l. mgr\<lparr>memory_size_to_pool_map := map_put (<) fs (pool1\<lparr>free_buffers := fb\<rparr>) (memory_size_to_pool_map mgr),
      memory_size_to_pool_map_lock := l\<rparr>"
  let ?l = "\<lparr>mutex_owner = Some t2, mutex_depth = 1\<rparr>"
  let ?m4 = "(?put (mem # rest) Mutex_new)\<lparr>memory_to_size_map := (memory_to_size_map mgr)(mem \<mapsto> fs)\<rparr>"
  have s3: "Free_push fs p (h1, ?put (mem # rest) ?l) = Inr (True, h1, ?put (p # mem # rest) ?l)"
    by (simp add: Free_push_def MemoryPool_Free_def int_keys.find_put put_put)
  have s4: "Alloc_pop t2 fs mem (h1, ?put (p # mem # rest) ?l) = Inr (mem, h1, ?m4)"
    using D(2) by (simp add: Alloc_pop_def pool_pop_def int_keys.find_put put_put Let_def)
  have "MemoryPool_Alloc (h1, pool_for ?m4 fs) = Inr (mem, h1, pool1\<lparr>free_buffers := rest\<rparr>)"
    by (simp add: pool_for_def int_keys.find_put Alloc_defs)
  then obtain s5 where s5: "MemoryPoolManager_Alloc t3 sz (h1, ?m4) = Inr (mem, s5)"
    using manager_Alloc_free[OF assms(4), of ?m4 h1 mem h1 _ t3] D(2) by auto
  have "pool1\<lparr>free_buffers := mem # rest\<rparr> = pool1" using f by (cases pool1) simp
  with p1(1) s3 s4 s5 a(2) manager_Free_free(1)[OF D(2,3) assms(5) pl, of t1 h] show ?thesis by metis
qed

theorem manager_free_race_witness:
  "\<exists>p s s1 mem s2 s3 s4 s5. MemoryPoolManager_Alloc 1 20 (\<lparr>next_block = 0, block_size = Map.empty\<rparr>, MemoryPoolManager_new) = Inr (p, s) \<and>
    Free_find 1 p s = Inr (Some 24, s1) \<and> Alloc_top 2 20 s1 = Inr (24, mem, s2) \<and> Free_push 24 p s2 = Inr (True, s3) \<and>
    Alloc_pop 2 24 mem s3 = Inr (mem, s4) \<and> MemoryPoolManager_Alloc 3 20 s4 = Inr (mem, s5)"
proof -
  have h: "heap_ok \<lparr>next_block = 0, block_size = Map.empty\<rparr>" by (simp add: heap_ok_def)
  have z: "size_ok 20" by (simp add: size_ok_def MEMORY_POOL_DEFAULT_INCREASE_ALLOC_NUM_def INT_MAX_def)
  have f: "fix_size 20 = Inr 24" by (simp add: fix_size_def c_int_def INT_MIN_def INT_MAX_def signed_modulo_int_def sgn_if)
  obtain p h1 mgr1 where a: "MemoryPoolManager_Alloc 1 20 (\<lparr>next_block = 0, block_size = Map.empty\<rparr>, MemoryPoolManager_new) = Inr (p, h1, mgr1)"
      "manager_invar {p} (h1, mgr1)"
    using manager_alloc_law[OF manager_invar_new[OF h] z, of 1] by auto
  have "memory_to_size_map mgr1 p = Some 24" using manager_Alloc_sizes[OF a(1) f] by simp
  from manager_free_race [OF a(2) _ z f this, of 1 2 3] a(1) show ?thesis by auto
qed

text \<open>
  The chunk of a request is larger than the request by at most 8 bytes and a multiple of the
  size of a \<^verbatim>\<open>long\<close>.
\<close>

theorem manager_alloc_rounds_up:
  assumes "manager_invar A (h, mgr)" and "size_ok sz"
  shows "\<exists>p s'. MemoryPoolManager_Alloc t sz (h, mgr) = Inr (p, s') \<and>
    sz < chunk_size s' p \<and> chunk_size s' p \<le> sz + 8 \<and> 8 dvd chunk_size s' p"
proof -
  from manager_alloc_law[OF assms, of t] obtain p s' where
    a: "MemoryPoolManager_Alloc t sz (h, mgr) = Inr (p, s')" by auto
  from fix_size_ok[OF assms(2)] obtain fs where
    fs: "fix_size sz = Inr fs" "sz < fs" "fs \<le> sz + 8" "8 dvd fs" by auto
  have "chunk_size s' p = fs" using manager_Alloc_sizes[OF _ fs(1), of t h mgr p] a by (cases s') (simp add: chunk_size_def)
  with a fs show ?thesis by auto
qed

theorem manager_alloc_rounds_up_witness:
  "\<exists>p s'. MemoryPoolManager_Alloc 1 16 (\<lparr>next_block = 0, block_size = Map.empty\<rparr>, MemoryPoolManager_new) = Inr (p, s') \<and>
    16 < chunk_size s' p \<and> chunk_size s' p \<le> 24 \<and> 8 dvd chunk_size s' p"
proof -
  have h: "heap_ok \<lparr>next_block = 0, block_size = Map.empty\<rparr>" by (simp add: heap_ok_def)
  show ?thesis
    using manager_alloc_rounds_up [OF manager_invar_new[OF h], of 16 1]
    by (simp add: size_ok_def MEMORY_POOL_DEFAULT_INCREASE_ALLOC_NUM_def INT_MAX_def)
qed

text \<open>
  Freeing a pointer the manager never handed out returns false and keeps the lock: no other
  thread can allocate or free from then on.
\<close>

theorem manager_free_unknown_keeps_lock:
  assumes "manager_invar A (h, mgr)" and "memory_to_size_map mgr p = None" and "t' \<noteq> t" and "size_ok sz"
  shows "\<exists>mgr'. MemoryPoolManager_Free t p (h, mgr) = Inr (False, h, mgr') \<and>
    MemoryPoolManager_Free t' q (h, mgr') = Inl WouldBlock \<and>
    MemoryPoolManager_Alloc t' sz (h, mgr') = Inl WouldBlock"
proof -
  note D = manager_invarD[OF assms(1)]
  define mgr' where "mgr' = mgr\<lparr>memory_to_size_map_lock := \<lparr>mutex_owner = Some t, mutex_depth = 1\<rparr>\<rparr>"
  have "MemoryPoolManager_Free t p (h, mgr) = Inr (False, h, mgr')"
    using D(2) assms(2) by (simp add: MemoryPoolManager_Free_def Free_find_def mgr'_def)
  moreover have l: "Mutex_Lock t' (memory_to_size_map_lock mgr') = Inl WouldBlock"
    using assms(3) by (simp add: mgr'_def Mutex_Lock_def)
  moreover have "MemoryPoolManager_Alloc t' sz (h, mgr') = Inl WouldBlock"
  proof -
    from manager_alloc_law[OF assms(1,4), of t'] obtain x where
      "MemoryPoolManager_Alloc t' sz (h, mgr) = Inr x" by auto
    then obtain fs mem h1 mgr1 where a: "Alloc_top t' sz (h, mgr) = Inr (fs, mem, h1, mgr1)" "Alloc_pop t' fs mem (h1, mgr1) = Inr x"
      by (auto simp: MemoryPoolManager_Alloc_def bind_res_eq_Inr)
    have "Alloc_top t' sz (h, mgr') = Inr (fs, mem, h1, mgr1\<lparr>memory_to_size_map_lock := memory_to_size_map_lock mgr'\<rparr>)"
      using a(1) by (auto simp: Alloc_top_def mgr'_def bind_res_eq_Inr Let_def)
    moreover have "Alloc_pop t' fs mem (h1, mgr1\<lparr>memory_to_size_map_lock := memory_to_size_map_lock mgr'\<rparr>) = Inl WouldBlock"
      using a(2) l by (auto simp: Alloc_pop_def bind_res_eq_Inr Let_def split: option.splits)
    ultimately show ?thesis by (simp add: MemoryPoolManager_Alloc_def)
  qed
  ultimately show ?thesis by (auto simp: MemoryPoolManager_Free_def Free_find_def)
qed

theorem manager_free_unknown_keeps_lock_witness:
  "\<exists>mgr'. MemoryPoolManager_Free 1 (0, 0) (\<lparr>next_block = 1, block_size = [0 \<mapsto> 8]\<rparr>, MemoryPoolManager_new) =
      Inr (False, \<lparr>next_block = 1, block_size = [0 \<mapsto> 8]\<rparr>, mgr') \<and>
    MemoryPoolManager_Free 2 (0, 0) (\<lparr>next_block = 1, block_size = [0 \<mapsto> 8]\<rparr>, mgr') = Inl WouldBlock \<and>
    MemoryPoolManager_Alloc 2 16 (\<lparr>next_block = 1, block_size = [0 \<mapsto> 8]\<rparr>, mgr') = Inl WouldBlock"
proof -
  have h: "heap_ok \<lparr>next_block = 1, block_size = [0 \<mapsto> 8]\<rparr>" by (simp add: heap_ok_def)
  show ?thesis
    using manager_free_unknown_keeps_lock [OF manager_invar_new[OF h], of "(0, 0)" 2 1 16 "(0, 0)"]
    by (simp add: size_ok_def MEMORY_POOL_DEFAULT_INCREASE_ALLOC_NUM_def INT_MAX_def MemoryPoolManager_new_def)
qed

text \<open>
  One \<^verbatim>\<open>MemoryPool\<close> on its own gives out chunks that never overlap, through any sequence of
  allocations and frees of chunks it gave out.
\<close>

theorem pool_chunks_never_overlap:
  assumes "heap_ok h" and "0 < len" and "0 < num" and "num * len \<le> INT_MAX"
  shows "\<exists>ps h' pl. alloc_run (\<lambda>(_ :: unit). MemoryPool_Alloc) (\<lambda>(_ :: unit) p s. Inr (MemoryPool_Free p s)) ops
      ([], h, MemoryPool_new len num) = Inr (ps, h', pl) \<and> distinct ps \<and>
    (\<forall>p \<in> set ps. chunk_valid h' p (item_len pl)) \<and>
    (\<forall>p \<in> set ps. \<forall>q \<in> set ps. p \<noteq> q \<longrightarrow> chunks_apart p (item_len pl) q (item_len pl))"
proof -
  have "requests_ok (\<lambda>_ :: unit. True) ops" by (induction "\<lambda>_ :: unit. True" ops rule: requests_ok.induct) auto
  moreover have "pool_invar {} (h, MemoryPool_new len num)"
    using assms pool_ok_new by (simp add: pool_invar_def)
  ultimately show ?thesis using pool.run_apart[of "(h, MemoryPool_new len num)" ops] by auto
qed

theorem pool_chunks_never_overlap_witness:
  "\<exists>ps h' pl. alloc_run (\<lambda>(_ :: unit). MemoryPool_Alloc) (\<lambda>(_ :: unit) p s. Inr (MemoryPool_Free p s))
      [AllocOp (), AllocOp (), FreeOp () 0, AllocOp ()]
      ([], \<lparr>next_block = 0, block_size = Map.empty\<rparr>, MemoryPool_new 64 10) = Inr (ps, h', pl) \<and> distinct ps"
proof -
  have h: "heap_ok \<lparr>next_block = 0, block_size = Map.empty\<rparr>" by (simp add: heap_ok_def)
  show ?thesis
    using pool_chunks_never_overlap [OF h, of 64 10 "[AllocOp (), AllocOp (), FreeOp () 0, AllocOp ()]"]
    by (auto simp: INT_MAX_def)
qed

end
