(* ===== verification/NetworkManager.thy ===== *)
theory NetworkManager
  imports NetworkPacker Sockets Threads MemPool
begin

text \<open>
  \<^verbatim>\<open>NetworkManager\<close> (\<^verbatim>\<open>elegance/network/network_manager.*\<close>): it owns the listening and connecting
  sockets, numbers the connections, translates between socket endpoints and numbers, frames what is
  sent, and calls the registered \<^verbatim>\<open>INetworkHandler\<close>s, either at once from the socket's thread or, in
  single thread mode, from \<^verbatim>\<open>HandleNetTask\<close> through a queue of tasks in pooled memory.

  Objects behind pointers (sockets, handlers, pooled tasks) are numbers with a table of the live
  ones. Calls to handlers and to the operating system are returned as lists. Every call into the
  manager is one atomic step; its mutexes are not modelled here.
\<close>

section \<open>State\<close>

datatype callback =
    CbListenFail nat Port
  | CbAccept nat IPAddr Port Port NetworkID
  | CbConnect nat IPAddr Port Port bool NetworkID
  | CbRecv nat NetworkID "byte list"
  | CbDisconnect nat NetworkID

datatype TaskType = ON_CONNECT | ON_CONNECT_FAIL | ON_LISTEN_FAIL | ON_ACCEPT | ON_DISCONNECT | ON_RECV

record NetworkHandleTask =
  task_type :: TaskType
  task_net_id :: NetworkID
  task_remote_ip :: IPAddr
  task_remote_port :: Port
  task_local_port :: Port
  task_data :: "byte list"
  task_length :: int

text \<open>
  The constructor leaves \<^verbatim>\<open>data\<close> uninitialised; its bytes behind \<^verbatim>\<open>length\<close> are never read, zeroes
  stand for them.
\<close>

definition NetworkHandleTask_new :: NetworkHandleTask where
  "NetworkHandleTask_new = \<lparr>task_type = ON_CONNECT, task_net_id = 0, task_remote_ip = [],
     task_remote_port = 0, task_local_port = 0,
     task_data = replicate (nat MAX_SOCKET_MSG_BUFF_LENGTH) 0, task_length = 0\<rparr>"

definition SIZEOF_NetworkHandleTask :: int where "SIZEOF_NetworkHandleTask = 4144"

datatype manager_task = NetworkManagerListenTask Port | NetworkManagerConnectTask IPAddr Port

record NetworkManager =
  thread_set :: "manager_task Thread list"
  handler_list :: "nat list"
  accept_list :: "nat list"
  connect_list :: "nat list"
  accepts :: "nat \<rightharpoonup> SocketAccept"
  connects :: "nat \<rightharpoonup> SocketConnect"
  free_net_id_list :: "NetworkID list"
  max_net_id :: int
  net_id_to_endpoint_map :: "NetworkID \<rightharpoonup> Endpoint"
  endpoint_to_net_id_map :: "(Endpoint, NetworkID) std_map"
  net_id_to_accept :: "NetworkID \<rightharpoonup> nat"
  net_id_to_connect :: "NetworkID \<rightharpoonup> nat"
  packager :: NetworkPackagerFixHead
  single_thread_handle_mode :: bool
  handle_task_queue :: "mem_ptr list"
  task_memory :: "mem_ptr \<rightharpoonup> NetworkHandleTask"
  network_task_memory_pool :: "heap \<times> MemoryPool"

definition NetworkManager_new :: "heap \<Rightarrow> NetworkManager" where
  "NetworkManager_new h =
     \<lparr>thread_set = [], handler_list = [], accept_list = [], connect_list = [],
      accepts = Map.empty, connects = Map.empty, free_net_id_list = [], max_net_id = 0,
      net_id_to_endpoint_map = Map.empty, endpoint_to_net_id_map = [],
      net_id_to_accept = Map.empty, net_id_to_connect = Map.empty,
      packager = CreatePacker FIX_HEAD True, single_thread_handle_mode = False,
      handle_task_queue = [], task_memory = Map.empty,
      network_task_memory_pool =
        (h, MemoryPool_new SIZEOF_NetworkHandleTask MEMORY_POOL_DEFAULT_INCREASE_ALLOC_NUM)\<rparr>"

definition NetworkManager_delete :: "NetworkManager \<Rightarrow> NetworkManager" where
  "NetworkManager_delete m = m\<lparr>thread_set := []\<rparr>"

section \<open>Handlers and modes\<close>

text \<open>\<^verbatim>\<open>std::set\<close> of pointers, in address order.\<close>

definition RegistHandler :: "nat \<Rightarrow> NetworkManager \<Rightarrow> NetworkManager" where
  "RegistHandler handler m =
     (if handler \<in> set (handler_list m) then m
      else m\<lparr>handler_list := insort handler (handler_list m)\<rparr>)"

definition UnregistHandler :: "nat \<Rightarrow> NetworkManager \<Rightarrow> NetworkManager" where
  "UnregistHandler handler m =
     (if handler \<notin> set (handler_list m) then m
      else m\<lparr>handler_list := filter (\<lambda>h. h \<noteq> handler) (handler_list m)\<rparr>)"

definition SetSingleThreadHandleMode :: "bool \<Rightarrow> NetworkManager \<Rightarrow> NetworkManager" where
  "SetSingleThreadHandleMode open_mode m = m\<lparr>single_thread_handle_mode := open_mode\<rparr>"

section \<open>The task queue\<close>

text \<open>Take memory for a task, construct it there and put it at the end of the queue.\<close>

definition post_task :: "NetworkHandleTask \<Rightarrow> NetworkManager \<Rightarrow> NetworkManager res" where
  "post_task task m =
     bind_res (MemoryPool_Alloc (network_task_memory_pool m)) (\<lambda>(p, pool).
       Inr (m\<lparr>network_task_memory_pool := pool,
              task_memory := (task_memory m)(p \<mapsto> task),
              handle_task_queue := handle_task_queue m @ [p]\<rparr>))"

text \<open>The calls one task makes.\<close>

definition task_callbacks :: "nat list \<Rightarrow> NetworkHandleTask \<Rightarrow> callback list res" where
  "task_callbacks hs task =
     (case task_type task of
        ON_CONNECT \<Rightarrow> Inr (map (\<lambda>h. CbConnect h (task_remote_ip task) (task_remote_port task)
                        (task_local_port task) True (task_net_id task)) hs)
      | ON_CONNECT_FAIL \<Rightarrow> Inr (map (\<lambda>h. CbConnect h (task_remote_ip task) (task_remote_port task)
                        (task_local_port task) False 0) hs)
      | ON_LISTEN_FAIL \<Rightarrow> Inr (map (\<lambda>h. CbListenFail h (task_local_port task)) hs)
      | ON_RECV \<Rightarrow> bind_res (read_mem (task_data task) 0 (task_length task)) (\<lambda>data.
                    Inr (map (\<lambda>h. CbRecv h (task_net_id task) data) hs))
      | ON_ACCEPT \<Rightarrow> Inr (map (\<lambda>h. CbAccept h (task_remote_ip task) (task_remote_port task)
                        (task_local_port task) (task_net_id task)) hs)
      | ON_DISCONNECT \<Rightarrow> Inr (map (\<lambda>h. CbDisconnect h (task_net_id task)) hs))"

text \<open>
  The first task of the queue: its calls, and its chunk is given back. The pool runs no destructor, so
  the bytes of the task stay in the chunk until the next task is built there.
\<close>

definition HandleNetTask :: "NetworkManager \<Rightarrow> (NetworkManager \<times> callback list) res" where
  "HandleNetTask m =
     (case handle_task_queue m of
        [] \<Rightarrow> Inr (m, [])
      | p # rest \<Rightarrow>
          (case task_memory m p of
             None \<Rightarrow> Inl UseAfterFree
           | Some task \<Rightarrow>
               bind_res (task_callbacks (handler_list m) task) (\<lambda>cbs.
                 let (_, pool) = MemoryPool_Free p (network_task_memory_pool m)
                 in Inr (m\<lparr>handle_task_queue := rest, network_task_memory_pool := pool\<rparr>, cbs))))"

text \<open>The first \<open>n\<close> passes of the endless loop in \<^verbatim>\<open>SyncRunning\<close>.\<close>

fun handle_tasks :: "nat \<Rightarrow> NetworkManager \<Rightarrow> (NetworkManager \<times> callback list) res" where
  "handle_tasks 0 m = Inr (m, [])"
| "handle_tasks (Suc n) m =
     bind_res (HandleNetTask m) (\<lambda>(m1, cbs1).
     bind_res (handle_tasks n m1) (\<lambda>(m2, cbs2). Inr (m2, cbs1 @ cbs2)))"

definition SyncRunning :: "nat \<Rightarrow> NetworkManager \<Rightarrow> (NetworkManager \<times> callback list) res" where
  "SyncRunning n m = handle_tasks n (SetSingleThreadHandleMode True m)"

section \<open>Connection numbers\<close>

definition GetFreeNetID :: "NetworkManager \<Rightarrow> (NetworkID \<times> NetworkManager) res" where
  "GetFreeNetID m =
     (case free_net_id_list m of
        tmp_net_id # rest \<Rightarrow> Inr (tmp_net_id, m\<lparr>free_net_id_list := rest\<rparr>)
      | [] \<Rightarrow> bind_res (c_int (max_net_id m + 1)) (\<lambda>tmp_net_id.
          Inr (tmp_net_id, m\<lparr>max_net_id := tmp_net_id\<rparr>)))"

text \<open>The loop over the sockets that may be the one the new connection came from.\<close>

definition register_endpoint :: "NetworkID \<Rightarrow> Endpoint \<Rightarrow> NetworkManager \<Rightarrow> NetworkManager" where
  "register_endpoint net_id end_point m =
     m\<lparr>net_id_to_endpoint_map := (net_id_to_endpoint_map m)(net_id \<mapsto> end_point),
       endpoint_to_net_id_map := map_put Endpoint_less end_point net_id (endpoint_to_net_id_map m)\<rparr>"

fun register_accept ::
  "nat list \<Rightarrow> NetworkID \<Rightarrow> Endpoint \<Rightarrow> NetworkManager \<Rightarrow> NetworkManager res" where
  "register_accept [] net_id e m = Inr m"
| "register_accept (a # as) net_id e m =
     (case accepts m a of
        None \<Rightarrow> Inl UseAfterFree
      | Some acc \<Rightarrow>
          register_accept as net_id e
            (if SocketAccept_CheckOnHandle (remote_ip_addr e) (remote_port e) acc
             then register_endpoint net_id e (m\<lparr>net_id_to_accept := (net_id_to_accept m)(net_id \<mapsto> a)\<rparr>)
             else m))"

fun register_connect ::
  "nat list \<Rightarrow> NetworkID \<Rightarrow> Endpoint \<Rightarrow> NetworkManager \<Rightarrow> NetworkManager res" where
  "register_connect [] net_id e m = Inr m"
| "register_connect (c # cs) net_id e m =
     (case connects m c of
        None \<Rightarrow> Inl UseAfterFree
      | Some con \<Rightarrow>
          register_connect cs net_id e
            (if SocketConnect_CheckOnHandle (remote_ip_addr e) (remote_port e) con
             then register_endpoint net_id e (m\<lparr>net_id_to_connect := (net_id_to_connect m)(net_id \<mapsto> c)\<rparr>)
             else m))"

section \<open>What the sockets call\<close>

definition OnAccept :: "IPAddr \<Rightarrow> Port \<Rightarrow> Port \<Rightarrow> NetworkManager \<Rightarrow> (NetworkManager \<times> callback list) res" where
  "OnAccept ip port lport m =
     bind_res (GetFreeNetID m) (\<lambda>(net_id, m1).
     bind_res (register_accept (accept_list m1) net_id
         \<lparr>remote_ip_addr = ip, remote_port = port, local_port = lport\<rparr> m1) (\<lambda>m2.
     if single_thread_handle_mode m2 then
       bind_res (post_task (NetworkHandleTask_new\<lparr>task_type := ON_ACCEPT, task_net_id := net_id,
           task_remote_ip := ip, task_remote_port := port, task_local_port := lport\<rparr>) m2)
         (\<lambda>m3. Inr (m3, []))
     else Inr (m2, map (\<lambda>h. CbAccept h ip port lport net_id) (handler_list m2))))"

definition OnConnect :: "IPAddr \<Rightarrow> Port \<Rightarrow> Port \<Rightarrow> NetworkManager \<Rightarrow> (NetworkManager \<times> callback list) res" where
  "OnConnect ip port lport m =
     bind_res (GetFreeNetID m) (\<lambda>(net_id, m1).
     bind_res (register_connect (connect_list m1) net_id
         \<lparr>remote_ip_addr = ip, remote_port = port, local_port = lport\<rparr> m1) (\<lambda>m2.
     if single_thread_handle_mode m2 then
       bind_res (post_task (NetworkHandleTask_new\<lparr>task_type := ON_CONNECT, task_remote_ip := ip,
           task_remote_port := port, task_local_port := lport, task_net_id := net_id\<rparr>) m2)
         (\<lambda>m3. Inr (m3, []))
     else Inr (m2, map (\<lambda>h. CbConnect h ip port lport True net_id) (handler_list m2))))"

definition OnRecvPackage :: "NetworkID \<Rightarrow> byte list \<Rightarrow> int \<Rightarrow> NetworkManager \<Rightarrow> (NetworkManager \<times> callback list) res" where
  "OnRecvPackage net_id data len m =
     (if net_id \<le> 0 \<or> len \<le> 0 then Inr (m, [])
      else if single_thread_handle_mode m then
        bind_res (memcpy (task_data NetworkHandleTask_new) 0 data len) (\<lambda>stored.
        bind_res (post_task (NetworkHandleTask_new\<lparr>task_type := ON_RECV, task_net_id := net_id,
            task_data := stored, task_length := len\<rparr>) m)
          (\<lambda>m1. Inr (m1, [])))
      else bind_res (read_mem data 0 len) (\<lambda>bs.
        Inr (m, map (\<lambda>h. CbRecv h net_id bs) (handler_list m))))"

fun recv_packages :: "transfer list \<Rightarrow> NetworkManager \<Rightarrow> (NetworkManager \<times> callback list) res" where
  "recv_packages [] m = Inr (m, [])"
| "recv_packages ((net_id, data) # ts) m =
     bind_res (OnRecvPackage net_id data (int (length data)) m) (\<lambda>(m1, cbs1).
     bind_res (recv_packages ts m1) (\<lambda>(m2, cbs2). Inr (m2, cbs1 @ cbs2)))"

text \<open>\<^verbatim>\<open>UnPack\<close> calls \<^verbatim>\<open>OnRecvPackage\<close> for every complete message; neither looks at what the other changes.\<close>

definition OnRecv ::
  "IPAddr \<Rightarrow> Port \<Rightarrow> Port \<Rightarrow> byte list \<Rightarrow> int \<Rightarrow> NetworkManager \<Rightarrow> (NetworkManager \<times> callback list) res" where
  "OnRecv ip port lport data len m =
     (case map_find Endpoint_less \<lparr>remote_ip_addr = ip, remote_port = port, local_port = lport\<rparr>
         (endpoint_to_net_id_map m) of
        None \<Rightarrow> Inr (m, [])
      | Some net_id \<Rightarrow>
          bind_res (UnPack (packager m) net_id data len) (\<lambda>(pk, ts).
            recv_packages ts (m\<lparr>packager := pk\<rparr>)))"

definition OnDisconnect :: "IPAddr \<Rightarrow> Port \<Rightarrow> Port \<Rightarrow> NetworkManager \<Rightarrow> (NetworkManager \<times> callback list) res" where
  "OnDisconnect ip port lport m =
     (let e = \<lparr>remote_ip_addr = ip, remote_port = port, local_port = lport\<rparr> in
      case map_find Endpoint_less e (endpoint_to_net_id_map m) of
        None \<Rightarrow> Inr (m, [])
      | Some net_id \<Rightarrow>
          let m1 = m\<lparr>net_id_to_endpoint_map := (net_id_to_endpoint_map m)(net_id := None),
                     endpoint_to_net_id_map := map_erase Endpoint_less e (endpoint_to_net_id_map m),
                     net_id_to_accept := (net_id_to_accept m)(net_id := None),
                     net_id_to_connect := (net_id_to_connect m)(net_id := None)\<rparr>
          in bind_res
               (if single_thread_handle_mode m1 then
                  bind_res (post_task (NetworkHandleTask_new\<lparr>task_type := ON_DISCONNECT,
                      task_net_id := net_id, task_local_port := lport\<rparr>) m1) (\<lambda>m2. Inr (m2, []))
                else Inr (m1, map (\<lambda>h. CbDisconnect h net_id) (handler_list m1)))
               (\<lambda>(m2, cbs). Inr (m2\<lparr>free_net_id_list := net_id # free_net_id_list m2\<rparr>, cbs)))"

fun handle_events :: "socket_event list \<Rightarrow> NetworkManager \<Rightarrow> (NetworkManager \<times> callback list) res" where
  "handle_events [] m = Inr (m, [])"
| "handle_events (ev # evs) m =
     bind_res (case ev of
         EvAccept ip port lport \<Rightarrow> OnAccept ip port lport m
       | EvConnect ip port lport \<Rightarrow> OnConnect ip port lport m
       | EvRecv ip port lport data \<Rightarrow> OnRecv ip port lport data (int (length data)) m
       | EvDisconnect ip port lport \<Rightarrow> OnDisconnect ip port lport m) (\<lambda>(m1, cbs1).
     bind_res (handle_events evs m1) (\<lambda>(m2, cbs2). Inr (m2, cbs1 @ cbs2)))"

section \<open>Sending and disconnecting\<close>

text \<open>\<open>os_send\<close> is what the system's \<^verbatim>\<open>send\<close> returns; \<^verbatim>\<open>SendRaw\<close> ignores it.\<close>

definition SendRaw :: "int \<Rightarrow> NetworkID \<Rightarrow> byte list \<Rightarrow> NetworkManager \<Rightarrow> os_action list res" where
  "SendRaw os_send net_id data m =
     (case net_id_to_endpoint_map m net_id of
        None \<Rightarrow> Inr []
      | Some e \<Rightarrow>
          bind_res (case net_id_to_accept m net_id of
              None \<Rightarrow> Inr []
            | Some a \<Rightarrow> (case accepts m a of
                None \<Rightarrow> Inl UseAfterFree
              | Some acc \<Rightarrow> bind_res (SocketAccept_Write os_send (remote_ip_addr e) (remote_port e)
                  (Some data) (int (length data)) acc) (\<lambda>(_, acts). Inr acts))) (\<lambda>acts1.
          bind_res (case net_id_to_connect m net_id of
              None \<Rightarrow> Inr []
            | Some c \<Rightarrow> (case connects m c of
                None \<Rightarrow> Inl UseAfterFree
              | Some con \<Rightarrow> bind_res (SocketConnect_Write os_send data (int (length data)) con)
                  (\<lambda>(_, acts). Inr acts))) (\<lambda>acts2.
            Inr (acts1 @ acts2))))"

fun send_transfers :: "int \<Rightarrow> transfer list \<Rightarrow> NetworkManager \<Rightarrow> os_action list res" where
  "send_transfers os_send [] m = Inr []"
| "send_transfers os_send ((net_id, data) # ts) m =
     bind_res (SendRaw os_send net_id data m) (\<lambda>acts1.
     bind_res (send_transfers os_send ts m) (\<lambda>acts2. Inr (acts1 @ acts2)))"

definition Send :: "int \<Rightarrow> NetworkID \<Rightarrow> byte list \<Rightarrow> int \<Rightarrow> NetworkManager \<Rightarrow> os_action list res" where
  "Send os_send net_id data len m =
     (case net_id_to_endpoint_map m net_id of
        None \<Rightarrow> Inr []
      | Some _ \<Rightarrow> bind_res (PackAndSend (packager m) net_id data len) (\<lambda>ts. send_transfers os_send ts m))"

definition Disconnect :: "NetworkID \<Rightarrow> NetworkManager \<Rightarrow> (NetworkManager \<times> os_action list) res" where
  "Disconnect net_id m =
     (case net_id_to_endpoint_map m net_id of
        None \<Rightarrow> Inr (m, [])
      | Some e \<Rightarrow>
          bind_res (case net_id_to_accept m net_id of
              None \<Rightarrow> Inr []
            | Some a \<Rightarrow> (case accepts m a of
                None \<Rightarrow> Inl UseAfterFree
              | Some acc \<Rightarrow> Inr (snd (SocketAccept_Disconnect (remote_ip_addr e) (remote_port e) acc)))) (\<lambda>acts.
          case net_id_to_connect m net_id of
            None \<Rightarrow> Inr (m, acts)
          | Some c \<Rightarrow> (case connects m c of
              None \<Rightarrow> Inl UseAfterFree
            | Some con \<Rightarrow>
                Inr (m\<lparr>connects := (connects m)(c \<mapsto> snd (SocketConnect_Disconnect con))\<rparr>, acts))))"

section \<open>Listening and connecting\<close>

text \<open>
  \<^verbatim>\<open>ListenThread\<close> in three parts: from its start to the loop of \<^verbatim>\<open>Listen\<close>, one ready descriptor of the
  loop, and what follows the return of \<^verbatim>\<open>Listen\<close>, whose result is always false. \<open>a\<close> is the address
  of the new socket object.
\<close>

definition ListenThread_end :: "nat \<Rightarrow> Port \<Rightarrow> NetworkManager \<Rightarrow> (NetworkManager \<times> callback list) res" where
  "ListenThread_end a port m =
     bind_res
       (if single_thread_handle_mode m then
          bind_res (post_task (NetworkHandleTask_new\<lparr>task_type := ON_LISTEN_FAIL, task_local_port := port\<rparr>) m)
            (\<lambda>m1. Inr (m1, []))
        else Inr (m, map (\<lambda>h. CbListenFail h port) (handler_list m)))
       (\<lambda>(m1, cbs). Inr (m1\<lparr>accept_list := filter (\<lambda>x. x \<noteq> a) (accept_list m1),
                              accepts := (accepts m1)(a := None)\<rparr>, cbs))"

definition ListenThread_start ::
  "listen_os \<Rightarrow> nat \<Rightarrow> byte list \<Rightarrow> Port \<Rightarrow> NetworkManager \<Rightarrow> (NetworkManager \<times> callback list \<times> bool) res" where
  "ListenThread_start os a buff port m =
     (let acc = SocketAccept_ResetHandler True (SocketAccept_new buff);
          m1 = m\<lparr>accept_list := insort a (accept_list m)\<rparr>;
          (go, acc1) = SocketAccept_Listen_setup os port acc;
          m2 = m1\<lparr>accepts := (accepts m1)(a \<mapsto> acc1)\<rparr>
      in if go then Inr (m2, [], True)
         else bind_res (ListenThread_end a port m2) (\<lambda>(m3, cbs). Inr (m3, cbs, False)))"

definition ListenThread_event ::
  "nat \<Rightarrow> Port \<Rightarrow> epoll_event \<Rightarrow> event_os \<Rightarrow> NetworkManager \<Rightarrow>
   (NetworkManager \<times> callback list \<times> os_action list \<times> bool) res" where
  "ListenThread_event a port ev os m =
     (case accepts m a of
        None \<Rightarrow> Inl UseAfterFree
      | Some acc \<Rightarrow>
          bind_res (SocketAccept_event ev os acc) (\<lambda>(acc1, evs, acts, go).
          bind_res (handle_events evs (m\<lparr>accepts := (accepts m)(a \<mapsto> acc1)\<rparr>)) (\<lambda>(m1, cbs1).
          if go then Inr (m1, cbs1, acts, True)
          else bind_res (ListenThread_end a port m1) (\<lambda>(m2, cbs2). Inr (m2, cbs1 @ cbs2, acts, False)))))"

text \<open>\<^verbatim>\<open>ConnectThread\<close>, in the same three parts.\<close>

definition ConnectThread_end ::
  "nat \<Rightarrow> IPAddr \<Rightarrow> Port \<Rightarrow> bool \<Rightarrow> NetworkManager \<Rightarrow> (NetworkManager \<times> callback list) res" where
  "ConnectThread_end c ip port connect_result m =
     bind_res
       (if connect_result then Inr (m, [])
        else case connects m c of
          None \<Rightarrow> Inl UseAfterFree
        | Some con \<Rightarrow>
            if single_thread_handle_mode m then
              bind_res (post_task (NetworkHandleTask_new\<lparr>task_type := ON_CONNECT_FAIL, task_remote_ip := ip,
                  task_remote_port := port, task_local_port := SocketConnect_GetLocalPort con\<rparr>) m)
                (\<lambda>m1. Inr (m1, []))
            else Inr (m, map (\<lambda>h. CbConnect h ip port (SocketConnect_GetLocalPort con) False 0) (handler_list m)))
       (\<lambda>(m1, cbs). Inr (m1\<lparr>connect_list := filter (\<lambda>x. x \<noteq> c) (connect_list m1),
                              connects := (connects m1)(c := None)\<rparr>, cbs))"

definition ConnectThread_start ::
  "connect_os \<Rightarrow> nat \<Rightarrow> byte list \<Rightarrow> IPAddr \<Rightarrow> Port \<Rightarrow> NetworkManager \<Rightarrow>
   (NetworkManager \<times> callback list \<times> bool) res" where
  "ConnectThread_start os c buff ip port m =
     (let con = SocketConnect_ResetHandler True (SocketConnect_new buff);
          m1 = m\<lparr>connect_list := insort c (connect_list m)\<rparr>;
          (go, con1) = SocketConnect_open os ip port con;
          m2 = m1\<lparr>connects := (connects m1)(c \<mapsto> con1)\<rparr>
      in if \<not> go then bind_res (ConnectThread_end c ip port False m2) (\<lambda>(m3, cbs). Inr (m3, cbs, False))
         else bind_res (handle_events (SocketConnect_connected con1) m2) (\<lambda>(m3, cbs1).
           let (go2, con2) = SocketConnect_enter_loop os con1;
               m4 = m3\<lparr>connects := (connects m3)(c \<mapsto> con2)\<rparr>
           in if go2 then Inr (m4, cbs1, True)
              else bind_res (ConnectThread_end c ip port False m4)
                     (\<lambda>(m5, cbs2). Inr (m5, cbs1 @ cbs2, False))))"

definition ConnectThread_pass ::
  "nat \<Rightarrow> IPAddr \<Rightarrow> Port \<Rightarrow> (epoll_event \<times> read_result list) list option \<Rightarrow> NetworkManager \<Rightarrow>
   (NetworkManager \<times> callback list \<times> os_action list \<times> bool) res" where
  "ConnectThread_pass c ip port waited m =
     (case connects m c of
        None \<Rightarrow> Inl UseAfterFree
      | Some con \<Rightarrow>
          if \<not> running con then
            bind_res (ConnectThread_end c ip port True m) (\<lambda>(m1, cbs). Inr (m1, cbs, [], False))
          else case waited of
            None \<Rightarrow> bind_res (ConnectThread_end c ip port False m) (\<lambda>(m1, cbs). Inr (m1, cbs, [], False))
          | Some es \<Rightarrow>
              bind_res (SocketConnect_pass es con) (\<lambda>(con1, evs, acts, socket_error).
              bind_res (handle_events evs (m\<lparr>connects := (connects m)(c \<mapsto> con1)\<rparr>)) (\<lambda>(m1, cbs1).
              if socket_error then
                bind_res (ConnectThread_end c ip port True m1) (\<lambda>(m2, cbs2). Inr (m2, cbs1 @ cbs2, acts, False))
              else Inr (m1, cbs1, acts, True))))"

section \<open>Threads\<close>

text \<open>The position of the first thread that is not running; a new one is put at the end.\<close>

fun first_free :: "manager_task Thread list \<Rightarrow> nat option" where
  "first_free [] = None"
| "first_free (t # ts) = (if \<not> Thread_IsRunning t then Some 0 else map_option Suc (first_free ts))"

definition GetFreeThread :: "NetworkManager \<Rightarrow> nat \<times> NetworkManager" where
  "GetFreeThread m = (case first_free (thread_set m) of
       Some i \<Rightarrow> (i, m)
     | None \<Rightarrow> (length (thread_set m), m\<lparr>thread_set := thread_set m @ [Thread_new]\<rparr>))"

definition run_on_free_thread :: "int \<Rightarrow> nat \<Rightarrow> manager_task \<Rightarrow> NetworkManager \<Rightarrow> bool \<times> NetworkManager" where
  "run_on_free_thread ret new_id task m =
     (let (i, m1) = GetFreeThread m;
          (ok, th, _) = Thread_Run ret new_id (Some task) (thread_set m1 ! i)
      in (ok, m1\<lparr>thread_set := (thread_set m1)[i := th]\<rparr>))"

definition SyncListen :: "int \<Rightarrow> nat \<Rightarrow> Port \<Rightarrow> NetworkManager \<Rightarrow> bool \<times> NetworkManager" where
  "SyncListen ret new_id port m = run_on_free_thread ret new_id (NetworkManagerListenTask port) m"

definition SyncConnect :: "int \<Rightarrow> nat \<Rightarrow> IPAddr \<Rightarrow> Port \<Rightarrow> NetworkManager \<Rightarrow> bool \<times> NetworkManager" where
  "SyncConnect ret new_id ip port m = run_on_free_thread ret new_id (NetworkManagerConnectTask ip port) m"

text \<open>The threads joined and deleted; the set is emptied.\<close>

definition WaitAllThread :: "NetworkManager \<Rightarrow> manager_task Thread list \<times> NetworkManager" where
  "WaitAllThread m = (filter Thread_IsRunning (thread_set m), m\<lparr>thread_set := []\<rparr>)"

section \<open>The queue in pooled memory\<close>

text \<open>
  The memory of the queued tasks is exactly what the pool has handed out. That two queued tasks
  never share memory is the contract of the pool, used through its locale.
\<close>

definition task_good :: "NetworkHandleTask \<Rightarrow> bool" where
  "task_good t \<longleftrightarrow> 0 \<le> task_length t \<and> task_length t \<le> int (length (task_data t))"

definition queue_ok :: "NetworkManager \<Rightarrow> bool" where
  "queue_ok m \<longleftrightarrow> pool_invar (set (handle_task_queue m)) (network_task_memory_pool m) \<and>
     distinct (handle_task_queue m) \<and>
     (\<forall>p \<in> set (handle_task_queue m). \<exists>t. task_memory m p = Some t \<and> task_good t)"

definition queued :: "NetworkManager \<Rightarrow> NetworkHandleTask list" where
  "queued m = map (\<lambda>p. the (task_memory m p)) (handle_task_queue m)"

definition task_calls :: "nat list \<Rightarrow> NetworkHandleTask \<Rightarrow> callback list" where
  "task_calls hs t = (case task_callbacks hs t of Inl _ \<Rightarrow> [] | Inr cbs \<Rightarrow> cbs)"

lemma task_good_calls: "task_good t \<Longrightarrow> task_callbacks hs t = Inr (task_calls hs t)"
  by (cases "task_type t") (auto simp: task_callbacks_def task_calls_def task_good_def read_mem_def)

text \<open>Everything of the manager that is not the queue.\<close>

definition core :: "NetworkManager \<Rightarrow> NetworkManager" where
  "core m = m\<lparr>single_thread_handle_mode := False, handle_task_queue := [], task_memory := Map.empty,
     network_task_memory_pool := (\<lparr>next_block = 0, block_size = Map.empty\<rparr>, MemoryPool_new 0 0)\<rparr>"

lemma core_simps [simp]:
  "handler_list (core m) = handler_list m" "accept_list (core m) = accept_list m"
  "connect_list (core m) = connect_list m" "accepts (core m) = accepts m" "connects (core m) = connects m"
  "free_net_id_list (core m) = free_net_id_list m" "max_net_id (core m) = max_net_id m"
  "net_id_to_endpoint_map (core m) = net_id_to_endpoint_map m"
  "endpoint_to_net_id_map (core m) = endpoint_to_net_id_map m"
  "net_id_to_accept (core m) = net_id_to_accept m" "net_id_to_connect (core m) = net_id_to_connect m"
  "packager (core m) = packager m" "\<not> single_thread_handle_mode (core m)" "core (core m) = core m"
  "core (m\<lparr>single_thread_handle_mode := b\<rparr>) = core m"
  by (simp_all add: core_def)

lemma core_update [simp]:
  "core (m\<lparr>free_net_id_list := x1\<rparr>) = (core m)\<lparr>free_net_id_list := x1\<rparr>"
  "core (m\<lparr>max_net_id := x2\<rparr>) = (core m)\<lparr>max_net_id := x2\<rparr>"
  "core (m\<lparr>packager := x3\<rparr>) = (core m)\<lparr>packager := x3\<rparr>"
  "core (m\<lparr>net_id_to_accept := x4\<rparr>) = (core m)\<lparr>net_id_to_accept := x4\<rparr>"
  "core (m\<lparr>net_id_to_connect := x5\<rparr>) = (core m)\<lparr>net_id_to_connect := x5\<rparr>"
  "core (m\<lparr>net_id_to_endpoint_map := x6\<rparr>) = (core m)\<lparr>net_id_to_endpoint_map := x6\<rparr>"
  "core (m\<lparr>endpoint_to_net_id_map := x7\<rparr>) = (core m)\<lparr>endpoint_to_net_id_map := x7\<rparr>"
  "core (register_endpoint i e m) = register_endpoint i e (core m)"
  by (simp_all add: core_def register_endpoint_def)

lemma post_task_law:
  assumes "queue_ok m" and "task_good t"
  shows "\<exists>m'. post_task t m = Inr m' \<and> queue_ok m' \<and> queued m' = queued m @ [t] \<and> core m' = core m \<and>
    single_thread_handle_mode m' = single_thread_handle_mode m"
proof -
  from assms(1) have I: "pool_invar (set (handle_task_queue m)) (network_task_memory_pool m)"
    by (simp add: queue_ok_def)
  from pool.alloc_law[OF I] obtain p pool where
    a: "MemoryPool_Alloc (network_task_memory_pool m) = Inr (p, pool)"
      "p \<notin> set (handle_task_queue m)" "pool_invar (insert p (set (handle_task_queue m))) pool" by auto
  define m' where "m' = m\<lparr>network_task_memory_pool := pool, task_memory := (task_memory m)(p \<mapsto> t),
    handle_task_queue := handle_task_queue m @ [p]\<rparr>"
  have "post_task t m = Inr m'" using a(1) by (simp add: post_task_def m'_def)
  moreover have "queue_ok m'" using assms a by (auto simp: queue_ok_def m'_def)
  moreover have "queued m' = queued m @ [t]" using a(2) by (auto simp: queued_def m'_def)
  ultimately show ?thesis by (simp add: m'_def core_def)
qed

lemma HandleNetTask_law:
  assumes "queue_ok m" and "queued m = t # ts"
  shows "\<exists>m'. HandleNetTask m = Inr (m', task_calls (handler_list m) t) \<and> queue_ok m' \<and> queued m' = ts \<and>
    core m' = core m"
proof -
  from assms(2) obtain p rest where q: "handle_task_queue m = p # rest" "the (task_memory m p) = t"
    "map (\<lambda>p. the (task_memory m p)) rest = ts" by (auto simp: queued_def)
  with assms(1) have t: "task_memory m p = Some t" "task_good t" "p \<notin> set rest" by (auto simp: queue_ok_def)
  from assms(1) q have I: "pool_invar (insert p (set rest)) (network_task_memory_pool m)"
    by (simp add: queue_ok_def)
  from pool.release_law[OF I, of p] t(3) obtain pool where
    f: "MemoryPool_Free p (network_task_memory_pool m) = (True, pool)" "pool_invar (set rest) pool" by auto
  define m' where "m' = m\<lparr>handle_task_queue := rest, network_task_memory_pool := pool\<rparr>"
  have "HandleNetTask m = Inr (m', task_calls (handler_list m) t)"
    using q(1) t f(1) task_good_calls[OF t(2)] by (simp add: HandleNetTask_def m'_def)
  moreover have "queue_ok m'" using assms(1) q f by (auto simp: queue_ok_def m'_def)
  ultimately show ?thesis using q by (simp add: m'_def core_def queued_def)
qed

lemma handle_tasks_drains:
  assumes "queue_ok m"
  shows "\<exists>m'. handle_tasks (length (queued m)) m =
      Inr (m', concat (map (task_calls (handler_list m)) (queued m))) \<and>
    queue_ok m' \<and> queued m' = [] \<and> core m' = core m"
  using assms
proof (induction "queued m" arbitrary: m)
  case Nil
  then show ?case by (intro exI[of _ m]) (simp add: Nil(1)[symmetric])
next
  case (Cons t ts)
  from HandleNetTask_law[OF Cons.prems Cons.hyps(2)[symmetric]] obtain m1 where
    1: "HandleNetTask m = Inr (m1, task_calls (handler_list m) t)" "queue_ok m1" "queued m1 = ts" "core m1 = core m"
    by auto
  have hs: "handler_list m1 = handler_list m" using 1(4) by (metis core_simps(1))
  from Cons.hyps(1)[OF 1(3)[symmetric] 1(2)] 1 hs Cons.hyps(2)[symmetric] show ?case by auto
qed

lemma handle_tasks_any:
  assumes "queue_ok m"
  shows "\<exists>m'. handle_tasks k m = Inr (m', concat (map (task_calls (handler_list m)) (take k (queued m)))) \<and>
    queue_ok m' \<and> queued m' = drop k (queued m) \<and> core m' = core m \<and> single_thread_handle_mode m' = single_thread_handle_mode m"
  using assms
proof (induction k arbitrary: m)
  case (Suc k)
  show ?case
  proof (cases "queued m")
    case Nil
    then have "HandleNetTask m = Inr (m, [])" by (auto simp: HandleNetTask_def queued_def)
    with Suc.IH[OF Suc.prems] Nil show ?thesis by auto
  next
    case (Cons t ts)
    from HandleNetTask_law[OF Suc.prems Cons] obtain m1 where
      1: "HandleNetTask m = Inr (m1, task_calls (handler_list m) t)" "queue_ok m1" "queued m1 = ts" "core m1 = core m" by auto
    have s: "single_thread_handle_mode m1 = single_thread_handle_mode m"
      using 1(1) by (auto simp: HandleNetTask_def bind_res_eq_Inr Let_def split_def split: list.splits option.splits)
    have hs: "handler_list m1 = handler_list m" using 1(4) by (metis core_simps(1))
    from Suc.IH[OF 1(2)] 1 s hs Cons show ?thesis by auto
  qed
qed simp

lemma OnRecvPackage_queued:
  assumes "single_thread_handle_mode m" and "queue_ok m" and "0 < i" and "data \<noteq> []" and "length data \<le> 4096"
  obtains m1 t where "OnRecvPackage i data (int (length data)) m = Inr (m1, [])" "queue_ok m1" "queued m1 = queued m @ [t]"
    "task_type t = ON_RECV" "core m1 = core m" "single_thread_handle_mode m1"
proof -
  let ?n = "int (length data)"
  obtain stored where st: "memcpy (task_data NetworkHandleTask_new) 0 data ?n = Inr stored" "length stored = 4096"
    using assms(5) by (simp add: memcpy_def NetworkHandleTask_new_def MAX_SOCKET_MSG_BUFF_LENGTH_def)
  define t where "t = NetworkHandleTask_new\<lparr>task_type := ON_RECV, task_net_id := i, task_data := stored, task_length := ?n\<rparr>"
  have "task_good t" using assms(5) st(2) by (simp add: t_def task_good_def)
  from post_task_law[OF assms(2) this] obtain m1 where m1: "post_task t m = Inr m1" "queue_ok m1" "queued m1 = queued m @ [t]"
    "core m1 = core m" "single_thread_handle_mode m1 = single_thread_handle_mode m" by blast
  then have "OnRecvPackage i data ?n m = Inr (m1, [])"
    using assms(1,3,4) st(1) by (simp add: OnRecvPackage_def flip: t_def)
  then show thesis using that m1 assms(1) by (simp add: t_def)
qed

section \<open>Single thread mode\<close>

text \<open>
  An operation that runs in both modes: what it queues in single thread mode are the calls it makes
  directly otherwise, and the rest of the state changes in the same way.
\<close>

definition mode_agrees ::
  "(NetworkManager \<Rightarrow> (NetworkManager \<times> callback list) res) \<Rightarrow> bool" where
  "mode_agrees f \<longleftrightarrow> (\<forall>m m' cbs. single_thread_handle_mode m \<longrightarrow> queue_ok m \<longrightarrow> f m = Inr (m', cbs) \<longrightarrow>
     single_thread_handle_mode m' \<and> queue_ok m' \<and> cbs = [] \<and> handler_list m' = handler_list m \<and>
     (\<exists>ts. queued m' = queued m @ ts \<and>
        f (core m) = Inr (core m', concat (map (task_calls (handler_list m)) ts))))"

lemma mode_agreesI:
  assumes "\<And>m m' cbs. single_thread_handle_mode m \<Longrightarrow> queue_ok m \<Longrightarrow> f m = Inr (m', cbs) \<Longrightarrow>
     single_thread_handle_mode m' \<and> queue_ok m' \<and> cbs = [] \<and> handler_list m' = handler_list m \<and>
     (\<exists>ts. queued m' = queued m @ ts \<and>
        f (core m) = Inr (core m', concat (map (task_calls (handler_list m)) ts)))"
  shows "mode_agrees f"
  unfolding mode_agrees_def using assms by blast

lemma mode_agreesD:
  assumes "mode_agrees f" and "single_thread_handle_mode m" and "queue_ok m" and "f m = Inr (m', cbs)"
  shows "single_thread_handle_mode m' \<and> queue_ok m' \<and> cbs = [] \<and> handler_list m' = handler_list m \<and>
     (\<exists>ts. queued m' = queued m @ ts \<and>
        f (core m) = Inr (core m', concat (map (task_calls (handler_list m)) ts)))"
  using assms unfolding mode_agrees_def by blast

lemma mode_agrees_seq:
  assumes "mode_agrees f" and "mode_agrees g"
  shows "mode_agrees (\<lambda>m. bind_res (f m) (\<lambda>(m1, cbs1). bind_res (g m1) (\<lambda>(m2, cbs2). Inr (m2, cbs1 @ cbs2))))"
proof (rule mode_agreesI)
  fix m m' cbs
  assume s: "single_thread_handle_mode m" and q: "queue_ok m"
    and b: "bind_res (f m) (\<lambda>(m1, cbs1). bind_res (g m1) (\<lambda>(m2, cbs2). Inr (m2, cbs1 @ cbs2))) = Inr (m', cbs)"
  from b obtain m1 c1 c2 where 1: "f m = Inr (m1, c1)" "g m1 = Inr (m', c2)" "cbs = c1 @ c2"
    by (auto simp: bind_res_eq_Inr)
  note A = mode_agreesD[OF assms(1) s q 1(1)]
  note B = mode_agreesD[OF assms(2) _ _ 1(2)]
  from A B obtain ts us where
    2: "queued m1 = queued m @ ts" "f (core m) = Inr (core m1, concat (map (task_calls (handler_list m)) ts))"
      "queued m' = queued m1 @ us" "g (core m1) = Inr (core m', concat (map (task_calls (handler_list m1)) us))"
    by blast
  with A B 1 show "single_thread_handle_mode m' \<and> queue_ok m' \<and> cbs = [] \<and> handler_list m' = handler_list m \<and>
     (\<exists>ts. queued m' = queued m @ ts \<and>
        bind_res (f (core m)) (\<lambda>(m1, cbs1). bind_res (g m1) (\<lambda>(m2, cbs2). Inr (m2, cbs1 @ cbs2))) =
        Inr (core m', concat (map (task_calls (handler_list m)) ts)))"
    by (auto intro!: exI[of _ "ts @ us"])
qed

text \<open>The part of the state the queue does not live in.\<close>

definition queue_frame :: "NetworkManager \<Rightarrow> NetworkManager \<Rightarrow> bool" where
  "queue_frame m m' \<longleftrightarrow> handle_task_queue m' = handle_task_queue m \<and> task_memory m' = task_memory m \<and>
     network_task_memory_pool m' = network_task_memory_pool m \<and>
     single_thread_handle_mode m' = single_thread_handle_mode m \<and> handler_list m' = handler_list m"

lemma queue_frameD:
  "queue_frame m m' \<Longrightarrow> queue_ok m \<Longrightarrow> queue_ok m'" "queue_frame m m' \<Longrightarrow> queued m' = queued m"
  "queue_frame m m' \<Longrightarrow> single_thread_handle_mode m' = single_thread_handle_mode m"
  "queue_frame m m' \<Longrightarrow> handler_list m' = handler_list m"
  by (auto simp: queue_frame_def queue_ok_def queued_def)

lemma GetFreeNetID_core:
  "GetFreeNetID m = Inr (i, m1) \<Longrightarrow> queue_frame m m1 \<and> GetFreeNetID (core m) = Inr (i, core m1)"
  by (auto simp: GetFreeNetID_def queue_frame_def bind_res_eq_Inr split: list.splits)

lemma register_accept_core:
  "register_accept as i e m = Inr m1 \<Longrightarrow> queue_frame m m1 \<and> register_accept as i e (core m) = Inr (core m1)"
proof (induction as i e m rule: register_accept.induct)
  case (2 a as i e m)
  then show ?case
    by (auto simp: queue_frame_def register_endpoint_def split: option.splits if_splits)
qed (simp add: queue_frame_def)

lemma register_connect_core:
  "register_connect cs i e m = Inr m1 \<Longrightarrow> queue_frame m m1 \<and> register_connect cs i e (core m) = Inr (core m1)"
proof (induction cs i e m rule: register_connect.induct)
  case (2 c cs i e m)
  then show ?case
    by (auto simp: queue_frame_def register_endpoint_def split: option.splits if_splits)
qed (simp add: queue_frame_def)

text \<open>Posting a task in one mode, making its calls in the other.\<close>

lemma post_agrees:
  assumes "queue_ok m" and "single_thread_handle_mode m" and "queue_frame m m1" and "task_good t"
    and "post_task t m1 = Inr m'"
  shows "single_thread_handle_mode m' \<and> queue_ok m' \<and> handler_list m' = handler_list m \<and>
    queued m' = queued m @ [t] \<and> core m' = core m1"
proof -
  from post_task_law[OF queue_frameD(1)[OF assms(3,1)] assms(4)] assms(5)
  have 1: "queue_ok m'" "queued m' = queued m1 @ [t]" "core m' = core m1"
    "single_thread_handle_mode m' = single_thread_handle_mode m1" by auto
  moreover have "handler_list m' = handler_list m1" using 1(3) by (metis core_simps(1))
  ultimately show ?thesis using queue_frameD(2-4)[OF assms(3)] assms(2) by simp
qed

lemma task_good_new [simp]:
  "task_good (NetworkHandleTask_new\<lparr>task_type := a, task_net_id := b, task_remote_ip := c,
     task_remote_port := d, task_local_port := e\<rparr>)"
  "task_good (NetworkHandleTask_new\<lparr>task_type := a, task_remote_ip := c,
     task_remote_port := d, task_local_port := e, task_net_id := b\<rparr>)"
  "task_good (NetworkHandleTask_new\<lparr>task_type := a, task_net_id := b, task_local_port := e\<rparr>)"
  "task_good (NetworkHandleTask_new\<lparr>task_type := a, task_local_port := e\<rparr>)"
  "task_good (NetworkHandleTask_new\<lparr>task_type := a, task_remote_ip := c, task_remote_port := d, task_local_port := e\<rparr>)"
  by (simp_all add: task_good_def NetworkHandleTask_new_def)

lemma frame_trans: "queue_frame m m1 \<Longrightarrow> queue_frame m1 m2 \<Longrightarrow> queue_frame m m2"
  by (simp add: queue_frame_def)

lemma OnAccept_agrees: "mode_agrees (OnAccept ip port lport)"
proof (rule mode_agreesI)
  fix m m' cbs
  assume s: "single_thread_handle_mode m" and q: "queue_ok m" and r: "OnAccept ip port lport m = Inr (m', cbs)"
  let ?e = "\<lparr>remote_ip_addr = ip, remote_port = port, local_port = lport\<rparr>"
  from r obtain i m1 m2 where 1: "GetFreeNetID m = Inr (i, m1)" "register_accept (accept_list m1) i ?e m1 = Inr m2"
    by (auto simp: OnAccept_def bind_res_eq_Inr)
  note c1 = GetFreeNetID_core[OF 1(1)] and c2 = register_accept_core[OF 1(2)]
  have f: "queue_frame m m2" using c1 c2 frame_trans by blast
  define t where "t = NetworkHandleTask_new\<lparr>task_type := ON_ACCEPT, task_net_id := i,
    task_remote_ip := ip, task_remote_port := port, task_local_port := lport\<rparr>"
  have p: "post_task t m2 = Inr m'" "cbs = []"
    using r 1 s queue_frameD(3)[OF f] by (auto simp: OnAccept_def bind_res_eq_Inr t_def)
  have "task_good t" by (simp add: t_def)
  note P = post_agrees[OF q s f this p(1)]
  have "OnAccept ip port lport (core m) = Inr (core m', task_calls (handler_list m) t)"
    using c1 c2 P queue_frameD(4)[OF f]
    by (simp add: OnAccept_def t_def task_calls_def task_callbacks_def)
  with P p show "single_thread_handle_mode m' \<and> queue_ok m' \<and> cbs = [] \<and> handler_list m' = handler_list m \<and>
     (\<exists>ts. queued m' = queued m @ ts \<and>
        OnAccept ip port lport (core m) = Inr (core m', concat (map (task_calls (handler_list m)) ts)))"
    by auto
qed

lemma OnConnect_agrees: "mode_agrees (OnConnect ip port lport)"
proof (rule mode_agreesI)
  fix m m' cbs
  assume s: "single_thread_handle_mode m" and q: "queue_ok m" and r: "OnConnect ip port lport m = Inr (m', cbs)"
  let ?e = "\<lparr>remote_ip_addr = ip, remote_port = port, local_port = lport\<rparr>"
  from r obtain i m1 m2 where 1: "GetFreeNetID m = Inr (i, m1)" "register_connect (connect_list m1) i ?e m1 = Inr m2"
    by (auto simp: OnConnect_def bind_res_eq_Inr)
  note c1 = GetFreeNetID_core[OF 1(1)] and c2 = register_connect_core[OF 1(2)]
  have f: "queue_frame m m2" using c1 c2 frame_trans by blast
  define t where "t = NetworkHandleTask_new\<lparr>task_type := ON_CONNECT, task_remote_ip := ip,
    task_remote_port := port, task_local_port := lport, task_net_id := i\<rparr>"
  have p: "post_task t m2 = Inr m'" "cbs = []"
    using r 1 s queue_frameD(3)[OF f] by (auto simp: OnConnect_def bind_res_eq_Inr t_def)
  have "task_good t" by (simp add: t_def)
  note P = post_agrees[OF q s f this p(1)]
  have "OnConnect ip port lport (core m) = Inr (core m', task_calls (handler_list m) t)"
    using c1 c2 P queue_frameD(4)[OF f]
    by (simp add: OnConnect_def t_def task_calls_def task_callbacks_def)
  with P p show "single_thread_handle_mode m' \<and> queue_ok m' \<and> cbs = [] \<and> handler_list m' = handler_list m \<and>
     (\<exists>ts. queued m' = queued m @ ts \<and>
        OnConnect ip port lport (core m) = Inr (core m', concat (map (task_calls (handler_list m)) ts)))"
    by auto
qed

lemma mode_agrees_skip: "mode_agrees (\<lambda>m. Inr (m, []))"
  by (simp add: mode_agrees_def)

lemma OnRecvPackage_agrees: "mode_agrees (OnRecvPackage i data (int (length data)))"
proof (rule mode_agreesI)
  fix m m' cbs
  assume s: "single_thread_handle_mode m" and q: "queue_ok m"
    and r: "OnRecvPackage i data (int (length data)) m = Inr (m', cbs)"
  show "single_thread_handle_mode m' \<and> queue_ok m' \<and> cbs = [] \<and> handler_list m' = handler_list m \<and>
     (\<exists>ts. queued m' = queued m @ ts \<and>
        OnRecvPackage i data (int (length data)) (core m) =
        Inr (core m', concat (map (task_calls (handler_list m)) ts)))"
  proof (cases "i \<le> 0 \<or> data = []")
    case True
    with r s q show ?thesis by (auto simp: OnRecvPackage_def)
  next
    case False
    from False r s obtain stored where
      st: "memcpy (task_data NetworkHandleTask_new) 0 data (int (length data)) = Inr stored"
      and p: "post_task (NetworkHandleTask_new\<lparr>task_type := ON_RECV, task_net_id := i,
            task_data := stored, task_length := int (length data)\<rparr>) m = Inr m'" "cbs = []"
      by (auto simp: OnRecvPackage_def bind_res_eq_Inr)
    define t where "t = NetworkHandleTask_new\<lparr>task_type := ON_RECV, task_net_id := i,
            task_data := stored, task_length := int (length data)\<rparr>"
    from st have d: "length data \<le> length stored" "take (length data) stored = data"
      by (auto simp: memcpy_eq_Inr)
    have g: "task_good t" using d by (simp add: t_def task_good_def)
    note P = post_agrees[OF q s _ g, of m m']
    have "OnRecvPackage i data (int (length data)) (core m) = Inr (core m, task_calls (handler_list m) t)"
      using False d by (simp add: OnRecvPackage_def t_def task_calls_def task_callbacks_def read_mem_def)
    with P p show ?thesis by (auto simp: t_def queue_frame_def)
  qed
qed

lemma recv_packages_agrees: "mode_agrees (recv_packages ts)"
proof (induction ts)
  case Nil
  have "recv_packages [] = (\<lambda>m. Inr (m, []))" by (rule ext) simp
  then show ?case by (simp add: mode_agrees_skip)
next
  case (Cons t ts)
  obtain i d where t: "t = (i, d)" by (cases t)
  have "recv_packages (t # ts) = (\<lambda>m. bind_res (OnRecvPackage i d (int (length d)) m) (\<lambda>(m1, cbs1).
      bind_res (recv_packages ts m1) (\<lambda>(m2, cbs2). Inr (m2, cbs1 @ cbs2))))"
    by (rule ext) (simp add: t)
  then show ?case using mode_agrees_seq[OF OnRecvPackage_agrees Cons] by simp
qed

lemma OnRecv_agrees: "mode_agrees (OnRecv ip port lport data len)"
proof (rule mode_agreesI)
  fix m m' cbs
  assume s: "single_thread_handle_mode m" and q: "queue_ok m" and r: "OnRecv ip port lport data len m = Inr (m', cbs)"
  let ?e = "\<lparr>remote_ip_addr = ip, remote_port = port, local_port = lport\<rparr>"
  show "single_thread_handle_mode m' \<and> queue_ok m' \<and> cbs = [] \<and> handler_list m' = handler_list m \<and>
     (\<exists>ts. queued m' = queued m @ ts \<and>
        OnRecv ip port lport data len (core m) = Inr (core m', concat (map (task_calls (handler_list m)) ts)))"
  proof (cases "map_find Endpoint_less ?e (endpoint_to_net_id_map m)")
    case None
    with r s q show ?thesis by (auto simp: OnRecv_def)
  next
    case (Some i)
    from r Some obtain pk ts where u: "UnPack (packager m) i data len = Inr (pk, ts)"
      "recv_packages ts (m\<lparr>packager := pk\<rparr>) = Inr (m', cbs)"
      by (auto simp: OnRecv_def bind_res_eq_Inr)
    have f: "queue_frame m (m\<lparr>packager := pk\<rparr>)" by (simp add: queue_frame_def)
    from mode_agreesD[OF recv_packages_agrees _ _ u(2)] queue_frameD[OF f] s q Some u(1)
    show ?thesis by (simp add: OnRecv_def)
  qed
qed

lemma OnDisconnect_agrees: "mode_agrees (OnDisconnect ip port lport)"
proof (rule mode_agreesI)
  fix m m' cbs
  assume s: "single_thread_handle_mode m" and q: "queue_ok m" and r: "OnDisconnect ip port lport m = Inr (m', cbs)"
  let ?e = "\<lparr>remote_ip_addr = ip, remote_port = port, local_port = lport\<rparr>"
  show "single_thread_handle_mode m' \<and> queue_ok m' \<and> cbs = [] \<and> handler_list m' = handler_list m \<and>
     (\<exists>ts. queued m' = queued m @ ts \<and>
        OnDisconnect ip port lport (core m) = Inr (core m', concat (map (task_calls (handler_list m)) ts)))"
  proof (cases "map_find Endpoint_less ?e (endpoint_to_net_id_map m)")
    case None
    with r s q show ?thesis by (auto simp: OnDisconnect_def Let_def)
  next
    case (Some i)
    define m1 where "m1 = m\<lparr>net_id_to_endpoint_map := (net_id_to_endpoint_map m)(i := None),
       endpoint_to_net_id_map := map_erase Endpoint_less ?e (endpoint_to_net_id_map m),
       net_id_to_accept := (net_id_to_accept m)(i := None),
       net_id_to_connect := (net_id_to_connect m)(i := None)\<rparr>"
    define t where "t = NetworkHandleTask_new\<lparr>task_type := ON_DISCONNECT, task_net_id := i, task_local_port := lport\<rparr>"
    have f: "queue_frame m m1" by (simp add: m1_def queue_frame_def)
    from r s Some queue_frameD(3)[OF f] obtain m2 where
      p: "post_task t m1 = Inr m2" "m' = m2\<lparr>free_net_id_list := i # free_net_id_list m2\<rparr>" "cbs = []"
      by (auto simp: OnDisconnect_def Let_def bind_res_eq_Inr m1_def t_def)
    have "task_good t" by (simp add: t_def)
    note P = post_agrees[OF q s f this p(1)]
    have f2: "queue_frame m2 m'" by (simp add: p(2) queue_frame_def)
    have "free_net_id_list (core m2) = free_net_id_list (core m1)" using P by simp
    then have c: "free_net_id_list m2 = free_net_id_list m" by (simp add: m1_def)
    have "OnDisconnect ip port lport (core m) = Inr (core m', task_calls (handler_list m) t)"
      using Some P c p(2)
      by (simp add: OnDisconnect_def Let_def t_def task_calls_def task_callbacks_def m1_def)
    with P p queue_frameD[OF f2] show ?thesis by auto
  qed
qed

lemma handle_events_agrees: "mode_agrees (handle_events evs)"
proof (induction evs)
  case Nil
  have "handle_events [] = (\<lambda>m. Inr (m, []))" by (rule ext) simp
  then show ?case by (simp add: mode_agrees_skip)
next
  case (Cons ev evs)
  define f where "f = (case ev of
         EvAccept ip port lport \<Rightarrow> OnAccept ip port lport
       | EvConnect ip port lport \<Rightarrow> OnConnect ip port lport
       | EvRecv ip port lport data \<Rightarrow> OnRecv ip port lport data (int (length data))
       | EvDisconnect ip port lport \<Rightarrow> OnDisconnect ip port lport)"
  have "handle_events (ev # evs) = (\<lambda>m. bind_res (f m) (\<lambda>(m1, cbs1).
      bind_res (handle_events evs m1) (\<lambda>(m2, cbs2). Inr (m2, cbs1 @ cbs2))))"
    by (rule ext) (simp add: f_def split: socket_event.split)
  moreover have "mode_agrees f"
    by (simp add: f_def OnAccept_agrees OnConnect_agrees OnRecv_agrees OnDisconnect_agrees split: socket_event.split)
  ultimately show ?case using mode_agrees_seq[OF _ Cons] by simp
qed

section \<open>Invariants\<close>

text \<open>
  Connection numbers: the free ones are distinct, positive, at most the largest one given out and
  not in use; every entry of the endpoint map leads to a number in use whose endpoint is the same
  key; and only numbers in use have a socket.
\<close>

definition ids_ok :: "NetworkManager \<Rightarrow> bool" where
  "ids_ok m \<longleftrightarrow> 0 \<le> max_net_id m \<and> distinct (free_net_id_list m) \<and>
     set (free_net_id_list m) \<subseteq> {1..max_net_id m} \<and>
     dom (net_id_to_endpoint_map m) \<subseteq> {1..max_net_id m} - set (free_net_id_list m) \<and>
     (\<forall>e i. map_find Endpoint_less e (endpoint_to_net_id_map m) = Some i \<longrightarrow>
        (\<exists>e'. net_id_to_endpoint_map m i = Some e' \<and> equiv_key Endpoint_less e' e)) \<and>
     dom (net_id_to_accept m) \<union> dom (net_id_to_connect m) \<subseteq> dom (net_id_to_endpoint_map m)"

definition sockets_ok :: "NetworkManager \<Rightarrow> bool" where
  "sockets_ok m \<longleftrightarrow> (\<forall>a \<in> set (accept_list m). accepts m a \<noteq> None) \<and>
     (\<forall>c \<in> set (connect_list m). connects m c \<noteq> None)"

definition manager_inv :: "NetworkManager \<Rightarrow> bool" where
  "manager_inv m \<longleftrightarrow> ids_ok m \<and> sockets_ok m \<and> queue_ok m"

definition keeps :: "(NetworkManager \<Rightarrow> (NetworkManager \<times> callback list) res) \<Rightarrow> bool" where
  "keeps f \<longleftrightarrow> (\<forall>m m' cbs. manager_inv m \<longrightarrow> f m = Inr (m', cbs) \<longrightarrow> manager_inv m')"

lemma keepsI: "(\<And>m m' cbs. manager_inv m \<Longrightarrow> f m = Inr (m', cbs) \<Longrightarrow> manager_inv m') \<Longrightarrow> keeps f"
  unfolding keeps_def by blast

lemma keepsD: "keeps f \<Longrightarrow> manager_inv m \<Longrightarrow> f m = Inr (m', cbs) \<Longrightarrow> manager_inv m'"
  unfolding keeps_def by blast

lemma keeps_seq:
  "keeps f \<Longrightarrow> keeps g \<Longrightarrow>
   keeps (\<lambda>m. bind_res (f m) (\<lambda>(m1, cbs1). bind_res (g m1) (\<lambda>(m2, cbs2). Inr (m2, cbs1 @ cbs2))))"
  by (rule keepsI) (auto simp: bind_res_eq_Inr dest: keepsD)

lemma inv_core: "ids_ok (core m) = ids_ok m" "sockets_ok (core m) = sockets_ok m"
  by (simp_all add: ids_ok_def sockets_ok_def)

lemma manager_inv_core:
  "manager_inv m \<Longrightarrow> core m' = core m \<Longrightarrow> queue_ok m' \<Longrightarrow> manager_inv m'"
  unfolding manager_inv_def by (metis inv_core)

lemma post_task_core: "post_task t m = Inr m' \<Longrightarrow> core m' = core m"
  by (auto simp: post_task_def bind_res_eq_Inr core_def)

lemma post_keeps: "manager_inv m \<Longrightarrow> task_good t \<Longrightarrow> post_task t m = Inr m' \<Longrightarrow> manager_inv m'"
  using post_task_law[of m t] manager_inv_core[of m m'] by (auto simp: manager_inv_def)

text \<open>A number that is about to be given to an endpoint, and has it at most already.\<close>

definition id_reserved :: "NetworkID \<Rightarrow> Endpoint \<Rightarrow> NetworkManager \<Rightarrow> bool" where
  "id_reserved i e m \<longleftrightarrow> manager_inv m \<and> i \<in> {1..max_net_id m} - set (free_net_id_list m) \<and>
     (net_id_to_endpoint_map m i = None \<or> net_id_to_endpoint_map m i = Some e)"

lemma GetFreeNetID_reserves:
  assumes "manager_inv m" and "GetFreeNetID m = Inr (i, m1)"
  shows "id_reserved i e m1 \<and> net_id_to_endpoint_map m i = None \<and>
    net_id_to_endpoint_map m1 = net_id_to_endpoint_map m"
proof (cases "free_net_id_list m")
  case Nil
  with assms(2) have m1: "i = max_net_id m + 1" "m1 = m\<lparr>max_net_id := i\<rparr>"
    by (auto simp: GetFreeNetID_def bind_res_eq_Inr c_int_eq_Inr)
  have "i \<notin> dom (net_id_to_endpoint_map m)" using assms(1) m1(1) by (auto simp: manager_inv_def ids_ok_def)
  moreover have "ids_ok m1"
  proof -
    have "dom (net_id_to_endpoint_map m) \<subseteq> {1..max_net_id m}" "0 \<le> max_net_id m"
      using assms(1) Nil by (simp_all add: manager_inv_def ids_ok_def)
    then have "dom (net_id_to_endpoint_map m1) \<subseteq> {1..max_net_id m1}" "0 \<le> max_net_id m1"
      using m1 by auto
    then show ?thesis using assms(1) m1 Nil unfolding manager_inv_def ids_ok_def by simp
  qed
  moreover have "sockets_ok m1" "queue_ok m1" "0 \<le> max_net_id m"
    using assms(1) m1 by (auto simp: manager_inv_def sockets_ok_def queue_ok_def ids_ok_def)
  ultimately show ?thesis using m1 Nil by (auto simp: id_reserved_def manager_inv_def)
next
  case (Cons x rest)
  with assms(2) have m1: "i = x" "m1 = m\<lparr>free_net_id_list := rest\<rparr>" by (auto simp: GetFreeNetID_def)
  have "ids_ok m1" "sockets_ok m1" "queue_ok m1" "i \<notin> dom (net_id_to_endpoint_map m)" "i \<in> {1..max_net_id m}" "i \<notin> set rest"
    using assms(1) m1 Cons by (auto simp: manager_inv_def sockets_ok_def queue_ok_def ids_ok_def)
  then show ?thesis using m1 by (auto simp: id_reserved_def manager_inv_def)
qed

lemma register_endpoint_ok:
  assumes "id_reserved i e m" and "dom A \<subseteq> insert i (dom (net_id_to_accept m))"
    and "dom C \<subseteq> insert i (dom (net_id_to_connect m))"
  shows "id_reserved i e (register_endpoint i e (m\<lparr>net_id_to_accept := A, net_id_to_connect := C\<rparr>))"
proof -
  have I: "ids_ok m" "sockets_ok m" "queue_ok m" "i \<in> {1..max_net_id m} - set (free_net_id_list m)"
    "net_id_to_endpoint_map m i = None \<or> net_id_to_endpoint_map m i = Some e"
    using assms(1) by (auto simp: id_reserved_def manager_inv_def)
  define n where "n = register_endpoint i e (m\<lparr>net_id_to_accept := A, net_id_to_connect := C\<rparr>)"
  have n: "free_net_id_list n = free_net_id_list m" "max_net_id n = max_net_id m"
    "net_id_to_endpoint_map n = (net_id_to_endpoint_map m)(i \<mapsto> e)"
    "endpoint_to_net_id_map n = map_put Endpoint_less e i (endpoint_to_net_id_map m)"
    "net_id_to_accept n = A" "net_id_to_connect n = C"
    by (simp_all add: n_def register_endpoint_def)
  have sq: "sockets_ok n" "queue_ok n"
    using I(2,3) by (simp_all add: n_def register_endpoint_def sockets_ok_def queue_ok_def)
  have found: "\<exists>e'. net_id_to_endpoint_map n j = Some e' \<and> equiv_key Endpoint_less e' e''"
    if f: "map_find Endpoint_less e'' (endpoint_to_net_id_map n) = Some j" for e'' j
  proof (cases "equiv_key Endpoint_less e e''")
    case True
    then show ?thesis using f n by (simp add: endpoint_keys.find_put)
  next
    case False
    with f n have "map_find Endpoint_less e'' (endpoint_to_net_id_map m) = Some j"
      by (simp add: endpoint_keys.find_put)
    with I(1) obtain e' where "net_id_to_endpoint_map m j = Some e'" "equiv_key Endpoint_less e' e''"
      unfolding ids_ok_def by blast
    moreover from this I(5) False have "j \<noteq> i" by auto
    ultimately show ?thesis by (simp add: n)
  qed
  have d: "dom (net_id_to_endpoint_map n) = insert i (dom (net_id_to_endpoint_map m))" using n by simp
  have gen: "X \<union> Y \<subseteq> insert i D"
    if "X \<subseteq> insert i P" "Y \<subseteq> insert i Q" "P \<union> Q \<subseteq> D" for X Y P Q D :: "int set"
    using that by blast
  have "dom (net_id_to_accept m) \<union> dom (net_id_to_connect m) \<subseteq> dom (net_id_to_endpoint_map m)"
    and r: "dom (net_id_to_endpoint_map m) \<subseteq> {1..max_net_id m} - set (free_net_id_list m)"
    using I(1) by (simp_all add: ids_ok_def)
  from gen[OF assms(2,3) this(1)]
  have "dom (net_id_to_accept n) \<union> dom (net_id_to_connect n) \<subseteq> dom (net_id_to_endpoint_map n)"
    unfolding n(5,6) d .
  moreover have "dom (net_id_to_endpoint_map n) \<subseteq> {1..max_net_id n} - set (free_net_id_list n)"
    unfolding n(1,2) d by (rule insert_subsetI[OF I(4) r])
  ultimately have "ids_ok n" using I(1) n(1,2) found unfolding ids_ok_def by simp
  with sq I(4) n show ?thesis unfolding n_def[symmetric] by (simp add: id_reserved_def manager_inv_def)
qed

lemma register_accept_ok:
  "register_accept as i e m = Inr m' \<Longrightarrow> id_reserved i e m \<Longrightarrow> id_reserved i e m'"
proof (induction as i e m rule: register_accept.induct)
  case (2 a as i e m)
  define n where "n = m\<lparr>net_id_to_accept := (net_id_to_accept m)(i \<mapsto> a)\<rparr>"
  have "id_reserved i e (register_endpoint i e n)"
    using register_endpoint_ok[OF 2(3), of "(net_id_to_accept m)(i \<mapsto> a)" "net_id_to_connect m"]
    by (simp add: n_def insert_mono subset_insertI)
  with 2 show ?case by (auto simp: n_def split: option.splits if_splits)
qed simp

lemma register_connect_ok:
  "register_connect cs i e m = Inr m' \<Longrightarrow> id_reserved i e m \<Longrightarrow> id_reserved i e m'"
proof (induction cs i e m rule: register_connect.induct)
  case (2 c cs i e m)
  define n where "n = m\<lparr>net_id_to_connect := (net_id_to_connect m)(i \<mapsto> c)\<rparr>"
  have "id_reserved i e (register_endpoint i e n)"
    using register_endpoint_ok[OF 2(3), of "net_id_to_accept m" "(net_id_to_connect m)(i \<mapsto> c)"]
    by (simp add: n_def insert_mono subset_insertI)
  with 2 show ?case by (auto simp: n_def split: option.splits if_splits)
qed simp

lemma OnAccept_keeps: "keeps (OnAccept ip port lport)"
proof (rule keepsI)
  fix m m' cbs
  assume I: "manager_inv m" and r: "OnAccept ip port lport m = Inr (m', cbs)"
  let ?e = "\<lparr>remote_ip_addr = ip, remote_port = port, local_port = lport\<rparr>"
  from r obtain i m1 m2 where 1: "GetFreeNetID m = Inr (i, m1)" "register_accept (accept_list m1) i ?e m1 = Inr m2"
    and 2: "m' = m2 \<or> (\<exists>t. task_good t \<and> post_task t m2 = Inr m')"
    by (fastforce simp: OnAccept_def bind_res_eq_Inr split: if_splits)
  from GetFreeNetID_reserves[OF I 1(1)] register_accept_ok[OF 1(2)] have "manager_inv m2"
    by (simp add: id_reserved_def)
  with 2 show "manager_inv m'" using post_keeps by auto
qed

lemma OnConnect_keeps: "keeps (OnConnect ip port lport)"
proof (rule keepsI)
  fix m m' cbs
  assume I: "manager_inv m" and r: "OnConnect ip port lport m = Inr (m', cbs)"
  let ?e = "\<lparr>remote_ip_addr = ip, remote_port = port, local_port = lport\<rparr>"
  from r obtain i m1 m2 where 1: "GetFreeNetID m = Inr (i, m1)" "register_connect (connect_list m1) i ?e m1 = Inr m2"
    and 2: "m' = m2 \<or> (\<exists>t. task_good t \<and> post_task t m2 = Inr m')"
    by (fastforce simp: OnConnect_def bind_res_eq_Inr split: if_splits)
  from GetFreeNetID_reserves[OF I 1(1)] register_connect_ok[OF 1(2)] have "manager_inv m2"
    by (simp add: id_reserved_def)
  with 2 show "manager_inv m'" using post_keeps by auto
qed

lemma OnRecvPackage_keeps: "keeps (OnRecvPackage i data (int (length data)))"
proof (rule keepsI)
  fix m m' cbs
  assume I: "manager_inv m" and r: "OnRecvPackage i data (int (length data)) m = Inr (m', cbs)"
  show "manager_inv m'"
  proof (cases "m' = m")
    case False
    with r obtain stored where
      st: "memcpy (task_data NetworkHandleTask_new) 0 data (int (length data)) = Inr stored"
      and p: "post_task (NetworkHandleTask_new\<lparr>task_type := ON_RECV, task_net_id := i,
            task_data := stored, task_length := int (length data)\<rparr>) m = Inr m'"
      by (auto simp: OnRecvPackage_def bind_res_eq_Inr split: if_splits)
    from post_keeps[OF I _ p] st show ?thesis by (auto simp: task_good_def memcpy_eq_Inr)
  qed (use I in simp)
qed

lemma recv_packages_keeps: "keeps (recv_packages ts)"
proof (induction ts)
  case (Cons t ts)
  obtain i d where t: "t = (i, d)" by (cases t)
  have "recv_packages (t # ts) = (\<lambda>m. bind_res (OnRecvPackage i d (int (length d)) m) (\<lambda>(m1, cbs1).
      bind_res (recv_packages ts m1) (\<lambda>(m2, cbs2). Inr (m2, cbs1 @ cbs2))))"
    by (rule ext) (simp add: t)
  then show ?case using keeps_seq[OF OnRecvPackage_keeps Cons] by simp
qed (simp add: keeps_def)

lemma OnRecv_keeps: "keeps (OnRecv ip port lport data len)"
proof (rule keepsI)
  fix m m' cbs
  assume I: "manager_inv m" and r: "OnRecv ip port lport data len m = Inr (m', cbs)"
  have "manager_inv (m\<lparr>packager := pk\<rparr>)" for pk
    using I by (simp add: manager_inv_def ids_ok_def sockets_ok_def queue_ok_def)
  with I r recv_packages_keeps show "manager_inv m'"
    by (auto simp: OnRecv_def bind_res_eq_Inr split: option.splits dest: keepsD)
qed

lemma OnDisconnect_keeps: "keeps (OnDisconnect ip port lport)"
proof (rule keepsI)
  fix m m' cbs
  assume I: "manager_inv m" and r: "OnDisconnect ip port lport m = Inr (m', cbs)"
  let ?e = "\<lparr>remote_ip_addr = ip, remote_port = port, local_port = lport\<rparr>"
  show "manager_inv m'"
  proof (cases "map_find Endpoint_less ?e (endpoint_to_net_id_map m)")
    case None
    with r I show ?thesis by (simp add: OnDisconnect_def Let_def)
  next
    case (Some i)
    define m1 where "m1 = m\<lparr>net_id_to_endpoint_map := (net_id_to_endpoint_map m)(i := None),
       endpoint_to_net_id_map := map_erase Endpoint_less ?e (endpoint_to_net_id_map m),
       net_id_to_accept := (net_id_to_accept m)(i := None),
       net_id_to_connect := (net_id_to_connect m)(i := None)\<rparr>"
    have ids: "ids_ok m" using I by (simp add: manager_inv_def)
    from ids Some obtain e' where e': "net_id_to_endpoint_map m i = Some e'" "equiv_key Endpoint_less e' ?e"
      unfolding ids_ok_def by blast
    have "\<exists>x. net_id_to_endpoint_map m1 j = Some x \<and> equiv_key Endpoint_less x y"
      if f: "map_find Endpoint_less y (endpoint_to_net_id_map m1) = Some j" for y j
    proof -
      from f have g: "\<not> equiv_key Endpoint_less ?e y" "map_find Endpoint_less y (endpoint_to_net_id_map m) = Some j"
        by (auto simp: m1_def endpoint_keys.find_erase split: if_splits)
      from ids g(2) obtain x where x: "net_id_to_endpoint_map m j = Some x" "equiv_key Endpoint_less x y"
        unfolding ids_ok_def by blast
      then have "j \<noteq> i" using e' g(1) endpoint_keys.equiv_cong[OF e'(2), of y] by auto
      with x show ?thesis by (simp add: m1_def)
    qed
    moreover have "dom (net_id_to_accept m1) \<union> dom (net_id_to_connect m1) \<subseteq> dom (net_id_to_endpoint_map m1)"
      "dom (net_id_to_endpoint_map m1) \<subseteq> dom (net_id_to_endpoint_map m) - {i}"
      using ids by (auto simp: ids_ok_def m1_def)
    ultimately have "ids_ok (m1\<lparr>free_net_id_list := i # free_net_id_list m1\<rparr>)" "ids_ok m1"
      using ids e'(1) unfolding ids_ok_def by (auto simp: m1_def)
    moreover have "sockets_ok m1" "queue_ok m1"
      using I by (auto simp: m1_def manager_inv_def sockets_ok_def queue_ok_def)
    ultimately have I1: "manager_inv m1" "ids_ok (m1\<lparr>free_net_id_list := i # free_net_id_list m1\<rparr>)"
      by (auto simp: manager_inv_def)
    have "\<exists>m2. m' = m2\<lparr>free_net_id_list := i # free_net_id_list m2\<rparr> \<and>
      (m2 = m1 \<or> (\<exists>t. task_good t \<and> post_task t m1 = Inr m2))"
    proof (cases "single_thread_handle_mode m")
      case True
      with r Some show ?thesis
        by (auto simp: OnDisconnect_def Let_def bind_res_eq_Inr m1_def intro: task_good_new)
    next
      case False
      with r Some show ?thesis by (intro exI[of _ m1]) (simp add: OnDisconnect_def Let_def m1_def)
    qed
    then obtain m2 where m2: "m' = m2\<lparr>free_net_id_list := i # free_net_id_list m2\<rparr>"
      "m2 = m1 \<or> (\<exists>t. task_good t \<and> post_task t m1 = Inr m2)" by blast
    have c: "core m2 = core m1" "manager_inv m2"
      using m2(2) I1(1) post_keeps[OF I1(1)] post_task_core by blast+
    have "free_net_id_list m2 = free_net_id_list m1" using arg_cong[OF c(1), of free_net_id_list] by simp
    then have core': "core m' = core (m1\<lparr>free_net_id_list := i # free_net_id_list m1\<rparr>)"
      using m2(1) c(1) by simp
    have "ids_ok m'" using inv_core(1)[of m'] inv_core(1)[of "m1\<lparr>free_net_id_list := i # free_net_id_list m1\<rparr>"]
      core' I1(2) by simp
    moreover have "sockets_ok m'"
      using c(2) m2(1) by (simp add: manager_inv_def sockets_ok_def)
    moreover have "queue_ok m'" using c(2) m2(1) by (simp add: manager_inv_def queue_ok_def)
    ultimately show ?thesis by (simp add: manager_inv_def)
  qed
qed

lemma handle_events_keeps: "keeps (handle_events evs)"
proof (induction evs)
  case (Cons ev evs)
  define f where "f = (case ev of
         EvAccept ip port lport \<Rightarrow> OnAccept ip port lport
       | EvConnect ip port lport \<Rightarrow> OnConnect ip port lport
       | EvRecv ip port lport data \<Rightarrow> OnRecv ip port lport data (int (length data))
       | EvDisconnect ip port lport \<Rightarrow> OnDisconnect ip port lport)"
  have "handle_events (ev # evs) = (\<lambda>m. bind_res (f m) (\<lambda>(m1, cbs1).
      bind_res (handle_events evs m1) (\<lambda>(m2, cbs2). Inr (m2, cbs1 @ cbs2))))"
    by (rule ext) (simp add: f_def split: socket_event.split)
  moreover have "keeps f"
    by (simp add: f_def OnAccept_keeps OnConnect_keeps OnRecv_keeps OnDisconnect_keeps split: socket_event.split)
  ultimately show ?case using keeps_seq[OF _ Cons] by simp
qed (simp add: keeps_def)

text \<open>The sockets: adding a live one, changing one, removing one from list and heap together.\<close>

lemma sockets_update_inv:
  assumes "manager_inv m"
  shows "manager_inv (m\<lparr>accepts := (accepts m)(a \<mapsto> acc)\<rparr>)"
    "manager_inv (m\<lparr>connects := (connects m)(c \<mapsto> con)\<rparr>)"
    "manager_inv (m\<lparr>accept_list := insort a (accept_list m), accepts := (accepts m)(a \<mapsto> acc)\<rparr>)"
    "manager_inv (m\<lparr>connect_list := insort c (connect_list m), connects := (connects m)(c \<mapsto> con)\<rparr>)"
    "manager_inv (m\<lparr>accept_list := filter (\<lambda>x. x \<noteq> a) (accept_list m), accepts := (accepts m)(a := None)\<rparr>)"
    "manager_inv (m\<lparr>connect_list := filter (\<lambda>x. x \<noteq> c) (connect_list m), connects := (connects m)(c := None)\<rparr>)"
  using assms by (auto simp: manager_inv_def ids_ok_def sockets_ok_def queue_ok_def set_insort_key)

lemma ListenThread_end_keeps: "keeps (ListenThread_end a port)"
proof (rule keepsI)
  fix m m' cbs
  assume I: "manager_inv m" and r: "ListenThread_end a port m = Inr (m', cbs)"
  then obtain m1 where m1: "m' = m1\<lparr>accept_list := filter (\<lambda>x. x \<noteq> a) (accept_list m1),
      accepts := (accepts m1)(a := None)\<rparr>" "m1 = m \<or> (\<exists>t. task_good t \<and> post_task t m = Inr m1)"
    by (auto simp: ListenThread_end_def bind_res_eq_Inr intro: task_good_new split: if_splits)
  then have "manager_inv m1" using I post_keeps by blast
  with m1(1) show "manager_inv m'" by (simp add: sockets_update_inv)
qed

lemma ConnectThread_end_keeps: "keeps (ConnectThread_end c ip port res)"
proof (rule keepsI)
  fix m m' cbs
  assume I: "manager_inv m" and r: "ConnectThread_end c ip port res m = Inr (m', cbs)"
  then obtain m1 where m1: "m' = m1\<lparr>connect_list := filter (\<lambda>x. x \<noteq> c) (connect_list m1),
      connects := (connects m1)(c := None)\<rparr>" "m1 = m \<or> (\<exists>t. task_good t \<and> post_task t m = Inr m1)"
    by (auto simp: ConnectThread_end_def bind_res_eq_Inr intro: task_good_new split: if_splits option.splits)
  then have "manager_inv m1" using I post_keeps by blast
  with m1(1) show "manager_inv m'" by (simp add: sockets_update_inv)
qed

section \<open>Reachable states\<close>

text \<open>
  Every call into the manager and every event of its sockets, in any order. New objects get
  addresses that are not in use.
\<close>

inductive manager_reachable :: "NetworkManager \<Rightarrow> bool" where
  new: "heap_ok h \<Longrightarrow> manager_reachable (NetworkManager_new h)"
| regist: "manager_reachable m \<Longrightarrow> manager_reachable (RegistHandler handler m)"
| unregist: "manager_reachable m \<Longrightarrow> manager_reachable (UnregistHandler handler m)"
| mode: "manager_reachable m \<Longrightarrow> manager_reachable (SetSingleThreadHandleMode b m)"
| task: "manager_reachable m \<Longrightarrow> HandleNetTask m = Inr (m', cbs) \<Longrightarrow> manager_reachable m'"
| sync_listen: "manager_reachable m \<Longrightarrow> manager_reachable (snd (SyncListen ret i port m))"
| sync_connect: "manager_reachable m \<Longrightarrow> manager_reachable (snd (SyncConnect ret i ip port m))"
| wait: "manager_reachable m \<Longrightarrow> manager_reachable (snd (WaitAllThread m))"
| listen: "manager_reachable m \<Longrightarrow> accepts m a = None \<Longrightarrow>
    ListenThread_start os a buff port m = Inr (m', cbs, go) \<Longrightarrow> manager_reachable m'"
| listen_event: "manager_reachable m \<Longrightarrow>
    ListenThread_event a port ev eos m = Inr (m', cbs, acts, go) \<Longrightarrow> manager_reachable m'"
| connect: "manager_reachable m \<Longrightarrow> connects m c = None \<Longrightarrow>
    ConnectThread_start cos c buff ip port m = Inr (m', cbs, go) \<Longrightarrow> manager_reachable m'"
| connect_pass: "manager_reachable m \<Longrightarrow>
    ConnectThread_pass c ip port waited m = Inr (m', cbs, acts, go) \<Longrightarrow> manager_reachable m'"
| disconnect: "manager_reachable m \<Longrightarrow> Disconnect net_id m = Inr (m', acts) \<Longrightarrow> manager_reachable m'"

lemma HandleNetTask_keeps:
  assumes "manager_inv m" and "HandleNetTask m = Inr (m', cbs)"
  shows "manager_inv m'"
proof (cases "queued m")
  case Nil
  with assms show ?thesis by (auto simp: queued_def HandleNetTask_def)
next
  case (Cons t ts)
  from assms(1) have "queue_ok m" by (simp add: manager_inv_def)
  from HandleNetTask_law[OF this Cons] assms(2) manager_inv_core[OF assms(1)] show ?thesis by auto
qed

lemma ListenThread_keeps:
  assumes "manager_inv m"
  shows "ListenThread_start os a buff port m = Inr (m', cbs, go) \<Longrightarrow> manager_inv m'"
    and "ListenThread_event a port ev eos m = Inr (m', cbs, acts, go) \<Longrightarrow> manager_inv m'"
proof -
  assume r: "ListenThread_start os a buff port m = Inr (m', cbs, go)"
  obtain go1 acc where s: "SocketAccept_Listen_setup os port
      (SocketAccept_ResetHandler True (SocketAccept_new buff)) = (go1, acc)" by fastforce
  have I: "manager_inv (m\<lparr>accept_list := insort a (accept_list m), accepts := (accepts m)(a \<mapsto> acc)\<rparr>)"
    using assms by (rule sockets_update_inv)
  from r s have "m' = m\<lparr>accept_list := insort a (accept_list m), accepts := (accepts m)(a \<mapsto> acc)\<rparr> \<or>
    (\<exists>cbs. ListenThread_end a port (m\<lparr>accept_list := insort a (accept_list m), accepts := (accepts m)(a \<mapsto> acc)\<rparr>) =
      Inr (m', cbs))"
    by (auto simp: ListenThread_start_def Let_def bind_res_eq_Inr split: if_splits)
  with I keepsD[OF ListenThread_end_keeps I] show "manager_inv m'" by auto
next
  assume r: "ListenThread_event a port ev eos m = Inr (m', cbs, acts, go)"
  then obtain acc1 evs m1 c1 where
    1: "handle_events evs (m\<lparr>accepts := (accepts m)(a \<mapsto> acc1)\<rparr>) = Inr (m1, c1)"
      "m' = m1 \<or> (\<exists>c. ListenThread_end a port m1 = Inr (m', c))"
    by (auto simp: ListenThread_event_def bind_res_eq_Inr split: option.splits if_splits)
  from keepsD[OF handle_events_keeps sockets_update_inv(1)[OF assms] 1(1)] have I: "manager_inv m1" .
  with 1(2) keepsD[OF ListenThread_end_keeps I] show "manager_inv m'" by auto
qed

lemma ConnectThread_start_keeps:
  assumes I: "manager_inv m" and r: "ConnectThread_start os c buff ip port m = Inr (m', cbs, go)"
  shows "manager_inv m'"
proof -
  obtain go1 con where s: "SocketConnect_open os ip port
      (SocketConnect_ResetHandler True (SocketConnect_new buff)) = (go1, con)" by fastforce
  define m2 where "m2 = m\<lparr>connect_list := insort c (connect_list m), connects := (connects m)(c \<mapsto> con)\<rparr>"
  have I2: "manager_inv m2" unfolding m2_def using I by (rule sockets_update_inv)
  show ?thesis
  proof (cases go1)
    case False
    with r s have "\<exists>cbs. ConnectThread_end c ip port False m2 = Inr (m', cbs)"
      by (auto simp: ConnectThread_start_def Let_def bind_res_eq_Inr m2_def)
    with keepsD[OF ConnectThread_end_keeps I2] show ?thesis by auto
  next
    case True
    obtain go2 con2 where s2: "SocketConnect_enter_loop os con = (go2, con2)" by fastforce
    from True r s s2 obtain m3 c3 where
      1: "handle_events (SocketConnect_connected con) m2 = Inr (m3, c3)"
        "m' = m3\<lparr>connects := (connects m3)(c \<mapsto> con2)\<rparr> \<or>
         (\<exists>cbs. ConnectThread_end c ip port False (m3\<lparr>connects := (connects m3)(c \<mapsto> con2)\<rparr>) = Inr (m', cbs))"
      by (auto simp: ConnectThread_start_def Let_def bind_res_eq_Inr m2_def split: if_splits)
    from keepsD[OF handle_events_keeps I2 1(1)]
    have I4: "manager_inv (m3\<lparr>connects := (connects m3)(c \<mapsto> con2)\<rparr>)" by (rule sockets_update_inv)
    with 1(2) keepsD[OF ConnectThread_end_keeps I4] show ?thesis by auto
  qed
qed

lemma ConnectThread_pass_keeps:
  assumes I: "manager_inv m" and r: "ConnectThread_pass c ip port waited m = Inr (m', cbs, acts, go)"
  shows "manager_inv m'"
proof -
  from r consider
      (stop) res cb where "ConnectThread_end c ip port res m = Inr (m', cb)"
    | (go) con1 evs m1 cb where
        "handle_events evs (m\<lparr>connects := (connects m)(c \<mapsto> con1)\<rparr>) = Inr (m1, cb)"
        "m' = m1 \<or> (\<exists>cb. ConnectThread_end c ip port True m1 = Inr (m', cb))"
    by (auto simp: ConnectThread_pass_def bind_res_eq_Inr split: option.splits if_splits)
  then show ?thesis
  proof cases
    case stop
    then show ?thesis using keepsD[OF ConnectThread_end_keeps I] by auto
  next
    case go
    from keepsD[OF handle_events_keeps sockets_update_inv(2)[OF I] go(1)] have I1: "manager_inv m1" .
    with go(2) keepsD[OF ConnectThread_end_keeps I1] show ?thesis by auto
  qed
qed

lemma manager_inv_new: "heap_ok h \<Longrightarrow> manager_inv (NetworkManager_new h)"
  by (simp add: manager_inv_def NetworkManager_new_def ids_ok_def sockets_ok_def queue_ok_def pool_invar_def
    pool_ok_new SIZEOF_NetworkHandleTask_def MEMORY_POOL_DEFAULT_INCREASE_ALLOC_NUM_def INT_MAX_def)

lemma other_fields_inv:
  assumes "manager_inv m"
  shows "manager_inv (m\<lparr>handler_list := hs\<rparr>)" "manager_inv (m\<lparr>thread_set := ts\<rparr>)"
    "manager_inv (m\<lparr>single_thread_handle_mode := b\<rparr>)"
  using assms by (simp_all add: manager_inv_def ids_ok_def sockets_ok_def queue_ok_def)

lemma run_on_free_thread_inv: "manager_inv m \<Longrightarrow> manager_inv (snd (run_on_free_thread ret i task m))"
  by (auto simp: run_on_free_thread_def GetFreeThread_def Let_def other_fields_inv
    split: option.splits prod.splits)

lemma Disconnect_keeps: "manager_inv m \<Longrightarrow> Disconnect i m = Inr (m', acts) \<Longrightarrow> manager_inv m'"
  by (auto simp: Disconnect_def bind_res_eq_Inr sockets_update_inv split: option.splits)

lemma manager_reachable_inv: "manager_reachable m \<Longrightarrow> manager_inv m"
proof (induction rule: manager_reachable.induct)
  case (new h)
  then show ?case by (rule manager_inv_new)
next
  case (regist m handler)
  then show ?case by (simp add: RegistHandler_def other_fields_inv)
next
  case (unregist m handler)
  then show ?case by (simp add: UnregistHandler_def other_fields_inv)
next
  case (mode m b)
  then show ?case by (simp add: SetSingleThreadHandleMode_def other_fields_inv)
next
  case (wait m)
  then show ?case by (simp add: WaitAllThread_def other_fields_inv)
next
  case (sync_listen m ret i port)
  then show ?case by (simp add: SyncListen_def run_on_free_thread_inv)
next
  case (sync_connect m ret i ip port)
  then show ?case by (simp add: SyncConnect_def run_on_free_thread_inv)
qed (blast intro: HandleNetTask_keeps ListenThread_keeps ConnectThread_start_keeps ConnectThread_pass_keeps
  Disconnect_keeps)+

section \<open>Properties\<close>


lemma empty_heap_ok: "heap_ok \<lparr>next_block = 0, block_size = Map.empty\<rparr>"
  by (simp add: heap_ok_def)


text \<open>
  C7: Single thread mode is faithful: if a sequence of socket events is handled with the queue, then
  \<^verbatim>\<open>HandleNetTask\<close>, called once per queued task, makes exactly the handler calls, in the same order,
  that handling the events directly would have made, and leaves the same state behind.
\<close>

theorem single_thread_mode_equivalent:
  assumes "single_thread_handle_mode m" and "queue_ok m" and "queued m = []"
    and "handle_events evs m = Inr (m1, cbs1)"
  shows "\<exists>m2 d cbs. handle_tasks (length (handle_task_queue m1)) m1 = Inr (m2, cbs) \<and>
    handle_events evs (core m) = Inr (d, cbs) \<and> core m2 = d \<and> cbs1 = [] \<and> handle_task_queue m2 = []"
proof -
  from mode_agreesD[OF handle_events_agrees assms(1,2,4)] assms(3) obtain ts where
    1: "queue_ok m1" "cbs1 = []" "handler_list m1 = handler_list m" "queued m1 = ts"
      "handle_events evs (core m) = Inr (core m1, concat (map (task_calls (handler_list m)) ts))" by auto
  from handle_tasks_drains[OF 1(1)] obtain m2 where
    2: "handle_tasks (length (queued m1)) m1 = Inr (m2, concat (map (task_calls (handler_list m1)) (queued m1)))"
      "queued m2 = []" "core m2 = core m1" by auto
  have "length (queued m1) = length (handle_task_queue m1)" "handle_task_queue m2 = []"
    using 2(2) by (simp_all add: queued_def)
  with 1 2 show ?thesis by auto
qed

definition demo_manager :: "bool \<Rightarrow> NetworkManager" where
  "demo_manager b = SetSingleThreadHandleMode b
     (RegistHandler 1 (NetworkManager_new \<lparr>next_block = 0, block_size = Map.empty\<rparr>))"

lemma demo_manager_ok: "queue_ok (demo_manager b)" "queued (demo_manager b) = []"
  using manager_inv_new[OF empty_heap_ok]
  by (simp_all add: demo_manager_def SetSingleThreadHandleMode_def RegistHandler_def manager_inv_def
    queue_ok_def queued_def NetworkManager_new_def)

theorem single_thread_mode_equivalent_witness:
  "\<exists>m1 m2. handle_events [EvAccept (str ''10.0.0.1'') 5000 80] (demo_manager True) = Inr (m1, []) \<and>
    handle_tasks (length (handle_task_queue m1)) m1 = Inr (m2, [CbAccept 1 (str ''10.0.0.1'') 5000 80 1])"
proof -
  define t where "t = NetworkHandleTask_new\<lparr>task_type := ON_ACCEPT, task_net_id := 1,
           task_remote_ip := str ''10.0.0.1'', task_remote_port := 5000, task_local_port := 80\<rparr>"
  define m0 where "m0 = (demo_manager True)\<lparr>max_net_id := 1\<rparr>"
  have "queue_ok m0" using demo_manager_ok(1)[of True] by (simp add: m0_def queue_ok_def)
  from post_task_law[OF this, of t] obtain m1 where p: "post_task t m0 = Inr m1" by (auto simp: t_def)
  have s: "single_thread_handle_mode (demo_manager True)"
    by (simp add: demo_manager_def SetSingleThreadHandleMode_def)
  have g: "GetFreeNetID (demo_manager True) = Inr (1, m0)" "GetFreeNetID (core (demo_manager True)) = Inr (1, core m0)"
    "accept_list m0 = []" "handler_list m0 = [1]"
    by (simp_all add: GetFreeNetID_def m0_def demo_manager_def SetSingleThreadHandleMode_def RegistHandler_def
      NetworkManager_new_def c_int_def INT_MIN_def INT_MAX_def core_def)
  have h: "handle_events [EvAccept (str ''10.0.0.1'') 5000 80] (demo_manager True) = Inr (m1, [])"
    using g p s by (simp add: OnAccept_def m0_def t_def)
  have d: "handle_events [EvAccept (str ''10.0.0.1'') 5000 80] (core (demo_manager True)) =
      Inr (core m0, [CbAccept 1 (str ''10.0.0.1'') 5000 80 1])"
    using g by (simp add: OnAccept_def)
  from single_thread_mode_equivalent [OF s demo_manager_ok(1,2) h] d h show ?thesis by auto
qed

text \<open>
  C34: In single thread mode a message of more than 4096 bytes is copied past the end of the task's
  buffer, although the framing layer accepts it and direct mode hands it on.
\<close>

theorem oversized_message_overruns_task:
  assumes "single_thread_handle_mode m" and "0 < i" and "MAX_SOCKET_MSG_BUFF_LENGTH < int (length data)"
  shows "OnRecvPackage i data (int (length data)) m = Inl OutOfBounds \<and>
    OnRecvPackage i data (int (length data)) (core m) = Inr (core m, map (\<lambda>h. CbRecv h i data) (handler_list m))"
proof -
  have "data \<noteq> []" using assms(3) by (auto simp: MAX_SOCKET_MSG_BUFF_LENGTH_def)
  with assms show ?thesis
    by (simp add: OnRecvPackage_def memcpy_def NetworkHandleTask_new_def read_mem_def MAX_SOCKET_MSG_BUFF_LENGTH_def)
qed

theorem oversized_message_overruns_task_witness:
  "OnRecvPackage 1 (replicate 5000 65) 5000 (demo_manager True) = Inl OutOfBounds"
  using oversized_message_overruns_task [of "demo_manager True" 1 "replicate 5000 65"]
  by (simp add: demo_manager_def SetSingleThreadHandleMode_def MAX_SOCKET_MSG_BUFF_LENGTH_def)

text \<open>
  When \<^verbatim>\<open>Listen\<close> returns, its socket object is deleted but the connections it accepted still
  point to it: sending on one of them uses the freed object.
\<close>

theorem send_after_listen_returns:
  assumes "net_id_to_endpoint_map m i = Some e" and "net_id_to_accept m i = Some a"
    and "ListenThread_end a port m = Inr (m', cbs)" and "has_net_manager (packager m)"
    and "4 + int (length data) \<le> INT_MAX"
  shows "Send r i data (int (length data)) m' = Inl UseAfterFree"
proof -
  from assms(3) obtain m1 where m1: "m' = m1\<lparr>accept_list := filter (\<lambda>x. x \<noteq> a) (accept_list m1),
      accepts := (accepts m1)(a := None)\<rparr>" "core m1 = core m"
    by (auto simp: ListenThread_end_def bind_res_eq_Inr dest: post_task_core split: if_splits)
  have "net_id_to_endpoint_map m1 = net_id_to_endpoint_map m" "net_id_to_accept m1 = net_id_to_accept m"
    "packager m1 = packager m"
    using arg_cong[OF m1(2), of net_id_to_endpoint_map] arg_cong[OF m1(2), of net_id_to_accept]
      arg_cong[OF m1(2), of packager] by simp_all
  with m1(1) assms PackAndSend_frame[OF assms(5), of "packager m" i] show ?thesis
    by (simp add: Send_def SendRaw_def ManagerSend_def)
qed

theorem send_after_listen_returns_witness:
  "\<exists>m' cbs. ListenThread_end 9 80 ((demo_manager False)\<lparr>net_id_to_endpoint_map := [1 \<mapsto> demo_peer],
      net_id_to_accept := [1 \<mapsto> 9], accepts := [9 \<mapsto> demo_connected], accept_list := [9]\<rparr>) = Inr (m', cbs) \<and>
    Send 2 1 [1, 2] 2 m' = Inl UseAfterFree"
proof -
  define m where "m = (demo_manager False)\<lparr>net_id_to_endpoint_map := [1 \<mapsto> demo_peer],
      net_id_to_accept := [1 \<mapsto> 9], accepts := [9 \<mapsto> demo_connected], accept_list := [9]\<rparr>"
  have "\<exists>m' cbs. ListenThread_end 9 80 m = Inr (m', cbs)"
    by (simp add: ListenThread_end_def m_def demo_manager_def SetSingleThreadHandleMode_def)
  then obtain m' cbs where "ListenThread_end 9 80 m = Inr (m', cbs)" by blast
  from this send_after_listen_returns [OF _ _ this, of 1 demo_peer "[1, 2]" 2] show ?thesis
    unfolding m_def[symmetric]
    by (simp add: m_def demo_manager_def SetSingleThreadHandleMode_def RegistHandler_def NetworkManager_new_def
      CreatePacker_def INT_MAX_def)
qed

text \<open>
  C33: A connection number is reused with what the last connection left in the framing cache: after a
  disconnect in the middle of a message the next accepted connection gets the same number, and its
  first bytes are taken as the continuation of the old message.
\<close>

theorem reconnect_inherits_partial_message:
  assumes "\<not> single_thread_handle_mode m"
    and "map_find Endpoint_less \<lparr>remote_ip_addr = ip, remote_port = port, local_port = lport\<rparr>
      (endpoint_to_net_id_map m) = Some i"
    and "accept_list m = [a]" and "accepts m a = Some acc" and "SocketAccept_CheckOnHandle ip' port' acc"
    and "holds (net_id_to_buffer_map (packager m) i) p" and "d \<noteq> []" and "parse_stream (p @ d) = Inr (msgs, rest)"
  shows "\<exists>m1 m2 pk. OnDisconnect ip port lport m = Inr (m1, map (\<lambda>h. CbDisconnect h i) (handler_list m)) \<and>
    OnAccept ip' port' lport m1 = Inr (m2, map (\<lambda>h. CbAccept h ip' port' lport i) (handler_list m)) \<and>
    map_find Endpoint_less \<lparr>remote_ip_addr = ip', remote_port = port', local_port = lport\<rparr>
      (endpoint_to_net_id_map m2) = Some i \<and>
    UnPack (packager m2) i d (int (length d)) = Inr (pk, delivered (packager m) i msgs)"
proof -
  define m1 where "m1 = m\<lparr>net_id_to_endpoint_map := (net_id_to_endpoint_map m)(i := None),
       endpoint_to_net_id_map := map_erase Endpoint_less
         \<lparr>remote_ip_addr = ip, remote_port = port, local_port = lport\<rparr> (endpoint_to_net_id_map m),
       net_id_to_accept := (net_id_to_accept m)(i := None),
       net_id_to_connect := (net_id_to_connect m)(i := None),
       free_net_id_list := i # free_net_id_list m\<rparr>"
  define m2 where "m2 = register_endpoint i \<lparr>remote_ip_addr = ip', remote_port = port', local_port = lport\<rparr>
    (m1\<lparr>free_net_id_list := free_net_id_list m, net_id_to_accept := (net_id_to_accept m1)(i \<mapsto> a)\<rparr>)"
  have "OnDisconnect ip port lport m = Inr (m1, map (\<lambda>h. CbDisconnect h i) (handler_list m))"
    using assms(1,2) by (simp add: OnDisconnect_def Let_def m1_def)
  moreover have "OnAccept ip' port' lport m1 = Inr (m2, map (\<lambda>h. CbAccept h ip' port' lport i) (handler_list m))"
    using assms(1,3-5) by (simp add: OnAccept_def GetFreeNetID_def m1_def m2_def register_endpoint_def)
  moreover have "map_find Endpoint_less \<lparr>remote_ip_addr = ip', remote_port = port', local_port = lport\<rparr>
      (endpoint_to_net_id_map m2) = Some i" "packager m2 = packager m"
    by (simp_all add: m2_def m1_def register_endpoint_def endpoint_keys.find_put)
  moreover from UnPack_meets[OF assms(6,7)] assms(8)
  have "\<exists>pk. UnPack (packager m) i d (int (length d)) = Inr (pk, delivered (packager m) i msgs)"
    by (auto simp: unpack_meets_def)
  ultimately show ?thesis by auto
qed

definition demo_server :: NetworkManager where
  "demo_server = (demo_manager False)\<lparr>net_id_to_endpoint_map := [1 \<mapsto> demo_peer],
     endpoint_to_net_id_map := [(demo_peer, 1)], max_net_id := 1,
     net_id_to_accept := [1 \<mapsto> 9], accepts := [9 \<mapsto> demo_connected], accept_list := [9]\<rparr>"

lemmas demo_server_simps = demo_server_def demo_manager_def SetSingleThreadHandleMode_def RegistHandler_def
  NetworkManager_new_def CreatePacker_def

theorem reconnect_inherits_partial_message_witness:
  "\<exists>m m1 m2 pk. holds (net_id_to_buffer_map (packager m) 1) [3, 0, 0, 0, 65] \<and>
    OnDisconnect (str ''10.0.0.1'') 5000 80 m = Inr (m1, [CbDisconnect 1 1]) \<and>
    OnAccept (str ''10.0.0.1'') 5000 80 m1 = Inr (m2, [CbAccept 1 (str ''10.0.0.1'') 5000 80 1]) \<and>
    UnPack (packager m2) 1 [66, 67] 2 = Inr (pk, [(1, [65, 66, 67])])"
proof -
  have "holds (net_id_to_buffer_map (packager demo_server) 1) []" by (simp add: demo_server_simps holds_def)
  moreover have "parse_stream ([] @ [3, 0, 0, 0, 65]) = Inr ([], [3, 0, 0, 0, 65])"
    by (simp add: parse_stream.simps stream_header_def INT_MAX_def)
  ultimately obtain c where c: "holds (Some c) [3, 0, 0, 0, 65]"
    using UnPack_meets[of "packager demo_server" 1 "[]" "[3, 0, 0, 0, 65]"] by (auto simp: unpack_meets_def)
  define m where "m = demo_server\<lparr>packager := put_cache (packager demo_server) 1 c\<rparr>"
  have p: "parse_stream ([3, 0, 0, 0, 65] @ [66, 67]) = Inr ([[65, 66, 67]], [])"
    by (simp add: parse_stream.simps stream_header_def INT_MAX_def)
  have h: "holds (net_id_to_buffer_map (packager m) 1) [3, 0, 0, 0, 65]" using c by (simp add: m_def)
  have "map_find Endpoint_less \<lparr>remote_ip_addr = str ''10.0.0.1'', remote_port = 5000, local_port = 80\<rparr>
      (endpoint_to_net_id_map m) = Some 1" "accept_list m = [9]" "accepts m 9 = Some demo_connected"
    "\<not> single_thread_handle_mode m" "handler_list m = [1]" "has_net_manager (packager m)"
    by (simp_all add: m_def demo_server_simps demo_peer_def put_cache_def)
  moreover have "SocketAccept_CheckOnHandle (str ''10.0.0.1'') 5000 demo_connected"
    by (simp add: SocketAccept_CheckOnHandle_def demo_connected_def demo_listening_def demo_peer_def)
  ultimately have "\<exists>m1 m2 pk. OnDisconnect (str ''10.0.0.1'') 5000 80 m = Inr (m1, [CbDisconnect 1 1]) \<and>
    OnAccept (str ''10.0.0.1'') 5000 80 m1 = Inr (m2, [CbAccept 1 (str ''10.0.0.1'') 5000 80 1]) \<and>
    UnPack (packager m2) 1 [66, 67] 2 = Inr (pk, [(1, [65, 66, 67])])"
    using reconnect_inherits_partial_message [of m "str ''10.0.0.1''" 5000 80 1 9 demo_connected
        "str ''10.0.0.1''" 5000 "[3, 0, 0, 0, 65]" "[66, 67]"] h p
    by (auto simp: delivered_def ManagerRecv_def)
  with h show ?thesis by blast
qed

section \<open>From sender to receiver\<close>

fun send_all :: "int \<Rightarrow> NetworkID \<Rightarrow> byte list list \<Rightarrow> NetworkManager \<Rightarrow> os_action list res" where
  "send_all r i [] m = Inr []"
| "send_all r i (msg # msgs) m =
     bind_res (Send r i msg (int (length msg)) m) (\<lambda>a1.
     bind_res (send_all r i msgs m) (\<lambda>a2. Inr (a1 @ a2)))"

definition sent_bytes :: "int \<Rightarrow> os_action list \<Rightarrow> byte list" where
  "sent_bytes fd acts = concat (map (\<lambda>a. case a of OsSend s bs \<Rightarrow> if s = fd then bs else [] | _ \<Rightarrow> []) acts)"

text \<open>A connection the manager accepted and can write to.\<close>

definition accepted :: "NetworkManager \<Rightarrow> NetworkID \<Rightarrow> int \<Rightarrow> bool" where
  "accepted m i fd \<longleftrightarrow> has_net_manager (packager m) \<and> net_id_to_connect m i = None \<and>
     (\<exists>e a acc. net_id_to_endpoint_map m i = Some e \<and> net_id_to_accept m i = Some a \<and>
        accepts m a = Some acc \<and> accept_reachable acc \<and> sock_endpoint_map acc fd = Some e)"

lemma Send_accepted:
  assumes "accepted m i fd" and "4 + int (length msg) \<le> INT_MAX"
  shows "Send r i msg (int (length msg)) m = Inr [OsSend fd (frame msg)]"
proof -
  from assms(1) obtain e a acc where
    1: "net_id_to_endpoint_map m i = Some e" "net_id_to_accept m i = Some a" "accepts m a = Some acc"
      "accept_reachable acc" "sock_endpoint_map acc fd = Some e" "has_net_manager (packager m)"
      "net_id_to_connect m i = None" by (auto simp: accepted_def)
  have "length (frame msg) \<noteq> 0" by (simp add: frame_def)
  then have "frame msg \<noteq> []" by simp
  from accept_ok_write[OF accept_reachable_ok[OF 1(4)] 1(5) this] 1 PackAndSend_frame[OF assms(2), of "packager m" i]
  show ?thesis by (simp add: Send_def SendRaw_def ManagerSend_def)
qed

text \<open>A connection the manager opened, and one of either kind.\<close>

definition connected :: "NetworkManager \<Rightarrow> NetworkID \<Rightarrow> int \<Rightarrow> bool" where
  "connected m i fd \<longleftrightarrow> has_net_manager (packager m) \<and> net_id_to_accept m i = None \<and>
     (\<exists>e c con. net_id_to_endpoint_map m i = Some e \<and> net_id_to_connect m i = Some c \<and>
        connects m c = Some con \<and> con_local_sock con = fd)"

definition writable :: "NetworkManager \<Rightarrow> NetworkID \<Rightarrow> int \<Rightarrow> bool" where
  "writable m i fd \<longleftrightarrow> accepted m i fd \<or> connected m i fd"

lemma Send_writable:
  assumes "writable m i fd" and "4 + int (length msg) \<le> INT_MAX"
  shows "Send r i msg (int (length msg)) m = Inr [OsSend fd (frame msg)]"
proof (cases "accepted m i fd")
  case False
  with assms(1) obtain e c con where "net_id_to_endpoint_map m i = Some e" "net_id_to_accept m i = None"
    "net_id_to_connect m i = Some c" "connects m c = Some con" "con_local_sock con = fd" "has_net_manager (packager m)"
    by (auto simp: writable_def connected_def)
  with PackAndSend_frame[OF assms(2), of "packager m" i] show ?thesis
    by (simp add: Send_def SendRaw_def ManagerSend_def SocketConnect_Write_def read_mem_def)
qed (use Send_accepted assms in simp)

lemma writable_packager [simp]:
  "has_net_manager pk = has_net_manager (packager m) \<Longrightarrow> writable (m\<lparr>packager := pk\<rparr>) i fd = writable m i fd"
  by (simp add: writable_def accepted_def connected_def)

text \<open>A connection of which the bytes \<open>p\<close> of an incomplete message have been seen, in direct mode.\<close>

definition receiving_after :: "byte list \<Rightarrow> NetworkManager \<Rightarrow> IPAddr \<Rightarrow> Port \<Rightarrow> Port \<Rightarrow> NetworkID \<Rightarrow> bool" where
  "receiving_after p m ip port lport i \<longleftrightarrow> \<not> single_thread_handle_mode m \<and> has_net_manager (packager m) \<and> 0 < i \<and>
     map_find Endpoint_less \<lparr>remote_ip_addr = ip, remote_port = port, local_port = lport\<rparr> (endpoint_to_net_id_map m) = Some i \<and>
     holds (net_id_to_buffer_map (packager m) i) p"

abbreviation receiving :: "NetworkManager \<Rightarrow> IPAddr \<Rightarrow> Port \<Rightarrow> Port \<Rightarrow> NetworkID \<Rightarrow> bool" where
  "receiving \<equiv> receiving_after []"

lemma send_all_accepted:
  assumes "accepted m i fd" and "\<forall>msg \<in> set msgs. 4 + int (length msg) \<le> INT_MAX"
  shows "send_all r i msgs m = Inr (map (\<lambda>msg. OsSend fd (frame msg)) msgs)"
  using assms(2) by (induction msgs) (simp_all add: Send_accepted[OF assms(1)])

lemma sent_bytes_frames: "sent_bytes fd (map (\<lambda>msg. OsSend fd (frame msg)) msgs) = concat (map frame msgs)"
  by (induction msgs) (simp_all add: sent_bytes_def)

text \<open>Direct mode hands every message on.\<close>

definition recv_calls :: "nat list \<Rightarrow> transfer list \<Rightarrow> callback list" where
  "recv_calls hs ts = concat (map (\<lambda>(i, d). if i \<le> 0 \<or> d = [] then [] else map (\<lambda>h. CbRecv h i d) hs) ts)"

lemma recv_calls_append: "recv_calls hs (as @ bs) = recv_calls hs as @ recv_calls hs bs"
  by (simp add: recv_calls_def)

lemma recv_packages_direct:
  "\<not> single_thread_handle_mode m \<Longrightarrow> recv_packages ts m = Inr (m, recv_calls (handler_list m) ts)"
proof (induction ts)
  case (Cons t ts)
  then show ?case by (cases t) (auto simp: OnRecvPackage_def read_mem_def recv_calls_def)
qed (simp add: recv_calls_def)

lemma handle_pieces_direct:
  assumes "\<not> single_thread_handle_mode m"
    and "map_find Endpoint_less \<lparr>remote_ip_addr = ip, remote_port = port, local_port = lport\<rparr>
      (endpoint_to_net_id_map m) = Some i"
    and "unpack_all (packager m) i chunks = Inr (pk, ts)"
  shows "handle_events (map (EvRecv ip port lport) chunks) m =
    Inr (m\<lparr>packager := pk\<rparr>, recv_calls (handler_list m) ts)"
  using assms
proof (induction chunks arbitrary: m ts)
  case Nil
  then show ?case by (simp add: recv_calls_def)
next
  case (Cons d ds)
  from Cons.prems(3) obtain pk1 t1 t2 where
    1: "UnPack (packager m) i d (int (length d)) = Inr (pk1, t1)" "unpack_all pk1 i ds = Inr (pk, t2)" "ts = t1 @ t2"
    by (auto simp: bind_res_eq_Inr)
  have "OnRecv ip port lport d (int (length d)) m = Inr (m\<lparr>packager := pk1\<rparr>, recv_calls (handler_list m) t1)"
    using Cons.prems(1,2) 1(1) recv_packages_direct[of "m\<lparr>packager := pk1\<rparr>" t1] by (simp add: OnRecv_def)
  moreover have "handle_events (map (EvRecv ip port lport) ds) (m\<lparr>packager := pk1\<rparr>) =
      Inr (m\<lparr>packager := pk\<rparr>, recv_calls (handler_list m) t2)"
    using Cons.IH[of "m\<lparr>packager := pk1\<rparr>" t2] Cons.prems(1,2) 1(2) by simp
  ultimately show ?case using 1(3) by (simp add: recv_calls_def)
qed

lemma recv_calls_delivered:
  assumes "has_net_manager pk" and "0 < i" and "[] \<notin> set msgs"
  shows "recv_calls hs (delivered pk i msgs) = concat (map (\<lambda>msg. map (\<lambda>h. CbRecv h i msg) hs) msgs)"
  using assms(3)
  by (induction msgs) (use assms(1,2) in \<open>auto simp: recv_calls_def ManagerRecv_def\<close>)

lemma frames_handled:
  assumes "\<forall>msg \<in> set msgs. 4 + int (length msg) \<le> INT_MAX" and "msgs \<noteq> []" and "[] \<notin> set msgs"
    and "\<not> single_thread_handle_mode mr" and "has_net_manager (packager mr)"
    and "map_find Endpoint_less \<lparr>remote_ip_addr = ip, remote_port = port, local_port = lport\<rparr>
      (endpoint_to_net_id_map mr) = Some i" and "0 < i"
    and "holds (net_id_to_buffer_map (packager mr) i) []"
    and "concat chunks = concat (map frame msgs)" and "[] \<notin> set chunks"
  shows "\<exists>mr'. handle_events (map (EvRecv ip port lport) chunks) mr =
    Inr (mr', concat (map (\<lambda>msg. map (\<lambda>h. CbRecv h i msg) (handler_list mr)) msgs))"
proof -
  have "last msgs \<noteq> []" using assms(2,3) last_in_set by metis
  then have p: "parse_stream (concat (map frame msgs)) = Inr (msgs, [])"
    using parse_stream_frames[OF assms(1)] by simp
  from unpack_all_meets[OF assms(8,10), of msgs "[]"] p assms(9) obtain pk where
    "unpack_all (packager mr) i chunks = Inr (pk, delivered (packager mr) i msgs)" by auto
  from handle_pieces_direct[OF assms(4,6) this] recv_calls_delivered[OF assms(5,7,3)] show ?thesis by auto
qed

text \<open>
  C4: What is sent arrives: the bytes \<^verbatim>\<open>Send\<close> writes for a sequence of messages to an accepted
  connection, however the network cuts them into pieces, make the receiving manager call every
  handler with exactly those messages, in order.
\<close>

theorem sent_messages_arrive:
  assumes "accepted ms s fd" and "\<forall>msg \<in> set msgs. 4 + int (length msg) \<le> INT_MAX"
    and "msgs \<noteq> []" and "[] \<notin> set msgs"
    and "\<not> single_thread_handle_mode mr" and "has_net_manager (packager mr)"
    and "map_find Endpoint_less \<lparr>remote_ip_addr = ip, remote_port = port, local_port = lport\<rparr>
      (endpoint_to_net_id_map mr) = Some i" and "0 < i"
    and "holds (net_id_to_buffer_map (packager mr) i) []"
  shows "\<exists>acts. send_all r s msgs ms = Inr acts \<and>
    (\<forall>chunks. concat chunks = sent_bytes fd acts \<and> [] \<notin> set chunks \<longrightarrow>
      (\<exists>mr'. handle_events (map (EvRecv ip port lport) chunks) mr =
        Inr (mr', concat (map (\<lambda>msg. map (\<lambda>h. CbRecv h i msg) (handler_list mr)) msgs))))"
  using frames_handled[OF assms(2-9)] send_all_accepted[OF assms(1,2)] sent_bytes_frames by auto

theorem sent_messages_arrive_witness:
  "\<exists>acts. send_all 2 1 [[65, 66], [67]] demo_server = Inr acts \<and>
    (\<exists>mr'. handle_events (map (EvRecv (str ''10.0.0.1'') 5000 80) [[2, 0], [0, 0, 65, 66, 1, 0, 0], [0, 67]]) demo_server =
       Inr (mr', [CbRecv 1 1 [65, 66], CbRecv 1 1 [67]]))"
proof -
  have a: "accepted demo_server 1 7"
    using demo_reachable by (simp add: accepted_def demo_server_simps) (simp add: demo_connected_def)
  have "map_find Endpoint_less \<lparr>remote_ip_addr = str ''10.0.0.1'', remote_port = 5000, local_port = 80\<rparr>
      (endpoint_to_net_id_map demo_server) = Some 1"
    by (simp add: demo_server_simps demo_peer_def)
  from sent_messages_arrive [OF a, of "[[65, 66], [67]]" demo_server "str ''10.0.0.1''" 5000 80 1 2] this
  obtain acts where acts: "send_all 2 1 [[65, 66], [67]] demo_server = Inr acts"
    and rest: "\<forall>chunks. concat chunks = sent_bytes 7 acts \<and> [] \<notin> set chunks \<longrightarrow>
      (\<exists>mr'. handle_events (map (EvRecv (str ''10.0.0.1'') 5000 80) chunks) demo_server =
        Inr (mr', concat (map (\<lambda>msg. map (\<lambda>h. CbRecv h 1 msg) (handler_list demo_server)) [[65, 66], [67]])))"
    by (auto simp: demo_server_simps INT_MAX_def holds_def)
  have "sent_bytes 7 acts = [2, 0, 0, 0, 65, 66, 1, 0, 0, 0, 67]"
    using acts send_all_accepted[OF a, of "[[65, 66], [67]]" 2]
    by (auto simp: INT_MAX_def sent_bytes_def frame_def header_bytes_def)
  with acts rest[rule_format, of "[[2, 0], [0, 0, 65, 66, 1, 0, 0], [0, 67]]"] show ?thesis
    by (simp add: demo_server_simps)
qed

end
