(* ===== verification/SerializeManager.thy ===== *)
theory SerializeManager
  imports SerializeBase NetworkManager
begin

text \<open>
  \<^verbatim>\<open>elegance/memory/serialize/serialize_manager.*\<close>: the network manager that sends and delivers
  message objects. It derives from \<^verbatim>\<open>NetworkManager\<close> and overrides \<^verbatim>\<open>OnRecvPackage\<close>, so the receiving
  side of the base class is stated again with the overriding function in its place. The classes
  of messages are given by a table of virtual functions and a registry.
\<close>

section \<open>State\<close>

record SerializeNetworkManager =
  net_manager :: NetworkManager
  serialize_handler_list :: "nat list"

definition SerializeNetworkManager_new :: "heap \<Rightarrow> SerializeNetworkManager" where
  "SerializeNetworkManager_new h = \<lparr>net_manager = NetworkManager_new h, serialize_handler_list = []\<rparr>"

definition RegistSerializeHandler :: "nat \<Rightarrow> SerializeNetworkManager \<Rightarrow> SerializeNetworkManager" where
  "RegistSerializeHandler handler sm =
     sm\<lparr>net_manager := RegistHandler handler (net_manager sm),
        serialize_handler_list := (if handler \<in> set (serialize_handler_list sm) then serialize_handler_list sm
          else insort handler (serialize_handler_list sm))\<rparr>"

definition UnregistSerializeHandler :: "nat \<Rightarrow> SerializeNetworkManager \<Rightarrow> SerializeNetworkManager" where
  "UnregistSerializeHandler handler sm =
     sm\<lparr>net_manager := UnregistHandler handler (net_manager sm),
        serialize_handler_list := filter (\<lambda>h. h \<noteq> handler) (serialize_handler_list sm)\<rparr>"

section \<open>Sending\<close>

definition SendSerialize ::
  "'m serialize_vt \<Rightarrow> int \<Rightarrow> NetworkID \<Rightarrow> 'm \<Rightarrow> SerializeNetworkManager \<Rightarrow> os_action list res" where
  "SendSerialize vt os_send net_id data sm =
     bind_res (sv_Serialize vt data (QueueByteArray_WriteString (sv_GetTypeName vt data) QueueByteArray_new)) (\<lambda>by1.
       let len = sint (QueueByteArray_BytesAvailable by1) in
       case fst (QueueByteArray_ReadObject (word_of_int len) by1) of
         None \<Rightarrow> Inr []
       | Some char_data \<Rightarrow> Send os_send net_id char_data len (net_manager sm))"

section \<open>Receiving\<close>

text \<open>
  What becomes of a package: nothing is created, or an object is created and left behind without
  being deleted, or it is delivered and deleted. \<open>data\<close> is the package; looking behind it is
  \<open>OutOfBounds\<close>, whatever the receive buffer holds there.
\<close>

datatype 'm serialize_outcome = SerIgnored | SerLeaked 'm | SerDelivered 'm

definition unserialize_package ::
  "'m serialize_vt \<Rightarrow> 'm registry \<Rightarrow> byte list \<Rightarrow> int \<Rightarrow> 'm serialize_outcome res" where
  "unserialize_package vt reg data len =
     bind_res (read_mem data 0 2) (\<lambda>head.
     let s_name_len = sint (of_le_bytes head :: u16) in
     if s_name_len \<le> 0 \<or> SERIALIZE_CLASS_NAME_MAX_LEN \<le> s_name_len then Inr SerIgnored
     else
       bind_res (read_mem data 2 s_name_len) (\<lambda>serialize_name.
       bind_res (c_string (serialize_name @ [0])) (\<lambda>class_name.
       case CreateSerialize reg class_name of
         None \<Rightarrow> Inr SerIgnored
       | Some serialize_data \<Rightarrow>
           let serialize_len = to_int32 (len - 2 - s_name_len) in
           if serialize_len < 0 then Inr (SerLeaked serialize_data)
           else
             bind_res (QueueByteArray_WriteObject (Some (drop (nat (len - serialize_len)) data)) serialize_len
                 QueueByteArray_new) (\<lambda>by1.
             bind_res (sv_Unserialize vt serialize_data by1) (\<lambda>(ob, _). Inr (SerDelivered ob))))))"

datatype 'm serialize_callback = CbNet callback | CbRecvSerialize nat NetworkID 'm

fun outcome_calls :: "nat list \<Rightarrow> NetworkID \<Rightarrow> 'm serialize_outcome \<Rightarrow> 'm serialize_callback list" where
  "outcome_calls hs net_id (SerDelivered ob) = map (\<lambda>h. CbRecvSerialize h net_id ob) hs"
| "outcome_calls hs net_id _ = []"

definition Serialize_OnRecvPackage ::
  "'m serialize_vt \<Rightarrow> 'm registry \<Rightarrow> NetworkID \<Rightarrow> byte list \<Rightarrow> int \<Rightarrow> SerializeNetworkManager \<Rightarrow>
   (SerializeNetworkManager \<times> 'm serialize_callback list) res" where
  "Serialize_OnRecvPackage vt reg net_id data len sm =
     bind_res (OnRecvPackage net_id data len (net_manager sm)) (\<lambda>(m1, cbs).
     bind_res (unserialize_package vt reg data len) (\<lambda>oc.
       Inr (sm\<lparr>net_manager := m1\<rparr>,
         map CbNet cbs @ outcome_calls (serialize_handler_list sm) net_id oc)))"

fun serialize_recv_packages ::
  "'m serialize_vt \<Rightarrow> 'm registry \<Rightarrow> transfer list \<Rightarrow> SerializeNetworkManager \<Rightarrow>
   (SerializeNetworkManager \<times> 'm serialize_callback list) res" where
  "serialize_recv_packages vt reg [] sm = Inr (sm, [])"
| "serialize_recv_packages vt reg ((net_id, data) # ts) sm =
     bind_res (Serialize_OnRecvPackage vt reg net_id data (int (length data)) sm) (\<lambda>(sm1, cbs1).
     bind_res (serialize_recv_packages vt reg ts sm1) (\<lambda>(sm2, cbs2). Inr (sm2, cbs1 @ cbs2)))"

definition Serialize_OnRecv ::
  "'m serialize_vt \<Rightarrow> 'm registry \<Rightarrow> IPAddr \<Rightarrow> Port \<Rightarrow> Port \<Rightarrow> byte list \<Rightarrow> int \<Rightarrow> SerializeNetworkManager \<Rightarrow>
   (SerializeNetworkManager \<times> 'm serialize_callback list) res" where
  "Serialize_OnRecv vt reg ip port lport data len sm =
     (case map_find Endpoint_less \<lparr>remote_ip_addr = ip, remote_port = port, local_port = lport\<rparr>
         (endpoint_to_net_id_map (net_manager sm)) of
        None \<Rightarrow> Inr (sm, [])
      | Some net_id \<Rightarrow>
          bind_res (UnPack (packager (net_manager sm)) net_id data len) (\<lambda>(pk, ts).
            serialize_recv_packages vt reg ts (sm\<lparr>net_manager := (net_manager sm)\<lparr>packager := pk\<rparr>\<rparr>)))"

definition via_net ::
  "(NetworkManager \<Rightarrow> (NetworkManager \<times> callback list) res) \<Rightarrow> SerializeNetworkManager \<Rightarrow>
   (SerializeNetworkManager \<times> 'm serialize_callback list) res" where
  "via_net f sm = bind_res (f (net_manager sm)) (\<lambda>(m1, cbs). Inr (sm\<lparr>net_manager := m1\<rparr>, map CbNet cbs))"

fun serialize_handle_events ::
  "'m serialize_vt \<Rightarrow> 'm registry \<Rightarrow> socket_event list \<Rightarrow> SerializeNetworkManager \<Rightarrow>
   (SerializeNetworkManager \<times> 'm serialize_callback list) res" where
  "serialize_handle_events vt reg [] sm = Inr (sm, [])"
| "serialize_handle_events vt reg (ev # evs) sm =
     bind_res (case ev of
         EvAccept ip port lport \<Rightarrow> via_net (OnAccept ip port lport) sm
       | EvConnect ip port lport \<Rightarrow> via_net (OnConnect ip port lport) sm
       | EvRecv ip port lport data \<Rightarrow> Serialize_OnRecv vt reg ip port lport data (int (length data)) sm
       | EvDisconnect ip port lport \<Rightarrow> via_net (OnDisconnect ip port lport) sm) (\<lambda>(sm1, cbs1).
     bind_res (serialize_handle_events vt reg evs sm1) (\<lambda>(sm2, cbs2). Inr (sm2, cbs1 @ cbs2)))"

section \<open>What is sent and what arrives\<close>

definition package_of :: "std_string \<Rightarrow> byte list \<Rightarrow> byte list" where
  "package_of name bs = le_bytes 2 (of_nat (length name) :: u16) @ name @ bs"

lemma length_package_of [simp]: "length (package_of name bs) = 2 + length name + length bs"
  by (simp add: package_of_def)

lemma package_head:
  assumes "name \<noteq> []" and "length name < 256"
  shows "sint (of_le_bytes (le_bytes 2 (of_nat (length name) :: u16)) :: u16) = int (length name)"
proof -
  have "sint (of_nat (length name) :: u16) = int (length name)"
    using assms(2) sint_word_of_int[of "int (length name)", where 'a=16] by simp
  then show ?thesis by (simp add: of_le_bytes_le_bytes del: le_bytes_numeral)
qed

lemma WriteObject_all:
  "QueueByteArray_WriteObject (Some bs) (int (length bs)) q = Inr (q\<lparr>bytes_queue := bytes_queue q @ bs\<rparr>)"
  by (simp add: QueueByteArray_WriteObject_def read_mem_def)

fun send_messages ::
  "'m serialize_vt \<Rightarrow> int \<Rightarrow> NetworkID \<Rightarrow> 'm list \<Rightarrow> SerializeNetworkManager \<Rightarrow> os_action list res" where
  "send_messages vt r i [] sm = Inr []"
| "send_messages vt r i (m # ms) sm =
     bind_res (SendSerialize vt r i m sm) (\<lambda>a1.
     bind_res (send_messages vt r i ms sm) (\<lambda>a2. Inr (a1 @ a2)))"

text \<open>The calls received messages make: the raw package to every handler, the object to the typed ones.\<close>

definition message_calls ::
  "('m \<Rightarrow> byte list) \<Rightarrow> SerializeNetworkManager \<Rightarrow> NetworkID \<Rightarrow> 'm list \<Rightarrow> 'm serialize_callback list" where
  "message_calls pkg sm i ms = concat (map (\<lambda>m.
     map (\<lambda>h. CbNet (CbRecv h i (pkg m))) (handler_list (net_manager sm)) @
     map (\<lambda>h. CbRecvSerialize h i m) (serialize_handler_list sm)) ms)"

lemma message_calls_append:
  "message_calls pkg sm i (ms @ ns) = message_calls pkg sm i ms @ message_calls pkg sm i ns"
  by (simp add: message_calls_def)

text \<open>The calls of the typed handlers alone.\<close>

definition typed_calls :: "SerializeNetworkManager \<Rightarrow> NetworkID \<Rightarrow> 'm list \<Rightarrow> 'm serialize_callback list" where
  "typed_calls sm i ms = concat (map (\<lambda>m. map (\<lambda>h. CbRecvSerialize h i m) (serialize_handler_list sm)) ms)"

text \<open>
  What receiving in single thread mode leaves: the raw packages are at the end of the queue, the
  connections and handlers are the same.
\<close>

definition queued_raw :: "SerializeNetworkManager \<Rightarrow> NetworkManager \<Rightarrow> SerializeNetworkManager \<Rightarrow> bool" where
  "queued_raw sm m sm' \<longleftrightarrow> single_thread_handle_mode (net_manager sm') \<and> queue_ok (net_manager sm') \<and>
     serialize_handler_list sm' = serialize_handler_list sm \<and> core (net_manager sm') = core m \<and>
     (\<exists>ts. queued (net_manager sm') = queued (net_manager sm) @ ts \<and> (\<forall>t \<in> set ts. task_type t = ON_RECV))"

lemma queued_raw_trans:
  assumes "queued_raw sm m1 sm1" and "queued_raw sm1 m2 sm2" shows "queued_raw sm m2 sm2"
proof -
  from assms obtain ts us where "queued (net_manager sm2) = queued (net_manager sm) @ ts @ us"
    "\<forall>t \<in> set (ts @ us). task_type t = ON_RECV" unfolding queued_raw_def by fastforce
  with assms show ?thesis by (auto simp: queued_raw_def)
qed

context serialize_classes
begin

abbreviation package :: "'m \<Rightarrow> byte list" where
  "package m \<equiv> package_of (sv_GetTypeName vt m) (payload m)"

lemma unserialize_own_package:
  assumes "ok m" and "int (length (package m)) \<le> INT_MAX"
  shows "unserialize_package vt reg (package m) (int (length (package m))) = Inr (SerDelivered m)"
proof -
  let ?n = "sv_GetTypeName vt m"
  note N = name_ok[OF assms(1)]
  from registered[OF assms(1)] obtain b where b: "CreateSerialize reg ?n = Some b" by auto
  have c: "c_string (?n @ [0]) = Inr ?n" using N c_string_append[of ?n "[]"] by simp
  have l: "to_int32 (int (length (package m)) - 2 - int (length ?n)) = int (length (payload m))"
    using assms(2) by (simp add: to_int32_id INT_MAX_def INT_MIN_def)
  have d: "drop (nat (int (length (package m)) - int (length (payload m)))) (package m) = payload m"
    by (simp add: package_of_def nat_add_distrib)
  have q: "cur_endian (QueueByteArray_new\<lparr>bytes_queue := payload m\<rparr>) = FW_LITTLE_ENDIAN"
    by (simp add: QueueByteArray_new_def)
  from reads[OF assms(1) b q] show ?thesis
    using N b c l d package_head[of ?n] WriteObject_all[of "payload m" QueueByteArray_new]
    by (auto simp: unserialize_package_def read_mem_def package_of_def SERIALIZE_CLASS_NAME_MAX_LEN_def Let_def
        QueueByteArray_new_def simp del: le_bytes_numeral)
qed

lemma SendSerialize_package:
  assumes "ok m" and "4 + int (length (package m)) \<le> INT_MAX"
  shows "SendSerialize vt r i m sm = Send r i (package m) (int (length (package m))) (net_manager sm)"
proof -
  let ?n = "sv_GetTypeName vt m"
  note N = name_ok[OF assms(1)]
  have w: "QueueByteArray_WriteString ?n QueueByteArray_new =
      QueueByteArray_new\<lparr>bytes_queue := le_bytes 2 (of_nat (length ?n) :: u16) @ ?n\<rparr>"
    using N WriteString_eq[of ?n QueueByteArray_new]
    by (simp add: USHRT_MAX_def QueueByteArray_new_def q_enc16_le del: le_bytes_numeral)
  have "cur_endian (QueueByteArray_WriteString ?n QueueByteArray_new) = FW_LITTLE_ENDIAN"
    unfolding w by (simp add: QueueByteArray_new_def)
  from writes[OF assms(1) this] w obtain q where
    q: "sv_Serialize vt m (QueueByteArray_WriteString ?n QueueByteArray_new) = Inr q" "bytes_queue q = package m"
    by (auto simp: package_of_def)
  define k where "k = length (package m)"
  have k: "int k \<le> INT_MAX" "0 < k" using assms(2) by (auto simp: k_def)
  have l: "sint (QueueByteArray_BytesAvailable q) = int k"
    using k sint_word_of_int[of "int k", where 'a=32]
    by (simp add: QueueByteArray_BytesAvailable_def q(2) INT_MAX_def del: length_package_of flip: k_def)
  have u: "unat (word_of_int (int k) :: u32) = k" using k(1) by (simp add: unat_of_nat INT_MAX_def)
  have z: "(word_of_int (int k) :: u32) \<noteq> 0" using u k(2) by auto
  have "fst (QueueByteArray_ReadObject (word_of_int (int k)) q) = Some (package m)"
    using u z by (simp add: QueueByteArray_ReadObject_def q(2) pop_front_loop_eq Let_def del: length_package_of flip: k_def)
  moreover have "QueueByteArray_BytesAvailable q = of_nat k"
    by (simp add: QueueByteArray_BytesAvailable_def q(2) k_def del: length_package_of)
  ultimately show ?thesis
    using q(1) l
    by (simp add: SendSerialize_def Let_def del: length_package_of flip: k_def)
qed

lemma serialize_recv_own:
  assumes "\<not> single_thread_handle_mode (net_manager sm)" and "0 < i"
    and "\<forall>m \<in> set ms. ok m \<and> int (length (package m)) \<le> INT_MAX"
  shows "serialize_recv_packages vt reg (map (\<lambda>m. (i, package m)) ms) sm = Inr (sm, message_calls package sm i ms)"
  using assms(3)
proof (induction ms)
  case (Cons m ms)
  have "OnRecvPackage i (package m) (int (length (package m))) (net_manager sm) =
      Inr (net_manager sm, map (\<lambda>h. CbRecv h i (package m)) (handler_list (net_manager sm)))"
    using assms(1,2) by (simp add: OnRecvPackage_def read_mem_def)
  with Cons unserialize_own_package[of m] show ?case
    by (simp add: Serialize_OnRecvPackage_def message_calls_def del: length_package_of)
qed (simp add: message_calls_def)

lemma serialize_handle_pieces:
  assumes "\<not> single_thread_handle_mode (net_manager sm)" and "0 < i"
    and "map_find Endpoint_less \<lparr>remote_ip_addr = ip, remote_port = port, local_port = lport\<rparr>
      (endpoint_to_net_id_map (net_manager sm)) = Some i"
    and "unpack_all (packager (net_manager sm)) i chunks = Inr (pk, map (\<lambda>m. (i, package m)) ms)"
    and "\<forall>m \<in> set ms. ok m \<and> int (length (package m)) \<le> INT_MAX"
  shows "serialize_handle_events vt reg (map (EvRecv ip port lport) chunks) sm =
    Inr (sm\<lparr>net_manager := (net_manager sm)\<lparr>packager := pk\<rparr>\<rparr>, message_calls package sm i ms)"
  using assms
proof (induction chunks arbitrary: sm ms)
  case Nil
  then show ?case by (simp add: message_calls_def)
next
  case (Cons d ds)
  from Cons.prems(4) obtain pk1 t1 t2 where
    1: "UnPack (packager (net_manager sm)) i d (int (length d)) = Inr (pk1, t1)"
      "unpack_all pk1 i ds = Inr (pk, t2)" "map (\<lambda>m. (i, package m)) ms = t1 @ t2"
    by (auto simp: bind_res_eq_Inr)
  from 1(3) obtain ms1 ms2 where 2: "ms = ms1 @ ms2" "t1 = map (\<lambda>m. (i, package m)) ms1"
    "t2 = map (\<lambda>m. (i, package m)) ms2" by (auto simp: map_eq_append_conv)
  define sm1 where "sm1 = sm\<lparr>net_manager := (net_manager sm)\<lparr>packager := pk1\<rparr>\<rparr>"
  have c: "message_calls package sm1 i = message_calls package sm i" by (simp add: fun_eq_iff sm1_def message_calls_def)
  have "Serialize_OnRecv vt reg ip port lport d (int (length d)) sm = Inr (sm1, message_calls package sm i ms1)"
    using Cons.prems(1-3,5) 1(1) serialize_recv_own[of sm1 i ms1] 2
    by (simp add: Serialize_OnRecv_def c del: length_package_of flip: sm1_def) (simp add: sm1_def)
  moreover have "serialize_handle_events vt reg (map (EvRecv ip port lport) ds) sm1 =
      Inr (sm1\<lparr>net_manager := (net_manager sm1)\<lparr>packager := pk\<rparr>\<rparr>, message_calls package sm1 i ms2)"
    by (rule Cons.IH) (use Cons.prems 1(2) 2 in \<open>auto simp: sm1_def\<close>)
  ultimately show ?case using 2(1) by (auto simp: c message_calls_append) (simp add: sm1_def)
qed

lemma send_messages_packages:
  assumes "accepted (net_manager sm) i fd"
    and "\<forall>m \<in> set ms. ok m \<and> 4 + int (length (package m)) \<le> INT_MAX"
  shows "send_messages vt r i ms sm = Inr (map (\<lambda>msg. OsSend fd (frame msg)) (map package ms))"
  using assms(2) by (induction ms) (simp_all add: SendSerialize_package Send_accepted[OF assms(1)] del: length_package_of)

lemma delivered_packages:
  "has_net_manager pk \<Longrightarrow> delivered pk i (map package ms) = map (\<lambda>m. (i, package m)) ms"
  by (induction ms) (simp_all add: ManagerRecv_def)

text \<open>
  Messages that arrive in pieces on a connection in direct mode: the handlers are called, and the
  connection is as before, ready for the next ones.
\<close>

lemma messages_handled:
  assumes ms: "\<forall>m \<in> set ms. ok m \<and> 4 + int (length (package m)) \<le> INT_MAX" "ms \<noteq> []"
    and r: "receiving (net_manager smr) ip port lport i"
    and c: "concat chunks = concat (map frame (map package ms))" and n: "[] \<notin> set chunks"
  obtains pk where "serialize_handle_events vt reg (map (EvRecv ip port lport) chunks) smr =
      Inr (smr\<lparr>net_manager := (net_manager smr)\<lparr>packager := pk\<rparr>\<rparr>, message_calls package smr i ms)"
    "receiving ((net_manager smr)\<lparr>packager := pk\<rparr>) ip port lport i" "has_net_manager pk = has_net_manager (packager (net_manager smr))"
proof -
  let ?pk = "packager (net_manager smr)"
  note r = r[unfolded receiving_after_def]
  have "last (map package ms) \<noteq> []" using ms(2) by (simp add: last_map package_of_def)
  then have p: "parse_stream (concat (map frame (map package ms))) = Inr (map package ms, [])"
    using parse_stream_frames[of "map package ms"] ms(1) by simp
  from unpack_all_meets[of ?pk i "[]" chunks "map package ms" "[]"] p c n r obtain pk where
    u: "unpack_all ?pk i chunks = Inr (pk, delivered ?pk i (map package ms))"
      "holds (net_id_to_buffer_map pk i) []" "has_net_manager pk = has_net_manager ?pk" by auto
  have d: "delivered ?pk i (map package ms) = map (\<lambda>m. (i, package m)) ms" using delivered_packages r by simp
  have "serialize_handle_events vt reg (map (EvRecv ip port lport) chunks) smr =
      Inr (smr\<lparr>net_manager := (net_manager smr)\<lparr>packager := pk\<rparr>\<rparr>, message_calls package smr i ms)"
    by (rule serialize_handle_pieces[OF _ _ _ u(1)[unfolded d]]) (use ms(1) r in auto)
  then show thesis by (rule that) (use u r in \<open>simp_all add: receiving_after_def\<close>)
qed

text \<open>The same in single thread mode: the typed handlers are called at once.\<close>

lemma serialize_recv_own_queued:
  assumes "single_thread_handle_mode (net_manager sm)" and "queue_ok (net_manager sm)" and "0 < i"
    and "\<forall>m \<in> set ms. ok m \<and> length (package m) \<le> 4096"
  shows "\<exists>sm'. serialize_recv_packages vt reg (map (\<lambda>m. (i, package m)) ms) sm = Inr (sm', typed_calls sm i ms) \<and>
    queued_raw sm (net_manager sm) sm'"
  using assms
proof (induction ms arbitrary: sm)
  case Nil
  then show ?case by (auto simp: typed_calls_def queued_raw_def)
next
  case (Cons m ms)
  have "package m \<noteq> []" "length (package m) \<le> 4096" using Cons.prems(4) by (simp_all add: package_of_def del: le_bytes_numeral) (metis length_le_bytes list.size(3) zero_neq_numeral)
  with OnRecvPackage_queued[OF Cons.prems(1-3)] obtain m1 t where
    1: "OnRecvPackage i (package m) (int (length (package m))) (net_manager sm) = Inr (m1, [])" "queue_ok m1"
      "queued m1 = queued (net_manager sm) @ [t]" "task_type t = ON_RECV" "core m1 = core (net_manager sm)" "single_thread_handle_mode m1"
    by blast
  have "int (length (package m)) \<le> INT_MAX" using \<open>length (package m) \<le> 4096\<close> by (simp add: INT_MAX_def del: length_package_of)
  then have 2: "Serialize_OnRecvPackage vt reg i (package m) (int (length (package m))) sm =
      Inr (sm\<lparr>net_manager := m1\<rparr>, map (\<lambda>h. CbRecvSerialize h i m) (serialize_handler_list sm))"
    using 1(1) unserialize_own_package[of m] Cons.prems(4) by (simp add: Serialize_OnRecvPackage_def del: length_package_of)
  have q: "queued_raw sm (net_manager sm) (sm\<lparr>net_manager := m1\<rparr>)" using 1 by (auto simp: queued_raw_def)
  from Cons.IH[of "sm\<lparr>net_manager := m1\<rparr>"] 1 Cons.prems(3,4) obtain sm' where
    "serialize_recv_packages vt reg (map (\<lambda>m. (i, package m)) ms) (sm\<lparr>net_manager := m1\<rparr>) = Inr (sm', typed_calls sm i ms)"
    "queued_raw (sm\<lparr>net_manager := m1\<rparr>) m1 sm'" by (auto simp: typed_calls_def)
  with 2 queued_raw_trans[OF q] 1(5) show ?case
    by (simp add: typed_calls_def del: length_package_of) (auto simp: queued_raw_def)
qed

lemma serialize_handle_pieces_queued:
  assumes "single_thread_handle_mode (net_manager sm)" and "queue_ok (net_manager sm)" and "0 < i"
    and "map_find Endpoint_less \<lparr>remote_ip_addr = ip, remote_port = port, local_port = lport\<rparr>
      (endpoint_to_net_id_map (net_manager sm)) = Some i"
    and "unpack_all (packager (net_manager sm)) i chunks = Inr (pk, map (\<lambda>m. (i, package m)) ms)"
    and "\<forall>m \<in> set ms. ok m \<and> length (package m) \<le> 4096"
  shows "\<exists>sm'. serialize_handle_events vt reg (map (EvRecv ip port lport) chunks) sm = Inr (sm', typed_calls sm i ms) \<and>
    queued_raw sm ((net_manager sm)\<lparr>packager := pk\<rparr>) sm'"
  using assms
proof (induction chunks arbitrary: sm ms)
  case Nil
  then show ?case by (auto simp: typed_calls_def queued_raw_def)
next
  case (Cons d ds)
  from Cons.prems(5) obtain pk1 t1 t2 where
    1: "UnPack (packager (net_manager sm)) i d (int (length d)) = Inr (pk1, t1)"
      "unpack_all pk1 i ds = Inr (pk, t2)" "map (\<lambda>m. (i, package m)) ms = t1 @ t2"
    by (auto simp: bind_res_eq_Inr)
  from 1(3) obtain ms1 ms2 where 2: "ms = ms1 @ ms2" "t1 = map (\<lambda>m. (i, package m)) ms1"
    "t2 = map (\<lambda>m. (i, package m)) ms2" by (auto simp: map_eq_append_conv)
  define sm1 where "sm1 = sm\<lparr>net_manager := (net_manager sm)\<lparr>packager := pk1\<rparr>\<rparr>"
  have q1: "queue_ok (net_manager sm1)" "queued (net_manager sm1) = queued (net_manager sm)"
    using Cons.prems(2) by (simp_all add: sm1_def queue_ok_def queued_def)
  obtain sm2 where r: "serialize_recv_packages vt reg t1 sm1 = Inr (sm2, typed_calls sm i ms1)" "queued_raw sm1 (net_manager sm1) sm2"
    using serialize_recv_own_queued[of sm1 i ms1] Cons.prems(1,3,6) q1(1) 2 by (auto simp: sm1_def typed_calls_def)
  have c2: "core (net_manager sm2) = (core (net_manager sm))\<lparr>packager := pk1\<rparr>" using r(2) by (simp add: queued_raw_def sm1_def)
  have f2: "endpoint_to_net_id_map (net_manager sm2) = endpoint_to_net_id_map (net_manager sm)" "packager (net_manager sm2) = pk1"
    using arg_cong[OF c2, of endpoint_to_net_id_map] arg_cong[OF c2, of packager] by simp_all
  have s2: "single_thread_handle_mode (net_manager sm2)" "queue_ok (net_manager sm2)" "serialize_handler_list sm2 = serialize_handler_list sm"
    using r(2) by (auto simp: queued_raw_def sm1_def)
  have "queued_raw sm (net_manager sm2) sm2" using r(2) q1(2) by (simp add: queued_raw_def sm1_def)
  moreover obtain sm' where "serialize_handle_events vt reg (map (EvRecv ip port lport) ds) sm2 = Inr (sm', typed_calls sm i ms2)"
    "queued_raw sm2 ((net_manager sm2)\<lparr>packager := pk\<rparr>) sm'"
    using Cons.IH[of sm2 ms2] Cons.prems(3,4,6) 1(2) 2 s2 f2 by (auto simp: typed_calls_def)
  moreover have "core ((net_manager sm2)\<lparr>packager := pk\<rparr>) = core ((net_manager sm)\<lparr>packager := pk\<rparr>)" by (simp add: c2)
  moreover have "Serialize_OnRecv vt reg ip port lport d (int (length d)) sm = Inr (sm2, typed_calls sm i ms1)"
    using Cons.prems(4) 1(1) r(1) by (simp add: Serialize_OnRecv_def sm1_def)
  ultimately show ?case using queued_raw_trans[of sm _ sm2 _ sm'] 2(1)
    by (auto simp: typed_calls_def queued_raw_def)
qed

lemma messages_handled_queued:
  assumes ms: "\<forall>m \<in> set ms. ok m \<and> length (package m) \<le> 4096" "ms \<noteq> []"
    and r: "receiving (core (net_manager smr)) ip port lport i" "single_thread_handle_mode (net_manager smr)" "queue_ok (net_manager smr)"
    and c: "concat chunks = concat (map frame (map package ms))" and n: "[] \<notin> set chunks"
  obtains pk smr' where "serialize_handle_events vt reg (map (EvRecv ip port lport) chunks) smr = Inr (smr', typed_calls smr i ms)"
    "queued_raw smr ((net_manager smr)\<lparr>packager := pk\<rparr>) smr'"
    "receiving (core (net_manager smr')) ip port lport i" "has_net_manager pk = has_net_manager (packager (net_manager smr))"
proof -
  let ?pk = "packager (net_manager smr)"
  note r = r[unfolded receiving_after_def]
  have "last (map package ms) \<noteq> []" using ms(2) by (simp add: last_map package_of_def)
  moreover have "4 + int (length (package m)) \<le> INT_MAX" if "m \<in> set ms" for m
    using ms(1) that by (auto simp: INT_MAX_def simp del: length_package_of)
  ultimately have p: "parse_stream (concat (map frame (map package ms))) = Inr (map package ms, [])"
    using parse_stream_frames[of "map package ms"] by simp
  from unpack_all_meets[of ?pk i "[]" chunks "map package ms" "[]"] p c n r obtain pk where
    u: "unpack_all ?pk i chunks = Inr (pk, delivered ?pk i (map package ms))"
      "holds (net_id_to_buffer_map pk i) []" "has_net_manager pk = has_net_manager ?pk" by auto
  have d: "delivered ?pk i (map package ms) = map (\<lambda>m. (i, package m)) ms" using delivered_packages r by simp
  obtain smr' where s: "serialize_handle_events vt reg (map (EvRecv ip port lport) chunks) smr = Inr (smr', typed_calls smr i ms)"
    "queued_raw smr ((net_manager smr)\<lparr>packager := pk\<rparr>) smr'"
    using serialize_handle_pieces_queued[OF _ _ _ _ u(1)[unfolded d], of ip port lport] ms(1) r by auto
  from s(2) have "core (net_manager smr') = (core (net_manager smr))\<lparr>packager := pk\<rparr>" by (simp add: queued_raw_def)
  then have "receiving (core (net_manager smr')) ip port lport i" using r u by (simp add: receiving_after_def)
  with s u(3) that show thesis by blast
qed

theorem messages_arrive:
  assumes "accepted (net_manager sms) s fd"
    and ms: "\<forall>m \<in> set ms. ok m \<and> 4 + int (length (package m)) \<le> INT_MAX" "ms \<noteq> []"
    and r: "\<not> single_thread_handle_mode (net_manager smr)" "has_net_manager (packager (net_manager smr))"
    and e: "map_find Endpoint_less \<lparr>remote_ip_addr = ip, remote_port = port, local_port = lport\<rparr>
      (endpoint_to_net_id_map (net_manager smr)) = Some i" "0 < i"
    and h: "holds (net_id_to_buffer_map (packager (net_manager smr)) i) []"
  shows "\<exists>acts. send_messages vt os s ms sms = Inr acts \<and>
    (\<forall>chunks. concat chunks = sent_bytes fd acts \<and> [] \<notin> set chunks \<longrightarrow>
      (\<exists>smr'. serialize_handle_events vt reg (map (EvRecv ip port lport) chunks) smr =
        Inr (smr', message_calls package smr i ms)))"
proof -
  have "receiving (net_manager smr) ip port lport i" using r e h by (simp add: receiving_after_def)
  then have "\<exists>smr'. serialize_handle_events vt reg (map (EvRecv ip port lport) chunks) smr =
        Inr (smr', message_calls package smr i ms)"
    if "concat chunks = concat (map frame (map package ms))" and "[] \<notin> set chunks" for chunks
    by (rule messages_handled[OF ms _ that]) (rule exI)
  then show ?thesis using send_messages_packages[OF assms(1) ms(1)] sent_bytes_frames[of fd "map package ms"] by auto
qed

end

section \<open>Packages that are not what they say\<close>

text \<open>The length field and the name it announces lie inside the package.\<close>

definition package_header_ok :: "byte list \<Rightarrow> bool" where
  "package_header_ok data \<longleftrightarrow> 2 \<le> length data \<and>
     (let n = sint (of_le_bytes (take 2 data) :: u16) in
      0 < n \<and> n < SERIALIZE_CLASS_NAME_MAX_LEN \<longrightarrow> 2 + n \<le> int (length data))"

lemma c_string_terminated [simp]: "c_string (s @ [0]) = Inr (takeWhile (\<lambda>b. b \<noteq> 0) (s @ [0]))"
  by (simp add: c_string_def)

lemma unserialize_package_defined_iff:
  assumes "\<And>b q. \<exists>ob q'. sv_Unserialize vt b q = Inr (ob, q')" and "int (length data) \<le> INT_MAX"
  shows "is_ok (unserialize_package vt reg data (int (length data))) \<longleftrightarrow> package_header_ok data"
proof (cases "package_header_ok data")
  case True
  define n where "n = sint (of_le_bytes (take 2 data) :: u16)"
  from True have l: "2 \<le> length data" "0 < n \<and> n < SERIALIZE_CLASS_NAME_MAX_LEN \<longrightarrow> 2 + n \<le> int (length data)"
    by (auto simp: package_header_ok_def n_def Let_def)
  have r: "read_mem data 0 2 = Inr (take 2 data)" using l(1) by (simp add: read_mem_def)
  show ?thesis
  proof (cases "n \<le> 0 \<or> SERIALIZE_CLASS_NAME_MAX_LEN \<le> n")
    case True
    then show ?thesis using r \<open>package_header_ok data\<close>
      by (auto simp: unserialize_package_def is_ok_def Let_def simp flip: n_def)
  next
    case False
    with l(2) have n: "0 < n" "2 + n \<le> int (length data)" by auto
    have t: "to_int32 (int (length data) - 2 - n) = int (length data) - 2 - n"
      using n assms(2) by (simp add: INT_MAX_def INT_MIN_def)
    have w: "\<exists>q. QueueByteArray_WriteObject (Some (drop (nat (2 + n)) data)) (int (length data) - 2 - n) QueueByteArray_new = Inr q"
      using n by (auto simp: QueueByteArray_WriteObject_def read_mem_def)
    have "nat (int (length data) - (int (length data) - 2 - n)) = nat (2 + n)" by simp
    with False r n t w assms(1) show ?thesis using \<open>package_header_ok data\<close>
      by (auto simp: unserialize_package_def is_ok_def Let_def read_mem_def split: option.splits simp flip: n_def)
        (metis (no_types, lifting) bind_res_Inr case_prod_conv old.sum.simps(6))
  qed
next
  case False
  then show ?thesis
    by (auto simp: unserialize_package_def package_header_ok_def is_ok_def Let_def read_mem_def not_le)
qed

end
