(* ===== verification/StaticByteArray.thy ===== *)
theory StaticByteArray
  imports ByteArray
begin

text \<open>
  \<^verbatim>\<open>StaticByteArray\<close> (\<^verbatim>\<open>elegance/memory/byte_array/static_byte_array.hpp\<close> and \<^verbatim>\<open>.cpp\<close>): a buffer of
  fixed size with a read and a write position, which only \<^verbatim>\<open>Clear\<close> resets. Numbers are stored
  as their memory image, so the byte order set with \<^verbatim>\<open>SetEndian\<close> is not used. Every access to
  the buffer is checked in the model; the theorems show that the checks of the code make them
  all succeed, that every operation keeps the positions in order, and that the class meets the
  contract of \<^verbatim>\<open>ByteArray\<close> for strings without a NUL byte.
\<close>

section \<open>State\<close>

definition MAX_MSG_LENGTH :: int where "MAX_MSG_LENGTH = 1024 * 256"
definition STRING_LENGTH_BYTE_SIZE :: int where "STRING_LENGTH_BYTE_SIZE = 2"

record StaticByteArray =
  buffer_cache :: "byte list"
  has_read_length :: int
  has_write_length :: int
  static_endian :: Endian

definition StaticByteArray_new :: StaticByteArray where
  "StaticByteArray_new = \<lparr>buffer_cache = replicate (nat MAX_MSG_LENGTH) 0, has_read_length = 0,
     has_write_length = 0, static_endian = FW_LITTLE_ENDIAN\<rparr>"

definition StaticByteArray_BytesAvailable :: "StaticByteArray \<Rightarrow> u32" where
  "StaticByteArray_BytesAvailable s = word_of_int (has_write_length s - has_read_length s)"

definition StaticByteArray_Clear :: "StaticByteArray \<Rightarrow> StaticByteArray" where
  "StaticByteArray_Clear s = s\<lparr>buffer_cache := replicate (nat MAX_MSG_LENGTH) 0,
     has_read_length := 0, has_write_length := 0\<rparr>"

section \<open>Reading\<close>

definition ReadItemFromBuffer :: "int \<Rightarrow> StaticByteArray \<Rightarrow> (byte list \<times> StaticByteArray) res" where
  "ReadItemFromBuffer size_T s =
     bind_res (read_mem (buffer_cache s) (has_read_length s) size_T)
       (\<lambda>bs. Inr (bs, s\<lparr>has_read_length := has_read_length s + size_T\<rparr>))"

definition READNUM :: "int \<Rightarrow> StaticByteArray \<Rightarrow> ('a::len word \<times> StaticByteArray) res" where
  "READNUM size_T s =
     (if has_write_length s < has_read_length s + size_T then Inr (0, s)
      else bind_res (ReadItemFromBuffer size_T s) (\<lambda>(bs, s'). Inr (of_le_bytes bs, s')))"

definition as_signed :: "('a::len word \<times> StaticByteArray) res \<Rightarrow> (int \<times> StaticByteArray) res" where
  "as_signed r = bind_res r (\<lambda>(w, s). Inr (sint w, s))"

definition StaticByteArray_ReadInt8 :: "StaticByteArray \<Rightarrow> (int \<times> StaticByteArray) res" where
  "StaticByteArray_ReadInt8 s = as_signed (READNUM 1 s :: (byte \<times> StaticByteArray) res)"

definition StaticByteArray_ReadUint8 :: "StaticByteArray \<Rightarrow> (byte \<times> StaticByteArray) res" where
  "StaticByteArray_ReadUint8 s = READNUM 1 s"

definition StaticByteArray_ReadInt16 :: "StaticByteArray \<Rightarrow> (int \<times> StaticByteArray) res" where
  "StaticByteArray_ReadInt16 s = as_signed (READNUM 2 s :: (u16 \<times> StaticByteArray) res)"

definition StaticByteArray_ReadUint16 :: "StaticByteArray \<Rightarrow> (u16 \<times> StaticByteArray) res" where
  "StaticByteArray_ReadUint16 s = READNUM 2 s"

definition StaticByteArray_ReadInt32 :: "StaticByteArray \<Rightarrow> (int \<times> StaticByteArray) res" where
  "StaticByteArray_ReadInt32 s = as_signed (READNUM 4 s :: (u32 \<times> StaticByteArray) res)"

definition StaticByteArray_ReadUint32 :: "StaticByteArray \<Rightarrow> (u32 \<times> StaticByteArray) res" where
  "StaticByteArray_ReadUint32 s = READNUM 4 s"

definition StaticByteArray_ReadFloat :: "StaticByteArray \<Rightarrow> (u32 \<times> StaticByteArray) res" where
  "StaticByteArray_ReadFloat s = READNUM 4 s"

definition StaticByteArray_ReadInt64 :: "StaticByteArray \<Rightarrow> (int \<times> StaticByteArray) res" where
  "StaticByteArray_ReadInt64 s = as_signed (READNUM 8 s :: (u64 \<times> StaticByteArray) res)"

definition StaticByteArray_ReadUint64 :: "StaticByteArray \<Rightarrow> (u64 \<times> StaticByteArray) res" where
  "StaticByteArray_ReadUint64 s = READNUM 8 s"

definition StaticByteArray_ReadDouble :: "StaticByteArray \<Rightarrow> (u64 \<times> StaticByteArray) res" where
  "StaticByteArray_ReadDouble s = READNUM 8 s"

text \<open>
  \<^verbatim>\<open>ReadString\<close> copies the characters to a static array, ends them with a NUL and makes a
  \<^verbatim>\<open>std::string\<close> of that array. The static array is longer than any string length, and what it
  held before is overwritten up to the NUL.
\<close>

definition StaticByteArray_ReadString :: "StaticByteArray \<Rightarrow> (std_string \<times> StaticByteArray) res" where
  "StaticByteArray_ReadString s =
     (let valid_buffer_len = has_write_length s - has_read_length s
      in if valid_buffer_len < STRING_LENGTH_BYTE_SIZE then Inr ([], s)
         else bind_res (StaticByteArray_ReadUint16 s) (\<lambda>(str_len, s1).
           if valid_buffer_len - STRING_LENGTH_BYTE_SIZE < uint str_len then Inr ([], s1)
           else bind_res (read_mem (buffer_cache s1) (has_read_length s1) (uint str_len)) (\<lambda>bs.
             bind_res (c_string (bs @ [0])) (\<lambda>result.
               Inr (result, s1\<lparr>has_read_length := has_read_length s1 + uint str_len\<rparr>)))))"

definition StaticByteArray_ReadObject ::
  "u32 \<Rightarrow> StaticByteArray \<Rightarrow> (byte list option \<times> StaticByteArray) res" where
  "StaticByteArray_ReadObject sz s =
     (let valid_buffer_len = (word_of_int (has_write_length s - has_read_length s) :: u32)
      in if sz = 0 \<or> valid_buffer_len < sz then Inr (None, s)
         else bind_res (read_mem (buffer_cache s) (has_read_length s) (uint sz)) (\<lambda>data.
           Inr (Some data, s\<lparr>has_read_length := has_read_length s + uint sz\<rparr>)))"

section \<open>Writing\<close>

definition WriteItemToBuffer :: "byte list \<Rightarrow> StaticByteArray \<Rightarrow> StaticByteArray res" where
  "WriteItemToBuffer src s =
     bind_res (memcpy (buffer_cache s) (has_write_length s) src (int (length src))) (\<lambda>buf.
       Inr (s\<lparr>buffer_cache := buf, has_write_length := has_write_length s + int (length src)\<rparr>))"

definition WRITENUM :: "nat \<Rightarrow> 'a::len word \<Rightarrow> StaticByteArray \<Rightarrow> StaticByteArray res" where
  "WRITENUM size_T v s =
     (if MAX_MSG_LENGTH < has_write_length s + int size_T then Inr s
      else WriteItemToBuffer (le_bytes size_T v) s)"

definition StaticByteArray_WriteInt8 :: "int \<Rightarrow> StaticByteArray \<Rightarrow> StaticByteArray res" where
  "StaticByteArray_WriteInt8 v s = WRITENUM 1 (word_of_int v :: byte) s"

definition StaticByteArray_WriteUint8 :: "byte \<Rightarrow> StaticByteArray \<Rightarrow> StaticByteArray res" where
  "StaticByteArray_WriteUint8 v s = WRITENUM 1 v s"

definition StaticByteArray_WriteInt16 :: "int \<Rightarrow> StaticByteArray \<Rightarrow> StaticByteArray res" where
  "StaticByteArray_WriteInt16 v s = WRITENUM 2 (word_of_int v :: u16) s"

definition StaticByteArray_WriteUint16 :: "u16 \<Rightarrow> StaticByteArray \<Rightarrow> StaticByteArray res" where
  "StaticByteArray_WriteUint16 v s = WRITENUM 2 v s"

definition StaticByteArray_WriteInt32 :: "int \<Rightarrow> StaticByteArray \<Rightarrow> StaticByteArray res" where
  "StaticByteArray_WriteInt32 v s = WRITENUM 4 (word_of_int v :: u32) s"

definition StaticByteArray_WriteUint32 :: "u32 \<Rightarrow> StaticByteArray \<Rightarrow> StaticByteArray res" where
  "StaticByteArray_WriteUint32 v s = WRITENUM 4 v s"

definition StaticByteArray_WriteFloat :: "u32 \<Rightarrow> StaticByteArray \<Rightarrow> StaticByteArray res" where
  "StaticByteArray_WriteFloat v s = WRITENUM 4 v s"

definition StaticByteArray_WriteInt64 :: "int \<Rightarrow> StaticByteArray \<Rightarrow> StaticByteArray res" where
  "StaticByteArray_WriteInt64 v s = WRITENUM 8 (word_of_int v :: u64) s"

definition StaticByteArray_WriteUint64 :: "u64 \<Rightarrow> StaticByteArray \<Rightarrow> StaticByteArray res" where
  "StaticByteArray_WriteUint64 v s = WRITENUM 8 v s"

definition StaticByteArray_WriteDouble :: "u64 \<Rightarrow> StaticByteArray \<Rightarrow> StaticByteArray res" where
  "StaticByteArray_WriteDouble v s = WRITENUM 8 v s"

text \<open>
  \<^verbatim>\<open>WriteString\<close> converts the size to \<^verbatim>\<open>int\<close>, stores its low 16 bits as the length field and then
  copies all the characters.
\<close>

definition StaticByteArray_WriteString :: "std_string \<Rightarrow> StaticByteArray \<Rightarrow> StaticByteArray res" where
  "StaticByteArray_WriteString st s =
     (let str_len = to_int32 (int (length st))
      in bind_res (c_int (has_write_length s + str_len)) (\<lambda>n.
         bind_res (c_int (n + STRING_LENGTH_BYTE_SIZE)) (\<lambda>total.
         if MAX_MSG_LENGTH < total then Inr s
         else bind_res (StaticByteArray_WriteUint16 (word_of_int str_len) s) (\<lambda>s1.
           bind_res (memcpy (buffer_cache s1) (has_write_length s1) st str_len) (\<lambda>buf.
             Inr (s1\<lparr>buffer_cache := buf, has_write_length := has_write_length s1 + str_len\<rparr>))))))"

definition StaticByteArray_WriteObject ::
  "byte list option \<Rightarrow> int \<Rightarrow> StaticByteArray \<Rightarrow> StaticByteArray res" where
  "StaticByteArray_WriteObject obj bytesLen s =
     bind_res (c_int (has_write_length s + bytesLen)) (\<lambda>total.
       if MAX_MSG_LENGTH < total then Inr s
       else case obj of
         None \<Rightarrow> (if bytesLen = 0 then Inr s else Inl NullPointer)
       | Some data \<Rightarrow>
           bind_res (memcpy (buffer_cache s) (has_write_length s) data bytesLen) (\<lambda>buf.
             Inr (s\<lparr>buffer_cache := buf, has_write_length := total\<rparr>)))"

definition StaticByteArray_vt :: "StaticByteArray ByteArray" where
  "StaticByteArray_vt = \<lparr>
     vt_BytesAvailable = StaticByteArray_BytesAvailable,
     vt_ReadInt8 = StaticByteArray_ReadInt8,
     vt_ReadUint8 = StaticByteArray_ReadUint8,
     vt_ReadInt16 = StaticByteArray_ReadInt16,
     vt_ReadUint16 = StaticByteArray_ReadUint16,
     vt_ReadInt32 = StaticByteArray_ReadInt32,
     vt_ReadUint32 = StaticByteArray_ReadUint32,
     vt_ReadFloat = StaticByteArray_ReadFloat,
     vt_ReadInt64 = StaticByteArray_ReadInt64,
     vt_ReadUint64 = StaticByteArray_ReadUint64,
     vt_ReadDouble = StaticByteArray_ReadDouble,
     vt_ReadString = StaticByteArray_ReadString,
     vt_ReadObject = StaticByteArray_ReadObject,
     vt_WriteInt8 = StaticByteArray_WriteInt8,
     vt_WriteUint8 = StaticByteArray_WriteUint8,
     vt_WriteInt16 = StaticByteArray_WriteInt16,
     vt_WriteUint16 = StaticByteArray_WriteUint16,
     vt_WriteInt32 = StaticByteArray_WriteInt32,
     vt_WriteUint32 = StaticByteArray_WriteUint32,
     vt_WriteFloat = StaticByteArray_WriteFloat,
     vt_WriteInt64 = StaticByteArray_WriteInt64,
     vt_WriteUint64 = StaticByteArray_WriteUint64,
     vt_WriteDouble = StaticByteArray_WriteDouble,
     vt_WriteString = StaticByteArray_WriteString,
     vt_WriteObject = StaticByteArray_WriteObject,
     vt_Clear = StaticByteArray_Clear\<rparr>"

text \<open>The length is converted to unsigned first, so a negative one is refused like one that is too large.\<close>

definition StaticByteArray_ReadFromByteArray ::
  "'o ByteArray \<Rightarrow> int \<Rightarrow> 'o \<Rightarrow> StaticByteArray \<Rightarrow> (StaticByteArray \<times> 'o) res" where
  "StaticByteArray_ReadFromByteArray vt bytesLen other s =
     (let read_size = (word_of_int bytesLen :: u32)
      in if read_size = 0 \<or> vt_BytesAvailable vt other < read_size then Inr (s, other)
         else bind_res (vt_ReadObject vt read_size other) (\<lambda>(obj, other').
           bind_res (StaticByteArray_WriteObject obj (sint read_size) s) (\<lambda>s'. Inr (s', other'))))"

definition StaticByteArray_operator_plus ::
  "StaticByteArray \<Rightarrow> StaticByteArray \<Rightarrow> (StaticByteArray \<times> StaticByteArray) res" where
  "StaticByteArray_operator_plus other s =
     StaticByteArray_ReadFromByteArray StaticByteArray_vt
       (sint (StaticByteArray_BytesAvailable other)) other s"

definition StaticByteArray_operator_assign ::
  "bool \<Rightarrow> StaticByteArray \<Rightarrow> StaticByteArray \<Rightarrow> (StaticByteArray \<times> StaticByteArray) res" where
  "StaticByteArray_operator_assign same other s =
     (if same then Inr (s, other)
      else StaticByteArray_ReadFromByteArray StaticByteArray_vt
             (sint (StaticByteArray_BytesAvailable other)) other (StaticByteArray_Clear s))"

definition StaticByteArray_ShowAllBytes :: "StaticByteArray \<Rightarrow> (int \<times> byte) list res" where
  "StaticByteArray_ShowAllBytes s =
     (if has_write_length s < has_read_length s then Inr []
      else bind_res (read_mem (buffer_cache s) (has_read_length s)
                       (has_write_length s - has_read_length s))
             (\<lambda>bs. Inr (zip [has_read_length s..has_write_length s - 1] bs)))"

section \<open>Invariant and content\<close>

definition static_ok :: "StaticByteArray \<Rightarrow> bool" where
  "static_ok s \<longleftrightarrow> int (length (buffer_cache s)) = MAX_MSG_LENGTH \<and> 0 \<le> has_read_length s \<and>
     has_read_length s \<le> has_write_length s \<and> has_write_length s \<le> MAX_MSG_LENGTH"

definition static_content :: "StaticByteArray \<Rightarrow> byte list" where
  "static_content s = drop (nat (has_read_length s)) (take (nat (has_write_length s)) (buffer_cache s))"

definition static_view :: "(StaticByteArray, unit) ba_view" where
  "static_view = \<lparr>bv_invar = static_ok, bv_content = static_content, bv_mode = (\<lambda>_. ()),
     bv_fits = (\<lambda>s n. has_write_length s + int n \<le> MAX_MSG_LENGTH)\<rparr>"

definition static_str_ok :: "std_string \<Rightarrow> bool" where
  "static_str_ok st \<longleftrightarrow> length st \<le> 65535 \<and> 0 \<notin> set st"

lemma length_static_content: "static_ok s \<Longrightarrow> int (length (static_content s)) = has_write_length s - has_read_length s"
  by (auto simp: static_ok_def static_content_def)

lemma static_new_ok [simp]: "static_ok StaticByteArray_new" "static_content StaticByteArray_new = []"
  by (simp_all add: static_ok_def StaticByteArray_new_def static_content_def MAX_MSG_LENGTH_def)

lemma static_Clear_ok [simp]: "static_ok (StaticByteArray_Clear s)" "static_content (StaticByteArray_Clear s) = []"
  by (simp_all add: static_ok_def StaticByteArray_Clear_def static_content_def MAX_MSG_LENGTH_def)

text \<open>Copying \<open>src\<close> behind the written part appends it to the content.\<close>

definition static_appended :: "byte list \<Rightarrow> byte list \<Rightarrow> StaticByteArray \<Rightarrow> StaticByteArray" where
  "static_appended buf src s =
     s\<lparr>buffer_cache := buf, has_write_length := has_write_length s + int (length src)\<rparr>"

lemma append_at_write_position:
  assumes "static_ok s" and "has_write_length s + int (length src) \<le> MAX_MSG_LENGTH"
  shows "\<exists>buf. memcpy (buffer_cache s) (has_write_length s) src (int (length src)) = Inr buf \<and>
    static_ok (static_appended buf src s) \<and>
    static_content (static_appended buf src s) = static_content s @ src"
proof -
  have pos: "0 \<le> has_read_length s" "has_read_length s \<le> has_write_length s"
    "int (length (buffer_cache s)) = MAX_MSG_LENGTH"
    using assms(1) by (simp_all add: static_ok_def)
  then obtain buf where buf: "memcpy (buffer_cache s) (has_write_length s) src (int (length src)) = Inr buf"
    using assms(2) by (simp add: memcpy_def)
  have "length buf = length (buffer_cache s)" using buf by (rule memcpy_length)
  then have "static_ok (static_appended buf src s)"
    using pos assms(2) by (simp add: static_ok_def static_appended_def)
  moreover have "take (nat (has_write_length s + int (length src))) buf =
      take (nat (has_write_length s)) (buffer_cache s) @ src"
    using memcpy_take[OF buf] by simp
  moreover have "nat (has_read_length s) \<le> length (take (nat (has_write_length s)) (buffer_cache s))"
    using assms(1) by (simp add: static_ok_def, linarith)
  ultimately have "static_ok (static_appended buf src s) \<and>
      static_content (static_appended buf src s) = static_content s @ src"
    by (simp add: static_content_def static_appended_def)
  with buf show ?thesis by blast
qed

lemma WriteItemToBuffer_ok:
  assumes "static_ok s" and "has_write_length s + int (length src) \<le> MAX_MSG_LENGTH"
  shows "\<exists>s'. WriteItemToBuffer src s = Inr s' \<and> static_ok s' \<and> static_content s' = static_content s @ src \<and>
     has_write_length s' = has_write_length s + int (length src)"
proof -
  from append_at_write_position[OF assms] obtain buf where 
    "memcpy (buffer_cache s) (has_write_length s) src (int (length src)) = Inr buf"
    "static_ok (static_appended buf src s)" "static_content (static_appended buf src s) = static_content s @ src" by blast
  then show ?thesis by (simp add: WriteItemToBuffer_def static_appended_def)
qed

lemma ReadItem_content:
  assumes "static_ok s" "0 \<le> n" and "has_read_length s + n \<le> has_write_length s"
  shows "read_mem (buffer_cache s) (has_read_length s) n = Inr (take (nat n) (static_content s))"
    "static_ok (s\<lparr>has_read_length := has_read_length s + n\<rparr>)"
    "static_content (s\<lparr>has_read_length := has_read_length s + n\<rparr>) = drop (nat n) (static_content s)"
proof -
  have pos: "0 \<le> has_read_length s" "has_write_length s \<le> MAX_MSG_LENGTH" "int (length (buffer_cache s)) = MAX_MSG_LENGTH"
    using assms(1) by (simp_all add: static_ok_def)
  have r: "nat (has_read_length s + n) = nat n + nat (has_read_length s)" using pos assms(2) by simp
  have "nat n + nat (has_read_length s) \<le> nat (has_write_length s)" using assms(3) r by linarith
  then have t: "take (nat n) (static_content s) = take (nat n) (drop (nat (has_read_length s)) (buffer_cache s))"
    by (simp add: static_content_def take_drop min_def)
  show "read_mem (buffer_cache s) (has_read_length s) n = Inr (take (nat n) (static_content s))"
    unfolding t using assms pos by (simp add: read_mem_def)
  show "static_ok (s\<lparr>has_read_length := has_read_length s + n\<rparr>)"
    using assms by (simp add: static_ok_def)
  show "static_content (s\<lparr>has_read_length := has_read_length s + n\<rparr>) = drop (nat n) (static_content s)"
    by (simp add: static_content_def r)
qed

lemma READNUM_ok:
  assumes "static_ok s" "0 \<le> n" and "has_read_length s + n \<le> has_write_length s"
  shows "READNUM n s = Inr (of_le_bytes (take (nat n) (static_content s)), s\<lparr>has_read_length := has_read_length s + n\<rparr>)"
  using assms ReadItem_content[OF assms] by (simp add: READNUM_def ReadItemFromBuffer_def)

lemma READNUM_short: "has_write_length s < has_read_length s + n \<Longrightarrow> READNUM n s = Inr (0, s)"
  by (simp add: READNUM_def)

lemma WRITENUM_law:
  assumes "static_ok s" "has_write_length s + int (n + m) \<le> MAX_MSG_LENGTH"
  shows "\<exists>s'. WRITENUM n v s = Inr s' \<and> static_ok s' \<and> static_content s' = static_content s @ le_bytes n v \<and>
    has_write_length s' = has_write_length s + int n \<and> has_write_length s' + int m \<le> MAX_MSG_LENGTH"
  using WriteItemToBuffer_ok[OF assms(1), of "le_bytes n v"] assms by (auto simp: WRITENUM_def)

lemma READNUM_law:
  assumes "static_ok s" "static_content s = le_bytes n (v :: 'a::len word) @ rest" "LENGTH('a) \<le> 8 * n"
  shows "\<exists>s'. READNUM (int n) s = Inr (v, s') \<and> static_ok s' \<and> static_content s' = rest \<and> has_write_length s' = has_write_length s
     \<and> buffer_cache s' = buffer_cache s \<and> has_read_length s' = has_read_length s + int n"
proof -
  have "int n \<le> int (length (static_content s))" using assms(2) by simp
  then have le: "has_read_length s + int n \<le> has_write_length s"
    using length_static_content[OF assms(1)] by simp
  show ?thesis
    using READNUM_ok[OF assms(1) _ le, where 'a='a] ReadItem_content[OF assms(1) _ le] assms(2,3)
    by (simp add: of_le_bytes_le_bytes)
qed

lemma WriteString_appends:
  assumes "static_ok s" "has_write_length s + int (2 + length st + m) \<le> MAX_MSG_LENGTH"
  shows "\<exists>s'. StaticByteArray_WriteString st s = Inr s' \<and> static_ok s' \<and>
    static_content s' = static_content s @ le_bytes 2 (of_nat (length st) :: u16) @ st \<and> has_write_length s' + int m \<le> MAX_MSG_LENGTH"
proof -
  have w: "0 \<le> has_write_length s" using assms(1) by (simp add: static_ok_def)
  have t: "to_int32 (int (length st)) = int (length st)" using w assms(2) by (simp add: INT_MAX_def INT_MIN_def MAX_MSG_LENGTH_def)
  obtain s1 where 1: "WRITENUM 2 (of_nat (length st) :: u16) s = Inr s1" "static_ok s1"
    "static_content s1 = static_content s @ le_bytes 2 (of_nat (length st) :: u16)" "has_write_length s1 = has_write_length s + 2"
    using WRITENUM_law[OF assms(1), of 2 "length st + m" "of_nat (length st) :: u16"] assms(2) by (auto simp del: le_bytes_numeral)
  have "has_write_length s1 + int (length st) \<le> MAX_MSG_LENGTH" using 1 assms(2) by simp
  from append_at_write_position[OF 1(2) this] obtain buf where 
     2: "memcpy (buffer_cache s1) (has_write_length s1) st (int (length st)) = Inr buf"
     "static_ok (static_appended buf st s1)" "static_content (static_appended buf st s1) = static_content s1 @ st" by blast
  have e: "c_int (has_write_length s + int (length st)) = Inr (has_write_length s + int (length st))"
     "c_int (has_write_length s + int (length st) + STRING_LENGTH_BYTE_SIZE) = Inr (has_write_length s + int (length st) + STRING_LENGTH_BYTE_SIZE)"
     "\<not> MAX_MSG_LENGTH < has_write_length s + int (length st) + STRING_LENGTH_BYTE_SIZE"
    using w assms(2) by (simp_all add: c_int_def INT_MIN_def INT_MAX_def MAX_MSG_LENGTH_def STRING_LENGTH_BYTE_SIZE_def)
  have "StaticByteArray_WriteString st s = Inr (static_appended buf st s1)"
    using 1(1) 2(1) by (simp add: StaticByteArray_WriteString_def t e StaticByteArray_WriteUint16_def static_appended_def Let_def)
  then show ?thesis using 1 2 assms(2) by (simp add: static_appended_def)
qed

lemma ReadString_law:
  assumes "static_ok s" "static_str_ok st" "static_content s = le_bytes 2 (of_nat (length st) :: u16) @ st @ rest"
  shows "\<exists>s'. StaticByteArray_ReadString s = Inr (st, s') \<and> static_ok s' \<and> static_content s' = rest"
proof -
  from assms have l: "length st \<le> 65535" "0 \<notin> set st" by (simp_all add: static_str_ok_def)
  from READNUM_law[OF assms(1,3)] obtain s1 where 1: "READNUM 2 s = Inr (of_nat (length st) :: u16, s1)"
    "static_ok s1" "static_content s1 = st @ rest" "has_write_length s1 = has_write_length s" "has_read_length s1 = has_read_length s + 2" by auto
  have u: "uint (of_nat (length st) :: u16) = int (length st)" using l(1) by (simp add: uint_nat unat_of_nat)
  have "int (2 + length st) \<le> int (length (static_content s))" using assms(3) by simp
  then have a: "has_read_length s + 2 + int (length st) \<le> has_write_length s"
    using length_static_content[OF assms(1)] by simp
  have b: "has_read_length s1 + int (length st) \<le> has_write_length s1" using a 1 by simp
  note R = ReadItem_content[OF 1(2) _ b]
  have c: "c_string (st @ [0]) = Inr st" using c_string_append[OF l(2), of "[]"] by simp
  show ?thesis using R 1 a c
    by (simp add: StaticByteArray_ReadString_def STRING_LENGTH_BYTE_SIZE_def StaticByteArray_ReadUint16_def u)
qed

lemmas static_num_defs = StaticByteArray_ReadInt8_def StaticByteArray_ReadUint8_def StaticByteArray_ReadInt16_def
  StaticByteArray_ReadUint16_def StaticByteArray_ReadInt32_def StaticByteArray_ReadUint32_def
  StaticByteArray_ReadFloat_def StaticByteArray_ReadInt64_def StaticByteArray_ReadUint64_def
  StaticByteArray_ReadDouble_def StaticByteArray_WriteInt8_def StaticByteArray_WriteUint8_def
  StaticByteArray_WriteInt16_def StaticByteArray_WriteUint16_def StaticByteArray_WriteInt32_def
  StaticByteArray_WriteUint32_def StaticByteArray_WriteFloat_def StaticByteArray_WriteInt64_def
  StaticByteArray_WriteUint64_def StaticByteArray_WriteDouble_def

lemma static_view_simps [simp]:
  "bv_invar static_view = static_ok" "bv_content static_view = static_content"
  "bv_mode static_view s = ()" "bv_fits static_view s n \<longleftrightarrow> has_write_length s + int n \<le> MAX_MSG_LENGTH"
  by (simp_all add: static_view_def)

lemma le_bytes_byte: "le_bytes (Suc 0) = (\<lambda>v :: byte. [v])"
  by (rule ext) simp

lemma num_codec:
  assumes "LENGTH('a) \<le> 8 * n"
  shows "codec static_view (WRITENUM n) (READNUM (int n)) (\<lambda>_. le_bytes n) (\<lambda>v :: 'a::len word. True)"
  using WRITENUM_law[of _ n] READNUM_law[OF _ _ assms]
  by (fastforce simp: codec_def write_law_def read_law_def)

lemma signed_codec:
  assumes "LENGTH('a) \<le> 8 * n"
  shows "codec static_view (\<lambda>v. WRITENUM n (word_of_int v :: 'a::len word)) (\<lambda>s. as_signed (READNUM (int n) s :: ('a word \<times> _) res))
    (\<lambda>_ v. le_bytes n (word_of_int v :: 'a word)) (in_range LENGTH('a))"
  unfolding codec_def write_law_def read_law_def
proof (intro conjI allI impI)
  fix ob v m assume "bv_invar static_view ob" "bv_fits static_view ob (length (le_bytes n (word_of_int v :: 'a word)) + m)"
  then show "\<exists>ob'. WRITENUM n (word_of_int v :: 'a word) ob = Inr ob' \<and> bv_invar static_view ob' \<and> bv_mode static_view ob' = bv_mode static_view ob \<and>
     bv_content static_view ob' = bv_content static_view ob @ le_bytes n (word_of_int v :: 'a word) \<and> bv_fits static_view ob' m"
    using WRITENUM_law[of ob n m "word_of_int v :: 'a word"] by auto
next
  fix ob v rest assume a: "bv_invar static_view ob" "in_range LENGTH('a) v" "bv_content static_view ob = le_bytes n (word_of_int v :: 'a word) @ rest"
  then show "\<exists>ob'. as_signed (READNUM (int n) ob :: ('a word \<times> _) res) = Inr (v, ob') \<and> bv_invar static_view ob' \<and> bv_mode static_view ob' = bv_mode static_view ob \<and> bv_content static_view ob' = rest"
    using READNUM_law[of ob n "word_of_int v :: 'a word" rest] assms by (auto simp: as_signed_def sint_word_of_int in_range_def)
qed

lemma string_codec: "codec static_view (vt_WriteString StaticByteArray_vt) (vt_ReadString StaticByteArray_vt)
   (\<lambda>e st. le_bytes 2 (of_nat (length st) :: u16) @ st) static_str_ok"
  unfolding codec_def write_law_def read_law_def
proof (intro conjI allI impI)
  fix ob st m
  assume "bv_invar static_view ob" "static_str_ok st"
    "bv_fits static_view ob (length (le_bytes 2 (of_nat (length st) :: u16) @ st) + m)"
  then show "\<exists>ob'. vt_WriteString StaticByteArray_vt st ob = Inr ob' \<and> bv_invar static_view ob' \<and>
      bv_mode static_view ob' = bv_mode static_view ob \<and>
      bv_content static_view ob' = bv_content static_view ob @ le_bytes 2 (of_nat (length st) :: u16) @ st \<and>
      bv_fits static_view ob' m"
    using WriteString_appends[of ob st m] by (auto simp: StaticByteArray_vt_def simp del: le_bytes_numeral)
next
  fix ob st rest
  assume "bv_invar static_view ob" "static_str_ok st"
    "bv_content static_view ob = (le_bytes 2 (of_nat (length st) :: u16) @ st) @ rest"
  then show "\<exists>ob'. vt_ReadString StaticByteArray_vt ob = Inr (st, ob') \<and> bv_invar static_view ob' \<and>
      bv_mode static_view ob' = bv_mode static_view ob \<and> bv_content static_view ob' = rest"
    using ReadString_law[of ob st rest] by (auto simp: StaticByteArray_vt_def simp del: le_bytes_numeral)
qed

interpretation sba: byte_array static_view StaticByteArray_vt "\<lambda>_. le_bytes 2" "\<lambda>_. le_bytes 4" "\<lambda>_. le_bytes 8" static_str_ok True
proof (unfold_locales, goal_cases)
  case 1 then show ?case using signed_codec[of 1, where 'a=8] by (simp add: StaticByteArray_vt_def static_num_defs[abs_def])
next
  case 2 then show ?case using num_codec[of 1, where 'a=8] by (simp add: le_bytes_byte StaticByteArray_vt_def static_num_defs[abs_def])
next
  case 3 then show ?case using signed_codec[of 2, where 'a=16] by (simp add: StaticByteArray_vt_def static_num_defs[abs_def])
next
  case 4 then show ?case using num_codec[of 2, where 'a=16] by (simp add: StaticByteArray_vt_def static_num_defs[abs_def])
next
  case 5 then show ?case using signed_codec[of 4, where 'a=32] by (simp add: StaticByteArray_vt_def static_num_defs[abs_def])
next
  case 6 then show ?case using num_codec[of 4, where 'a=32] by (simp add: StaticByteArray_vt_def static_num_defs[abs_def])
next
  case 7 then show ?case using num_codec[of 4, where 'a=32] by (simp add: StaticByteArray_vt_def static_num_defs[abs_def])
next
  case 8 then show ?case using signed_codec[of 8, where 'a=64] by (simp add: StaticByteArray_vt_def static_num_defs[abs_def])
next
  case 9 then show ?case using num_codec[of 8, where 'a=64] by (simp add: StaticByteArray_vt_def static_num_defs[abs_def])
next
  case 10 then show ?case using num_codec[of 8, where 'a=64] by (simp add: StaticByteArray_vt_def static_num_defs[abs_def])
next
  case 11 then show ?case by (rule string_codec)
qed simp_all

lemma static_WriteObject_appends:
  assumes "static_ok s" "has_write_length s + int (length obj) \<le> MAX_MSG_LENGTH"
  shows "\<exists>s'. StaticByteArray_WriteObject (Some obj) (int (length obj)) s = Inr s' \<and> static_ok s' \<and>
    static_content s' = static_content s @ obj \<and> has_write_length s' = has_write_length s + int (length obj)"
proof -
  obtain buf where buf: "memcpy (buffer_cache s) (has_write_length s) obj (int (length obj)) = Inr buf"
    "static_ok (static_appended buf obj s)" "static_content (static_appended buf obj s) = static_content s @ obj"
    using append_at_write_position[OF assms] by blast
  have "0 \<le> has_write_length s" using assms(1) by (auto simp: static_ok_def)
  then have "c_int (has_write_length s + int (length obj)) = Inr (has_write_length s + int (length obj))"
    using assms(2) by (simp add: c_int_def INT_MIN_def INT_MAX_def MAX_MSG_LENGTH_def)
  with buf assms(2) show ?thesis by (simp add: StaticByteArray_WriteObject_def static_appended_def)
qed

lemma static_valid_length:
  assumes "static_ok s"
  shows "unat (word_of_int (has_write_length s - has_read_length s) :: u32) = length (static_content s)"
proof -
  have d: "has_write_length s - has_read_length s = int (length (static_content s))"
    using length_static_content[OF assms] by simp
  have "length (static_content s) < 2 ^ 32"
    using assms d by (auto simp: static_ok_def MAX_MSG_LENGTH_def)
  then show ?thesis unfolding d by (simp add: unat_of_nat)
qed

interpretation soa: object_array static_view StaticByteArray_vt "\<lambda>_. le_bytes 2" "\<lambda>_. le_bytes 4" "\<lambda>_. le_bytes 8" static_str_ok True
proof (unfold_locales, goal_cases)
  case 1
  show ?case unfolding write_law_def
  proof (intro allI impI)
    fix ob obj m
    assume "bv_invar static_view ob" "object_ok obj" "bv_fits static_view ob (length obj + m)"
    then show "\<exists>ob'. vt_WriteObject StaticByteArray_vt (Some obj) (int (length obj)) ob = Inr ob' \<and> bv_invar static_view ob' \<and>
        bv_mode static_view ob' = bv_mode static_view ob \<and> bv_content static_view ob' = bv_content static_view ob @ obj \<and>
        bv_fits static_view ob' m"
      using static_WriteObject_appends[of ob obj] by (auto simp: StaticByteArray_vt_def)
  qed
next
  case (2 ob obj rest)
  then have o: "static_ok ob" "static_content ob = obj @ rest" "obj \<noteq> []" by (simp_all add: object_ok_def)
  note u = unat_object(1)[OF 2(2)] static_valid_length[OF o(1)]
  have n: "\<not> (word_of_int (has_write_length ob - has_read_length ob) :: u32) < of_nat (length obj)" "(of_nat (length obj) :: u32) \<noteq> 0"
    using u o(2) unat_object(2)[OF 2(2)] by (auto simp: word_less_nat_alt)
  have l: "uint (of_nat (length obj) :: u32) = int (length obj)" using u(1) unfolding uint_nat by simp
  have "has_read_length ob + int (length obj) \<le> has_write_length ob" using length_static_content[OF o(1)] o(2) by simp
  from ReadItem_content[OF o(1) _ this] o(2) n l show ?case
    by (simp add: StaticByteArray_vt_def StaticByteArray_ReadObject_def Let_def)
next
  case (3 ob n)
  then have "(word_of_int (has_write_length ob - has_read_length ob) :: u32) < n"
    using static_valid_length[of ob] by (simp add: word_less_nat_alt)
  then show ?case by (simp add: StaticByteArray_vt_def StaticByteArray_ReadObject_def Let_def)
qed

section \<open>Memory safety\<close>

text \<open>The calls a client can make; reading returns a value that does not matter here.\<close>

datatype static_op =
    OpWrite ba_value
  | OpRead ba_kind
  | OpWriteObject "byte list" int
  | OpReadObject u32
  | OpReadFrom int StaticByteArray
  | OpPlus StaticByteArray
  | OpAssign bool StaticByteArray
  | OpClear

fun static_exec :: "static_op \<Rightarrow> StaticByteArray \<Rightarrow> StaticByteArray res" where
  "static_exec (OpWrite v) s = ba_write StaticByteArray_vt v s"
| "static_exec (OpRead k) s = bind_res (ba_read StaticByteArray_vt k s) (\<lambda>(v, s'). Inr s')"
| "static_exec (OpWriteObject data n) s = StaticByteArray_WriteObject (Some data) n s"
| "static_exec (OpReadObject n) s = bind_res (StaticByteArray_ReadObject n s) (\<lambda>(v, s'). Inr s')"
| "static_exec (OpReadFrom n other) s = bind_res (StaticByteArray_ReadFromByteArray StaticByteArray_vt n other s) (\<lambda>(s', other'). Inr s')"
| "static_exec (OpPlus other) s = bind_res (StaticByteArray_operator_plus other s) (\<lambda>(s', other'). Inr s')"
| "static_exec (OpAssign same other) s = bind_res (StaticByteArray_operator_assign same other s) (\<lambda>(s', other'). Inr s')"
| "static_exec OpClear s = Inr (StaticByteArray_Clear s)"

fun static_run :: "static_op list \<Rightarrow> StaticByteArray \<Rightarrow> StaticByteArray res" where
  "static_run [] s = Inr s"
| "static_run (x # xs) s = bind_res (static_exec x s) (static_run xs)"

text \<open>
  What the caller owes: an object as long as it says, with a length that is not negative, sizes whose sum with the
  write position stays an \<^verbatim>\<open>int\<close>, and other arrays that are in order themselves.
\<close>

fun static_op_ok :: "static_op \<Rightarrow> bool" where
  "static_op_ok (OpWrite (VString st)) = (int (length st) \<le> INT_MAX - MAX_MSG_LENGTH - 2)"
| "static_op_ok (OpWriteObject data n) = (0 \<le> n \<and> n \<le> int (length data) \<and> n \<le> INT_MAX - MAX_MSG_LENGTH)"
| "static_op_ok (OpReadFrom n other) = static_ok other"
| "static_op_ok (OpPlus other) = static_ok other"
| "static_op_ok (OpAssign same other) = static_ok other"
| "static_op_ok _ = True"

definition safe_step :: "(StaticByteArray \<times> StaticByteArray res) \<Rightarrow> bool" where
  "safe_step = (\<lambda>(s, r). static_ok s \<longrightarrow> (\<exists>s'. r = Inr s' \<and> static_ok s'))"

lemma WRITENUM_safe: "static_ok s \<Longrightarrow> \<exists>s'. WRITENUM n v s = Inr s' \<and> static_ok s'"
  using WRITENUM_law[of s n 0 v] by (auto simp: WRITENUM_def split: if_splits)

lemma READNUM_safe:
  assumes "static_ok s" and "0 \<le> n"
  shows "\<exists>(w :: 'a::len word) s'. READNUM n s = Inr (w, s') \<and> static_ok s' \<and> buffer_cache s' = buffer_cache s \<and>
    has_write_length s' = has_write_length s \<and>
    has_read_length s' = has_read_length s + (if has_write_length s < has_read_length s + n then 0 else n)"
proof (cases "has_write_length s < has_read_length s + n")
  case True
  with assms READNUM_short show ?thesis by auto
next
  case False
  then have "has_read_length s + n \<le> has_write_length s" by simp
  from READNUM_ok[OF assms this, where 'a = 'a] ReadItem_content(2)[OF assms this] False
  show ?thesis by auto
qed

lemma READNUM_safe_signed:
  assumes "static_ok s" and "0 \<le> n"
  shows "\<exists>v s'. as_signed (READNUM n s :: ('a::len word \<times> StaticByteArray) res) = Inr (v, s') \<and> static_ok s'"
  using READNUM_safe[OF assms, where 'a = 'a] by (auto simp: as_signed_def)

lemma ReadString_safe:
  assumes "static_ok s"
  shows "\<exists>st s'. StaticByteArray_ReadString s = Inr (st, s') \<and> static_ok s'"
proof (cases "has_write_length s - has_read_length s < 2")
  case True
  with assms show ?thesis by (simp add: StaticByteArray_ReadString_def STRING_LENGTH_BYTE_SIZE_def)
next
  case False
  with READNUM_safe[OF assms, of 2, where 'a = 16] obtain w :: u16 and s1 where
    1: "READNUM 2 s = Inr (w, s1)" "static_ok s1" "has_write_length s1 = has_write_length s"
      "has_read_length s1 = has_read_length s + 2" by auto
  show ?thesis
  proof (cases "has_write_length s - has_read_length s - 2 < uint w")
    case True
    with 1 False show ?thesis
      by (simp add: StaticByteArray_ReadString_def STRING_LENGTH_BYTE_SIZE_def StaticByteArray_ReadUint16_def)
  next
    case lt: False
    with 1 have "has_read_length s1 + uint w \<le> has_write_length s1" by simp
    note R = ReadItem_content[OF 1(2) _ this]
    have "\<exists>st. c_string (take (unat w) (static_content s1) @ [0]) = Inr st"
      by (simp add: c_string_def)
    with R 1 False lt show ?thesis
      by (auto simp: StaticByteArray_ReadString_def STRING_LENGTH_BYTE_SIZE_def StaticByteArray_ReadUint16_def)
  qed
qed

lemma ReadObject_safe:
  assumes "static_ok s"
  shows "\<exists>v s'. StaticByteArray_ReadObject n s = Inr (v, s') \<and> static_ok s'"
proof -
  define d where "d = has_write_length s - has_read_length s"
  have "0 \<le> d" "d \<le> MAX_MSG_LENGTH" using assms by (auto simp: static_ok_def d_def)
  then have u: "uint (word_of_int d :: u32) = d"
    by (simp add: uint_word_of_int MAX_MSG_LENGTH_def)
  show ?thesis
  proof (cases "n = 0 \<or> word_of_int d < n")
    case True
    with assms show ?thesis by (simp add: StaticByteArray_ReadObject_def flip: d_def)
  next
    case False
    then have "uint n \<le> d" using u by (simp add: word_le_def not_less)
    then have "has_read_length s + uint n \<le> has_write_length s" by (simp add: d_def)
    from ReadItem_content[OF assms _ this] False show ?thesis
      by (simp add: StaticByteArray_ReadObject_def flip: d_def)
  qed
qed

lemma WriteObject_safe:
  assumes "static_ok s" and "0 \<le> n" and "n \<le> int (length data)" and "n \<le> INT_MAX - MAX_MSG_LENGTH"
  shows "\<exists>s'. StaticByteArray_WriteObject (Some data) n s = Inr s' \<and> static_ok s'"
proof -
  have p: "0 \<le> has_write_length s" "has_write_length s \<le> MAX_MSG_LENGTH"
    using assms(1) by (auto simp: static_ok_def)
  have c: "c_int (has_write_length s + n) = Inr (has_write_length s + n)"
    using p assms(2,4) by (simp add: c_int_def INT_MIN_def)
  show ?thesis
  proof (cases "MAX_MSG_LENGTH < has_write_length s + n")
    case True
    with c assms(1) show ?thesis by (simp add: StaticByteArray_WriteObject_def)
  next
    case False
    with append_at_write_position[OF assms(1), of "take (nat n) data"] assms(2,3)
    obtain buf where b: "memcpy (buffer_cache s) (has_write_length s) (take (nat n) data) n = Inr buf"
      "static_ok (static_appended buf (take (nat n) data) s)" by auto
    have "memcpy (buffer_cache s) (has_write_length s) data n = Inr buf"
      using b(1) assms(2,3) by (auto simp: memcpy_eq_Inr)
    with b c False assms(2,3) show ?thesis
      by (simp add: StaticByteArray_WriteObject_def static_appended_def)
  qed
qed

lemma ReadFromByteArray_safe:
  assumes "static_ok s" and "static_ok other"
  shows "\<exists>s' other'. StaticByteArray_ReadFromByteArray StaticByteArray_vt n other s = Inr (s', other') \<and> static_ok s'"
proof -
  define k :: u32 where "k = word_of_int n"
  have a: "StaticByteArray_BytesAvailable other = of_nat (length (static_content other))"
    unfolding StaticByteArray_BytesAvailable_def length_static_content[OF assms(2), symmetric] by simp
  have d: "length (static_content other) \<le> nat MAX_MSG_LENGTH"
    using length_static_content[OF assms(2)] assms(2) by (auto simp: static_ok_def MAX_MSG_LENGTH_def)
  show ?thesis
  proof (cases "k = 0 \<or> StaticByteArray_BytesAvailable other < k")
    case True
    with assms(1) show ?thesis by (simp add: StaticByteArray_ReadFromByteArray_def StaticByteArray_vt_def flip: k_def)
  next
    case False
    then have k: "unat k \<le> length (static_content other)"
      using a d by (simp add: word_less_nat_alt unat_of_nat MAX_MSG_LENGTH_def)
    let ?data = "take (unat k) (static_content other)"
    have o: "object_ok ?data" using False k d by (auto simp: object_ok_def unat_eq_0 MAX_MSG_LENGTH_def)
    have l: "length ?data = unat k" using k by simp
    obtain other' where r: "StaticByteArray_ReadObject k other = Inr (Some ?data, other')"
      using soa.read_object[of other ?data "drop (unat k) (static_content other)"] assms(2) o l by (auto simp: StaticByteArray_vt_def)
    define i where "i = unat k"
    have i: "i \<le> 262144" "i = length ?data" using k d l by (simp_all add: i_def MAX_MSG_LENGTH_def)
    have "k = word_of_int (int i)" by (simp add: i_def)
    then have "sint k = int i" using sint_word_of_int[of "int i", where 'a = 32] i(1) by simp
    with WriteObject_safe[OF assms(1), of "int i" ?data] i obtain s' where
      "StaticByteArray_WriteObject (Some ?data) (sint k) s = Inr s'" "static_ok s'" by (auto simp: MAX_MSG_LENGTH_def INT_MAX_def)
    with r False show ?thesis
      by (simp add: StaticByteArray_ReadFromByteArray_def StaticByteArray_vt_def flip: k_def)
  qed
qed

text \<open>A negative length passes the test of \<^verbatim>\<open>WriteObject\<close> and reaches \<^verbatim>\<open>memcpy\<close>.\<close>

lemma WriteObject_negative:
  assumes "static_ok s" and "n < 0" shows "\<not> is_ok (StaticByteArray_WriteObject (Some data) n s)"
proof -
  have "has_write_length s + n \<le> MAX_MSG_LENGTH" using assms by (auto simp: static_ok_def)
  then show ?thesis using assms(2) by (simp add: StaticByteArray_WriteObject_def memcpy_def bind_res_def is_ok_def c_int_def split: sum.splits)
qed

lemma WriteString_safe:
  assumes "static_ok s" and "int (length st) \<le> INT_MAX - MAX_MSG_LENGTH - 2"
  shows "\<exists>s'. StaticByteArray_WriteString st s = Inr s' \<and> static_ok s'"
proof (cases "has_write_length s + int (2 + length st + 0) \<le> MAX_MSG_LENGTH")
  case True
  with WriteString_appends[OF assms(1), of st 0] show ?thesis by auto
next
  case False
  have "0 \<le> has_write_length s" "has_write_length s \<le> MAX_MSG_LENGTH"
    using assms(1) by (auto simp: static_ok_def)
  with False assms show ?thesis
    by (simp add: StaticByteArray_WriteString_def c_int_def INT_MIN_def INT_MAX_def
        STRING_LENGTH_BYTE_SIZE_def MAX_MSG_LENGTH_def Let_def)
qed

lemma tag_read_safe:
  "\<exists>v s'. r = Inr (v, s') \<and> static_ok s' \<Longrightarrow>
   \<exists>s'. bind_res (tag_read c r) (\<lambda>(v, s'). Inr s') = Inr s' \<and> static_ok s'"
  by (auto simp: tag_read_def)

lemma READNUM_safe_word:
  "static_ok s \<Longrightarrow> 0 \<le> n \<Longrightarrow> \<exists>(w :: 'a::len word) s'. READNUM n s = Inr (w, s') \<and> static_ok s'"
  using READNUM_safe[of s n, where 'a = 'a] by blast

lemma static_exec_safe:
  assumes "static_ok s" and "static_op_ok x"
  shows "\<exists>s'. static_exec x s = Inr s' \<and> static_ok s'"
proof (cases x)
  case (OpWrite v)
  then show ?thesis
    using assms(2) by (cases v)
      (auto simp: StaticByteArray_vt_def static_num_defs
        intro!: WRITENUM_safe[OF assms(1)] WriteString_safe[OF assms(1)])
next
  case (OpRead k)
  show ?thesis
    unfolding OpRead
    by (cases k; simp add: StaticByteArray_vt_def static_num_defs;
        intro tag_read_safe READNUM_safe_word READNUM_safe_signed ReadString_safe assms(1); simp)
next
  case (OpWriteObject data n)
  with assms WriteObject_safe[of s n data] show ?thesis by simp
next
  case (OpReadObject n)
  with ReadObject_safe[OF assms(1), of n] show ?thesis by auto
next
  case (OpReadFrom n other)
  with ReadFromByteArray_safe[OF assms(1), of other n] assms(2) show ?thesis by auto
next
  case (OpPlus other)
  with ReadFromByteArray_safe[OF assms(1), of other "sint (StaticByteArray_BytesAvailable other)"] assms(2) show ?thesis
    by (auto simp: StaticByteArray_operator_plus_def)
next
  case (OpAssign same other)
  with ReadFromByteArray_safe[of "StaticByteArray_Clear s" other "sint (StaticByteArray_BytesAvailable other)"] assms show ?thesis
    by (auto simp: StaticByteArray_operator_assign_def)
next
  case OpClear
  then show ?thesis by simp
qed

lemma static_run_safe:
  assumes "static_ok s" and "list_all static_op_ok xs"
  shows "\<exists>s'. static_run xs s = Inr s' \<and> static_ok s'"
  using assms
proof (induction xs arbitrary: s)
  case Nil
  then show ?case by simp
next
  case (Cons x xs)
  with static_exec_safe[of s x] obtain s1 where "static_exec x s = Inr s1" "static_ok s1" by auto
  with Cons.IH[of s1] Cons.prems show ?case by simp
qed

section \<open>Properties\<close>

text \<open>
  C22: Of the calls of a \<^verbatim>\<open>StaticByteArray\<close> only \<^verbatim>\<open>WriteObject\<close> with a negative length leaves the buffer. From a state with
  its read and write positions in order, any sequence of typed reads and writes, object reads and writes, \<^verbatim>\<open>Clear\<close>,
  \<^verbatim>\<open>ReadFromByteArray\<close>, \<^verbatim>\<open>+\<close> and \<^verbatim>\<open>=\<close> from arrays of the same class returns, with the positions in order and within the
  buffer, as long as objects are as long as stated and no size comes near \<^verbatim>\<open>INT_MAX\<close>. A negative length passes the test
  of \<^verbatim>\<open>WriteObject\<close> in every such state and is undefined.
\<close>

theorem static_memory_safe:
  assumes "static_ok s" and "list_all static_op_ok xs" and "n < 0"
  shows "(\<exists>s'. static_run xs s = Inr s' \<and> static_ok s') \<and>
    \<not> is_ok (static_run (xs @ [OpWriteObject data n]) s)"
proof -
  obtain s' where s': "static_run xs s = Inr s'" "static_ok s'" using static_run_safe[OF assms(1,2)] by blast
  have "static_run (xs @ ys) s = static_run ys s'" for ys using s'(1)
    by (induction xs arbitrary: s) (auto simp: bind_res_eq_Inr)
  then have "static_run (xs @ [OpWriteObject data n]) s = bind_res (StaticByteArray_WriteObject (Some data) n s') Inr"
    by (simp add: bind_res_def split: sum.splits)
  with s' WriteObject_negative[OF s'(2) assms(3), of data] show ?thesis by (auto simp: bind_res_def is_ok_def split: sum.splits)
qed

theorem static_memory_safe_witness:
  "(\<exists>s'. static_run [OpWrite (VString [1, 2]), OpRead KString, OpReadObject 5, OpAssign False StaticByteArray_new]
     StaticByteArray_new = Inr s' \<and> static_ok s') \<and>
   \<not> is_ok (static_run [OpWrite (VString [1, 2]), OpRead KString, OpReadObject 5, OpAssign False StaticByteArray_new,
     OpWriteObject [7] (- 1)] StaticByteArray_new)"
  using static_memory_safe
    [of StaticByteArray_new "[OpWrite (VString [1, 2]), OpRead KString, OpReadObject 5, OpAssign False StaticByteArray_new]" "- 1" "[7]"]
  by (simp add: INT_MAX_def MAX_MSG_LENGTH_def)

text \<open>
  C21: A sequence of typed values that fits in the buffer is read back unchanged by the reads of
  the same types, for strings of at most 65535 bytes without a NUL.
\<close>

theorem static_write_read_sequence:
  assumes "list_all (value_ok static_str_ok) vs"
    and "int (length (enc_all (value_enc (\<lambda>_. le_bytes 2) (\<lambda>_. le_bytes 4) (\<lambda>_. le_bytes 8)) () vs))
      \<le> MAX_MSG_LENGTH"
  shows "\<exists>s1 s2. write_all (ba_write StaticByteArray_vt) vs StaticByteArray_new = Inr s1 \<and>
    ba_read_all StaticByteArray_vt (map kind_of vs) s1 = Inr (vs, s2) \<and>
    StaticByteArray_BytesAvailable s2 = 0"
proof -
  have w: "has_write_length StaticByteArray_new = 0" by (simp add: StaticByteArray_new_def)
  from sba.values_roundtrip[of StaticByteArray_new vs] assms w obtain s1 s2 where
    1: "write_all (ba_write StaticByteArray_vt) vs StaticByteArray_new = Inr s1"
      "ba_read_all StaticByteArray_vt (map kind_of vs) s1 = Inr (vs, s2)"
      "static_ok s2" "static_content s2 = []" by auto
  from length_static_content[OF 1(3)] 1(4) have "has_write_length s2 = has_read_length s2" by simp
  with 1 show ?thesis by (simp add: StaticByteArray_BytesAvailable_def)
qed

theorem static_write_read_sequence_witness:
  "\<exists>s1 s2. write_all (ba_write StaticByteArray_vt) [VInt32 (-7), VString [104, 105]]
      StaticByteArray_new = Inr s1 \<and>
    ba_read_all StaticByteArray_vt [KInt32, KString] s1 = Inr ([VInt32 (-7), VString [104, 105]], s2) \<and>
    StaticByteArray_BytesAvailable s2 = 0"
  using static_write_read_sequence [of "[VInt32 (-7), VString [104, 105]]"]
  by (simp add: in_range_def static_str_ok_def enc_all_def MAX_MSG_LENGTH_def)

text \<open>
  The 16 bit length field makes \<^verbatim>\<open>WriteString\<close> lossy where \<^verbatim>\<open>QueueByteArray\<close> refuses: a string
  of 65536 bytes that fits in the buffer is stored with length 0, so reading it back gives the
  empty string and leaves its 65536 bytes to be misread as the next values.
\<close>

theorem static_WriteString_length_wraps:
  assumes "length st = 65536"
  shows "\<exists>s1 s2. StaticByteArray_WriteString st StaticByteArray_new = Inr s1 \<and>
    StaticByteArray_ReadString s1 = Inr ([], s2) \<and> static_content s2 = st"
proof -
  have w: "has_write_length StaticByteArray_new = 0" by (simp add: StaticByteArray_new_def)
  from WriteString_appends[of StaticByteArray_new st 0] assms w obtain s1 where
    1: "StaticByteArray_WriteString st StaticByteArray_new = Inr s1" "static_ok s1"
      "static_content s1 = le_bytes 2 (of_nat (length ([] :: std_string)) :: u16) @ [] @ st"
    by (auto simp: MAX_MSG_LENGTH_def)
  from ReadString_law[OF 1(2) _ 1(3)] 1(1) show ?thesis by (auto simp: static_str_ok_def)
qed

theorem static_WriteString_length_wraps_witness:
  "\<exists>s1 s2. StaticByteArray_WriteString (replicate 65536 65) StaticByteArray_new = Inr s1 \<and>
    StaticByteArray_ReadString s1 = Inr ([], s2) \<and> static_content s2 = replicate 65536 65"
  by (rule static_WriteString_length_wraps [of "replicate 65536 65"]) (simp only: length_replicate)

end
