(* ===== verification/Protocol.thy ===== *)
theory Protocol
  imports SerializeManager StaticByteArray
begin

text \<open>
  The message classes of the demo protocol (\<^verbatim>\<open>demo/src/serialize_demo/test_serialize.*\<close>, the output of
  the serialisation code generator): nine classes derived from \<^verbatim>\<open>SerializeBase\<close>, each with its fields,
  \<^verbatim>\<open>Serialize\<close> and \<^verbatim>\<open>Unserialize\<close>. They are written against the table of the \<^verbatim>\<open>ByteArray\<close> interface and
  proved once in its contract, then used with both implementations.
\<close>

section \<open>The classes\<close>

record CSCheckServiceInfo =
  check_service_type :: int

definition CSCheckServiceInfo_Serialize :: "'o ByteArray \<Rightarrow> CSCheckServiceInfo \<Rightarrow> 'o \<Rightarrow> 'o res" where
  "CSCheckServiceInfo_Serialize vt m ob =
     vt_WriteInt16 vt (check_service_type m) ob"

definition CSCheckServiceInfo_Unserialize ::
  "'o ByteArray \<Rightarrow> CSCheckServiceInfo \<Rightarrow> 'o \<Rightarrow> (CSCheckServiceInfo \<times> 'o) res" where
  "CSCheckServiceInfo_Unserialize vt m ob =
     bind_res (vt_ReadInt16 vt ob) (\<lambda>(v1, ob1).
       Inr (m\<lparr>check_service_type := v1\<rparr>, ob1))"

record SCCheckServiceInfoAck =
  ack_service_type :: int
  ack_ip_addr :: std_string
  ack_port :: u16

definition SCCheckServiceInfoAck_Serialize :: "'o ByteArray \<Rightarrow> SCCheckServiceInfoAck \<Rightarrow> 'o \<Rightarrow> 'o res" where
  "SCCheckServiceInfoAck_Serialize vt m ob =
     bind_res (vt_WriteInt16 vt (ack_service_type m) ob) (\<lambda>ob1.
     bind_res (vt_WriteString vt (ack_ip_addr m) ob1) (\<lambda>ob2.
       vt_WriteUint16 vt (ack_port m) ob2))"

definition SCCheckServiceInfoAck_Unserialize ::
  "'o ByteArray \<Rightarrow> SCCheckServiceInfoAck \<Rightarrow> 'o \<Rightarrow> (SCCheckServiceInfoAck \<times> 'o) res" where
  "SCCheckServiceInfoAck_Unserialize vt m ob =
     bind_res (vt_ReadInt16 vt ob) (\<lambda>(v1, ob1).
     bind_res (vt_ReadString vt ob1) (\<lambda>(v2, ob2).
     bind_res (vt_ReadUint16 vt ob2) (\<lambda>(v3, ob3).
       Inr (m\<lparr>ack_service_type := v1, ack_ip_addr := v2, ack_port := v3\<rparr>, ob3))))"

record CSGORequestCommandList =
  list_project_list_type :: int

definition CSGORequestCommandList_Serialize :: "'o ByteArray \<Rightarrow> CSGORequestCommandList \<Rightarrow> 'o \<Rightarrow> 'o res" where
  "CSGORequestCommandList_Serialize vt m ob =
     vt_WriteInt8 vt (list_project_list_type m) ob"

definition CSGORequestCommandList_Unserialize ::
  "'o ByteArray \<Rightarrow> CSGORequestCommandList \<Rightarrow> 'o \<Rightarrow> (CSGORequestCommandList \<times> 'o) res" where
  "CSGORequestCommandList_Unserialize vt m ob =
     bind_res (vt_ReadInt8 vt ob) (\<lambda>(v1, ob1).
       Inr (m\<lparr>list_project_list_type := v1\<rparr>, ob1))"

record SCGOCommandProjectItem =
  project_project_type :: int
  project_project_name :: std_string

definition SCGOCommandProjectItem_Serialize :: "'o ByteArray \<Rightarrow> SCGOCommandProjectItem \<Rightarrow> 'o \<Rightarrow> 'o res" where
  "SCGOCommandProjectItem_Serialize vt m ob =
     bind_res (vt_WriteInt8 vt (project_project_type m) ob) (\<lambda>ob1.
       vt_WriteString vt (project_project_name m) ob1)"

definition SCGOCommandProjectItem_Unserialize ::
  "'o ByteArray \<Rightarrow> SCGOCommandProjectItem \<Rightarrow> 'o \<Rightarrow> (SCGOCommandProjectItem \<times> 'o) res" where
  "SCGOCommandProjectItem_Unserialize vt m ob =
     bind_res (vt_ReadInt8 vt ob) (\<lambda>(v1, ob1).
     bind_res (vt_ReadString vt ob1) (\<lambda>(v2, ob2).
       Inr (m\<lparr>project_project_type := v1, project_project_name := v2\<rparr>, ob2)))"

record SCGOCommandOperateItem =
  operate_operate_type :: int
  operate_operate_name :: std_string
  operate_operate_describe :: std_string

definition SCGOCommandOperateItem_Serialize :: "'o ByteArray \<Rightarrow> SCGOCommandOperateItem \<Rightarrow> 'o \<Rightarrow> 'o res" where
  "SCGOCommandOperateItem_Serialize vt m ob =
     bind_res (vt_WriteInt8 vt (operate_operate_type m) ob) (\<lambda>ob1.
     bind_res (vt_WriteString vt (operate_operate_name m) ob1) (\<lambda>ob2.
       vt_WriteString vt (operate_operate_describe m) ob2))"

definition SCGOCommandOperateItem_Unserialize ::
  "'o ByteArray \<Rightarrow> SCGOCommandOperateItem \<Rightarrow> 'o \<Rightarrow> (SCGOCommandOperateItem \<times> 'o) res" where
  "SCGOCommandOperateItem_Unserialize vt m ob =
     bind_res (vt_ReadInt8 vt ob) (\<lambda>(v1, ob1).
     bind_res (vt_ReadString vt ob1) (\<lambda>(v2, ob2).
     bind_res (vt_ReadString vt ob2) (\<lambda>(v3, ob3).
       Inr (m\<lparr>operate_operate_type := v1, operate_operate_name := v2, operate_operate_describe := v3\<rparr>, ob3))))"

text \<open>
  The loop that fills a vector: one temporary is unserialised again and again and appended to what
  the vector holds already.
\<close>

fun push_items ::
  "('a \<Rightarrow> 'o \<Rightarrow> ('a \<times> 'o) res) \<Rightarrow> nat \<Rightarrow> 'a \<Rightarrow> 'a list \<Rightarrow> 'o \<Rightarrow> ('a list \<times> 'o) res" where
  "push_items rd 0 tmp acc ob = Inr (acc, ob)"
| "push_items rd (Suc n) tmp acc ob =
     bind_res (rd tmp ob) (\<lambda>(tmp1, ob1). push_items rd n tmp1 (acc @ [tmp1]) ob1)"

record SCGORequestCommandListACK =
  lists_project_list :: "SCGOCommandProjectItem list"
  lists_operate_list :: "SCGOCommandOperateItem list"

definition SCGORequestCommandListACK_Serialize ::
  "'o ByteArray \<Rightarrow> SCGORequestCommandListACK \<Rightarrow> 'o \<Rightarrow> 'o res" where
  "SCGORequestCommandListACK_Serialize vt m ob =
     bind_res (vt_WriteUint16 vt (of_nat (length (lists_project_list m))) ob) (\<lambda>ob1.
     bind_res (write_all (SCGOCommandProjectItem_Serialize vt) (lists_project_list m) ob1) (\<lambda>ob2.
     bind_res (vt_WriteUint16 vt (of_nat (length (lists_operate_list m))) ob2) (\<lambda>ob3.
       write_all (SCGOCommandOperateItem_Serialize vt) (lists_operate_list m) ob3)))"

definition SCGORequestCommandListACK_Unserialize ::
  "'o ByteArray \<Rightarrow> SCGOCommandProjectItem \<Rightarrow> SCGOCommandOperateItem \<Rightarrow> SCGORequestCommandListACK \<Rightarrow> 'o \<Rightarrow>
   (SCGORequestCommandListACK \<times> 'o) res" where
  "SCGORequestCommandListACK_Unserialize vt tmp1 tmp2 m ob =
     bind_res (vt_ReadUint16 vt ob) (\<lambda>(n, ob1).
     bind_res (push_items (SCGOCommandProjectItem_Unserialize vt) (unat n) tmp1 (lists_project_list m) ob1) (\<lambda>(ps, ob2).
     bind_res (vt_ReadUint16 vt ob2) (\<lambda>(k, ob3).
     bind_res (push_items (SCGOCommandOperateItem_Unserialize vt) (unat k) tmp2 (lists_operate_list m) ob3) (\<lambda>(os, ob4).
       Inr (m\<lparr>lists_project_list := ps, lists_operate_list := os\<rparr>, ob4)))))"

record CSGORequestCommand =
  command_project_type :: int
  command_operate_type :: int

definition CSGORequestCommand_Serialize :: "'o ByteArray \<Rightarrow> CSGORequestCommand \<Rightarrow> 'o \<Rightarrow> 'o res" where
  "CSGORequestCommand_Serialize vt m ob =
     bind_res (vt_WriteInt8 vt (command_project_type m) ob) (\<lambda>ob1.
       vt_WriteInt8 vt (command_operate_type m) ob1)"

definition CSGORequestCommand_Unserialize ::
  "'o ByteArray \<Rightarrow> CSGORequestCommand \<Rightarrow> 'o \<Rightarrow> (CSGORequestCommand \<times> 'o) res" where
  "CSGORequestCommand_Unserialize vt m ob =
     bind_res (vt_ReadInt8 vt ob) (\<lambda>(v1, ob1).
     bind_res (vt_ReadInt8 vt ob1) (\<lambda>(v2, ob2).
       Inr (m\<lparr>command_project_type := v1, command_operate_type := v2\<rparr>, ob2)))"

record SCGORequestCommandAck =
  command_ack_project_type :: int
  command_ack_operate_type :: int
  command_ack_operate_result :: int

definition SCGORequestCommandAck_Serialize :: "'o ByteArray \<Rightarrow> SCGORequestCommandAck \<Rightarrow> 'o \<Rightarrow> 'o res" where
  "SCGORequestCommandAck_Serialize vt m ob =
     bind_res (vt_WriteInt8 vt (command_ack_project_type m) ob) (\<lambda>ob1.
     bind_res (vt_WriteInt8 vt (command_ack_operate_type m) ob1) (\<lambda>ob2.
       vt_WriteInt8 vt (command_ack_operate_result m) ob2))"

definition SCGORequestCommandAck_Unserialize ::
  "'o ByteArray \<Rightarrow> SCGORequestCommandAck \<Rightarrow> 'o \<Rightarrow> (SCGORequestCommandAck \<times> 'o) res" where
  "SCGORequestCommandAck_Unserialize vt m ob =
     bind_res (vt_ReadInt8 vt ob) (\<lambda>(v1, ob1).
     bind_res (vt_ReadInt8 vt ob1) (\<lambda>(v2, ob2).
     bind_res (vt_ReadInt8 vt ob2) (\<lambda>(v3, ob3).
       Inr (m\<lparr>command_ack_project_type := v1, command_ack_operate_type := v2, command_ack_operate_result := v3\<rparr>, ob3))))"

record SCGOCommandOutput =
  output_str_list :: "std_string list"

definition SCGOCommandOutput_Serialize :: "'o ByteArray \<Rightarrow> SCGOCommandOutput \<Rightarrow> 'o \<Rightarrow> 'o res" where
  "SCGOCommandOutput_Serialize vt m ob =
     bind_res (vt_WriteUint16 vt (of_nat (length (output_str_list m))) ob) (\<lambda>ob1.
       write_all (vt_WriteString vt) (output_str_list m) ob1)"

definition SCGOCommandOutput_Unserialize ::
  "'o ByteArray \<Rightarrow> SCGOCommandOutput \<Rightarrow> 'o \<Rightarrow> (SCGOCommandOutput \<times> 'o) res" where
  "SCGOCommandOutput_Unserialize vt m ob =
     bind_res (vt_ReadUint16 vt ob) (\<lambda>(n, ob1).
     bind_res (push_items (\<lambda>_. vt_ReadString vt) (unat n) [] (output_str_list m) ob1) (\<lambda>(ss, ob2).
       Inr (m\<lparr>output_str_list := ss\<rparr>, ob2)))"

section \<open>Objects of any class\<close>

datatype Message =
    MCSCheckServiceInfo CSCheckServiceInfo
  | MSCCheckServiceInfoAck SCCheckServiceInfoAck
  | MCSGORequestCommandList CSGORequestCommandList
  | MSCGOCommandProjectItem SCGOCommandProjectItem
  | MSCGOCommandOperateItem SCGOCommandOperateItem
  | MSCGORequestCommandListACK SCGORequestCommandListACK
  | MCSGORequestCommand CSGORequestCommand
  | MSCGORequestCommandAck SCGORequestCommandAck
  | MSCGOCommandOutput SCGOCommandOutput

fun GetTypeName :: "Message \<Rightarrow> std_string" where
  "GetTypeName (MCSCheckServiceInfo _) = str ''CSCheckServiceInfo''"
| "GetTypeName (MSCCheckServiceInfoAck _) = str ''SCCheckServiceInfoAck''"
| "GetTypeName (MCSGORequestCommandList _) = str ''CSGORequestCommandList''"
| "GetTypeName (MSCGOCommandProjectItem _) = str ''SCGOCommandProjectItem''"
| "GetTypeName (MSCGOCommandOperateItem _) = str ''SCGOCommandOperateItem''"
| "GetTypeName (MSCGORequestCommandListACK _) = str ''SCGORequestCommandListACK''"
| "GetTypeName (MCSGORequestCommand _) = str ''CSGORequestCommand''"
| "GetTypeName (MSCGORequestCommandAck _) = str ''SCGORequestCommandAck''"
| "GetTypeName (MSCGOCommandOutput _) = str ''SCGOCommandOutput''"

fun Serialize :: "'o ByteArray \<Rightarrow> Message \<Rightarrow> 'o \<Rightarrow> 'o res" where
  "Serialize vt (MCSCheckServiceInfo m) = CSCheckServiceInfo_Serialize vt m"
| "Serialize vt (MSCCheckServiceInfoAck m) = SCCheckServiceInfoAck_Serialize vt m"
| "Serialize vt (MCSGORequestCommandList m) = CSGORequestCommandList_Serialize vt m"
| "Serialize vt (MSCGOCommandProjectItem m) = SCGOCommandProjectItem_Serialize vt m"
| "Serialize vt (MSCGOCommandOperateItem m) = SCGOCommandOperateItem_Serialize vt m"
| "Serialize vt (MSCGORequestCommandListACK m) = SCGORequestCommandListACK_Serialize vt m"
| "Serialize vt (MCSGORequestCommand m) = CSGORequestCommand_Serialize vt m"
| "Serialize vt (MSCGORequestCommandAck m) = SCGORequestCommandAck_Serialize vt m"
| "Serialize vt (MSCGOCommandOutput m) = SCGOCommandOutput_Serialize vt m"

definition lift_read :: "('a \<Rightarrow> Message) \<Rightarrow> ('a \<times> 'o) res \<Rightarrow> (Message \<times> 'o) res" where
  "lift_read c r = bind_res r (\<lambda>(v, ob). Inr (c v, ob))"

text \<open>
  The local temporaries of the two loops over items are not initialised by the program;
  \<open>tmp1\<close> and \<open>tmp2\<close> are whatever they hold.
\<close>

fun Unserialize ::
  "'o ByteArray \<Rightarrow> SCGOCommandProjectItem \<Rightarrow> SCGOCommandOperateItem \<Rightarrow> Message \<Rightarrow> 'o \<Rightarrow> (Message \<times> 'o) res" where
  "Unserialize vt tmp1 tmp2 (MCSCheckServiceInfo m) = (\<lambda>ob. lift_read MCSCheckServiceInfo (CSCheckServiceInfo_Unserialize vt m ob))"
| "Unserialize vt tmp1 tmp2 (MSCCheckServiceInfoAck m) = (\<lambda>ob. lift_read MSCCheckServiceInfoAck (SCCheckServiceInfoAck_Unserialize vt m ob))"
| "Unserialize vt tmp1 tmp2 (MCSGORequestCommandList m) = (\<lambda>ob. lift_read MCSGORequestCommandList (CSGORequestCommandList_Unserialize vt m ob))"
| "Unserialize vt tmp1 tmp2 (MSCGOCommandProjectItem m) = (\<lambda>ob. lift_read MSCGOCommandProjectItem (SCGOCommandProjectItem_Unserialize vt m ob))"
| "Unserialize vt tmp1 tmp2 (MSCGOCommandOperateItem m) = (\<lambda>ob. lift_read MSCGOCommandOperateItem (SCGOCommandOperateItem_Unserialize vt m ob))"
| "Unserialize vt tmp1 tmp2 (MSCGORequestCommandListACK m) = (\<lambda>ob. lift_read MSCGORequestCommandListACK (SCGORequestCommandListACK_Unserialize vt tmp1 tmp2 m ob))"
| "Unserialize vt tmp1 tmp2 (MCSGORequestCommand m) = (\<lambda>ob. lift_read MCSGORequestCommand (CSGORequestCommand_Unserialize vt m ob))"
| "Unserialize vt tmp1 tmp2 (MSCGORequestCommandAck m) = (\<lambda>ob. lift_read MSCGORequestCommandAck (SCGORequestCommandAck_Unserialize vt m ob))"
| "Unserialize vt tmp1 tmp2 (MSCGOCommandOutput m) = (\<lambda>ob. lift_read MSCGOCommandOutput (SCGOCommandOutput_Unserialize vt m ob))"

text \<open>
  The registry. \<^verbatim>\<open>new X()\<close> value-initialises an object of a class without a constructor of its own:
  numbers are zero, strings and vectors empty. The describe objects are static, so their
  constructors have run, in the order of the file, before \<^verbatim>\<open>main\<close>.
\<close>

definition protocol_registry :: "Message registry" where
  "protocol_registry =
     Describe (str ''SCGOCommandOutput'') (MSCGOCommandOutput \<lparr>output_str_list = []\<rparr>)
     (Describe (str ''SCGORequestCommandAck'') (MSCGORequestCommandAck
        \<lparr>command_ack_project_type = 0, command_ack_operate_type = 0, command_ack_operate_result = 0\<rparr>)
     (Describe (str ''CSGORequestCommand'') (MCSGORequestCommand
        \<lparr>command_project_type = 0, command_operate_type = 0\<rparr>)
     (Describe (str ''SCGORequestCommandListACK'') (MSCGORequestCommandListACK
        \<lparr>lists_project_list = [], lists_operate_list = []\<rparr>)
     (Describe (str ''SCGOCommandOperateItem'') (MSCGOCommandOperateItem
        \<lparr>operate_operate_type = 0, operate_operate_name = [], operate_operate_describe = []\<rparr>)
     (Describe (str ''SCGOCommandProjectItem'') (MSCGOCommandProjectItem
        \<lparr>project_project_type = 0, project_project_name = []\<rparr>)
     (Describe (str ''CSGORequestCommandList'') (MCSGORequestCommandList
        \<lparr>list_project_list_type = 0\<rparr>)
     (Describe (str ''SCCheckServiceInfoAck'') (MSCCheckServiceInfoAck
        \<lparr>ack_service_type = 0, ack_ip_addr = [], ack_port = 0\<rparr>)
     (Describe (str ''CSCheckServiceInfo'') (MCSCheckServiceInfo
        \<lparr>check_service_type = 0\<rparr>) []))))))))"

lemma registered_class:
  assumes "CreateSerialize protocol_registry (GetTypeName m) = Some b"
  shows "GetTypeName b = GetTypeName m"
  using assms by (cases m) (auto simp: protocol_registry_def str_def)

section \<open>The wire format\<close>

text \<open>A message is the sequence of its typed values, vectors preceded by their size.\<close>

definition project_values :: "SCGOCommandProjectItem \<Rightarrow> ba_value list" where
  "project_values m = [VInt8 (project_project_type m), VString (project_project_name m)]"

definition operate_values :: "SCGOCommandOperateItem \<Rightarrow> ba_value list" where
  "operate_values m = [VInt8 (operate_operate_type m), VString (operate_operate_name m),
     VString (operate_operate_describe m)]"

fun values_of :: "Message \<Rightarrow> ba_value list" where
  "values_of (MCSCheckServiceInfo m) = [VInt16 (check_service_type m)]"
| "values_of (MSCCheckServiceInfoAck m) = [VInt16 (ack_service_type m), VString (ack_ip_addr m), VUint16 (ack_port m)]"
| "values_of (MCSGORequestCommandList m) = [VInt8 (list_project_list_type m)]"
| "values_of (MSCGOCommandProjectItem m) = project_values m"
| "values_of (MSCGOCommandOperateItem m) = operate_values m"
| "values_of (MSCGORequestCommandListACK m) =
     VUint16 (of_nat (length (lists_project_list m))) # concat (map project_values (lists_project_list m)) @
     VUint16 (of_nat (length (lists_operate_list m))) # concat (map operate_values (lists_operate_list m))"
| "values_of (MCSGORequestCommand m) = [VInt8 (command_project_type m), VInt8 (command_operate_type m)]"
| "values_of (MSCGORequestCommandAck m) =
     [VInt8 (command_ack_project_type m), VInt8 (command_ack_operate_type m), VInt8 (command_ack_operate_result m)]"
| "values_of (MSCGOCommandOutput m) =
     VUint16 (of_nat (length (output_str_list m))) # map VString (output_str_list m)"

fun sizes_ok :: "Message \<Rightarrow> bool" where
  "sizes_ok (MSCGORequestCommandListACK m) \<longleftrightarrow>
     length (lists_project_list m) \<le> 65535 \<and> length (lists_operate_list m) \<le> 65535"
| "sizes_ok (MSCGOCommandOutput m) \<longleftrightarrow> length (output_str_list m) \<le> 65535"
| "sizes_ok _ \<longleftrightarrow> True"

definition message_ok :: "(std_string \<Rightarrow> bool) \<Rightarrow> Message \<Rightarrow> bool" where
  "message_ok sok m \<longleftrightarrow> list_all (value_ok sok) (values_of m) \<and> sizes_ok m"

text \<open>No field is an \<^verbatim>\<open>int\<close> or a \<^verbatim>\<open>float\<close>, so every implementation of the interface carries the messages.\<close>

lemma message_carried: "message_ok sok m \<Longrightarrow> list_all (carried wide sok) (values_of m)"
  by (cases m) (auto simp: message_ok_def carried_def list_all_iff project_values_def operate_values_def)

section \<open>Composing readers and writers\<close>

text \<open>A writer that appends exactly \<open>bs\<close>, a reader that takes exactly \<open>bs\<close> and returns \<open>v\<close>.\<close>

definition encodes :: "('o, 'e) ba_view \<Rightarrow> 'e \<Rightarrow> ('o \<Rightarrow> 'o res) \<Rightarrow> byte list \<Rightarrow> bool" where
  "encodes V e wr bs \<longleftrightarrow> (\<forall>ob m. bv_invar V ob \<longrightarrow> bv_mode V ob = e \<longrightarrow> bv_fits V ob (length bs + m) \<longrightarrow>
     (\<exists>ob'. wr ob = Inr ob' \<and> bv_invar V ob' \<and> bv_mode V ob' = e \<and>
        bv_content V ob' = bv_content V ob @ bs \<and> bv_fits V ob' m))"

definition decodes :: "('o, 'e) ba_view \<Rightarrow> 'e \<Rightarrow> ('o \<Rightarrow> ('v \<times> 'o) res) \<Rightarrow> byte list \<Rightarrow> 'v \<Rightarrow> bool" where
  "decodes V e rd bs v \<longleftrightarrow> (\<forall>ob rest. bv_invar V ob \<longrightarrow> bv_mode V ob = e \<longrightarrow> bv_content V ob = bs @ rest \<longrightarrow>
     (\<exists>ob'. rd ob = Inr (v, ob') \<and> bv_invar V ob' \<and> bv_mode V ob' = e \<and> bv_content V ob' = rest))"

lemma encodes_bind:
  assumes "encodes V e w1 bs" and "encodes V e w2 cs"
  shows "encodes V e (\<lambda>ob. bind_res (w1 ob) w2) (bs @ cs)"
  unfolding encodes_def
proof (intro allI impI)
  fix ob m
  assume i: "bv_invar V ob" "bv_mode V ob = e" "bv_fits V ob (length (bs @ cs) + m)"
  then have "bv_fits V ob (length bs + (length cs + m))" by (simp add: add.assoc)
  with assms(1) i obtain ob1 where 1: "w1 ob = Inr ob1" "bv_invar V ob1" "bv_mode V ob1 = e"
    "bv_content V ob1 = bv_content V ob @ bs" "bv_fits V ob1 (length cs + m)"
    unfolding encodes_def by blast
  with assms(2) obtain ob2 where "w2 ob1 = Inr ob2" "bv_invar V ob2" "bv_mode V ob2 = e"
    "bv_content V ob2 = bv_content V ob1 @ cs" "bv_fits V ob2 m" unfolding encodes_def by blast
  with 1 show "\<exists>ob'. bind_res (w1 ob) w2 = Inr ob' \<and> bv_invar V ob' \<and> bv_mode V ob' = e \<and>
      bv_content V ob' = bv_content V ob @ bs @ cs \<and> bv_fits V ob' m" by simp
qed

lemma encodes_nil: "encodes V e Inr []"
  by (simp add: encodes_def)

lemma decodes_return: "v = w \<Longrightarrow> decodes V e (\<lambda>ob. Inr (v, ob)) [] w"
  by (simp add: decodes_def)

lemma decodes_bind:
  assumes "decodes V e rd bs v" and "decodes V e (f v) cs w"
  shows "decodes V e (\<lambda>ob. bind_res (rd ob) (\<lambda>(x, ob1). f x ob1)) (bs @ cs) w"
  unfolding decodes_def
proof (intro allI impI)
  fix ob rest
  assume i: "bv_invar V ob" "bv_mode V ob = e" "bv_content V ob = (bs @ cs) @ rest"
  from i(3) have "bv_content V ob = bs @ (cs @ rest)" by simp
  with i(1,2) assms(1) obtain ob1 where 1: "rd ob = Inr (v, ob1)" "bv_invar V ob1" "bv_mode V ob1 = e"
    "bv_content V ob1 = cs @ rest" unfolding decodes_def by blast
  with assms(2) obtain ob2 where "f v ob1 = Inr (w, ob2)" "bv_invar V ob2" "bv_mode V ob2 = e"
    "bv_content V ob2 = rest" unfolding decodes_def by blast
  with 1 show "\<exists>ob'. bind_res (rd ob) (\<lambda>(x, ob1). f x ob1) = Inr (w, ob') \<and> bv_invar V ob' \<and>
      bv_mode V ob' = e \<and> bv_content V ob' = rest" by simp
qed

lemma decodes_map: "decodes V e rd bs v \<Longrightarrow> decodes V e (\<lambda>ob. lift_read c (rd ob)) bs (c v)"
  using decodes_bind[OF _ decodes_return[OF refl], of V e rd bs v c] by (simp add: lift_read_def)

lemma encodes_all:
  "(\<And>x. x \<in> set xs \<Longrightarrow> encodes V e (wr x) (f x)) \<Longrightarrow> encodes V e (write_all wr xs) (concat (map f xs))"
proof (induction xs)
  case Nil
  then show ?case using encodes_nil[of V e] by (simp add: encodes_def)
next
  case (Cons x xs)
  then have "encodes V e (\<lambda>ob. bind_res (wr x ob) (write_all wr xs)) (f x @ concat (map f xs))"
    by (intro encodes_bind) auto
  then show ?case by (simp add: encodes_def)
qed

lemma decodes_push:
  "(\<And>x tmp. x \<in> set xs \<Longrightarrow> decodes V e (rd tmp) (f x) x) \<Longrightarrow>
   decodes V e (push_items rd (length xs) tmp acc) (concat (map f xs)) (acc @ xs)"
proof (induction xs arbitrary: tmp acc)
  case Nil
  then show ?case by (simp add: decodes_def)
next
  case (Cons x xs)
  have "decodes V e (rd tmp) (f x) x" using Cons.prems by simp
  moreover have "decodes V e (push_items rd (length xs) x (acc @ [x])) (concat (map f xs)) ((acc @ [x]) @ xs)"
    by (intro Cons.IH Cons.prems) simp
  ultimately have "decodes V e (\<lambda>ob. bind_res (rd tmp ob) (\<lambda>(y, ob1). push_items rd (length xs) y (acc @ [y]) ob1))
      (f x @ concat (map f xs)) ((acc @ [x]) @ xs)" by (rule decodes_bind)
  then show ?case by (simp add: decodes_def)
qed

section \<open>Writing a message\<close>

text \<open>Every \<open>Serialize\<close> is the sequence of the typed writes of its values, whatever the byte array.\<close>

lemma write_all_fun:
  "write_all wr [] = Inr"
  "write_all wr (x # xs) = (\<lambda>ob. bind_res (wr x ob) (write_all wr xs))"
  by (rule ext, simp)+

lemma bind_res_return [simp]: "bind_res m Inr = m"
  by (cases m) simp_all

lemma ba_write_fun:
  "ba_write vt (VInt8 a) = vt_WriteInt8 vt a" "ba_write vt (VInt16 a) = vt_WriteInt16 vt a"
  "ba_write vt (VUint16 b) = vt_WriteUint16 vt b" "ba_write vt (VString c) = vt_WriteString vt c"
  by (rule ext, simp)+

lemmas write_steps = write_all_fun ba_write_fun

lemma write_all_append:
  "write_all wr (xs @ ys) = (\<lambda>ob. bind_res (write_all wr xs ob) (write_all wr ys))"
  by (induction xs) (simp_all add: write_all_fun bind_res_assoc del: write_all.simps)

lemma write_all_concat:
  assumes "\<And>x. wx x = write_all wr (f x)"
  shows "write_all wx xs = write_all wr (concat (map f xs))"
  by (induction xs) (simp_all add: assms write_all_fun write_all_append del: write_all.simps)

lemma write_all_map: "write_all wr (map f xs) = write_all (\<lambda>x. wr (f x)) xs"
  by (induction xs) (simp_all add: write_all_fun del: write_all.simps)

lemma item_Serialize_values:
  "SCGOCommandProjectItem_Serialize vt m = write_all (ba_write vt) (project_values m)"
  "SCGOCommandOperateItem_Serialize vt k = write_all (ba_write vt) (operate_values k)"
  by (simp_all add: fun_eq_iff SCGOCommandProjectItem_Serialize_def project_values_def
      SCGOCommandOperateItem_Serialize_def operate_values_def write_steps del: write_all.simps ba_write.simps)

lemma Serialize_values: "Serialize vt m = write_all (ba_write vt) (values_of m)"
proof (cases m)
  case (MSCGORequestCommandListACK x6)
  then show ?thesis
    using write_all_concat[of "SCGOCommandProjectItem_Serialize vt" "ba_write vt" project_values,
        OF item_Serialize_values(1)]
      write_all_concat[of "SCGOCommandOperateItem_Serialize vt" "ba_write vt" operate_values,
        OF item_Serialize_values(2)]
    by (simp add: fun_eq_iff SCGORequestCommandListACK_Serialize_def write_steps write_all_append
        del: write_all.simps ba_write.simps)
qed (simp_all add: fun_eq_iff CSCheckServiceInfo_Serialize_def SCCheckServiceInfoAck_Serialize_def
    CSGORequestCommandList_Serialize_def item_Serialize_values CSGORequestCommand_Serialize_def
    SCGORequestCommandAck_Serialize_def SCGOCommandOutput_Serialize_def write_all_map write_steps
    del: write_all.simps ba_write.simps)

section \<open>Reading a message back\<close>

lemma decodes_read:
  assumes "codec V wr rd enc ok" and "ok v"
  shows "decodes V e rd (enc e v) v"
  using assms unfolding codec_def read_law_def decodes_def by metis

context byte_array
begin

abbreviation wire :: "'e \<Rightarrow> ba_value list \<Rightarrow> byte list" where
  "wire e vs \<equiv> enc_all (value_enc enc16 enc32 enc64) e vs"

lemmas decodes_reads =
  codec_Int8 [THEN decodes_read] codec_Int16 [THEN decodes_read] codec_Uint16 [THEN decodes_read]
  codec_String [THEN decodes_read]

lemma decodes_project:
  assumes "list_all (value_ok str_ok) (project_values m)"
  shows "decodes V e (SCGOCommandProjectItem_Unserialize vt tmp) (wire e (project_values m)) m"
proof -
  have "decodes V e (SCGOCommandProjectItem_Unserialize vt tmp)
      ([word_of_int (project_project_type m)] @
       (enc16 e (of_nat (length (project_project_name m))) @ project_project_name m) @ []) m"
    unfolding SCGOCommandProjectItem_Unserialize_def
    by (rule decodes_bind decodes_reads decodes_return | use assms in \<open>simp add: project_values_def\<close>)+
  then show ?thesis by (simp add: enc_all_def project_values_def)
qed

lemma decodes_operate:
  assumes "list_all (value_ok str_ok) (operate_values m)"
  shows "decodes V e (SCGOCommandOperateItem_Unserialize vt tmp) (wire e (operate_values m)) m"
proof -
  have "decodes V e (SCGOCommandOperateItem_Unserialize vt tmp)
      ([word_of_int (operate_operate_type m)] @
       (enc16 e (of_nat (length (operate_operate_name m))) @ operate_operate_name m) @
       (enc16 e (of_nat (length (operate_operate_describe m))) @ operate_operate_describe m) @ []) m"
    unfolding SCGOCommandOperateItem_Unserialize_def
    by (rule decodes_bind decodes_reads decodes_return | use assms in \<open>simp add: operate_values_def\<close>)+
  then show ?thesis by (simp add: enc_all_def operate_values_def)
qed

end

context byte_array
begin

lemma wire_concat: "wire e (concat (map f xs)) = concat (map (\<lambda>x. wire e (f x)) xs)"
  by (induction xs) (simp_all add: enc_all_def)

lemma decodes_lists:
  assumes "message_ok str_ok (MSCGORequestCommandListACK m)"
    and "lists_project_list b = []" and "lists_operate_list b = []"
  shows "decodes V e (SCGORequestCommandListACK_Unserialize vt tmp1 tmp2 b)
    (wire e (values_of (MSCGORequestCommandListACK m))) m"
proof -
  let ?ps = "lists_project_list m" and ?os = "lists_operate_list m"
  have l: "unat (of_nat (length ?ps) :: u16) = length ?ps" "unat (of_nat (length ?os) :: u16) = length ?os"
    using assms(1) by (auto simp: message_ok_def unat_of_nat)
  have p: "decodes V e (push_items (SCGOCommandProjectItem_Unserialize vt) (length ?ps) tmp1 [])
      (concat (map (\<lambda>x. wire e (project_values x)) ?ps)) ([] @ ?ps)"
    using assms(1) by (intro decodes_push decodes_project) (auto simp: message_ok_def list_all_iff)
  have o: "decodes V e (push_items (SCGOCommandOperateItem_Unserialize vt) (length ?os) tmp2 [])
      (concat (map (\<lambda>x. wire e (operate_values x)) ?os)) ([] @ ?os)"
    using assms(1) by (intro decodes_push decodes_operate) (auto simp: message_ok_def list_all_iff)
  have "decodes V e (SCGORequestCommandListACK_Unserialize vt tmp1 tmp2 b)
     (enc16 e (of_nat (length ?ps)) @ concat (map (\<lambda>x. wire e (project_values x)) ?ps) @
      enc16 e (of_nat (length ?os)) @ concat (map (\<lambda>x. wire e (operate_values x)) ?os) @ []) m"
    unfolding SCGORequestCommandListACK_Unserialize_def assms(2,3)
    by (rule decodes_bind decodes_reads TrueI)+ (unfold l, rule p, (rule decodes_bind decodes_reads TrueI)+,
        unfold l, rule o, rule decodes_return, simp)
  then show ?thesis by (simp add: enc_all_def wire_concat[unfolded enc_all_def])
qed

lemma decodes_output:
  assumes "message_ok str_ok (MSCGOCommandOutput m)" and "output_str_list b = []"
  shows "decodes V e (SCGOCommandOutput_Unserialize vt b) (wire e (values_of (MSCGOCommandOutput m))) m"
proof -
  let ?ss = "output_str_list m"
  have l: "unat (of_nat (length ?ss) :: u16) = length ?ss"
    using assms(1) by (auto simp: message_ok_def unat_of_nat)
  have p: "decodes V e (push_items (\<lambda>_. vt_ReadString vt) (length ?ss) [] [])
      (concat (map (\<lambda>s. enc16 e (of_nat (length s)) @ s) ?ss)) ([] @ ?ss)"
    using assms(1) by (intro decodes_push) (auto simp: message_ok_def list_all_iff intro: decodes_reads)
  have "decodes V e (SCGOCommandOutput_Unserialize vt b)
     (enc16 e (of_nat (length ?ss)) @ concat (map (\<lambda>s. enc16 e (of_nat (length s)) @ s) ?ss) @ []) m"
    unfolding SCGOCommandOutput_Unserialize_def assms(2)
    by (rule decodes_bind decodes_reads TrueI)+ (unfold l, rule p, rule decodes_return, simp)
  then show ?thesis by (simp add: enc_all_def comp_def)
qed

end

context byte_array
begin

lemma decodes_small:
  "message_ok str_ok (MCSCheckServiceInfo m1) \<Longrightarrow>
   decodes V e (CSCheckServiceInfo_Unserialize vt b1) (wire e (values_of (MCSCheckServiceInfo m1))) m1"
  "message_ok str_ok (MSCCheckServiceInfoAck m2) \<Longrightarrow>
   decodes V e (SCCheckServiceInfoAck_Unserialize vt b2) (wire e (values_of (MSCCheckServiceInfoAck m2))) m2"
  "message_ok str_ok (MCSGORequestCommandList m3) \<Longrightarrow>
   decodes V e (CSGORequestCommandList_Unserialize vt b3) (wire e (values_of (MCSGORequestCommandList m3))) m3"
  "message_ok str_ok (MCSGORequestCommand m4) \<Longrightarrow>
   decodes V e (CSGORequestCommand_Unserialize vt b4) (wire e (values_of (MCSGORequestCommand m4))) m4"
  "message_ok str_ok (MSCGORequestCommandAck m5) \<Longrightarrow>
   decodes V e (SCGORequestCommandAck_Unserialize vt b5) (wire e (values_of (MSCGORequestCommandAck m5))) m5"
  unfolding CSCheckServiceInfo_Unserialize_def SCCheckServiceInfoAck_Unserialize_def
    CSGORequestCommandList_Unserialize_def CSGORequestCommand_Unserialize_def
    SCGORequestCommandAck_Unserialize_def enc_all_def values_of.simps list.map concat.simps value_enc.simps
  by (rule decodes_bind decodes_reads decodes_return | simp add: message_ok_def)+

lemma decodes_items:
  "message_ok str_ok (MSCGOCommandProjectItem m1) \<Longrightarrow>
   decodes V e (SCGOCommandProjectItem_Unserialize vt b1) (wire e (values_of (MSCGOCommandProjectItem m1))) m1"
  "message_ok str_ok (MSCGOCommandOperateItem m2) \<Longrightarrow>
   decodes V e (SCGOCommandOperateItem_Unserialize vt b2) (wire e (values_of (MSCGOCommandOperateItem m2))) m2"
  by (simp_all add: message_ok_def decodes_project decodes_operate)

text \<open>A fresh object of the class of \<open>m\<close> reads \<open>m\<close> back from the bytes of its values.\<close>

theorem decodes_message:
  assumes "message_ok str_ok m" and "CreateSerialize protocol_registry (GetTypeName m) = Some b"
  shows "decodes V e (Unserialize vt tmp1 tmp2 b) (wire e (values_of m)) m"
  using assms
  by (cases m) (auto simp: protocol_registry_def str_def
   simp del: values_of.simps
   intro!: decodes_map decodes_small decodes_items decodes_lists decodes_output)

text \<open>Writing it into an empty array and reading it into a fresh object gives it back.\<close>

theorem message_roundtrip:
  assumes "bv_invar V ob" and "bv_content V ob = []" and "message_ok str_ok m"
    and "bv_fits V ob (length (wire (bv_mode V ob) (values_of m)))"
    and "CreateSerialize protocol_registry (GetTypeName m) = Some b"
  shows "\<exists>ob1 ob2. Serialize vt m ob = Inr ob1 \<and> bv_content V ob1 = wire (bv_mode V ob) (values_of m) \<and>
    Unserialize vt tmp1 tmp2 b ob1 = Inr (m, ob2) \<and> bv_content V ob2 = []"
proof -
  from write_lawD[OF write_all_law[OF ba_write_law] assms(1) message_carried[OF assms(3)], of 0] assms(2,4)
  obtain ob1 where 1: "Serialize vt m ob = Inr ob1" "bv_invar V ob1" "bv_mode V ob1 = bv_mode V ob"
    "bv_content V ob1 = wire (bv_mode V ob) (values_of m) @ []" by (auto simp: Serialize_values)
  with decodes_message[OF assms(3,5), of "bv_mode V ob" tmp1 tmp2] show ?thesis
    unfolding decodes_def by fastforce
qed

end

lemma class_registered: "\<exists>b. CreateSerialize protocol_registry (GetTypeName m) = Some b"
  by (cases m) (simp_all add: protocol_registry_def str_def)

section \<open>The protocol as a family of message classes\<close>

definition queue_wire :: "Endian \<Rightarrow> Message \<Rightarrow> byte list" where
  "queue_wire e m = enc_all (value_enc q_enc16 q_enc32 q_enc64) e (values_of m)"

definition queue_message_ok :: "Message \<Rightarrow> bool" where
  "queue_message_ok = message_ok (\<lambda>s. length s \<le> USHRT_MAX)"

text \<open>The package in which \<^verbatim>\<open>SendSerialize\<close> sends a message.\<close>

definition typed_package :: "Message \<Rightarrow> byte list" where
  "typed_package m = package_of (GetTypeName m) (queue_wire FW_LITTLE_ENDIAN m)"

definition protocol_vt ::
  "nat \<Rightarrow> SCGOCommandProjectItem \<Rightarrow> SCGOCommandOperateItem \<Rightarrow> Message serialize_vt" where
  "protocol_vt long_size tmp1 tmp2 =
     \<lparr>sv_GetTypeName = GetTypeName, sv_Serialize = Serialize (QueueByteArray_vt long_size),
      sv_Unserialize = Unserialize (QueueByteArray_vt long_size) tmp1 tmp2\<rparr>"

lemma queue_Serialize:
  assumes "queue_message_ok m"
  shows "\<exists>q'. Serialize (QueueByteArray_vt long_size) m q = Inr q' \<and> cur_endian q' = cur_endian q \<and>
    bytes_queue q' = bytes_queue q @ queue_wire (cur_endian q) m"
proof -
  from assms have "message_ok (\<lambda>s. length s \<le> USHRT_MAX) m" by (simp add: queue_message_ok_def)
  from write_lawD[OF write_all_law[OF qba.ba_write_law[of long_size]] _ message_carried[OF this], of q 0]
  show ?thesis by (auto simp: Serialize_values queue_wire_def)
qed

lemma queue_Unserialize:
  assumes "queue_message_ok m" and "CreateSerialize protocol_registry (GetTypeName m) = Some b"
    and "bytes_queue q = queue_wire (cur_endian q) m @ rest"
  shows "\<exists>q'. Unserialize (QueueByteArray_vt long_size) tmp1 tmp2 b q = Inr (m, q') \<and> bytes_queue q' = rest"
  using qba.decodes_message[where m = m and b = b and e = "cur_endian q" and long_size = long_size and ?tmp1.0 = tmp1 and ?tmp2.0 = tmp2] assms
  unfolding decodes_def queue_message_ok_def queue_wire_def by auto

interpretation protocol: serialize_classes "protocol_vt long_size tmp1 tmp2" protocol_registry queue_message_ok
    "queue_wire FW_LITTLE_ENDIAN" for long_size tmp1 tmp2
proof (unfold_locales, goal_cases)
  case (1 m)
  then show ?case by (cases m) (simp_all add: protocol_vt_def str_def)
next
  case (2 m)
  then show ?case using class_registered[of m] by (simp add: protocol_vt_def)
next
  case (3 m q)
  then show ?case using queue_Serialize[of m long_size q] by (auto simp: protocol_vt_def)
next
  case (4 m b q)
  then show ?case using queue_Unserialize[of m b q "[]" long_size tmp1 tmp2] by (auto simp: protocol_vt_def)
qed

text \<open>Reading from a queue is defined whatever it holds: missing bytes read as zero.\<close>

definition always_reads :: "('o \<Rightarrow> ('v \<times> 'o) res) \<Rightarrow> bool" where
  "always_reads rd \<longleftrightarrow> (\<forall>q. \<exists>v q'. rd q = Inr (v, q'))"

lemma always_reads_bind:
  "always_reads rd \<Longrightarrow> (\<And>v. always_reads (f v)) \<Longrightarrow> always_reads (\<lambda>q. bind_res (rd q) (\<lambda>(v, q1). f v q1))"
  unfolding always_reads_def by (metis (no_types, lifting) bind_res_Inr case_prod_conv)

lemma always_reads_return: "always_reads (\<lambda>q. Inr (v, q))"
  by (simp add: always_reads_def)

lemma always_reads_push: "(\<And>t. always_reads (rd t)) \<Longrightarrow> always_reads (push_items rd n tmp acc)"
proof (induction n arbitrary: tmp acc)
  case 0
  then show ?case by (simp add: always_reads_def)
next
  case (Suc n)
  have "push_items rd (Suc n) tmp acc = (\<lambda>q. bind_res (rd tmp q) (\<lambda>(t, q1). push_items rd n t (acc @ [t]) q1))"
    by (rule ext) simp
  then show ?case using Suc by (simp add: always_reads_bind)
qed

lemma queue_always_reads:
  "always_reads (vt_ReadInt8 (QueueByteArray_vt long_size))" "always_reads (vt_ReadInt16 (QueueByteArray_vt long_size))"
  "always_reads (vt_ReadUint16 (QueueByteArray_vt long_size))" "always_reads (vt_ReadString (QueueByteArray_vt long_size))"
  by (simp_all add: always_reads_def QueueByteArray_vt_def)

lemma queue_Unserialize_defined: "always_reads (Unserialize (QueueByteArray_vt long_size) tmp1 tmp2 b)"
  by (cases b) (auto simp: lift_read_def CSCheckServiceInfo_Unserialize_def SCCheckServiceInfoAck_Unserialize_def
      CSGORequestCommandList_Unserialize_def SCGOCommandProjectItem_Unserialize_def[abs_def]
      SCGOCommandOperateItem_Unserialize_def[abs_def] SCGORequestCommandListACK_Unserialize_def
      CSGORequestCommand_Unserialize_def SCGORequestCommandAck_Unserialize_def SCGOCommandOutput_Unserialize_def
      intro!: always_reads_bind queue_always_reads always_reads_return always_reads_push)

text \<open>On the target the static array writes what a little endian queue writes.\<close>

lemma static_queue_value:
  "value_enc (\<lambda>_. le_bytes 2) (\<lambda>_. le_bytes 4) (\<lambda>_. le_bytes 8) () v =
   value_enc q_enc16 q_enc32 q_enc64 FW_LITTLE_ENDIAN v"
  by (cases v) (simp_all add: q_enc16_le q_enc32_le q_enc64_le)

lemma static_value_ok: "value_ok static_str_ok v \<Longrightarrow> value_ok (\<lambda>s. length s \<le> USHRT_MAX) v"
  by (cases v) (simp_all add: static_str_ok_def USHRT_MAX_def)

section \<open>Properties\<close>

text \<open>
  C15: Every message of the protocol whose strings and vectors have at most 65535 elements and whose
  numbers are in the range of their types survives \<^verbatim>\<open>Serialize\<close> and \<^verbatim>\<open>Unserialize\<close>: the object that
  the registry creates for its name reads back exactly that message, in either byte order, and
  consumes exactly its bytes, leaving what follows. What the temporaries of the loops hold before
  (\<open>tmp1\<close>, \<open>tmp2\<close>) does not matter.
\<close>

theorem message_survives_queue:
  assumes "queue_message_ok m" and "bytes_queue q = []"
  shows "\<exists>b q1 q2. CreateSerialize protocol_registry (GetTypeName m) = Some b \<and>
    Serialize (QueueByteArray_vt long_size) m q = Inr q1 \<and>
    Unserialize (QueueByteArray_vt long_size) tmp1 tmp2 b (q1\<lparr>bytes_queue := bytes_queue q1 @ rest\<rparr>) = Inr (m, q2) \<and>
    bytes_queue q2 = rest"
proof -
  from class_registered obtain b where b: "CreateSerialize protocol_registry (GetTypeName m) = Some b" by blast
  from queue_Serialize[OF assms(1)] assms(2) obtain q1 where q1: "Serialize (QueueByteArray_vt long_size) m q = Inr q1"
    "cur_endian q1 = cur_endian q" "bytes_queue q1 = queue_wire (cur_endian q) m" by fastforce
  then show ?thesis
    using queue_Unserialize[OF assms(1) b, of "q1\<lparr>bytes_queue := bytes_queue q1 @ rest\<rparr>" rest long_size tmp1 tmp2] b
    by auto
qed

theorem message_survives_queue_witness:
  "\<exists>b q1 q2. CreateSerialize protocol_registry
      (GetTypeName (MSCCheckServiceInfoAck \<lparr>ack_service_type = -3, ack_ip_addr = [49, 50], ack_port = 8080\<rparr>)) = Some b \<and>
    Serialize (QueueByteArray_vt 8) (MSCCheckServiceInfoAck
      \<lparr>ack_service_type = -3, ack_ip_addr = [49, 50], ack_port = 8080\<rparr>) QueueByteArray_new = Inr q1 \<and>
    Unserialize (QueueByteArray_vt 8) \<lparr>project_project_type = 5, project_project_name = []\<rparr>
      \<lparr>operate_operate_type = 6, operate_operate_name = [], operate_operate_describe = [1]\<rparr> b
      (q1\<lparr>bytes_queue := bytes_queue q1 @ [99]\<rparr>) =
      Inr (MSCCheckServiceInfoAck \<lparr>ack_service_type = -3, ack_ip_addr = [49, 50], ack_port = 8080\<rparr>, q2) \<and>
    bytes_queue q2 = [99]"
  by (rule message_survives_queue)
    (simp_all add: queue_message_ok_def message_ok_def in_range_def USHRT_MAX_def QueueByteArray_new_def)

text \<open>
  C27: The two implementations of the interface write the same bytes: a message whose strings have no
  NUL and that fits in a \<^verbatim>\<open>StaticByteArray\<close> is stored there exactly as in a little endian
  \<^verbatim>\<open>QueueByteArray\<close>, and a fresh object reads it back from there too.
\<close>

theorem message_static_same_bytes:
  assumes "message_ok static_str_ok m" and "int (length (queue_wire FW_LITTLE_ENDIAN m)) \<le> MAX_MSG_LENGTH"
  shows "\<exists>b q1 s1 s2. CreateSerialize protocol_registry (GetTypeName m) = Some b \<and>
    Serialize (QueueByteArray_vt long_size) m QueueByteArray_new = Inr q1 \<and>
    Serialize StaticByteArray_vt m StaticByteArray_new = Inr s1 \<and>
    static_content s1 = bytes_queue q1 \<and>
    Unserialize StaticByteArray_vt tmp1 tmp2 b s1 = Inr (m, s2)"
proof -
  from class_registered obtain b where b: "CreateSerialize protocol_registry (GetTypeName m) = Some b" by blast
  have n: "has_write_length StaticByteArray_new = 0" by (simp add: StaticByteArray_new_def)
  have w: "enc_all (value_enc (\<lambda>_. le_bytes 2) (\<lambda>_. le_bytes 4) (\<lambda>_. le_bytes 8)) () (values_of m) =
      queue_wire FW_LITTLE_ENDIAN m"
    unfolding queue_wire_def enc_all_def by (rule arg_cong[where f = concat], rule map_cong[OF refl], rule static_queue_value)
  have "queue_message_ok m"
    using assms(1) by (auto simp: queue_message_ok_def message_ok_def list_all_iff static_value_ok)
  from queue_Serialize[OF this, of long_size QueueByteArray_new] obtain q1 where
    "Serialize (QueueByteArray_vt long_size) m QueueByteArray_new = Inr q1" "bytes_queue q1 = queue_wire FW_LITTLE_ENDIAN m"
    by (auto simp: QueueByteArray_new_def)
  moreover from sba.message_roundtrip[of StaticByteArray_new m b tmp1 tmp2] b assms w n
  obtain s1 s2 where "Serialize StaticByteArray_vt m StaticByteArray_new = Inr s1"
    "static_content s1 = queue_wire FW_LITTLE_ENDIAN m" "Unserialize StaticByteArray_vt tmp1 tmp2 b s1 = Inr (m, s2)"
    by auto
  ultimately show ?thesis using b by auto
qed

theorem message_static_same_bytes_witness:
  "\<exists>b q1 s1 s2. CreateSerialize protocol_registry
      (GetTypeName (MSCGOCommandOutput \<lparr>output_str_list = [[104, 105], []]\<rparr>)) = Some b \<and>
    Serialize (QueueByteArray_vt 8) (MSCGOCommandOutput \<lparr>output_str_list = [[104, 105], []]\<rparr>)
      QueueByteArray_new = Inr q1 \<and>
    Serialize StaticByteArray_vt (MSCGOCommandOutput \<lparr>output_str_list = [[104, 105], []]\<rparr>)
      StaticByteArray_new = Inr s1 \<and>
    static_content s1 = bytes_queue q1 \<and>
    Unserialize StaticByteArray_vt \<lparr>project_project_type = 5, project_project_name = []\<rparr>
      \<lparr>operate_operate_type = 6, operate_operate_name = [], operate_operate_describe = [1]\<rparr> b s1 =
      Inr (MSCGOCommandOutput \<lparr>output_str_list = [[104, 105], []]\<rparr>, s2)"
  by (rule message_static_same_bytes)
    (simp_all add: message_ok_def static_str_ok_def queue_wire_def enc_all_def MAX_MSG_LENGTH_def)

end
