(* ===== verification/Connections.thy ===== *)
theory Connections
  imports NetworkManager
begin

text \<open>
  The life of a connection between two network managers on Linux: the threads that listen and connect
  (\<^verbatim>\<open>ListenThread\<close>, \<^verbatim>\<open>ConnectThread\<close>), the events of their sockets, and what the managers know of a new
  connection. The loops of the two threads, which \<open>NetworkManager\<close> has one pass at a time, are put together here.
\<close>

section \<open>What the threads run\<close>

text \<open>
  The \<^verbatim>\<open>Run\<close> functions of the two kinds of task, up to the loops of \<^verbatim>\<open>ListenThread\<close> and \<^verbatim>\<open>ConnectThread\<close>, and what a started
  thread does: it runs the task its \<^verbatim>\<open>Thread\<close> object holds. \<^verbatim>\<open>SyncListen\<close> and \<^verbatim>\<open>SyncConnect\<close> set \<^verbatim>\<open>param_\<close> to their manager.
  \<open>x\<close> is the address of the socket object the thread creates and \<open>buff\<close> its buffer.
\<close>

fun manager_task_Run ::
  "listen_os \<Rightarrow> connect_os \<Rightarrow> nat \<Rightarrow> byte list \<Rightarrow> manager_task \<Rightarrow> NetworkManager \<Rightarrow> (NetworkManager \<times> callback list \<times> bool) res" where
  "manager_task_Run los cos x buff (NetworkManagerListenTask port) mgr = ListenThread_start los x buff port mgr"
| "manager_task_Run los cos x buff (NetworkManagerConnectTask ip port) mgr = ConnectThread_start cos x buff ip port mgr"

definition started_thread ::
  "listen_os \<Rightarrow> connect_os \<Rightarrow> nat \<Rightarrow> byte list \<Rightarrow> manager_task Thread \<Rightarrow> NetworkManager \<Rightarrow> (NetworkManager \<times> callback list \<times> bool) res" where
  "started_thread los cos x buff th mgr = (case cur_task th of
       None \<Rightarrow> Inr (mgr, [], False)
     | Some task \<Rightarrow> manager_task_Run los cos x buff task mgr)"

section \<open>The loops of the threads\<close>

text \<open>The descriptors that become ready, one after the other, until the loop is left.\<close>

fun ListenThread_loop ::
  "nat \<Rightarrow> Port \<Rightarrow> (epoll_event \<times> event_os) list \<Rightarrow> NetworkManager \<Rightarrow>
   (NetworkManager \<times> callback list \<times> os_action list \<times> bool) res" where
  "ListenThread_loop a port [] m = Inr (m, [], [], True)"
| "ListenThread_loop a port ((ev, os) # es) m =
     bind_res (ListenThread_event a port ev os m) (\<lambda>(m1, cbs1, acts1, go).
     if go then
       bind_res (ListenThread_loop a port es m1) (\<lambda>(m2, cbs2, acts2, go2). Inr (m2, cbs1 @ cbs2, acts1 @ acts2, go2))
     else Inr (m1, cbs1, acts1, False))"

fun ConnectThread_loop ::
  "nat \<Rightarrow> IPAddr \<Rightarrow> Port \<Rightarrow> (epoll_event \<times> read_result list) list option list \<Rightarrow> NetworkManager \<Rightarrow>
   (NetworkManager \<times> callback list \<times> os_action list \<times> bool) res" where
  "ConnectThread_loop c ip port [] m = Inr (m, [], [], True)"
| "ConnectThread_loop c ip port (w # ws) m =
     bind_res (ConnectThread_pass c ip port w m) (\<lambda>(m1, cbs1, acts1, go).
     if go then
       bind_res (ConnectThread_loop c ip port ws m1) (\<lambda>(m2, cbs2, acts2, go2). Inr (m2, cbs1 @ cbs2, acts1 @ acts2, go2))
     else Inr (m1, cbs1, acts1, False))"

section \<open>A new connection\<close>

lemma register_accept_one:
  assumes "\<forall>b \<in> set bs. \<exists>acc. accepts m b = Some acc \<and> SocketAccept_CheckOnHandle (remote_ip_addr e) (remote_port e) acc = (b = a)"
    and "distinct bs"
  shows "register_accept bs i e m = Inr (if a \<in> set bs
    then register_endpoint i e (m\<lparr>net_id_to_accept := (net_id_to_accept m)(i \<mapsto> a)\<rparr>) else m)"
  using assms
proof (induction bs arbitrary: m)
  case (Cons b bs)
  define m1 where "m1 = (if b = a then register_endpoint i e (m\<lparr>net_id_to_accept := (net_id_to_accept m)(i \<mapsto> a)\<rparr>) else m)"
  have "accepts m1 = accepts m" by (simp add: m1_def register_endpoint_def)
  with Cons have "register_accept bs i e m1 = Inr (if a \<in> set bs
      then register_endpoint i e (m1\<lparr>net_id_to_accept := (net_id_to_accept m1)(i \<mapsto> a)\<rparr>) else m1)" by simp
  moreover have "register_accept (b # bs) i e m = register_accept bs i e m1" using Cons.prems(1) by (auto simp: m1_def)
  ultimately show ?case using Cons.prems(2) by (auto simp: m1_def)
qed simp

lemma register_connect_one:
  assumes "\<forall>b \<in> set bs. \<exists>con. connects m b = Some con \<and> SocketConnect_CheckOnHandle (remote_ip_addr e) (remote_port e) con = (b = c)"
    and "distinct bs"
  shows "register_connect bs i e m = Inr (if c \<in> set bs
    then register_endpoint i e (m\<lparr>net_id_to_connect := (net_id_to_connect m)(i \<mapsto> c)\<rparr>) else m)"
  using assms
proof (induction bs arbitrary: m)
  case (Cons b bs)
  define m1 where "m1 = (if b = c then register_endpoint i e (m\<lparr>net_id_to_connect := (net_id_to_connect m)(i \<mapsto> c)\<rparr>) else m)"
  have "connects m1 = connects m" by (simp add: m1_def register_endpoint_def)
  with Cons have "register_connect bs i e m1 = Inr (if c \<in> set bs
      then register_endpoint i e (m1\<lparr>net_id_to_connect := (net_id_to_connect m1)(i \<mapsto> c)\<rparr>) else m1)" by simp
  moreover have "register_connect (b # bs) i e m = register_connect bs i e m1" using Cons.prems(1) by (auto simp: m1_def)
  ultimately show ?case using Cons.prems(2) by (auto simp: m1_def)
qed simp

text \<open>
  What a manager knows and announces after a connection was entered under a new number, in either mode: the
  call is made, or its task is at the end of the queue.
\<close>

definition announced :: "(nat \<Rightarrow> callback) \<Rightarrow> NetworkManager \<Rightarrow> NetworkManager \<Rightarrow> callback list \<Rightarrow> bool" where
  "announced cb m m' cbs \<longleftrightarrow> single_thread_handle_mode m' = single_thread_handle_mode m \<and> handler_list m' = handler_list m \<and>
     (if single_thread_handle_mode m
      then cbs = [] \<and> queue_ok m' \<and> (\<exists>t. queued m' = queued m @ [t] \<and> task_calls (handler_list m) t = map cb (handler_list m))
      else cbs = map cb (handler_list m))"

lemma announced_cong:
  "handler_list n = handler_list m \<Longrightarrow> single_thread_handle_mode n = single_thread_handle_mode m \<Longrightarrow> queued n = queued m \<Longrightarrow>
   announced cb n m' cbs = announced cb m m' cbs"
  by (simp only: announced_def)

lemma announced_connects: "announced cb m (m'\<lparr>connects := C\<rparr>) cbs = announced cb m m' cbs"
  by (simp add: announced_def queue_ok_def queued_def)

lemma task_calls_plain:
  "task_calls hs (NetworkHandleTask_new\<lparr>task_type := ON_ACCEPT, task_net_id := i, task_remote_ip := ip,
      task_remote_port := port, task_local_port := lport\<rparr>) = map (\<lambda>h. CbAccept h ip port lport i) hs"
  "task_calls hs (NetworkHandleTask_new\<lparr>task_type := ON_CONNECT, task_remote_ip := ip, task_remote_port := port,
      task_local_port := lport, task_net_id := i\<rparr>) = map (\<lambda>h. CbConnect h ip port lport True i) hs"
  "task_good (NetworkHandleTask_new\<lparr>task_type := ty, task_net_id := i, task_remote_ip := ip,
      task_remote_port := port, task_local_port := lport\<rparr>)"
  by (simp_all add: task_calls_def task_callbacks_def task_good_def NetworkHandleTask_new_def)

lemma announce:
  assumes "single_thread_handle_mode m \<longrightarrow> queue_ok m" and "queue_frame m m2" and "task_good t"
    and "task_calls (handler_list m) t = map cb (handler_list m)"
  shows "\<exists>m' cbs. (if single_thread_handle_mode m2 then bind_res (post_task t m2) (\<lambda>m3. Inr (m3, []))
      else Inr (m2, map cb (handler_list m2))) = Inr (m', cbs) \<and> announced cb m m' cbs \<and> core m' = core m2"
proof (cases "single_thread_handle_mode m")
  case True
  with assms(1) have q: "queue_ok m" by simp
  note 2 = queue_frameD[OF assms(2)]
  from post_task_law[OF 2(1)[OF q] assms(3)] obtain m' where p: "post_task t m2 = Inr m'" "queue_ok m'" "queued m' = queued m2 @ [t]"
    "core m' = core m2" "single_thread_handle_mode m' = single_thread_handle_mode m2" by blast
  have "handler_list m' = handler_list m2" using p(4) core_simps(1) by metis
  with p 2(2-4) True assms(4) have "announced cb m m' []" by (simp add: announced_def)
  with p(1,4) 2(3) True show ?thesis by simp
next
  case False
  with assms(2) show ?thesis by (auto simp: announced_def queue_frame_def)
qed

lemma OnAccept_registers:
  assumes "GetFreeNetID m = Inr (i, m1)" and "single_thread_handle_mode m \<longrightarrow> queue_ok m"
    and "\<forall>b \<in> set (accept_list m). \<exists>acc. accepts m b = Some acc \<and> SocketAccept_CheckOnHandle ip port acc = (b = a)"
    and "distinct (accept_list m)" and "a \<in> set (accept_list m)"
  shows "\<exists>m' cbs. OnAccept ip port lport m = Inr (m', cbs) \<and> announced (\<lambda>h. CbAccept h ip port lport i) m m' cbs \<and>
    core m' = register_endpoint i \<lparr>remote_ip_addr = ip, remote_port = port, local_port = lport\<rparr>
      ((core m1)\<lparr>net_id_to_accept := (net_id_to_accept m)(i \<mapsto> a)\<rparr>)"
proof -
  define e where "e = \<lparr>remote_ip_addr = ip, remote_port = port, local_port = lport\<rparr>"
  have m1: "accept_list m1 = accept_list m" "accepts m1 = accepts m" "net_id_to_accept m1 = net_id_to_accept m" "queue_frame m m1"
    using assms(1) by (auto simp: GetFreeNetID_def queue_frame_def bind_res_eq_Inr split: list.splits)
  define m2 where "m2 = register_endpoint i e (m1\<lparr>net_id_to_accept := (net_id_to_accept m)(i \<mapsto> a)\<rparr>)"
  have r: "register_accept (accept_list m1) i e m1 = Inr m2"
    using register_accept_one[of "accept_list m1" m1 e a i] assms(3-5) m1 by (simp add: e_def m2_def)
  have "queue_frame m m2" using m1(4) by (simp add: m2_def queue_frame_def register_endpoint_def)
  from announce[OF assms(2) this task_calls_plain(3) task_calls_plain(1)] obtain m' cbs where
    "(if single_thread_handle_mode m2 then bind_res (post_task (NetworkHandleTask_new\<lparr>task_type := ON_ACCEPT, task_net_id := i,
         task_remote_ip := ip, task_remote_port := port, task_local_port := lport\<rparr>) m2) (\<lambda>m3. Inr (m3, []))
       else Inr (m2, map (\<lambda>h. CbAccept h ip port lport i) (handler_list m2))) = Inr (m', cbs)"
    "announced (\<lambda>h. CbAccept h ip port lport i) m m' cbs" "core m' = core m2" by blast
  moreover have "core m2 = register_endpoint i e ((core m1)\<lparr>net_id_to_accept := (net_id_to_accept m)(i \<mapsto> a)\<rparr>)"
    by (simp add: m2_def)
  ultimately show ?thesis using assms(1) r by (simp add: OnAccept_def flip: e_def)
qed

lemma OnConnect_registers:
  assumes "GetFreeNetID m = Inr (i, m1)" and "single_thread_handle_mode m \<longrightarrow> queue_ok m"
    and "\<forall>b \<in> set (connect_list m). \<exists>con. connects m b = Some con \<and> SocketConnect_CheckOnHandle ip port con = (b = c)"
    and "distinct (connect_list m)" and "c \<in> set (connect_list m)"
  shows "\<exists>m' cbs. OnConnect ip port lport m = Inr (m', cbs) \<and> announced (\<lambda>h. CbConnect h ip port lport True i) m m' cbs \<and>
    core m' = register_endpoint i \<lparr>remote_ip_addr = ip, remote_port = port, local_port = lport\<rparr>
      ((core m1)\<lparr>net_id_to_connect := (net_id_to_connect m)(i \<mapsto> c)\<rparr>)"
proof -
  define e where "e = \<lparr>remote_ip_addr = ip, remote_port = port, local_port = lport\<rparr>"
  have m1: "connect_list m1 = connect_list m" "connects m1 = connects m" "net_id_to_connect m1 = net_id_to_connect m" "queue_frame m m1"
    using assms(1) by (auto simp: GetFreeNetID_def queue_frame_def bind_res_eq_Inr split: list.splits)
  define m2 where "m2 = register_endpoint i e (m1\<lparr>net_id_to_connect := (net_id_to_connect m)(i \<mapsto> c)\<rparr>)"
  have r: "register_connect (connect_list m1) i e m1 = Inr m2"
    using register_connect_one[of "connect_list m1" m1 e c i] assms(3-5) m1 by (simp add: e_def m2_def)
  have "queue_frame m m2" using m1(4) by (simp add: m2_def queue_frame_def register_endpoint_def)
  moreover have "task_good (NetworkHandleTask_new\<lparr>task_type := ON_CONNECT, task_remote_ip := ip, task_remote_port := port,
      task_local_port := lport, task_net_id := i\<rparr>)" by (simp add: task_good_def NetworkHandleTask_new_def)
  ultimately obtain m' cbs where
    "(if single_thread_handle_mode m2 then bind_res (post_task (NetworkHandleTask_new\<lparr>task_type := ON_CONNECT, task_remote_ip := ip,
         task_remote_port := port, task_local_port := lport, task_net_id := i\<rparr>) m2) (\<lambda>m3. Inr (m3, []))
       else Inr (m2, map (\<lambda>h. CbConnect h ip port lport True i) (handler_list m2))) = Inr (m', cbs)"
    "announced (\<lambda>h. CbConnect h ip port lport True i) m m' cbs" "core m' = core m2"
    using announce[OF assms(2) _ _ task_calls_plain(2)] by blast
  moreover have "core m2 = register_endpoint i e ((core m1)\<lparr>net_id_to_connect := (net_id_to_connect m)(i \<mapsto> c)\<rparr>)"
    by (simp add: m2_def)
  ultimately show ?thesis using assms(1) r by (simp add: OnConnect_def flip: e_def)
qed


lemma GetFreeNetID_sockets:
  "GetFreeNetID m = Inr (i, m1) \<Longrightarrow> GetFreeNetID (m\<lparr>accepts := A\<rparr>) = Inr (i, m1\<lparr>accepts := A\<rparr>)"
  "GetFreeNetID m = Inr (i, m1) \<Longrightarrow>
     GetFreeNetID (m\<lparr>connect_list := cs, connects := C\<rparr>) = Inr (i, m1\<lparr>connect_list := cs, connects := C\<rparr>)"
  by (auto simp: GetFreeNetID_def bind_res_eq_Inr split: list.splits)

lemma GetFreeNetID_frame:
  assumes "GetFreeNetID m = Inr (i, m1)"
  shows "packager m1 = packager m" "net_id_to_connect m1 = net_id_to_connect m" "net_id_to_accept m1 = net_id_to_accept m"
    "accepts m1 = accepts m" "connects m1 = connects m" "accept_list m1 = accept_list m" "connect_list m1 = connect_list m"
    "handler_list m1 = handler_list m"
  using assms by (auto simp: GetFreeNetID_def bind_res_eq_Inr split: list.splits)

text \<open>The view of a connection does not depend on the mode and the queue.\<close>

lemma accepted_core: "accepted (core m) i fd = accepted m i fd"
  by (simp add: accepted_def)

lemma connected_core: "connected (core m) i fd = connected m i fd"
  by (simp add: connected_def)

lemma writable_core: "writable (core m) i fd = writable m i fd"
  by (simp add: writable_def accepted_core connected_core)

text \<open>A number nothing is known about yet.\<close>

definition unused_number :: "NetworkID \<Rightarrow> NetworkManager \<Rightarrow> bool" where
  "unused_number i m \<longleftrightarrow> 0 < i \<and> net_id_to_accept m i = None \<and> net_id_to_connect m i = None \<and> has_net_manager (packager m) \<and>
     holds (net_id_to_buffer_map (packager m) i) []"

definition accept_succeeds :: "epoll_event \<Rightarrow> event_os \<Rightarrow> SocketAccept \<Rightarrow> bool" where
  "accept_succeeds ev os acc \<longleftrightarrow> ev_fd ev = acc_local_sock acc \<and> os_accept os \<noteq> -1 \<and> 0 \<le> os_getfl os \<and> 0 \<le> os_setfl os \<and>
     os_add os \<noteq> -1 \<and> fresh_peer os acc"

lemma ListenThread_accepts:
  assumes acc: "accepts m a = Some acc" "accept_reachable acc" "acc_handler acc" "accept_succeeds ev os acc"
    and others: "\<forall>b \<in> set (accept_list m). b \<noteq> a \<longrightarrow>
      (\<exists>acc'. accepts m b = Some acc' \<and> \<not> SocketAccept_CheckOnHandle (os_peer_ip os) (os_peer_port os) acc')"
    and list: "distinct (accept_list m)" "a \<in> set (accept_list m)"
    and num: "GetFreeNetID m = Inr (i, m1)" "unused_number i m" and mode: "single_thread_handle_mode m \<longrightarrow> queue_ok m"
  shows "\<exists>m' cbs acc'. ListenThread_event a port ev os m = Inr (m', cbs, [OsEpollAdd (os_accept os)], True) \<and>
    announced (\<lambda>h. CbAccept h (os_peer_ip os) (os_peer_port os) (acc_local_port acc) i) m m' cbs \<and> accepted m' i (os_accept os) \<and>
    receiving (core m') (os_peer_ip os) (os_peer_port os) (acc_local_port acc) i \<and>
    accepts m' a = Some acc' \<and> accept_reachable acc' \<and> acc_buff acc' = acc_buff acc \<and> acc_handler acc' \<and> acc_local_sock acc' = acc_local_sock acc \<and>
    sock_endpoint_map acc' (os_accept os) =
      Some \<lparr>remote_ip_addr = os_peer_ip os, remote_port = os_peer_port os, local_port = acc_local_port acc\<rparr>"
proof -
  define e where "e = \<lparr>remote_ip_addr = os_peer_ip os, remote_port = os_peer_port os, local_port = acc_local_port acc\<rparr>"
  define acc' where "acc' = acc\<lparr>sock_endpoint_map := (sock_endpoint_map acc)(os_accept os \<mapsto> e),
      endpoint_sock_map := map_put Endpoint_less e (os_accept os) (endpoint_sock_map acc)\<rparr>"
  have ev: "SocketAccept_event ev os acc = Inr (acc', [EvAccept (os_peer_ip os) (os_peer_port os) (acc_local_port acc)],
      [OsEpollAdd (os_accept os)], True)"
    using acc(3,4) by (simp add: SocketAccept_event_def accept_succeeds_def Let_def acc'_def e_def)
  have r: "accept_reachable acc'"
    by (rule accept_reachable.event[OF acc(2) _ ev]) (use acc(4) in \<open>simp add: accept_succeeds_def\<close>)
  define n where "n = m\<lparr>accepts := (accepts m)(a \<mapsto> acc')\<rparr>"
  have n: "accept_list n = accept_list m" "net_id_to_accept n = net_id_to_accept m" "handler_list n = handler_list m"
    "single_thread_handle_mode n = single_thread_handle_mode m" "queue_ok n = queue_ok m" "queued n = queued m"
    by (simp_all add: n_def queue_ok_def queued_def)
  have self: "SocketAccept_CheckOnHandle (os_peer_ip os) (os_peer_port os) acc'"
    by (simp add: SocketAccept_CheckOnHandle_def acc'_def e_def endpoint_keys.find_put)
  have "\<forall>b \<in> set (accept_list n). \<exists>acc. accepts n b = Some acc \<and>
      SocketAccept_CheckOnHandle (os_peer_ip os) (os_peer_port os) acc = (b = a)"
  proof
    fix b assume "b \<in> set (accept_list n)"
    then show "\<exists>acc. accepts n b = Some acc \<and> SocketAccept_CheckOnHandle (os_peer_ip os) (os_peer_port os) acc = (b = a)"
      using others self by (cases "b = a") (auto simp: n_def)
  qed
  from OnAccept_registers[OF GetFreeNetID_sockets(1)[OF num(1), of "(accepts m)(a \<mapsto> acc')", folded n_def] _ this, of "acc_local_port acc"] list mode n
  obtain m' cbs where m': "OnAccept (os_peer_ip os) (os_peer_port os) (acc_local_port acc) n = Inr (m', cbs)"
    "announced (\<lambda>h. CbAccept h (os_peer_ip os) (os_peer_port os) (acc_local_port acc) i) n m' cbs"
    "core m' = register_endpoint i e ((core (m1\<lparr>accepts := (accepts m)(a \<mapsto> acc')\<rparr>))\<lparr>net_id_to_accept := (net_id_to_accept n)(i \<mapsto> a)\<rparr>)"
    by (auto simp: e_def)
  have "ListenThread_event a port ev os m = Inr (m', cbs, [OsEpollAdd (os_accept os)], True)"
    using acc(1) ev m'(1) by (simp add: ListenThread_event_def flip: n_def)
  moreover have "announced (\<lambda>h. CbAccept h (os_peer_ip os) (os_peer_port os) (acc_local_port acc) i) m m' cbs"
    using m'(2) announced_cong[OF n(3,4,6)] by simp
  moreover have "accepted (core m') i (os_accept os)"
    using num(2) GetFreeNetID_frame[OF num(1)] r
    unfolding m'(3) by (simp add: accepted_def register_endpoint_def core_def unused_number_def) (simp add: acc'_def)
  moreover have "receiving (core m') (os_peer_ip os) (os_peer_port os) (acc_local_port acc) i"
    using num(2) GetFreeNetID_frame[OF num(1)]
    unfolding m'(3) by (simp add: receiving_after_def register_endpoint_def core_def unused_number_def endpoint_keys.find_put e_def)
  moreover have "accepts (core m') a = Some acc'" unfolding m'(3) by (simp add: register_endpoint_def core_def)
  ultimately show ?thesis
    using acc(3) r by (auto simp: accepted_core acc'_def simp flip: e_def)
qed

definition connect_succeeds :: "connect_os \<Rightarrow> bool" where
  "connect_succeeds os \<longleftrightarrow> 0 \<le> co_socket os \<and> co_connect os \<noteq> -1 \<and> 0 \<le> co_getfl os \<and> 0 \<le> co_setfl os \<and>
     co_epoll_create os \<noteq> -1 \<and> co_epoll_ctl os \<noteq> -1"

lemma ConnectThread_connects:
  assumes con: "connect_succeeds os" "c \<notin> set (connect_list m)" "sorted (connect_list m)" "distinct (connect_list m)"
    and others: "\<forall>b \<in> set (connect_list m). \<exists>con. connects m b = Some con \<and> \<not> SocketConnect_CheckOnHandle ip port con"
    and num: "GetFreeNetID m = Inr (i, m1)" "unused_number i m" and mode: "single_thread_handle_mode m \<longrightarrow> queue_ok m"
  shows "\<exists>m' cbs con. ConnectThread_start os c buff ip port m = Inr (m', cbs, True) \<and>
    announced (\<lambda>h. CbConnect h ip port (co_sockname_port os) True i) m m' cbs \<and> connected m' i (co_socket os) \<and>
    receiving (core m') ip port (co_sockname_port os) i \<and>
    connects m' c = Some con \<and> con_buff con = buff \<and> con_handler con \<and> running con \<and> con_remote_ip con = ip \<and>
    con_remote_port con = port \<and> con_local_port con = co_sockname_port os"
proof -
  define con where "con = (SocketConnect_new buff)\<lparr>con_handler := True, con_local_sock := co_socket os,
    con_local_port := co_sockname_port os, con_epoll_fd := co_epoll_create os, con_remote_ip := ip, con_remote_port := port\<rparr>"
  define e where "e = \<lparr>remote_ip_addr = ip, remote_port = port, local_port = co_sockname_port os\<rparr>"
  have o: "SocketConnect_open os ip port (SocketConnect_ResetHandler True (SocketConnect_new buff)) = (True, con)"
    "SocketConnect_connected con = [EvConnect ip port (co_sockname_port os)]"
    "SocketConnect_enter_loop os con = (True, con\<lparr>running := True\<rparr>)"
    using con(1) by (simp_all add: SocketConnect_open_def SocketConnect_ResetHandler_def SocketConnect_new_def con_def
        connect_succeeds_def SocketConnect_connected_def SocketConnect_enter_loop_def)
  define n where "n = m\<lparr>connect_list := insort c (connect_list m), connects := (connects m)(c \<mapsto> con)\<rparr>"
  have n: "net_id_to_connect n = net_id_to_connect m" "handler_list n = handler_list m"
    "single_thread_handle_mode n = single_thread_handle_mode m" "queue_ok n = queue_ok m" "queued n = queued m"
    by (simp_all add: n_def queue_ok_def queued_def)
  have "\<forall>b \<in> set (connect_list n). \<exists>con. connects n b = Some con \<and> SocketConnect_CheckOnHandle ip port con = (b = c)"
    using others con(2) by (auto simp: n_def set_insort_key SocketConnect_CheckOnHandle_def con_def)
  moreover have "distinct (connect_list n)" "c \<in> set (connect_list n)"
    using con(2,4) by (simp_all add: n_def distinct_insort set_insort_key)
  ultimately obtain m' cbs where m': "OnConnect ip port (co_sockname_port os) n = Inr (m', cbs)"
    "announced (\<lambda>h. CbConnect h ip port (co_sockname_port os) True i) n m' cbs"
    "core m' = register_endpoint i e ((core (m1\<lparr>connect_list := insort c (connect_list m), connects := (connects m)(c \<mapsto> con)\<rparr>))
       \<lparr>net_id_to_connect := (net_id_to_connect n)(i \<mapsto> c)\<rparr>)"
    using OnConnect_registers[OF GetFreeNetID_sockets(2)[OF num(1), where cs = "insort c (connect_list m)" and C = "(connects m)(c \<mapsto> con)", folded n_def],
        of ip port c "co_sockname_port os"] mode n by (auto simp: e_def)
  define m2 where "m2 = m'\<lparr>connects := (connects m')(c \<mapsto> con\<lparr>running := True\<rparr>)\<rparr>"
  have c2: "core m2 = (core m')\<lparr>connects := (connects (core m'))(c \<mapsto> con\<lparr>running := True\<rparr>)\<rparr>" by (simp add: m2_def core_def)
  have "ConnectThread_start os c buff ip port m = Inr (m2, cbs, True)"
    using o m'(1) by (simp add: ConnectThread_start_def m2_def flip: n_def)
  moreover have "announced (\<lambda>h. CbConnect h ip port (co_sockname_port os) True i) m m2 cbs"
    using m'(2) announced_cong[OF n(2,3,5)] by (simp add: m2_def announced_connects)
  moreover have "connected (core m2) i (co_socket os)"
    using num(2) GetFreeNetID_frame[OF num(1)]
    unfolding c2 m'(3) by (simp add: connected_def register_endpoint_def core_def unused_number_def) (simp add: con_def)
  moreover have "receiving (core m2) ip port (co_sockname_port os) i"
    using num(2) GetFreeNetID_frame[OF num(1)]
    unfolding c2 m'(3) by (simp add: receiving_after_def register_endpoint_def core_def unused_number_def endpoint_keys.find_put e_def)
  ultimately show ?thesis by (auto simp: connected_core) (simp add: m2_def con_def SocketConnect_new_def)
qed


section \<open>Receiving\<close>

text \<open>A readable descriptor whose reads give something and never fill the buffer.\<close>

definition readable :: "int \<Rightarrow> epoll_event \<Rightarrow> read_result list \<Rightarrow> bool" where
  "readable fd ev rs \<longleftrightarrow> ev_fd ev = fd \<and> \<not> ev_out ev \<and> ev_in ev \<and> pieces rs \<noteq> [] \<and>
     (\<forall>bs \<in> set (pieces rs). int (length bs) < MAX_SOCKET_MSG_BUFF_LENGTH)"

lemma ListenThread_reads:
  assumes "accepts m a = Some acc" and "int (length (acc_buff acc)) = MAX_SOCKET_MSG_BUFF_LENGTH" and "acc_handler acc"
    and "sock_endpoint_map acc fd = Some e" and "fd \<noteq> acc_local_sock acc"
    and "\<not> single_thread_handle_mode m" and "map_find Endpoint_less e (endpoint_to_net_id_map m) = Some i"
    and "unpack_all (packager m) i (concat (map (\<lambda>(ev, os). pieces (os_reads os)) es)) = Inr (pk, ts)"
    and "\<forall>(ev, os) \<in> set es. readable fd ev (os_reads os)" and "accept_reachable acc"
  shows "\<exists>buff. ListenThread_loop a port es m =
      Inr (m\<lparr>packager := pk, accepts := (accepts m)(a \<mapsto> acc\<lparr>acc_buff := buff\<rparr>)\<rparr>, recv_calls (handler_list m) ts, [], True) \<and>
    int (length buff) = MAX_SOCKET_MSG_BUFF_LENGTH \<and> accept_reachable (acc\<lparr>acc_buff := buff\<rparr>)"
  using assms
proof (induction es arbitrary: m acc ts)
  case Nil
  then show ?case by (intro exI[of _ "acc_buff acc"]) (simp add: recv_calls_def fun_upd_idem)
next
  case (Cons x es)
  obtain ev os where x: "x = (ev, os)" by fastforce
  with Cons.prems(9) have r: "readable fd ev (os_reads os)" "\<forall>(ev, os) \<in> set es. readable fd ev (os_reads os)" by auto
  from Cons.prems(8) x obtain pk1 t1 t2 where
    u: "unpack_all (packager m) i (pieces (os_reads os)) = Inr (pk1, t1)"
      "unpack_all pk1 i (concat (map (\<lambda>(ev, os). pieces (os_reads os)) es)) = Inr (pk, t2)" "ts = t1 @ t2"
    by (auto simp: unpack_all_append bind_res_eq_Inr)
  from accept_event_pieces[OF Cons.prems(2), of os ev e] Cons.prems(3-5) r(1) obtain b where
    b: "SocketAccept_event ev os acc = Inr (acc\<lparr>acc_buff := b\<rparr>,
        map (EvRecv (remote_ip_addr e) (remote_port e) (local_port e)) (pieces (os_reads os)), [], True)"
      "int (length b) = MAX_SOCKET_MSG_BUFF_LENGTH" by (auto simp: readable_def)
  have ra: "accept_reachable (acc\<lparr>acc_buff := b\<rparr>)"
    by (rule accept_reachable.event[OF Cons.prems(10) _ b(1)]) (use r(1) Cons.prems(5) in \<open>simp add: readable_def\<close>)
  define m1 where "m1 = m\<lparr>accepts := (accepts m)(a \<mapsto> acc\<lparr>acc_buff := b\<rparr>), packager := pk1\<rparr>"
  have m1: "accepts m1 a = Some (acc\<lparr>acc_buff := b\<rparr>)" "packager m1 = pk1" "handler_list m1 = handler_list m"
    "endpoint_to_net_id_map m1 = endpoint_to_net_id_map m" "single_thread_handle_mode m1 = single_thread_handle_mode m"
    by (simp_all add: m1_def)
  have "\<lparr>remote_ip_addr = remote_ip_addr e, remote_port = remote_port e, local_port = local_port e\<rparr> = e" by simp
  with handle_pieces_direct[of "m\<lparr>accepts := (accepts m)(a \<mapsto> acc\<lparr>acc_buff := b\<rparr>)\<rparr>" "remote_ip_addr e" "remote_port e" "local_port e" i
      "pieces (os_reads os)" pk1 t1] Cons.prems(6,7) u(1)
  have "handle_events (map (EvRecv (remote_ip_addr e) (remote_port e) (local_port e)) (pieces (os_reads os)))
      (m\<lparr>accepts := (accepts m)(a \<mapsto> acc\<lparr>acc_buff := b\<rparr>)\<rparr>) = Inr (m1, recv_calls (handler_list m) t1)" by (simp add: m1_def)
  then have 1: "ListenThread_event a port ev os m = Inr (m1, recv_calls (handler_list m) t1, [], True)"
    using Cons.prems(1) b(1) by (simp add: ListenThread_event_def)
  from Cons.IH[of m1 "acc\<lparr>acc_buff := b\<rparr>" t2] Cons.prems(3-7) b(2) u(2) r(2) obtain buff where
    "ListenThread_loop a port es m1 = Inr (m1\<lparr>packager := pk, accepts := (accepts m1)(a \<mapsto> acc\<lparr>acc_buff := buff\<rparr>)\<rparr>,
       recv_calls (handler_list m) t2, [], True)" "int (length buff) = MAX_SOCKET_MSG_BUFF_LENGTH"
       "accept_reachable (acc\<lparr>acc_buff := buff\<rparr>)"
    using m1 ra by (auto simp: fun_upd_def)
  moreover have "m1\<lparr>packager := pk, accepts := (accepts m1)(a \<mapsto> acc\<lparr>acc_buff := buff\<rparr>)\<rparr> =
      m\<lparr>packager := pk, accepts := (accepts m)(a \<mapsto> acc\<lparr>acc_buff := buff\<rparr>)\<rparr>"
    by (simp add: m1_def fun_upd_def cong: if_cong)
  ultimately show ?case using 1 u(3) x by (intro exI[of _ buff]) (simp add: recv_calls_append fun_upd_def)
qed

lemma ConnectThread_reads:
  assumes "connects m c = Some con" and "int (length (con_buff con)) = MAX_SOCKET_MSG_BUFF_LENGTH" and "con_handler con" and "running con"
    and "\<not> single_thread_handle_mode m"
    and "map_find Endpoint_less \<lparr>remote_ip_addr = con_remote_ip con, remote_port = con_remote_port con, local_port = con_local_port con\<rparr>
      (endpoint_to_net_id_map m) = Some i"
    and "unpack_all (packager m) i (concat (map (\<lambda>(ev, rs). pieces rs) es)) = Inr (pk, ts)"
    and "\<forall>(ev, rs) \<in> set es. readable fd ev rs"
  shows "\<exists>buff. ConnectThread_loop c ip port (map (\<lambda>x. Some [x]) es) m =
      Inr (m\<lparr>packager := pk, connects := (connects m)(c \<mapsto> con\<lparr>con_buff := buff\<rparr>)\<rparr>, recv_calls (handler_list m) ts, [], True) \<and>
    int (length buff) = MAX_SOCKET_MSG_BUFF_LENGTH"
  using assms
proof (induction es arbitrary: m con ts)
  case Nil
  then show ?case by (intro exI[of _ "con_buff con"]) (simp add: recv_calls_def fun_upd_idem)
next
  case (Cons x es)
  obtain ev rs where x: "x = (ev, rs)" by fastforce
  with Cons.prems(8) have r: "readable fd ev rs" "\<forall>(ev, rs) \<in> set es. readable fd ev rs" by auto
  from Cons.prems(7) x obtain pk1 t1 t2 where
    u: "unpack_all (packager m) i (pieces rs) = Inr (pk1, t1)"
      "unpack_all pk1 i (concat (map (\<lambda>(ev, rs). pieces rs) es)) = Inr (pk, t2)" "ts = t1 @ t2"
    by (auto simp: unpack_all_append bind_res_eq_Inr)
  let ?evs = "map (EvRecv (con_remote_ip con) (con_remote_port con) (con_local_port con)) (pieces rs)"
  from connect_event_pieces[OF Cons.prems(2), of rs ev] Cons.prems(3) r(1) obtain b where
    b: "SocketConnect_event ev rs con = Inr (con\<lparr>con_buff := b\<rparr>, ?evs, [], False)"
      "int (length b) = MAX_SOCKET_MSG_BUFF_LENGTH" by (auto simp: readable_def)
  define m1 where "m1 = m\<lparr>connects := (connects m)(c \<mapsto> con\<lparr>con_buff := b\<rparr>), packager := pk1\<rparr>"
  have m1: "connects m1 c = Some (con\<lparr>con_buff := b\<rparr>)" "packager m1 = pk1" "handler_list m1 = handler_list m"
    "endpoint_to_net_id_map m1 = endpoint_to_net_id_map m" "single_thread_handle_mode m1 = single_thread_handle_mode m"
    by (simp_all add: m1_def)
  from handle_pieces_direct[of "m\<lparr>connects := (connects m)(c \<mapsto> con\<lparr>con_buff := b\<rparr>)\<rparr>" "con_remote_ip con" "con_remote_port con"
      "con_local_port con" i "pieces rs" pk1 t1] Cons.prems(5,6) u(1)
  have "handle_events ?evs (m\<lparr>connects := (connects m)(c \<mapsto> con\<lparr>con_buff := b\<rparr>)\<rparr>) = Inr (m1, recv_calls (handler_list m) t1)"
    by (simp add: m1_def)
  then have 1: "ConnectThread_pass c ip port (Some [(ev, rs)]) m = Inr (m1, recv_calls (handler_list m) t1, [], True)"
    using Cons.prems(1,4) b(1) by (simp add: ConnectThread_pass_def)
  from Cons.IH[of m1 "con\<lparr>con_buff := b\<rparr>" t2] Cons.prems(3-6) b(2) u(2) r(2) obtain buff where
    "ConnectThread_loop c ip port (map (\<lambda>x. Some [x]) es) m1 = Inr (m1\<lparr>packager := pk, connects := (connects m1)(c \<mapsto> con\<lparr>con_buff := buff\<rparr>)\<rparr>,
       recv_calls (handler_list m) t2, [], True)" "int (length buff) = MAX_SOCKET_MSG_BUFF_LENGTH"
    using m1 by (auto simp: fun_upd_def)
  moreover have "m1\<lparr>packager := pk, connects := (connects m1)(c \<mapsto> con\<lparr>con_buff := buff\<rparr>)\<rparr> =
      m\<lparr>packager := pk, connects := (connects m)(c \<mapsto> con\<lparr>con_buff := buff\<rparr>)\<rparr>"
    by (simp add: m1_def fun_upd_def cong: if_cong)
  ultimately show ?case using 1 u(3) x by (intro exI[of _ buff]) (simp add: recv_calls_append fun_upd_def)
qed


section \<open>From the start\<close>

definition listen_succeeds :: "listen_os \<Rightarrow> bool" where
  "listen_succeeds os \<longleftrightarrow> 0 \<le> os_socket os \<and> os_bind os \<noteq> -1 \<and> os_listen os \<noteq> -1 \<and> os_epoll_create os \<noteq> -1 \<and> os_epoll_ctl os \<noteq> -1"

lemma ListenThread_listens:
  assumes "listen_succeeds os"
  obtains acc where "ListenThread_start os a buff port m =
      Inr (m\<lparr>accept_list := insort a (accept_list m), accepts := (accepts m)(a \<mapsto> acc)\<rparr>, [], True)"
    "accept_reachable acc" "acc_handler acc" "acc_buff acc = buff" "acc_local_port acc = port" "acc_local_sock acc = os_socket os"
    "endpoint_sock_map acc = []" "sock_endpoint_map acc = Map.empty"
proof -
  define acc where "acc = (SocketAccept_new buff)\<lparr>acc_handler := True, acc_local_sock := os_socket os,
    acc_epoll_fd := os_epoll_create os, acc_local_port := port, listening := True\<rparr>"
  have s: "SocketAccept_Listen_setup os port (SocketAccept_ResetHandler True (SocketAccept_new buff)) = (True, acc)"
    using assms by (simp add: SocketAccept_Listen_setup_def SocketAccept_ResetHandler_def SocketAccept_new_def acc_def listen_succeeds_def)
  show thesis
    by (rule that[of acc])
      (use s accept_reachable.start[OF s] in \<open>simp_all add: ListenThread_start_def acc_def SocketAccept_new_def\<close>)
qed

text \<open>A manager that has only been given handlers and threads.\<close>

definition fresh_manager :: "NetworkManager \<Rightarrow> bool" where
  "fresh_manager m \<longleftrightarrow> accept_list m = [] \<and> connect_list m = [] \<and> accepts m = Map.empty \<and> connects m = Map.empty \<and>
     free_net_id_list m = [] \<and> max_net_id m = 0 \<and>
     net_id_to_accept m = Map.empty \<and> net_id_to_connect m = Map.empty \<and> packager m = CreatePacker FIX_HEAD True"

lemma fresh_new: "fresh_manager (NetworkManager_new h)" "\<not> single_thread_handle_mode (NetworkManager_new h)"
  by (simp_all add: fresh_manager_def NetworkManager_new_def)

lemma fresh_threads:
  "fresh_manager (snd (SyncListen r t port m)) = fresh_manager m" "fresh_manager (snd (SyncConnect r t ip port m)) = fresh_manager m"
  "single_thread_handle_mode (snd (SyncListen r t port m)) = single_thread_handle_mode m"
  "single_thread_handle_mode (snd (SyncConnect r t ip port m)) = single_thread_handle_mode m"
  "handler_list (snd (SyncListen r t port m)) = handler_list m" "handler_list (snd (SyncConnect r t ip port m)) = handler_list m"
  "queue_ok (snd (SyncListen r t port m)) = queue_ok m" "queue_ok (snd (SyncConnect r t ip port m)) = queue_ok m"
  "queued (snd (SyncListen r t port m)) = queued m" "queued (snd (SyncConnect r t ip port m)) = queued m"
  by (simp_all add: SyncListen_def SyncConnect_def run_on_free_thread_def GetFreeThread_def Let_def split_def fresh_manager_def
      queue_ok_def queued_def split: option.splits)

text \<open>The first call of a manager puts its task on a new thread.\<close>

lemma sync_starts:
  assumes "thread_set m = []"
  shows "SyncListen 0 t port m = (True, m\<lparr>thread_set := [\<lparr>thread_id = t, cur_task = Some (NetworkManagerListenTask port), thread_running = True\<rparr>]\<rparr>)"
    "SyncConnect 0 t ip port m = (True, m\<lparr>thread_set := [\<lparr>thread_id = t, cur_task = Some (NetworkManagerConnectTask ip port), thread_running = True\<rparr>]\<rparr>)"
  using assms by (simp_all add: SyncListen_def SyncConnect_def run_on_free_thread_def GetFreeThread_def Thread_Run_def Thread_new_def)

lemma fresh_thread_set: "thread_set (fold RegistHandler hs (NetworkManager_new h)) = []"
proof -
  have "thread_set (fold RegistHandler hs m) = thread_set m" for m
    by (induction hs arbitrary: m) (simp_all add: RegistHandler_def)
  then show ?thesis by (simp add: NetworkManager_new_def)
qed

lemma fresh_handlers:
  "fresh_manager m \<Longrightarrow> fresh_manager (RegistHandler h m)"
  "single_thread_handle_mode (RegistHandler h m) = single_thread_handle_mode m"
  "queue_ok (RegistHandler h m) = queue_ok m" "queued (RegistHandler h m) = queued m"
  by (simp_all add: RegistHandler_def fresh_manager_def queue_ok_def queued_def)

lemma fresh_fold:
  "fresh_manager m \<and> \<not> single_thread_handle_mode m \<Longrightarrow>
   fresh_manager (fold RegistHandler hs m) \<and> \<not> single_thread_handle_mode (fold RegistHandler hs m)"
  by (induction hs arbitrary: m) (simp_all add: fresh_handlers)

lemma fresh_number:
  assumes "fresh_manager m"
  shows "GetFreeNetID m = Inr (1, m\<lparr>max_net_id := 1\<rparr>)" and "unused_number 1 m"
  using assms by (simp_all add: fresh_manager_def GetFreeNetID_def c_int_def INT_MIN_def INT_MAX_def unused_number_def CreatePacker_def holds_def)

lemma send_all_writable:
  assumes "writable m i fd" and "\<forall>msg \<in> set msgs. 4 + int (length msg) \<le> INT_MAX"
  shows "send_all r i msgs m = Inr (map (\<lambda>msg. OsSend fd (frame msg)) msgs)"
  using assms(2) by (induction msgs) (simp_all add: Send_writable[OF assms(1)])

lemma unpack_frames:
  assumes "receiving m ip port lport i" and "\<forall>msg \<in> set msgs. msg \<noteq> [] \<and> 4 + int (length msg) \<le> INT_MAX" and "msgs \<noteq> []"
    and "concat chunks = concat (map frame msgs)" and "[] \<notin> set chunks"
  obtains pk ts where "unpack_all (packager m) i chunks = Inr (pk, ts)"
    "recv_calls hs ts = concat (map (\<lambda>msg. map (\<lambda>h. CbRecv h i msg) hs) msgs)"
    "has_net_manager pk = has_net_manager (packager m)"
proof -
  from assms(1) have r: "has_net_manager (packager m)" "0 < i" "holds (net_id_to_buffer_map (packager m) i) []"
    by (auto simp: receiving_after_def)
  have "last msgs \<noteq> []" using assms(2,3) last_in_set by metis
  then have p: "parse_stream (concat (map frame msgs)) = Inr (msgs, [])"
    using parse_stream_frames[of msgs] assms(2) by simp
  from unpack_all_meets[OF r(3) assms(5), of msgs "[]"] p assms(4) obtain pk where
    "unpack_all (packager m) i chunks = Inr (pk, delivered (packager m) i msgs)"
    "has_net_manager pk = has_net_manager (packager m)" by auto
  then show thesis using that recv_calls_delivered[OF r(1,2), of msgs hs] assms(2) by blast
qed

lemma pieces_no_empty: "[] \<notin> set (pieces rs)"
  by (induction rs rule: pieces.induct) auto


lemma accepted_after_reads:
  assumes "accepted m i fd" and "accepts m a = Some acc" and "accept_reachable (acc\<lparr>acc_buff := b\<rparr>)" and "has_net_manager pk"
  shows "accepted (m\<lparr>packager := pk, accepts := (accepts m)(a \<mapsto> acc\<lparr>acc_buff := b\<rparr>)\<rparr>) i fd"
proof -
  from assms(1) obtain e a' acc' where "net_id_to_connect m i = None" "net_id_to_endpoint_map m i = Some e" "net_id_to_accept m i = Some a'"
    "accepts m a' = Some acc'" "accept_reachable acc'" "sock_endpoint_map acc' fd = Some e" by (auto simp: accepted_def)
  with assms(2-) show ?thesis by (cases "a' = a") (simp_all add: accepted_def)
qed

text \<open>What the threads read, as the pieces the packagers see.\<close>

abbreviation listen_pieces :: "(epoll_event \<times> event_os) list \<Rightarrow> byte list list" where
  "listen_pieces es \<equiv> concat (map (\<lambda>(ev, os). pieces (os_reads os)) es)"

abbreviation connect_pieces :: "(epoll_event \<times> read_result list) list \<Rightarrow> byte list list" where
  "connect_pieces es \<equiv> concat (map (\<lambda>(ev, rs). pieces rs) es)"

lemma listen_pieces_no_empty: "[] \<notin> set (listen_pieces es)" "[] \<notin> set (connect_pieces es')"
  using pieces_no_empty by auto

text \<open>The two threads of two managers that have no connection yet.\<close>

lemma connection_between:
  assumes s: "fresh_manager S" "\<not> single_thread_handle_mode S" and c: "fresh_manager C" "\<not> single_thread_handle_mode C"
    and S: "listen_succeeds los"
    "int (length sbuff) = MAX_SOCKET_MSG_BUFF_LENGTH"
    and C: "connect_succeeds cos"
    "int (length cbuff) = MAX_SOCKET_MSG_BUFF_LENGTH" "lport = co_sockname_port cos"
    and A: "ev_fd ev = os_socket los" "os_accept eos \<noteq> -1" "0 \<le> os_getfl eos" "0 \<le> os_setfl eos" "os_add eos \<noteq> -1"
    "os_accept eos \<noteq> os_socket los" "os_peer_port eos = lport"
    and M: "\<forall>msg \<in> set (up @ down). msg \<noteq> [] \<and> 4 + int (length msg) \<le> INT_MAX" "up \<noteq> []" "down \<noteq> []"
  shows "\<exists>S1 S2 C1. ListenThread_start los a sbuff port S = Inr (S1, [], True) \<and>
    ConnectThread_start cos c cbuff sip port C = Inr (C1, map (\<lambda>h. CbConnect h sip port lport True 1) (handler_list C), True) \<and>
    ListenThread_event a port ev eos S1 =
      Inr (S2, map (\<lambda>h. CbAccept h (os_peer_ip eos) lport port 1) (handler_list S), [OsEpollAdd (os_accept eos)], True) \<and>
    send_all r 1 up C1 = Inr (map (\<lambda>msg. OsSend (co_socket cos) (frame msg)) up) \<and>
    (\<forall>es. (\<forall>(ev, os) \<in> set es. readable (os_accept eos) ev (os_reads os)) \<and> concat (listen_pieces es) = concat (map frame up) \<longrightarrow>
      (\<exists>S3. ListenThread_loop a port es S2 =
          Inr (S3, concat (map (\<lambda>msg. map (\<lambda>h. CbRecv h 1 msg) (handler_list S)) up), [], True) \<and>
        send_all r 1 down S3 = Inr (map (\<lambda>msg. OsSend (os_accept eos) (frame msg)) down) \<and>
        (\<forall>es'. (\<forall>(ev, rs) \<in> set es'. readable (co_socket cos) ev rs) \<and> concat (connect_pieces es') = concat (map frame down) \<longrightarrow>
          (\<exists>C2. ConnectThread_loop c sip port (map (\<lambda>x. Some [x]) es') C1 =
            Inr (C2, concat (map (\<lambda>msg. map (\<lambda>h. CbRecv h 1 msg) (handler_list C)) down), [], True)))))"
proof -
  note sf = s(1)[unfolded fresh_manager_def] and cf = c(1)[unfolded fresh_manager_def]
  obtain acc where l: "ListenThread_start los a sbuff port S =
      Inr (S\<lparr>accept_list := insort a (accept_list S), accepts := (accepts S)(a \<mapsto> acc)\<rparr>, [], True)"
    "accept_reachable acc" "acc_handler acc" "acc_buff acc = sbuff" "acc_local_port acc = port" "acc_local_sock acc = os_socket los"
    "endpoint_sock_map acc = []" "sock_endpoint_map acc = Map.empty" by (rule ListenThread_listens[OF S(1)])
  define S1 where "S1 = S\<lparr>accept_list := [a], accepts := [a \<mapsto> acc]\<rparr>"
  have s1: "ListenThread_start los a sbuff port S = Inr (S1, [], True)" "GetFreeNetID S1 = Inr (1, S1\<lparr>max_net_id := 1\<rparr>)"
    "unused_number 1 S1" "accepts S1 a = Some acc" "accept_list S1 = [a]" "handler_list S1 = handler_list S" "\<not> single_thread_handle_mode S1"
    using l(1) sf fresh_number[OF s(1)] s(2) by (simp_all add: S1_def GetFreeNetID_def unused_number_def c_int_def INT_MIN_def INT_MAX_def)
  have "accept_succeeds ev eos acc"
    using A(1-5) l(6-8) by (simp add: accept_succeeds_def fresh_peer_def)
  from ListenThread_accepts[OF s1(4) l(2,3) this _ _ _ s1(2,3), of port] s1(5,7) l(4-6) A(7) obtain S2 acc' cbs where
    S2: "ListenThread_event a port ev eos S1 = Inr (S2, cbs, [OsEpollAdd (os_accept eos)], True)"
      "announced (\<lambda>h. CbAccept h (os_peer_ip eos) lport port 1) S1 S2 cbs" "accepted S2 1 (os_accept eos)"
      "receiving (core S2) (os_peer_ip eos) lport port 1" "accepts S2 a = Some acc'" "accept_reachable acc'" "acc_buff acc' = sbuff" "acc_handler acc'"
      "acc_local_sock acc' = os_socket los"
      "sock_endpoint_map acc' (os_accept eos) = Some \<lparr>remote_ip_addr = os_peer_ip eos, remote_port = lport, local_port = port\<rparr>"
    by auto
  have d2: "\<not> single_thread_handle_mode S2" "handler_list S2 = handler_list S" "cbs = map (\<lambda>h. CbAccept h (os_peer_ip eos) lport port 1) (handler_list S)"
    using S2(2) s1(6,7) by (simp_all add: announced_def)
  from ConnectThread_connects[OF C(1) _ _ _ _ fresh_number[OF c(1)], of c sip port cbuff] cf c(2) C(3) obtain C1 con cbs' where
    C1: "ConnectThread_start cos c cbuff sip port C = Inr (C1, cbs', True)"
      "announced (\<lambda>h. CbConnect h sip port lport True 1) C C1 cbs'" "connected C1 1 (co_socket cos)"
      "receiving (core C1) sip port lport 1" "connects C1 c = Some con" "con_buff con = cbuff" "con_handler con" "running con"
      "con_remote_ip con = sip" "con_remote_port con = port" "con_local_port con = lport" by auto
  have d1: "\<not> single_thread_handle_mode C1" "handler_list C1 = handler_list C" "cbs' = map (\<lambda>h. CbConnect h sip port lport True 1) (handler_list C)"
    using C1(2) c(2) by (simp_all add: announced_def)
  have up: "send_all r 1 up C1 = Inr (map (\<lambda>msg. OsSend (co_socket cos) (frame msg)) up)"
    by (rule send_all_writable) (use C1(3) M(1) in \<open>auto simp: writable_def\<close>)
  have there: "\<exists>S3. ListenThread_loop a port es S2 = Inr (S3, concat (map (\<lambda>msg. map (\<lambda>h. CbRecv h 1 msg) (handler_list S)) up), [], True) \<and>
      send_all r 1 down S3 = Inr (map (\<lambda>msg. OsSend (os_accept eos) (frame msg)) down)"
    if es: "\<forall>(ev, os) \<in> set es. readable (os_accept eos) ev (os_reads os)" "concat (listen_pieces es) = concat (map frame up)" for es
  proof -
    obtain pk ts where u: "unpack_all (packager (core S2)) 1 (listen_pieces es) = Inr (pk, ts)"
      "recv_calls (handler_list S) ts = concat (map (\<lambda>msg. map (\<lambda>h. CbRecv h 1 msg) (handler_list S)) up)"
      "has_net_manager pk = has_net_manager (packager (core S2))"
      by (rule unpack_frames[OF S2(4) _ M(2) es(2) listen_pieces_no_empty(1), where hs = "handler_list S"]) (use M(1) in auto)
    from ListenThread_reads[OF S2(5) _ S2(8,10) _ d2(1) _ _ es(1) S2(6), of 1 pk ts port] u S2(4,7,9) S(2) A(6) d2(2) obtain buff where
      e: "ListenThread_loop a port es S2 = Inr (S2\<lparr>packager := pk, accepts := (accepts S2)(a \<mapsto> acc'\<lparr>acc_buff := buff\<rparr>)\<rparr>,
        concat (map (\<lambda>msg. map (\<lambda>h. CbRecv h 1 msg) (handler_list S)) up), [], True)" "accept_reachable (acc'\<lparr>acc_buff := buff\<rparr>)" by (auto simp: receiving_after_def)
    have "accepted (S2\<lparr>packager := pk, accepts := (accepts S2)(a \<mapsto> acc'\<lparr>acc_buff := buff\<rparr>)\<rparr>) 1 (os_accept eos)"
      by (rule accepted_after_reads[OF S2(3,5) e(2)]) (use u(3) S2(4) in \<open>simp add: receiving_after_def\<close>)
    then have "send_all r 1 down (S2\<lparr>packager := pk, accepts := (accepts S2)(a \<mapsto> acc'\<lparr>acc_buff := buff\<rparr>)\<rparr>) =
        Inr (map (\<lambda>msg. OsSend (os_accept eos) (frame msg)) down)" using send_all_accepted M(1) by auto
    with e(1) show ?thesis by blast
  qed
  have again: "\<exists>C2. ConnectThread_loop c sip port (map (\<lambda>x. Some [x]) es) C1 =
      Inr (C2, concat (map (\<lambda>msg. map (\<lambda>h. CbRecv h 1 msg) (handler_list C)) down), [], True)"
    if es: "\<forall>(ev, rs) \<in> set es. readable (co_socket cos) ev rs" "concat (connect_pieces es) = concat (map frame down)" for es
  proof -
    obtain pk ts where u: "unpack_all (packager (core C1)) 1 (connect_pieces es) = Inr (pk, ts)"
      "recv_calls (handler_list C) ts = concat (map (\<lambda>msg. map (\<lambda>h. CbRecv h 1 msg) (handler_list C)) down)"
      by (rule unpack_frames[OF C1(4) _ M(3) es(2) listen_pieces_no_empty(2), where hs = "handler_list C"]) (use M(1) in auto)
    from ConnectThread_reads[OF C1(5) _ C1(7,8) d1(1) _ _ es(1), of 1 pk ts sip port] u C1(4,6,9-11) C(2) d1(2) show ?thesis
      by (auto simp: receiving_after_def)
  qed
  show ?thesis
    using s1(1) S2(1) d2(3) C1(1) d1(3) up there again by blast
qed

section \<open>Properties\<close>

text \<open>
  C2: The whole Linux stack from the start. One manager calls \<^verbatim>\<open>SyncListen\<close>, another \<^verbatim>\<open>SyncConnect\<close> with its port, and
  the system calls behind them succeed: each has then one thread, and what that thread runs makes the
  first call \<^verbatim>\<open>OnAccept\<close> and the second \<^verbatim>\<open>OnConnect\<close> of every handler, both with the connection number 1. Nonempty
  messages then sent by the second arrive at every handler of the first, whatever readiness events
  and reads of less than 4096 bytes the system cuts their bytes into, and messages sent back arrive in the
  same way. A read of 4096 bytes, which fills the buffer, is undefined (\<open>full_read_overruns_buffer\<close>).
\<close>

theorem connection_from_scratch:
  assumes S: "(sok, S) = SyncListen 0 st port (fold RegistHandler shs (NetworkManager_new sh))" "listen_succeeds los"
    "int (length sbuff) = MAX_SOCKET_MSG_BUFF_LENGTH"
    and C: "(cok, C) = SyncConnect 0 ct sip port (fold RegistHandler chs (NetworkManager_new ch))" "connect_succeeds cos"
    "int (length cbuff) = MAX_SOCKET_MSG_BUFF_LENGTH" "lport = co_sockname_port cos"
    and A: "ev_fd ev = os_socket los" "os_accept eos \<noteq> -1" "0 \<le> os_getfl eos" "0 \<le> os_setfl eos" "os_add eos \<noteq> -1"
    "os_accept eos \<noteq> os_socket los" "os_peer_port eos = lport"
    and M: "\<forall>msg \<in> set (up @ down). msg \<noteq> [] \<and> 4 + int (length msg) \<le> INT_MAX" "up \<noteq> []" "down \<noteq> []"
  shows "\<exists>sth cth S1 S2 C1. sok \<and> thread_set S = [sth] \<and> Thread_GetThreadID sth = st \<and>
    cok \<and> thread_set C = [cth] \<and> Thread_GetThreadID cth = ct \<and>
    started_thread los cos' a sbuff sth S = Inr (S1, [], True) \<and>
    started_thread los' cos c cbuff cth C = Inr (C1, map (\<lambda>h. CbConnect h sip port lport True 1) (handler_list C), True) \<and>
    ListenThread_event a port ev eos S1 =
      Inr (S2, map (\<lambda>h. CbAccept h (os_peer_ip eos) lport port 1) (handler_list S), [OsEpollAdd (os_accept eos)], True) \<and>
    send_all r 1 up C1 = Inr (map (\<lambda>msg. OsSend (co_socket cos) (frame msg)) up) \<and>
    (\<forall>es. (\<forall>(ev, os) \<in> set es. readable (os_accept eos) ev (os_reads os)) \<and> concat (listen_pieces es) = concat (map frame up) \<longrightarrow>
      (\<exists>S3. ListenThread_loop a port es S2 =
          Inr (S3, concat (map (\<lambda>msg. map (\<lambda>h. CbRecv h 1 msg) (handler_list S)) up), [], True) \<and>
        send_all r 1 down S3 = Inr (map (\<lambda>msg. OsSend (os_accept eos) (frame msg)) down) \<and>
        (\<forall>es'. (\<forall>(ev, rs) \<in> set es'. readable (co_socket cos) ev rs) \<and> concat (connect_pieces es') = concat (map frame down) \<longrightarrow>
          (\<exists>C2. ConnectThread_loop c sip port (map (\<lambda>x. Some [x]) es') C1 =
            Inr (C2, concat (map (\<lambda>msg. map (\<lambda>h. CbRecv h 1 msg) (handler_list C)) down), [], True)))))"
proof -
  define sth where "sth = \<lparr>thread_id = st, cur_task = Some (NetworkManagerListenTask port), thread_running = True\<rparr>"
  define cth where "cth = \<lparr>thread_id = ct, cur_task = Some (NetworkManagerConnectTask sip port), thread_running = True\<rparr>"
  have S0: "S = snd (SyncListen 0 st port (fold RegistHandler shs (NetworkManager_new sh)))"
    and C0: "C = snd (SyncConnect 0 ct sip port (fold RegistHandler chs (NetworkManager_new ch)))"
    using S(1)[symmetric] C(1)[symmetric] by simp_all
  have th: "sok" "thread_set S = [sth]" "Thread_GetThreadID sth = st" "cok" "thread_set C = [cth]" "Thread_GetThreadID cth = ct"
    using S(1) C(1) by (simp_all add: sync_starts fresh_thread_set sth_def cth_def Thread_GetThreadID_def)
  have run: "started_thread los cos' a sbuff sth S = ListenThread_start los a sbuff port S"
    "started_thread los' cos c cbuff cth C = ConnectThread_start cos c cbuff sip port C"
    by (simp_all add: started_thread_def sth_def cth_def)
  have f: "fresh_manager S" "\<not> single_thread_handle_mode S" "fresh_manager C" "\<not> single_thread_handle_mode C"
    unfolding S0 C0 fresh_threads using fresh_fold fresh_new by blast+
  note conn = connection_between[OF f S(2,3) C(2,3,4) A M, where a = a and c = c and r = r and port = port and sip = sip]
  show ?thesis by (rule exI[of _ sth], rule exI[of _ cth]) (simp only: th run simp_thms, rule conn)
qed

definition demo_connect_os :: connect_os where
  "demo_connect_os = \<lparr>co_socket = 4, co_connect = 0, co_sockname_port = 5000, co_getfl = 0, co_setfl = 0, co_epoll_create = 6, co_epoll_ctl = 0\<rparr>"

definition demo_ready :: "int \<Rightarrow> epoll_event" where
  "demo_ready fd = \<lparr>ev_fd = fd, ev_out = False, ev_in = True\<rparr>"

theorem connection_from_scratch_witness:
  "\<exists>S C sth cth S1 S2 C1 S3 C2.
    SyncListen 0 11 80 (fold RegistHandler [1] (NetworkManager_new \<lparr>next_block = 0, block_size = Map.empty\<rparr>)) = (True, S) \<and>
    SyncConnect 0 12 (str ''10.0.0.2'') 80 (fold RegistHandler [3, 2] (NetworkManager_new \<lparr>next_block = 0, block_size = Map.empty\<rparr>)) = (True, C) \<and>
    thread_set S = [sth] \<and> thread_set C = [cth] \<and>
    started_thread demo_os demo_connect_os 9 (replicate 4096 0) sth S = Inr (S1, [], True) \<and>
    started_thread demo_os demo_connect_os 5 (replicate 4096 0) cth C =
      Inr (C1, [CbConnect 2 (str ''10.0.0.2'') 80 5000 True 1, CbConnect 3 (str ''10.0.0.2'') 80 5000 True 1], True) \<and>
    ListenThread_event 9 80 (demo_ready 3) (demo_answers 7 (str ''10.0.0.1'') 5000 []) S1 =
      Inr (S2, [CbAccept 1 (str ''10.0.0.1'') 5000 80 1], [OsEpollAdd 7], True) \<and>
    send_all 0 1 [[65, 66]] C1 = Inr [OsSend 4 [2, 0, 0, 0, 65, 66]] \<and>
    ListenThread_loop 9 80 [(demo_ready 7, demo_answers 0 [] 0 [ReadBytes [2, 0], ReadBytes [0, 0, 65], ReadError]),
      (demo_ready 7, demo_answers 0 [] 0 [ReadBytes [66], ReadError])] S2 = Inr (S3, [CbRecv 1 1 [65, 66]], [], True) \<and>
    send_all 0 1 [[67]] S3 = Inr [OsSend 7 [1, 0, 0, 0, 67]] \<and>
    ConnectThread_loop 5 (str ''10.0.0.2'') 80 [Some [(demo_ready 4, [ReadBytes [1, 0, 0, 0, 67]])]] C1 =
      Inr (C2, [CbRecv 2 1 [67], CbRecv 3 1 [67]], [], True)"
proof -
  let ?h = "\<lparr>next_block = 0, block_size = Map.empty\<rparr>"
  let ?SL = "SyncListen 0 11 80 (fold RegistHandler [1] (NetworkManager_new ?h))"
  let ?SC = "SyncConnect 0 12 (str ''10.0.0.2'') 80 (fold RegistHandler [3, 2] (NetworkManager_new ?h))"
  obtain sok S where p1: "(sok, S) = ?SL" by (metis surj_pair)
  obtain cok C where p2: "(cok, C) = ?SC" by (metis surj_pair)
  let ?es = "[(demo_ready 7, demo_answers 0 [] 0 [ReadBytes [2, 0], ReadBytes [0, 0, 65], ReadError]),
      (demo_ready 7, demo_answers 0 [] 0 [ReadBytes [66], ReadError])]"
  let ?es' = "[(demo_ready 4, [ReadBytes [1, 0, 0, 0, 67 :: byte]])]"
  have "S = snd ?SL" "C = snd ?SC" using p1[symmetric] p2[symmetric] by simp_all
  then have h: "handler_list S = [1]" "handler_list C = [2, 3]"
    by (simp_all add: fresh_threads RegistHandler_def NetworkManager_new_def)
  have f: "frame [65, 66] = [2, 0, 0, 0, 65, 66]" "frame [67] = [1, 0, 0, 0, 67]" by (simp_all add: frame_def header_bytes_def)
  have e: "\<forall>(ev, os) \<in> set ?es. readable 7 ev (os_reads os)" "\<forall>(ev, rs) \<in> set ?es'. readable 4 ev rs"
    "concat (listen_pieces ?es) = concat (map frame [[65, 66]])" "concat (connect_pieces ?es') = concat (map frame [[67]])"
    by (simp_all add: readable_def demo_ready_def demo_answers_def MAX_SOCKET_MSG_BUFF_LENGTH_def f)
  have o: "listen_succeeds demo_os" "connect_succeeds demo_connect_os" "co_sockname_port demo_connect_os = 5000" "co_socket demo_connect_os = 4"
    "ev_fd (demo_ready 3) = os_socket demo_os" "os_accept (demo_answers 7 (str ''10.0.0.1'') 5000 []) = 7"
    "os_peer_ip (demo_answers 7 (str ''10.0.0.1'') 5000 []) = str ''10.0.0.1''"
    by (simp_all add: listen_succeeds_def connect_succeeds_def demo_os_def demo_connect_os_def demo_ready_def demo_answers_def)
  have l: "int (length (replicate 4096 (0 :: byte))) = MAX_SOCKET_MSG_BUFF_LENGTH" by (simp add: MAX_SOCKET_MSG_BUFF_LENGTH_def)
  have a: "os_accept (demo_answers 7 (str ''10.0.0.1'') 5000 []) \<noteq> -1" "0 \<le> os_getfl (demo_answers 7 (str ''10.0.0.1'') 5000 [])"
    "0 \<le> os_setfl (demo_answers 7 (str ''10.0.0.1'') 5000 [])" "os_add (demo_answers 7 (str ''10.0.0.1'') 5000 []) \<noteq> -1"
    "os_accept (demo_answers 7 (str ''10.0.0.1'') 5000 []) \<noteq> os_socket demo_os"
    "os_peer_port (demo_answers 7 (str ''10.0.0.1'') 5000 []) = 5000"
    by (simp_all add: demo_answers_def demo_os_def)
  have m: "\<forall>msg \<in> set ([[65, 66 :: byte]] @ [[67]]). msg \<noteq> [] \<and> 4 + int (length msg) \<le> INT_MAX" by (simp add: INT_MAX_def)
  obtain sth cth S1 S2 C1 where T: "sok" "cok" "thread_set S = [sth]" "thread_set C = [cth]"
    and R: "started_thread demo_os demo_connect_os 9 (replicate 4096 0) sth S = Inr (S1, [], True)"
    "started_thread demo_os demo_connect_os 5 (replicate 4096 0) cth C =
       Inr (C1, map (\<lambda>h. CbConnect h (str ''10.0.0.2'') 80 5000 True 1) (handler_list C), True)"
    "ListenThread_event 9 80 (demo_ready 3) (demo_answers 7 (str ''10.0.0.1'') 5000 []) S1 =
       Inr (S2, map (\<lambda>h. CbAccept h (str ''10.0.0.1'') 5000 80 1) (handler_list S), [OsEpollAdd 7], True)"
    "send_all 0 1 [[65, 66]] C1 = Inr (map (\<lambda>msg. OsSend 4 (frame msg)) [[65, 66]])"
    and rest: "\<And>es. \<forall>(ev, os) \<in> set es. readable 7 ev (os_reads os) \<Longrightarrow> concat (listen_pieces es) = concat (map frame [[65, 66]]) \<Longrightarrow>
      \<exists>S3. ListenThread_loop 9 80 es S2 = Inr (S3, concat (map (\<lambda>msg. map (\<lambda>h. CbRecv h 1 msg) (handler_list S)) [[65, 66]]), [], True) \<and>
        send_all 0 1 [[67]] S3 = Inr (map (\<lambda>msg. OsSend 7 (frame msg)) [[67]]) \<and>
        (\<forall>es'. (\<forall>(ev, rs) \<in> set es'. readable 4 ev rs) \<and> concat (connect_pieces es') = concat (map frame [[67]]) \<longrightarrow>
          (\<exists>C2. ConnectThread_loop 5 (str ''10.0.0.2'') 80 (map (\<lambda>x. Some [x]) es') C1 =
            Inr (C2, concat (map (\<lambda>msg. map (\<lambda>h. CbRecv h 1 msg) (handler_list C)) [[67]]), [], True)))"
    using connection_from_scratch [OF p1 o(1) l p2 o(2) l o(3)[symmetric] o(5) a m, where a = 9 and c = 5 and r = 0 and cos' = demo_connect_os and los' = demo_os]
    unfolding o(4,6,7) by blast
  from rest[OF e(1,3)] e(2,4) obtain S3 C2 where Q:
    "ListenThread_loop 9 80 ?es S2 = Inr (S3, concat (map (\<lambda>msg. map (\<lambda>h. CbRecv h 1 msg) (handler_list S)) [[65, 66]]), [], True)"
    "send_all 0 1 [[67]] S3 = Inr (map (\<lambda>msg. OsSend 7 (frame msg)) [[67]])"
    "ConnectThread_loop 5 (str ''10.0.0.2'') 80 (map (\<lambda>x. Some [x]) ?es') C1 =
      Inr (C2, concat (map (\<lambda>msg. map (\<lambda>h. CbRecv h 1 msg) (handler_list C)) [[67]]), [], True)" by blast
  have st: "?SL = (True, S)" "?SC = (True, C)" unfolding p1[symmetric] p2[symmetric] using T(1,2) by blast+
  show ?thesis
    by (rule exI[of _ S], rule exI[of _ C], rule exI[of _ sth], rule exI[of _ cth], rule exI[of _ S1], rule exI[of _ S2], rule exI[of _ C1],
        rule exI[of _ S3], rule exI[of _ C2], intro conjI)
      (rule st T(3,4) R(1) R(2,3)[unfolded h list.map] R(4)[unfolded list.map f] Q[unfolded h list.map concat.simps append.simps f])+
qed

end
