(* ===== verification/Demo.thy ===== *)
theory Demo
  imports Protocol Connections
begin

text \<open>
  The demo programs (\<^verbatim>\<open>demo/src/test_bytearray.cpp\<close>, \<^verbatim>\<open>test_network.cpp\<close>, \<^verbatim>\<open>test_serialize_network.cpp\<close>): what their handlers
  compute and send. Printing is left out, except where it reads memory. The typed demo is run as a
  conversation between two network managers.
\<close>

section \<open>Byte arrays\<close>

text \<open>The values \<^verbatim>\<open>TestByteArrayTmp\<close> writes; 7.5 and 10.5 are given by their bits.\<close>

definition test_values :: "ba_value list" where
  "test_values = [VInt8 1, VUint8 2, VInt16 3, VUint16 4, VInt32 5, VUint32 6, VFloat 0x40F00000, VInt64 8, VUint64 9,
     VDouble 0x4025000000000000, VString (str ''I love you!'')]"

text \<open>
  \<open>obj\<close> is the object representation of the struct, padding included. The arrays are used through
  references to the base class, whose assignment copies its own member only (\<open>assign\<close>).
\<close>

definition TestByteArrayTmp ::
  "'o ByteArray \<Rightarrow> ('o \<Rightarrow> 'o \<Rightarrow> 'o) \<Rightarrow> byte list \<Rightarrow> 'o \<Rightarrow> 'o \<Rightarrow> (ba_value list \<times> byte list option \<times> 'o \<times> 'o) res" where
  "TestByteArrayTmp vt assign obj by1 by2 =
     bind_res (write_all (ba_write vt) test_values by1) (\<lambda>by1a.
     bind_res (vt_WriteObject vt (Some obj) (int (length obj)) by1a) (\<lambda>by1b.
     bind_res (ba_read_all vt (map kind_of test_values) by1b) (\<lambda>(vs, by1c).
     let by2a = assign by1c by2 in
     bind_res (vt_ReadObject vt (of_nat (length obj)) by2a) (\<lambda>(r_tt, by2b).
       Inr (vs, r_tt, by1c, by2b)))))"

text \<open>The static arrays first, then the queues; what is kept is what was read and the object pointer.\<close>

definition TestByteArray ::
  "nat \<Rightarrow> byte list \<Rightarrow> ((ba_value list \<times> byte list option) \<times> (ba_value list \<times> byte list option)) res" where
  "TestByteArray long_size obj =
     bind_res (TestByteArrayTmp StaticByteArray_vt (\<lambda>other s. s\<lparr>static_endian := static_endian other\<rparr>) obj
         StaticByteArray_new StaticByteArray_new) (\<lambda>(vs1, obj1, _).
     bind_res (TestByteArrayTmp (QueueByteArray_vt long_size) (\<lambda>other q. q\<lparr>cur_endian := cur_endian other\<rparr>) obj
         QueueByteArray_new QueueByteArray_new) (\<lambda>(vs2, obj2, _).
       Inr ((vs1, obj1), (vs2, obj2))))"

lemma test_values_ok:
  "list_all (value_ok (\<lambda>s. length s \<le> USHRT_MAX)) test_values" "list_all (value_ok static_str_ok) test_values"
  "length (enc_all (value_enc (\<lambda>_. le_bytes 2) (\<lambda>_. le_bytes 4) (\<lambda>_. le_bytes 8)) () test_values) = 55"
  by (simp_all add: test_values_def in_range_def USHRT_MAX_def static_str_ok_def str_def enc_all_def)

section \<open>Raw messages\<close>

text \<open>
  \<^verbatim>\<open>MsgPackage\<close>: a short, two reserved bytes that are never set (\<open>junk\<close>) and 32 bytes of name. The handlers
  read one from the package without looking at its length.
\<close>

definition echo_OnRecv :: "byte list \<Rightarrow> byte list \<Rightarrow> byte list res" where
  "echo_OnRecv junk data =
     bind_res (read_mem data 0 2) (\<lambda>age.
     bind_res (c_string (drop 4 data)) (\<lambda>_.
     bind_res (read_mem data 4 32) (\<lambda>name.
       Inr (le_bytes 2 (of_le_bytes age + 1 :: u16) @ junk @ name[0 := name ! 4, 4 := name ! 0]))))"

text \<open>\<^verbatim>\<open>memcpy\<close> of 32 bytes from a literal of six.\<close>

definition raw_client_OnConnect :: "byte list \<Rightarrow> byte list \<Rightarrow> byte list res" where
  "raw_client_OnConnect junk name =
     bind_res (memcpy name 0 (str ''i O u'' @ [0]) 32) (\<lambda>name1. Inr (le_bytes 2 (1 :: u16) @ junk @ name1))"

text \<open>
  The program up to the loops of \<^verbatim>\<open>SyncRunning\<close>: the main thread listens, the other thread connects, each with a
  manager of its own.
\<close>

definition TestNetwork :: "heap \<Rightarrow> nat \<Rightarrow> int \<Rightarrow> nat \<Rightarrow> NetworkManager" where
  "TestNetwork h server_net_handler ret tid =
     SetSingleThreadHandleMode True (snd (SyncListen ret tid 33022 (RegistHandler server_net_handler (NetworkManager_new h))))"

definition raw_MyThreadTask_Run :: "heap \<Rightarrow> nat \<Rightarrow> int \<Rightarrow> nat \<Rightarrow> NetworkManager" where
  "raw_MyThreadTask_Run h handler ret tid =
     SetSingleThreadHandleMode True (snd (SyncConnect ret tid (str ''127.0.0.1'') 33022 (RegistHandler handler (NetworkManager_new h))))"

lemma raw_client_reads_too_far: "raw_client_OnConnect junk name = Inl OutOfBounds"
  by (simp add: raw_client_OnConnect_def memcpy_def str_def bind_res_def)

lemma echo_short_package: "length data < 36 \<Longrightarrow> \<not> is_ok (echo_OnRecv junk data)"
  by (auto simp: echo_OnRecv_def read_mem_def bind_res_def is_ok_def split: sum.splits)

section \<open>Typed messages\<close>

text \<open>
  The handlers cast what they get to the class they expect. The sum is an \<^verbatim>\<open>int\<close>, stored in a \<^verbatim>\<open>short\<close>.
\<close>

definition to_short :: "int \<Rightarrow> int" where
  "to_short v = sint (word_of_int v :: u16)"

definition server_OnRecv :: "Message \<Rightarrow> Message res" where
  "server_OnRecv data = (case data of
       MCSCheckServiceInfo recv_msg \<Rightarrow>
         Inr (MSCCheckServiceInfoAck \<lparr>ack_service_type = to_short (check_service_type recv_msg + 1),
           ack_ip_addr = str ''123.188.111.1'', ack_port = 52013\<rparr>)
     | _ \<Rightarrow> Inl InactiveMember)"

definition client_OnConnect :: Message where
  "client_OnConnect = MCSCheckServiceInfo \<lparr>check_service_type = 1\<rparr>"

definition client_OnRecv :: "Message \<Rightarrow> Message res" where
  "client_OnRecv data = (case data of
       MSCCheckServiceInfoAck recv_msg \<Rightarrow>
         Inr (MCSCheckServiceInfo \<lparr>check_service_type = to_short (ack_service_type recv_msg + 1)\<rparr>)
     | _ \<Rightarrow> Inl InactiveMember)"

text \<open>A manager with one typed handler, and the connection it has to its peer.\<close>

record party =
  party_manager :: SerializeNetworkManager
  party_handler :: nat
  party_ip :: IPAddr
  party_port :: Port
  party_lport :: Port

text \<open>
  The handler's answers to its calls: \<open>on_connect\<close> is what it sends when the connection is made, \<open>on_recv\<close> what it
  sends for a message. The other calls, and those for other handlers, do nothing.
\<close>

fun answers ::
  "Message serialize_vt \<Rightarrow> Message option \<Rightarrow> (Message \<Rightarrow> Message res) \<Rightarrow> int \<Rightarrow> nat \<Rightarrow> Message serialize_callback list \<Rightarrow>
   SerializeNetworkManager \<Rightarrow> os_action list res" where
  "answers vt on_connect on_recv os_send self [] sm = Inr []"
| "answers vt on_connect on_recv os_send self (CbNet cb # cbs) sm = (case (cb, on_connect) of
       (CbConnect h ip port lport success i, Some msg) \<Rightarrow>
         if h = self then
           bind_res (SendSerialize vt os_send i msg sm) (\<lambda>acts1.
           bind_res (answers vt on_connect on_recv os_send self cbs sm) (\<lambda>acts. Inr (acts1 @ acts)))
         else answers vt on_connect on_recv os_send self cbs sm
     | _ \<Rightarrow> answers vt on_connect on_recv os_send self cbs sm)"
| "answers vt on_connect on_recv os_send self (CbRecvSerialize h i m # cbs) sm =
     (if h = self then
        bind_res (on_recv m) (\<lambda>msg.
        bind_res (SendSerialize vt os_send i msg sm) (\<lambda>acts1.
        bind_res (answers vt on_connect on_recv os_send self cbs sm) (\<lambda>acts. Inr (acts1 @ acts))))
      else answers vt on_connect on_recv os_send self cbs sm)"

text \<open>
  The bytes of the peer arrive, split into pieces by \<open>split_up\<close>, in the thread of the socket; the main thread then goes
  through the loop of \<^verbatim>\<open>SyncRunning\<close> \<open>polls\<close> times. The result has the bytes sent back.
\<close>

definition turn_of ::
  "Message serialize_vt \<Rightarrow> Message option \<Rightarrow> (Message \<Rightarrow> Message res) \<Rightarrow> int \<Rightarrow> (byte list \<Rightarrow> byte list list) \<Rightarrow> nat \<Rightarrow> byte list \<Rightarrow>
   party \<Rightarrow> (byte list \<times> party) res" where
  "turn_of vt on_connect on_recv os_send split_up polls bytes p =
     bind_res (serialize_handle_events vt protocol_registry
         (map (EvRecv (party_ip p) (party_port p) (party_lport p)) (split_up bytes)) (party_manager p)) (\<lambda>(sm1, cbs1).
     bind_res (answers vt on_connect on_recv os_send (party_handler p) cbs1 sm1) (\<lambda>acts1.
     bind_res (handle_tasks polls (net_manager sm1)) (\<lambda>(m2, cbs2).
     let sm2 = sm1\<lparr>net_manager := m2\<rparr> in
     bind_res (answers vt on_connect on_recv os_send (party_handler p) (map CbNet cbs2) sm2) (\<lambda>acts2.
       Inr (concat (map (\<lambda>a. case a of OsSend _ bs \<Rightarrow> bs | _ \<Rightarrow> []) (acts1 @ acts2)), p\<lparr>party_manager := sm2\<rparr>)))))"

fun conversation ::
  "Message serialize_vt \<Rightarrow> int \<Rightarrow> (byte list \<Rightarrow> byte list list) \<Rightarrow> nat \<Rightarrow> nat \<Rightarrow> byte list \<Rightarrow> party \<Rightarrow> party \<Rightarrow>
   (byte list \<times> party \<times> party) res" where
  "conversation vt os_send split_up polls 0 bytes server client = Inr (bytes, server, client)"
| "conversation vt os_send split_up polls (Suc n) bytes server client =
     bind_res (turn_of vt None server_OnRecv os_send split_up polls bytes server) (\<lambda>(answer, server1).
     bind_res (turn_of vt (Some client_OnConnect) client_OnRecv os_send split_up polls answer client) (\<lambda>(question, client1).
       conversation vt os_send split_up polls n question server1 client1))"

text \<open>
  The program up to the loops: the main thread listens and enters \<^verbatim>\<open>SyncRunning\<close>, the other thread connects and enters
  \<^verbatim>\<open>SyncRunning\<close> of its own manager.
\<close>

definition TestSerilaizeNetwork :: "heap \<Rightarrow> nat \<Rightarrow> int \<Rightarrow> nat \<Rightarrow> SerializeNetworkManager" where
  "TestSerilaizeNetwork h server_net_handler ret tid =
     (let server_net_mgr = RegistSerializeHandler server_net_handler (SerializeNetworkManager_new h)
      in server_net_mgr\<lparr>net_manager :=
           SetSingleThreadHandleMode True (snd (SyncListen ret tid 33022 (net_manager server_net_mgr)))\<rparr>)"

definition MyThreadTask_Run :: "heap \<Rightarrow> nat \<Rightarrow> int \<Rightarrow> nat \<Rightarrow> SerializeNetworkManager" where
  "MyThreadTask_Run h handler ret tid =
     (let client_net_mgr = RegistSerializeHandler handler (SerializeNetworkManager_new h)
      in client_net_mgr\<lparr>net_manager :=
           SetSingleThreadHandleMode True (snd (SyncConnect ret tid (str ''127.0.0.1'') 33022 (net_manager client_net_mgr)))\<rparr>)"

section \<open>One turn\<close>

text \<open>Tasks that make no call the handlers answer.\<close>

definition quiet_task :: "NetworkHandleTask \<Rightarrow> bool" where
  "quiet_task t \<longleftrightarrow> task_type t = ON_RECV \<or> task_type t = ON_ACCEPT"

text \<open>A party with a connection, in single thread mode, that has been told of it already.\<close>

definition party_ok :: "party \<Rightarrow> bool" where
  "party_ok p \<longleftrightarrow> serialize_handler_list (party_manager p) = [party_handler p] \<and>
     single_thread_handle_mode (net_manager (party_manager p)) \<and> queue_ok (net_manager (party_manager p)) \<and>
     (\<forall>t \<in> set (queued (net_manager (party_manager p))). quiet_task t) \<and>
     (\<exists>i fd. receiving (core (net_manager (party_manager p))) (party_ip p) (party_port p) (party_lport p) i \<and>
        writable (net_manager (party_manager p)) i fd)"

definition sendable :: "Message \<Rightarrow> bool" where
  "sendable m \<longleftrightarrow> queue_message_ok m \<and> length (typed_package m) \<le> 4096"

lemma quiet_calls:
  assumes "quiet_task t" and "cb \<in> set (task_calls hs t)"
  shows "cb \<noteq> CbConnect h ip port lport success i"
  using assms by (cases "read_mem (task_data t) 0 (task_length t)") (auto simp: quiet_task_def task_calls_def task_callbacks_def)

lemma answers_quiet:
  assumes "\<forall>t \<in> set ts. quiet_task t"
  shows "answers vt on_connect on_recv os_send self (map CbNet (concat (map (task_calls hs) ts))) sm = Inr []"
proof -
  have skip: "answers vt on_connect on_recv os_send self (map CbNet cbs) sm = Inr []"
    if "\<forall>cb \<in> set cbs. \<forall>h ip port lport success i. cb \<noteq> CbConnect h ip port lport success i" for cbs
    using that by (induction cbs) (auto split: callback.splits option.splits)
  have "\<forall>cb \<in> set (concat (map (task_calls hs) ts)). \<forall>h ip port lport success i. cb \<noteq> CbConnect h ip port lport success i"
  proof (intro ballI allI)
    fix cb h ip port lport success i
    assume "cb \<in> set (concat (map (task_calls hs) ts))"
    then obtain t where "t \<in> set ts" "cb \<in> set (task_calls hs t)" by auto
    then show "cb \<noteq> CbConnect h ip port lport success i" using quiet_calls assms by blast
  qed
  from skip[OF this] show ?thesis .
qed

lemma package_protocol: "package_of (sv_GetTypeName (protocol_vt long_size tmp1 tmp2) m) (queue_wire FW_LITTLE_ENDIAN m) = typed_package m"
  by (simp add: protocol_vt_def typed_package_def)

lemma sendable_limit: "sendable m \<Longrightarrow> 4 + int (length (typed_package m)) \<le> INT_MAX"
  by (simp add: sendable_def INT_MAX_def)

lemma SendSerialize_sendable:
  assumes "sendable m" and "writable (net_manager sm) i fd"
  shows "SendSerialize (protocol_vt long_size tmp1 tmp2) os_send i m sm = Inr [OsSend fd (frame (typed_package m))]"
  using protocol.SendSerialize_package[where m = m and r = os_send and i = i and sm = sm and long_size = long_size and ?tmp1.0 = tmp1 and ?tmp2.0 = tmp2]
    Send_writable[OF assms(2) sendable_limit[OF assms(1)]] assms(1) sendable_limit[OF assms(1)]
  by (simp add: package_protocol sendable_def del: length_package_of)

text \<open>The main thread's passes change nothing a party needs.\<close>

lemma party_polls:
  assumes "party_ok p" and "party_manager p = sm"
  obtains m' ts where "handle_tasks k (net_manager sm) = Inr (m', concat (map (task_calls (handler_list (net_manager sm))) ts))"
    "\<forall>t \<in> set ts. quiet_task t" "party_ok (p\<lparr>party_manager := sm\<lparr>net_manager := m'\<rparr>\<rparr>)"
proof -
  have q: "queue_ok (net_manager sm)" using assms by (simp add: party_ok_def)
  obtain m' where m': "handle_tasks k (net_manager sm) = Inr (m', concat (map (task_calls (handler_list (net_manager sm))) (take k (queued (net_manager sm)))))"
    "queue_ok m'" "queued m' = drop k (queued (net_manager sm))" "core m' = core (net_manager sm)"
    "single_thread_handle_mode m' = single_thread_handle_mode (net_manager sm)" using handle_tasks_any[OF q, of k] by blast
  have "writable m' i fd = writable (net_manager sm) i fd" for i fd using m'(4) writable_core by metis
  then have "party_ok (p\<lparr>party_manager := sm\<lparr>net_manager := m'\<rparr>\<rparr>)"
    using assms m'(2-5) by (auto simp: party_ok_def dest: in_set_dropD)
  moreover have "\<forall>t \<in> set (take k (queued (net_manager sm))). quiet_task t"
    using assms by (auto simp: party_ok_def dest: in_set_takeD)
  ultimately show thesis using that m'(1) by blast
qed

lemma turn_answers:
  assumes "party_ok p" "sendable m" "\<And>bs. concat (split_up bs) = bs" "\<And>bs. [] \<notin> set (split_up bs)"
    and "on_recv m = Inr m'" "sendable m'"
  shows "\<exists>p'. turn_of (protocol_vt long_size tmp1 tmp2) on_connect on_recv os_send split_up polls (frame (typed_package m)) p =
      Inr (frame (typed_package m'), p') \<and> party_ok p'"
proof -
  let ?vt = "protocol_vt long_size tmp1 tmp2" and ?sm = "party_manager p"
  from assms(1) obtain i fd where p: "serialize_handler_list ?sm = [party_handler p]" "single_thread_handle_mode (net_manager ?sm)"
    "queue_ok (net_manager ?sm)" "\<forall>t \<in> set (queued (net_manager ?sm)). quiet_task t"
    "receiving (core (net_manager ?sm)) (party_ip p) (party_port p) (party_lport p) i" "writable (net_manager ?sm) i fd"
    by (auto simp: party_ok_def)
  obtain pk sm1 where 1: "serialize_handle_events ?vt protocol_registry
        (map (EvRecv (party_ip p) (party_port p) (party_lport p)) (split_up (frame (typed_package m)))) ?sm = Inr (sm1, typed_calls ?sm i [m])"
    "queued_raw ?sm ((net_manager ?sm)\<lparr>packager := pk\<rparr>) sm1"
    "receiving (core (net_manager sm1)) (party_ip p) (party_port p) (party_lport p) i" "has_net_manager pk = has_net_manager (packager (net_manager ?sm))"
    by (rule protocol.messages_handled_queued[where ms = "[m]" and smr = ?sm and ip = "party_ip p" and port = "party_port p" and lport = "party_lport p"
        and i = i and chunks = "split_up (frame (typed_package m))" and long_size = long_size and ?tmp1.0 = tmp1 and ?tmp2.0 = tmp2])
      (use assms(2-4) p(2,3,5) in \<open>simp_all add: package_protocol sendable_def del: length_package_of\<close>)
  have c: "core (net_manager sm1) = core ((net_manager ?sm)\<lparr>packager := pk\<rparr>)" using 1(2) by (simp add: queued_raw_def)
  then have w: "writable (net_manager sm1) i fd" using p(6) 1(4) writable_core writable_packager by metis
  have ok: "party_ok (p\<lparr>party_manager := sm1\<rparr>)"
    using p(1,4) 1(2,3) w by (auto simp: party_ok_def queued_raw_def quiet_task_def)
  have a1: "answers ?vt on_connect on_recv os_send (party_handler p) (typed_calls ?sm i [m]) sm1 = Inr [OsSend fd (frame (typed_package m'))]"
    using assms(5) p(1) SendSerialize_sendable[OF assms(6) w] by (simp add: typed_calls_def)
  obtain m2 ts where 2: "handle_tasks polls (net_manager sm1) = Inr (m2, concat (map (task_calls (handler_list (net_manager sm1))) ts))"
    "\<forall>t \<in> set ts. quiet_task t" "party_ok (p\<lparr>party_manager := sm1\<lparr>net_manager := m2\<rparr>\<rparr>)"
    by (rule party_polls[OF ok, of sm1 polls]) auto
  from 1(1) a1 2 answers_quiet[OF 2(2)] show ?thesis by (simp add: turn_of_def)
qed

section \<open>The conversation\<close>

abbreviation question :: "int \<Rightarrow> Message" where
  "question v \<equiv> MCSCheckServiceInfo \<lparr>check_service_type = v\<rparr>"

lemma to_short_range: "- 32768 \<le> to_short v" "to_short v < 32768"
  using sint_range_size[of "word_of_int v :: u16"] by (simp_all add: to_short_def word_size)

lemma to_short_add: "to_short (to_short v + w) = to_short (v + w)"
  by (simp add: to_short_def)

lemma to_short_id: "- 32768 \<le> v \<Longrightarrow> v < 32768 \<Longrightarrow> to_short v = v"
  using sint_word_of_int[of v, where 'a=16] by (simp add: to_short_def)

lemma sendable_question: "sendable (question (to_short v))"
  using to_short_range[of v]
  by (simp add: sendable_def queue_message_ok_def message_ok_def in_range_def queue_wire_def enc_all_def typed_package_def
      package_of_def str_def INT_MAX_def)

lemma sendable_answer:
  "sendable (MSCCheckServiceInfoAck \<lparr>ack_service_type = to_short v, ack_ip_addr = str ''123.188.111.1'', ack_port = 52013\<rparr>)"
  using to_short_range[of v]
  by (simp add: sendable_def queue_message_ok_def message_ok_def in_range_def queue_wire_def enc_all_def typed_package_def
      package_of_def str_def INT_MAX_def USHRT_MAX_def)

lemma conversation_goes_on:
  assumes "party_ok server" "party_ok client" "\<And>bs. concat (split_up bs) = bs" "\<And>bs. [] \<notin> set (split_up bs)"
  shows "\<exists>server' client'. conversation (protocol_vt long_size tmp1 tmp2) os_send split_up polls n (frame (typed_package (question (to_short v)))) server client =
    Inr (frame (typed_package (question (to_short (v + 2 * int n)))), server', client') \<and> party_ok server' \<and> party_ok client'"
  using assms(1,2)
proof (induction n arbitrary: v server client)
  case (Suc n)
  let ?a = "MSCCheckServiceInfoAck \<lparr>ack_service_type = to_short (v + 1), ack_ip_addr = str ''123.188.111.1'', ack_port = 52013\<rparr>"
  have 1: "server_OnRecv (question (to_short v)) = Inr ?a" by (simp add: server_OnRecv_def to_short_add)
  have 2: "client_OnRecv ?a = Inr (question (to_short (v + 2)))" using to_short_add[of "v + 1" 1] by (simp add: client_OnRecv_def add.commute[of v])
  obtain server1 where s: "turn_of (protocol_vt long_size tmp1 tmp2) None server_OnRecv os_send split_up polls (frame (typed_package (question (to_short v)))) server =
      Inr (frame (typed_package ?a), server1)" "party_ok server1"
    using turn_answers[of server _ split_up server_OnRecv, OF Suc.prems(1) sendable_question assms(3,4) 1 sendable_answer] by blast
  obtain client1 where c: "turn_of (protocol_vt long_size tmp1 tmp2) (Some client_OnConnect) client_OnRecv os_send split_up polls (frame (typed_package ?a)) client =
      Inr (frame (typed_package (question (to_short (v + 2)))), client1)" "party_ok client1"
    using turn_answers[of client _ split_up client_OnRecv, OF Suc.prems(2) sendable_answer assms(3,4) 2 sendable_question] by blast
  from Suc.IH[OF s(2) c(2), of "v + 2"] s(1) c(1) show ?case by (simp add: algebra_simps)
qed simp


section \<open>The start of the program\<close>

text \<open>A manager with one handler that has just entered \<^verbatim>\<open>SyncRunning\<close>.\<close>

definition starting :: "NetworkManager \<Rightarrow> nat \<Rightarrow> bool" where
  "starting m h \<longleftrightarrow> fresh_manager m \<and> single_thread_handle_mode m \<and> queue_ok m \<and> queued m = [] \<and> handler_list m = [h]"

definition fresh_party :: "SerializeNetworkManager \<Rightarrow> nat \<Rightarrow> bool" where
  "fresh_party sm h \<longleftrightarrow> starting (net_manager sm) h \<and> serialize_handler_list sm = [h]"

lemma fresh_mode:
  "fresh_manager (SetSingleThreadHandleMode b m) = fresh_manager m" "single_thread_handle_mode (SetSingleThreadHandleMode b m) = b"
  "queue_ok (SetSingleThreadHandleMode b m) = queue_ok m" "queued (SetSingleThreadHandleMode b m) = queued m"
  "handler_list (SetSingleThreadHandleMode b m) = handler_list m"
  by (simp_all add: SetSingleThreadHandleMode_def fresh_manager_def queue_ok_def queued_def)

lemma raw_demo_start:
  assumes "heap_ok heap"
  shows "starting (TestNetwork heap h ret tid) h" "starting (raw_MyThreadTask_Run heap h ret tid) h"
proof -
  have "queue_ok (NetworkManager_new heap)" "queued (NetworkManager_new heap) = []"
    using manager_inv_new[OF assms] by (simp_all add: manager_inv_def queued_def NetworkManager_new_def)
  moreover have "handler_list (RegistHandler h (NetworkManager_new heap)) = [h]"
    by (simp add: RegistHandler_def NetworkManager_new_def)
  ultimately show "starting (TestNetwork heap h ret tid) h" "starting (raw_MyThreadTask_Run heap h ret tid) h"
    by (simp_all add: starting_def TestNetwork_def raw_MyThreadTask_Run_def fresh_mode fresh_threads fresh_handlers fresh_new)
qed

lemma demo_start:
  assumes "heap_ok heap"
  shows "fresh_party (TestSerilaizeNetwork heap h ret tid) h" "fresh_party (MyThreadTask_Run heap h ret tid) h"
  using raw_demo_start[OF assms, of h ret tid]
  by (simp_all add: fresh_party_def TestSerilaizeNetwork_def MyThreadTask_Run_def TestNetwork_def raw_MyThreadTask_Run_def Let_def
      RegistSerializeHandler_def SerializeNetworkManager_new_def)

lemma quiet_accept: "task_calls [h] t = [CbAccept h ip port lport i] \<Longrightarrow> quiet_task t"
  by (cases "task_type t") (auto simp: quiet_task_def task_calls_def task_callbacks_def)

lemma server_starts:
  assumes "fresh_party sm h" and "listen_succeeds los"
    and "ev_fd ev = os_socket los" "os_accept eos \<noteq> -1" "0 \<le> os_getfl eos" "0 \<le> os_setfl eos" "os_add eos \<noteq> -1"
  obtains S1 S2 where "ListenThread_start los a buff port (net_manager sm) = Inr (S1, [], True)"
    "ListenThread_event a port ev eos S1 = Inr (S2, [], [OsEpollAdd (os_accept eos)], True)"
    "party_ok \<lparr>party_manager = sm\<lparr>net_manager := S2\<rparr>, party_handler = h, party_ip = os_peer_ip eos, party_port = os_peer_port eos, party_lport = port\<rparr>"
proof -
  let ?m = "net_manager sm"
  have f: "fresh_manager ?m" "single_thread_handle_mode ?m" "queue_ok ?m" "queued ?m = []" "handler_list ?m = [h]" "serialize_handler_list sm = [h]"
    using assms(1) by (simp_all add: fresh_party_def starting_def)
  note ff = f(1)[unfolded fresh_manager_def]
  obtain acc where l: "ListenThread_start los a buff port ?m =
      Inr (?m\<lparr>accept_list := insort a (accept_list ?m), accepts := (accepts ?m)(a \<mapsto> acc)\<rparr>, [], True)"
    "accept_reachable acc" "acc_handler acc" "acc_buff acc = buff" "acc_local_port acc = port" "acc_local_sock acc = os_socket los"
    "endpoint_sock_map acc = []" "sock_endpoint_map acc = Map.empty" by (rule ListenThread_listens[OF assms(2)])
  define S1 where "S1 = ?m\<lparr>accept_list := [a], accepts := [a \<mapsto> acc]\<rparr>"
  have s1: "ListenThread_start los a buff port ?m = Inr (S1, [], True)" "GetFreeNetID S1 = Inr (1, S1\<lparr>max_net_id := 1\<rparr>)"
    "unused_number 1 S1" "accepts S1 a = Some acc" "accept_list S1 = [a]" "handler_list S1 = [h]" "single_thread_handle_mode S1"
    "queue_ok S1" "queued S1 = []"
    using l(1) ff f fresh_number[OF f(1)]
    by (simp_all add: S1_def GetFreeNetID_def unused_number_def c_int_def INT_MIN_def INT_MAX_def queue_ok_def queued_def)
  have "accept_succeeds ev eos acc" using assms(3-7) l(6-8) by (simp add: accept_succeeds_def fresh_peer_def)
  from ListenThread_accepts[OF s1(4) l(2,3) this _ _ _ s1(2,3), of port] s1(5,8) l(5) obtain S2 cbs where
    S2: "ListenThread_event a port ev eos S1 = Inr (S2, cbs, [OsEpollAdd (os_accept eos)], True)"
      "announced (\<lambda>h. CbAccept h (os_peer_ip eos) (os_peer_port eos) port 1) S1 S2 cbs" "accepted S2 1 (os_accept eos)"
      "receiving (core S2) (os_peer_ip eos) (os_peer_port eos) port 1" by auto
  from S2(2) s1(6,7,9) obtain t where t: "single_thread_handle_mode S2" "cbs = []" "queue_ok S2" "queued S2 = [t]"
    "task_calls [h] t = [CbAccept h (os_peer_ip eos) (os_peer_port eos) port 1]" by (auto simp: announced_def)
  show thesis
    by (rule that[OF s1(1)]) (use S2 t quiet_accept[OF t(5)] f(6) in \<open>auto simp: party_ok_def writable_def\<close>)
qed

text \<open>The thread of the client connects; its main thread is told in the first pass of its loop.\<close>

lemma client_told:
  assumes "starting m h" and "connect_succeeds cos"
  obtains C1 m2 where "ConnectThread_start cos c buff ip port m = Inr (C1, [], True)"
    "handle_tasks 1 C1 = Inr (m2, [CbConnect h ip port (co_sockname_port cos) True 1])" "queue_ok m2" "queued m2 = []"
    "single_thread_handle_mode m2" "writable m2 1 (co_socket cos)" "receiving (core m2) ip port (co_sockname_port cos) 1"
proof -
  have f: "fresh_manager m" "single_thread_handle_mode m" "queue_ok m" "queued m = []" "handler_list m = [h]"
    using assms(1) by (simp_all add: starting_def)
  note ff = f(1)[unfolded fresh_manager_def]
  from ConnectThread_connects[OF assms(2) _ _ _ _ fresh_number[OF f(1)], of c ip port buff] ff f(3) obtain C1 cbs where
    C1: "ConnectThread_start cos c buff ip port m = Inr (C1, cbs, True)"
      "announced (\<lambda>h. CbConnect h ip port (co_sockname_port cos) True 1) m C1 cbs" "connected C1 1 (co_socket cos)"
      "receiving (core C1) ip port (co_sockname_port cos) 1" by auto
  from C1(2) f(2,4,5) obtain t where t: "single_thread_handle_mode C1" "cbs = []" "queue_ok C1" "queued C1 = [t]" "handler_list C1 = [h]"
    "task_calls [h] t = [CbConnect h ip port (co_sockname_port cos) True 1]" by (auto simp: announced_def)
  obtain m2 where m2: "handle_tasks 1 C1 = Inr (m2, [CbConnect h ip port (co_sockname_port cos) True 1])" "queue_ok m2" "queued m2 = []"
    "core m2 = core C1" "single_thread_handle_mode m2" using handle_tasks_any[OF t(3), of 1] t by auto
  have "writable m2 1 (co_socket cos)" using C1(3) m2(4) writable_core by (metis writable_def)
  with that C1(1,4) t(2) m2 show thesis by simp
qed

lemma client_starts:
  assumes "fresh_party sm h" and "connect_succeeds cos" and "split_up [] = []" and "sendable msg"
  obtains C1 p where "ConnectThread_start cos c buff ip port (net_manager sm) = Inr (C1, [], True)"
    "turn_of (protocol_vt long_size tmp1 tmp2) (Some msg) on_recv os_send split_up 1 [] \<lparr>party_manager = sm\<lparr>net_manager := C1\<rparr>, party_handler = h,
       party_ip = ip, party_port = port, party_lport = co_sockname_port cos\<rparr> = Inr (frame (typed_package msg), p)" "party_ok p"
proof -
  have f: "starting (net_manager sm) h" "serialize_handler_list sm = [h]" using assms(1) by (simp_all add: fresh_party_def)
  obtain C1 m2 where C1: "ConnectThread_start cos c buff ip port (net_manager sm) = Inr (C1, [], True)"
    "handle_tasks 1 C1 = Inr (m2, [CbConnect h ip port (co_sockname_port cos) True 1])" "queue_ok m2" "queued m2 = []"
    "single_thread_handle_mode m2" "writable m2 1 (co_socket cos)" "receiving (core m2) ip port (co_sockname_port cos) 1"
    by (rule client_told[OF f(1) assms(2)])
  have "SendSerialize (protocol_vt long_size tmp1 tmp2) os_send 1 msg (sm\<lparr>net_manager := m2\<rparr>) = Inr [OsSend (co_socket cos) (frame (typed_package msg))]"
    by (rule SendSerialize_sendable[OF assms(4)]) (simp add: C1(6))
  then have "turn_of (protocol_vt long_size tmp1 tmp2) (Some msg) on_recv os_send split_up 1 [] \<lparr>party_manager = sm\<lparr>net_manager := C1\<rparr>, party_handler = h,
       party_ip = ip, party_port = port, party_lport = co_sockname_port cos\<rparr> = Inr (frame (typed_package msg),
       \<lparr>party_manager = sm\<lparr>net_manager := m2\<rparr>, party_handler = h, party_ip = ip, party_port = port, party_lport = co_sockname_port cos\<rparr>)"
    using C1(2) assms(3) by (simp add: turn_of_def Let_def del: handle_tasks.simps One_nat_def)
  moreover have "party_ok \<lparr>party_manager = sm\<lparr>net_manager := m2\<rparr>, party_handler = h, party_ip = ip, party_port = port, party_lport = co_sockname_port cos\<rparr>"
    using f(2) C1(3-7) by (auto simp: party_ok_def)
  ultimately show thesis using that C1(1) by blast
qed

text \<open>
  The raw demo does not get beyond its first message: the client connects, its main thread calls the handler, and the
  handler reads behind the literal.
\<close>

lemma raw_demo_undefined:
  assumes "heap_ok heap" and "connect_succeeds cos"
  obtains C1 m2 where
    "ConnectThread_start cos c buff (str ''127.0.0.1'') 33022 (raw_MyThreadTask_Run heap h ret tid) = Inr (C1, [], True)"
    "handle_tasks 1 C1 = Inr (m2, [CbConnect h (str ''127.0.0.1'') 33022 (co_sockname_port cos) True 1])"
    "raw_client_OnConnect junk name = Inl OutOfBounds"
  by (rule client_told[OF raw_demo_start(2)[OF assms(1)] assms(2)]) (rule that, auto simp: raw_client_reads_too_far)

section \<open>Properties\<close>

text \<open>
  \<^verbatim>\<open>TestByteArrayTmp\<close> on each kind of byte array, the queue where a \<^verbatim>\<open>long\<close> has four bytes: every value comes back as it was written and the object is
  left in the first array; the second array, assigned through the base class, stays empty, so the
  object is never read from it.
\<close>

lemma test_byte_array_parts:
  assumes "length obj = 16"
  shows "(\<exists>q. TestByteArrayTmp (QueueByteArray_vt 4) (\<lambda>other q. q\<lparr>cur_endian := cur_endian other\<rparr>) obj
        QueueByteArray_new QueueByteArray_new = Inr (test_values, None, q, QueueByteArray_new) \<and> bytes_queue q = obj) \<and>
    (\<exists>s s'. TestByteArrayTmp StaticByteArray_vt (\<lambda>other s. s\<lparr>static_endian := static_endian other\<rparr>) obj
        StaticByteArray_new StaticByteArray_new = Inr (test_values, None, s, s') \<and> static_content s = obj \<and> static_content s' = [])"
proof
  have o: "object_ok obj" using assms by (auto simp: object_ok_def)
  have n: "unat (of_nat (length obj) :: u32) = 16" using unat_object(1)[OF o] assms by simp
  obtain q1 q2 q3 where q: "write_all (ba_write (QueueByteArray_vt 4)) test_values QueueByteArray_new = Inr q1"
    "vt_WriteObject (QueueByteArray_vt 4) (Some obj) (int (length obj)) q1 = Inr q2"
    "ba_read_all (QueueByteArray_vt 4) (map kind_of test_values) q2 = Inr (test_values, q3)"
    "cur_endian q3 = cur_endian QueueByteArray_new" "bytes_queue q3 = obj"
    using qoa.values_then_object[where ob = QueueByteArray_new and vs = test_values and obj = obj and long_size = 4] test_values_ok(1) o
    by (auto simp: QueueByteArray_new_def)
  have "vt_ReadObject (QueueByteArray_vt 4) (of_nat (length obj)) QueueByteArray_new = Inr (None, QueueByteArray_new)"
    using qoa.read_short[of QueueByteArray_new "of_nat (length obj)" 4] n by (simp add: QueueByteArray_new_def)
  then show "\<exists>q. TestByteArrayTmp (QueueByteArray_vt 4) (\<lambda>other q. q\<lparr>cur_endian := cur_endian other\<rparr>) obj
        QueueByteArray_new QueueByteArray_new = Inr (test_values, None, q, QueueByteArray_new) \<and> bytes_queue q = obj"
    using q by (simp add: TestByteArrayTmp_def)
  obtain s1 s2 s3 where s: "write_all (ba_write StaticByteArray_vt) test_values StaticByteArray_new = Inr s1"
    "vt_WriteObject StaticByteArray_vt (Some obj) (int (length obj)) s1 = Inr s2"
    "ba_read_all StaticByteArray_vt (map kind_of test_values) s2 = Inr (test_values, s3)" "static_content s3 = obj"
    by (rule soa.values_then_object[of StaticByteArray_new test_values obj])
      (use test_values_ok(2,3) o assms in \<open>simp_all add: StaticByteArray_new_def[THEN arg_cong[where f = has_write_length]] MAX_MSG_LENGTH_def\<close>)
  let ?s = "StaticByteArray_new\<lparr>static_endian := static_endian s3\<rparr>"
  have e: "static_ok ?s" "static_content ?s = []"
    using static_new_ok by (simp_all add: static_ok_def static_content_def)
  then have "vt_ReadObject StaticByteArray_vt (of_nat (length obj)) ?s = Inr (None, ?s)"
    using soa.read_short[of ?s "of_nat (length obj)"] n by simp
  then show "\<exists>s s'. TestByteArrayTmp StaticByteArray_vt (\<lambda>other s. s\<lparr>static_endian := static_endian other\<rparr>) obj
        StaticByteArray_new StaticByteArray_new = Inr (test_values, None, s, s') \<and> static_content s = obj \<and> static_content s' = []"
    using s e(2) by (simp add: TestByteArrayTmp_def)
qed

lemma test_byte_array_beyond: "write_all (ba_write (QueueByteArray_vt 8)) test_values q = Inl OutOfBounds"
  by (simp add: test_values_def QueueByteArray_vt_def QueueByteArray_WriteFloat_def TransformType_long_beyond)

text \<open>
  The whole test: it returns where a \<^verbatim>\<open>long\<close> has four bytes; where it has eight, the queue's \<^verbatim>\<open>WriteFloat\<close> reads
  behind its argument, after the half with the static arrays.
\<close>

theorem test_byte_array_result:
  assumes "length obj = 16"
  shows "TestByteArray 4 obj = Inr ((test_values, None), (test_values, None)) \<and> TestByteArray 8 obj = Inl OutOfBounds"
  using test_byte_array_parts[OF assms] test_byte_array_beyond
  by (auto simp: TestByteArray_def TestByteArrayTmp_def[of "QueueByteArray_vt 8"])

theorem test_byte_array_result_witness:
  "TestByteArray 4 [11, 0, 0, 0, 22, 0, 0, 0, 1, 2, 3, 4, 5, 6, 7, 8] = Inr ((test_values, None), (test_values, None))"
  using test_byte_array_result [of "[11, 0, 0, 0, 22, 0, 0, 0, 1, 2, 3, 4, 5, 6, 7, 8]"] by simp

text \<open>
  C5: The typed demo from its first call on: the server listens, the client connects, each in single thread mode. The
  client's main thread takes the news of the connection from its queue and sends the first message; from then on, however
  the bytes are cut and however often the main threads poll, the two never stop and never lose count: after any number \<open>n\<close>
  of rounds the client has just sent a question with the number \<open>2 * n + 1\<close>, as a 16 bit number.
\<close>

theorem demo_conversation:
  assumes "heap_ok sh" "heap_ok ch" "listen_succeeds los" "connect_succeeds cos"
    and "ev_fd ev = os_socket los" "os_accept eos \<noteq> -1" "0 \<le> os_getfl eos" "0 \<le> os_setfl eos" "os_add eos \<noteq> -1"
    and "\<And>bs. concat (split_up bs) = bs" "\<And>bs. [] \<notin> set (split_up bs)"
    and "server_mgr = TestSerilaizeNetwork sh s sret stid" and "client_mgr = MyThreadTask_Run ch c cret ctid"
  shows "\<exists>S1 S2 C1 client server' client'.
    ListenThread_start los a sbuff 33022 (net_manager server_mgr) = Inr (S1, [], True) \<and>
    ConnectThread_start cos cs cbuff (str ''127.0.0.1'') 33022 (net_manager client_mgr) = Inr (C1, [], True) \<and>
    ListenThread_event a 33022 ev eos S1 = Inr (S2, [], [OsEpollAdd (os_accept eos)], True) \<and>
    turn_of (protocol_vt long_size tmp1 tmp2) (Some client_OnConnect) client_OnRecv os_send split_up 1 []
      \<lparr>party_manager = client_mgr\<lparr>net_manager := C1\<rparr>, party_handler = c, party_ip = str ''127.0.0.1'', party_port = 33022,
        party_lport = co_sockname_port cos\<rparr> = Inr (frame (typed_package client_OnConnect), client) \<and>
    conversation (protocol_vt long_size tmp1 tmp2) os_send split_up polls n (frame (typed_package client_OnConnect))
      \<lparr>party_manager = server_mgr\<lparr>net_manager := S2\<rparr>, party_handler = s, party_ip = os_peer_ip eos, party_port = os_peer_port eos,
        party_lport = 33022\<rparr> client =
      Inr (frame (typed_package (MCSCheckServiceInfo \<lparr>check_service_type = to_short (1 + 2 * int n)\<rparr>)), server', client')"
proof -
  have q: "question (to_short 1) = client_OnConnect" by (simp add: client_OnConnect_def to_short_id)
  have e: "split_up [] = []" using assms(10)[of "[]"] assms(11)[of "[]"] by (cases "split_up []") auto
  obtain S1 S2 where S: "ListenThread_start los a sbuff 33022 (net_manager server_mgr) = Inr (S1, [], True)"
    "ListenThread_event a 33022 ev eos S1 = Inr (S2, [], [OsEpollAdd (os_accept eos)], True)"
    "party_ok \<lparr>party_manager = server_mgr\<lparr>net_manager := S2\<rparr>, party_handler = s, party_ip = os_peer_ip eos, party_port = os_peer_port eos, party_lport = 33022\<rparr>"
    by (rule server_starts[OF demo_start(1)[OF assms(1), of s sret stid, folded assms(12)] assms(3,5-9)])
  obtain C1 p where C: "ConnectThread_start cos cs cbuff (str ''127.0.0.1'') 33022 (net_manager client_mgr) = Inr (C1, [], True)"
    "turn_of (protocol_vt long_size tmp1 tmp2) (Some client_OnConnect) client_OnRecv os_send split_up 1 []
      \<lparr>party_manager = client_mgr\<lparr>net_manager := C1\<rparr>, party_handler = c, party_ip = str ''127.0.0.1'', party_port = 33022,
        party_lport = co_sockname_port cos\<rparr> = Inr (frame (typed_package client_OnConnect), p)" "party_ok p"
    by (rule client_starts[OF demo_start(2)[OF assms(2), of c cret ctid, folded assms(13)] assms(4), where split_up = split_up]) (use e sendable_question[of 1] q in auto)
  from conversation_goes_on[OF S(3) C(3) assms(10,11), of long_size tmp1 tmp2 os_send polls n 1] S C q show ?thesis by auto
qed

text \<open>A typed manager with an accepted connection.\<close>

definition demo_typed :: SerializeNetworkManager where
  "demo_typed = RegistSerializeHandler 4 \<lparr>net_manager = demo_server, serialize_handler_list = []\<rparr>"

definition demo_vt :: "Message serialize_vt" where
  "demo_vt = protocol_vt 8 \<lparr>project_project_type = 0, project_project_name = []\<rparr>
     \<lparr>operate_operate_type = 0, operate_operate_name = [], operate_operate_describe = []\<rparr>"

lemma demo_typed_ok:
  "accepted (net_manager demo_typed) 1 7" "\<not> single_thread_handle_mode (net_manager demo_typed)"
  "has_net_manager (packager (net_manager demo_typed))"
  "map_find Endpoint_less \<lparr>remote_ip_addr = str ''10.0.0.1'', remote_port = 5000, local_port = 80\<rparr>
     (endpoint_to_net_id_map (net_manager demo_typed)) = Some 1"
  "holds (net_id_to_buffer_map (packager (net_manager demo_typed)) 1) []"
  "handler_list (net_manager demo_typed) = [1, 4]" "serialize_handler_list demo_typed = [4]"
  subgoal using demo_reachable
    by (simp add: demo_typed_def RegistSerializeHandler_def accepted_def demo_server_simps) (simp add: demo_connected_def)
  by (simp_all add: demo_typed_def RegistSerializeHandler_def demo_server_simps demo_peer_def holds_def)

theorem demo_conversation_witness:
  "\<exists>S1 S2 C1 client server' client'.
    ListenThread_start demo_os 9 [] 33022 (net_manager (TestSerilaizeNetwork \<lparr>next_block = 0, block_size = Map.empty\<rparr> 1 0 11)) = Inr (S1, [], True) \<and>
    ConnectThread_start demo_connect_os 5 [] (str ''127.0.0.1'') 33022
      (net_manager (MyThreadTask_Run \<lparr>next_block = 0, block_size = Map.empty\<rparr> 2 0 12)) = Inr (C1, [], True) \<and>
    ListenThread_event 9 33022 (demo_ready 3) (demo_answers 7 (str ''127.0.0.1'') 5000 []) S1 = Inr (S2, [], [OsEpollAdd 7], True) \<and>
    turn_of demo_vt (Some client_OnConnect) client_OnRecv 0 (map (\<lambda>b. [b])) 1 []
      \<lparr>party_manager = (MyThreadTask_Run \<lparr>next_block = 0, block_size = Map.empty\<rparr> 2 0 12)\<lparr>net_manager := C1\<rparr>, party_handler = 2,
        party_ip = str ''127.0.0.1'', party_port = 33022, party_lport = 5000\<rparr> = Inr (frame (typed_package client_OnConnect), client) \<and>
    conversation demo_vt 0 (map (\<lambda>b. [b])) 3 20000 (frame (typed_package client_OnConnect))
      \<lparr>party_manager = (TestSerilaizeNetwork \<lparr>next_block = 0, block_size = Map.empty\<rparr> 1 0 11)\<lparr>net_manager := S2\<rparr>, party_handler = 1,
        party_ip = str ''127.0.0.1'', party_port = 5000, party_lport = 33022\<rparr> client =
      Inr (frame (typed_package (MCSCheckServiceInfo \<lparr>check_service_type = - 25535\<rparr>)), server', client')"
proof -
  have t: "to_short (1 + 2 * int 20000) = - 25535" by (simp add: to_short_def)
  have o: "listen_succeeds demo_os" "connect_succeeds demo_connect_os" "ev_fd (demo_ready 3) = os_socket demo_os"
    "os_accept (demo_answers 7 (str ''127.0.0.1'') 5000 []) \<noteq> -1" "0 \<le> os_getfl (demo_answers 7 (str ''127.0.0.1'') 5000 [])"
    "0 \<le> os_setfl (demo_answers 7 (str ''127.0.0.1'') 5000 [])" "os_add (demo_answers 7 (str ''127.0.0.1'') 5000 []) \<noteq> -1"
    by (simp_all add: listen_succeeds_def connect_succeeds_def demo_os_def demo_connect_os_def demo_ready_def demo_answers_def)
  have f: "os_accept (demo_answers 7 (str ''127.0.0.1'') 5000 []) = 7" "os_peer_ip (demo_answers 7 (str ''127.0.0.1'') 5000 []) = str ''127.0.0.1''"
    "os_peer_port (demo_answers 7 (str ''127.0.0.1'') 5000 []) = 5000" "co_sockname_port demo_connect_os = 5000"
    by (simp_all add: demo_answers_def demo_connect_os_def)
  have b: "concat (map (\<lambda>b. [b]) bs) = bs" "[] \<notin> set (map (\<lambda>b. [b]) bs)" for bs :: "byte list" by auto
  show ?thesis
    using demo_conversation [OF empty_heap_ok empty_heap_ok o, of "map (\<lambda>b. [b])", OF b refl refl,
        where s = 1 and sret = 0 and stid = 11 and c = 2 and cret = 0 and ctid = 12 and a = 9 and sbuff = "[]" and cs = 5 and cbuff = "[]"
          and long_size = 8 and ?tmp1.0 = "\<lparr>project_project_type = 0, project_project_name = []\<rparr>"
          and ?tmp2.0 = "\<lparr>operate_operate_type = 0, operate_operate_name = [], operate_operate_describe = []\<rparr>" and os_send = 0 and polls = 3 and n = 20000]
    unfolding f t demo_vt_def .
qed

end
