(* ===== verification/Rpc.thy ===== *)
theory Rpc
  imports NetworkManager
begin

text \<open>
  Remote procedure calls (\<^verbatim>\<open>elegance/rpc/rpc_manager.*\<close>). \<^verbatim>\<open>RPCSession\<close> numbers requests, sends them and
  matches responses to them; \<^verbatim>\<open>RPCManager\<close> is a network handler that lets connections exchange a key
  before it makes sessions of them. What the code calls (the network manager, the connect handler,
  request objects) is a list of actions; \<^verbatim>\<open>HandleCall\<close> of a registered handler, which is code of the
  user, is a parameter. The locks are the recursive mutexes of the library and every function that
  takes one has the calling thread as an argument.
\<close>

section \<open>Messages\<close>

definition RPC_SESSION_NETWORK_MESSAGE_MAX_LEN :: int where "RPC_SESSION_NETWORK_MESSAGE_MAX_LEN = 10240"
definition RPC_MAX_KEY_STRING_LENGTH :: int where "RPC_MAX_KEY_STRING_LENGTH = 99"
definition SHRT_MAX :: int where "SHRT_MAX = 32767"

definition RPC_MESSAGE_TYPE_CHECK_KEY :: byte where "RPC_MESSAGE_TYPE_CHECK_KEY = 0"
definition RPC_MESSAGE_TYPE_CHECK_KEY_RESPONSE :: byte where "RPC_MESSAGE_TYPE_CHECK_KEY_RESPONSE = 1"
definition RPC_MESSAGE_TYPE_REQUEST :: byte where "RPC_MESSAGE_TYPE_REQUEST = 2"
definition RPC_MESSAGE_TYPE_RESPONSE :: byte where "RPC_MESSAGE_TYPE_RESPONSE = 3"

lemmas rpc_consts [simp] =
  RPC_SESSION_NETWORK_MESSAGE_MAX_LEN_def RPC_MAX_KEY_STRING_LENGTH_def SHRT_MAX_def
  RPC_MESSAGE_TYPE_CHECK_KEY_def RPC_MESSAGE_TYPE_CHECK_KEY_RESPONSE_def
  RPC_MESSAGE_TYPE_REQUEST_def RPC_MESSAGE_TYPE_RESPONSE_def

text \<open>
  \<^verbatim>\<open>RPCMessageHeader\<close> is four bytes: the type, a reserved byte the code never writes, and the number
  of the request as a \<^verbatim>\<open>short\<close>.
\<close>

record RPCMessageHeader =
  hd_type :: byte
  hd_message_id :: int

definition read_header :: "byte list \<Rightarrow> RPCMessageHeader res" where
  "read_header data = bind_res (read_mem data 0 4) (\<lambda>h.
     Inr \<lparr>hd_type = h ! 0, hd_message_id = sint (of_le_bytes (drop 2 h) :: u16)\<rparr>)"

definition write_header :: "byte \<Rightarrow> int \<Rightarrow> byte list \<Rightarrow> byte list res" where
  "write_header ty message_id buf =
     bind_res (memcpy buf 0 [ty] 1) (\<lambda>b1. memcpy b1 2 (le_bytes 2 (word_of_int message_id :: u16)) 2)"

text \<open>
  The key check: type, padding, length and key, of which the bytes up to the terminating NUL are
  sent; the response is the type and one byte.
\<close>

definition check_key_message :: "std_string \<Rightarrow> byte list" where
  "check_key_message key =
     [RPC_MESSAGE_TYPE_CHECK_KEY, 0] @ le_bytes 2 (of_nat (length key) :: u16) @ key @ [0]"

definition check_key_response :: "byte list" where
  "check_key_response = [RPC_MESSAGE_TYPE_CHECK_KEY_RESPONSE, 1]"

datatype rpc_action =
    RpcSend NetworkID "byte list"
  | RpcDisconnect NetworkID
  | RpcSyncConnect IPAddr Port
  | RpcSyncListen Port
  | RpcRegistHandler
  | RpcCallBack nat "byte list"
  | RpcDeleteRequest nat
  | RpcHandleCall nat "byte list"
  | RpcSessionActive std_string
  | RpcSessionInactive std_string
  | RpcConnectFail IPAddr Port
  | RpcListenFail Port

section \<open>Sessions\<close>

record RPCSession =
  rs_endpoint :: Endpoint
  rs_has_network :: bool
  rs_network_id :: NetworkID
  cur_has_connected :: bool
  send_message_lock :: Mutex
  message_buffer :: "byte list"
  rs_handler_list :: "nat list"
  request_lock :: Mutex
  request_list :: "int \<rightharpoonup> nat option"
  free_request_id_lock :: Mutex
  next_request_id :: int
  free_request_id_stack :: "int list"

text \<open>\<open>junk\<close> is what the uninitialised message buffer holds.\<close>

definition RPCSession_new :: "byte list \<Rightarrow> RPCSession" where
  "RPCSession_new junk =
     \<lparr>rs_endpoint = \<lparr>remote_ip_addr = [], remote_port = 0, local_port = 0\<rparr>, rs_has_network = False,
      rs_network_id = 0, cur_has_connected = False, send_message_lock = Mutex_new, message_buffer = junk,
      rs_handler_list = [], request_lock = Mutex_new, request_list = Map.empty,
      free_request_id_lock = Mutex_new, next_request_id = 0, free_request_id_stack = []\<rparr>"

definition RPCSession_RegisterHandler :: "nat option \<Rightarrow> RPCSession \<Rightarrow> RPCSession" where
  "RPCSession_RegisterHandler handler s = (case handler of
       None \<Rightarrow> s
     | Some h \<Rightarrow> if h \<in> set (rs_handler_list s) then s
         else s\<lparr>rs_handler_list := insort h (rs_handler_list s)\<rparr>)"

definition RPCSession_SetData :: "IPAddr \<Rightarrow> Port \<Rightarrow> Port \<Rightarrow> bool \<Rightarrow> NetworkID \<Rightarrow> RPCSession \<Rightarrow> RPCSession" where
  "RPCSession_SetData ip port lport has_network net_id s =
     s\<lparr>rs_endpoint := \<lparr>remote_ip_addr = ip, remote_port = port, local_port = lport\<rparr>,
       rs_has_network := has_network, rs_network_id := net_id\<rparr>"

definition GetRequestID :: "thread_id \<Rightarrow> RPCSession \<Rightarrow> (int \<times> RPCSession) res" where
  "GetRequestID t s =
     bind_res (Mutex_Lock t (free_request_id_lock s)) (\<lambda>(_, l).
     bind_res
       (case free_request_id_stack s of
          [] \<Rightarrow> bind_res (c_int (next_request_id s + 1)) (\<lambda>n.
                 Inr (next_request_id s, s\<lparr>next_request_id := n smod SHRT_MAX\<rparr>))
        | i # is \<Rightarrow> Inr (i, s\<lparr>free_request_id_stack := is\<rparr>)) (\<lambda>(i, s1).
     Inr (i, s1\<lparr>free_request_id_lock := snd (Mutex_Unlock t l)\<rparr>)))"

text \<open>
  \<^verbatim>\<open>AsyncCall\<close> in two parts, since another thread can receive in between: the message is sent under
  the send lock, and only then is the request entered where responses look for it.
\<close>

definition AsyncCall_send ::
  "thread_id \<Rightarrow> byte list \<Rightarrow> int \<Rightarrow> int \<Rightarrow> RPCSession \<Rightarrow> (int \<times> RPCSession \<times> rpc_action list) res" where
  "AsyncCall_send t data len total_len s =
     bind_res (GetRequestID t s) (\<lambda>(request_id, s1).
     bind_res (Mutex_Lock t (send_message_lock s1)) (\<lambda>(_, l).
     bind_res (write_header RPC_MESSAGE_TYPE_REQUEST request_id (message_buffer s1)) (\<lambda>b1.
     bind_res (memcpy b1 4 data len) (\<lambda>b2.
     if \<not> rs_has_network s1 then Inl NullPointer
     else bind_res (read_mem b2 0 total_len) (\<lambda>msg.
       Inr (request_id, s1\<lparr>send_message_lock := l, message_buffer := b2\<rparr>, [RpcSend (rs_network_id s1) msg]))))))"

definition AsyncCall_register :: "thread_id \<Rightarrow> nat \<Rightarrow> int \<Rightarrow> RPCSession \<Rightarrow> RPCSession res" where
  "AsyncCall_register t req request_id s =
     bind_res (Mutex_Lock t (request_lock s)) (\<lambda>(_, l).
       Inr (s\<lparr>request_list := (request_list s)(request_id \<mapsto> Some req),
              request_lock := snd (Mutex_Unlock t l),
              send_message_lock := snd (Mutex_Unlock t (send_message_lock s))\<rparr>))"

definition AsyncCall ::
  "thread_id \<Rightarrow> nat option \<Rightarrow> byte list option \<Rightarrow> int \<Rightarrow> RPCSession \<Rightarrow> (RPCSession \<times> rpc_action list) res" where
  "AsyncCall t req data len s = (case req of
       None \<Rightarrow> Inr (s, [])
     | Some r \<Rightarrow> (case data of
         None \<Rightarrow> Inr (s, [RpcDeleteRequest r])
       | Some d \<Rightarrow>
           if len \<le> 0 then Inr (s, [RpcDeleteRequest r])
           else let total_len = to_int32 (len + 4) in
             if RPC_SESSION_NETWORK_MESSAGE_MAX_LEN \<le> total_len then Inr (s, [RpcDeleteRequest r])
             else bind_res (AsyncCall_send t d len total_len s) (\<lambda>(request_id, s1, acts).
                  bind_res (AsyncCall_register t r request_id s1) (\<lambda>s2. Inr (s2, acts)))))"

definition SyncCall :: "byte list option \<Rightarrow> int \<Rightarrow> RPCSession \<Rightarrow> byte list option" where
  "SyncCall data len s = None"

text \<open>
  \<^verbatim>\<open>HandleCall(data, length, return_data, return_length)\<close> of handler \<open>h\<close>: from the request and the
  memory at \<^verbatim>\<open>return_data\<close> to the result code, that memory afterwards and \<^verbatim>\<open>return_length\<close>.
\<close>

type_synonym handle_call = "nat \<Rightarrow> byte list \<Rightarrow> byte list \<Rightarrow> int \<times> byte list \<times> int"

definition session_handler_call ::
  "handle_call \<Rightarrow> byte list \<Rightarrow> int \<Rightarrow> nat \<Rightarrow> RPCSession \<Rightarrow> (RPCSession \<times> rpc_action list) res" where
  "session_handler_call hc payload message_id h s =
     (let (handle_result, result_data, result_data_len) = hc h payload (drop 4 (message_buffer s));
          s1 = s\<lparr>message_buffer := take 4 (message_buffer s) @ result_data\<rparr>;
          total_send_len = to_int32 (result_data_len + 4)
      in if handle_result \<noteq> 0 \<or> result_data_len \<le> 0 \<or> RPC_SESSION_NETWORK_MESSAGE_MAX_LEN \<le> total_send_len
         then Inr (s1, [RpcHandleCall h payload])
         else bind_res (write_header RPC_MESSAGE_TYPE_RESPONSE message_id (message_buffer s1)) (\<lambda>b1.
              if \<not> rs_has_network s1 then Inl NullPointer
              else bind_res (read_mem b1 0 total_send_len) (\<lambda>msg.
                Inr (s1\<lparr>message_buffer := b1\<rparr>, [RpcHandleCall h payload, RpcSend (rs_network_id s1) msg]))))"

fun session_handlers ::
  "thread_id \<Rightarrow> handle_call \<Rightarrow> byte list \<Rightarrow> int \<Rightarrow> nat list \<Rightarrow> RPCSession \<Rightarrow> (RPCSession \<times> rpc_action list) res" where
  "session_handlers t hc payload message_id [] s = Inr (s, [])"
| "session_handlers t hc payload message_id (h # hs) s =
     bind_res (Mutex_Lock t (send_message_lock s)) (\<lambda>(_, l).
     bind_res (session_handler_call hc payload message_id h (s\<lparr>send_message_lock := l\<rparr>)) (\<lambda>(s2, acts1).
     bind_res (session_handlers t hc payload message_id hs
         (s2\<lparr>send_message_lock := snd (Mutex_Unlock t (send_message_lock s2))\<rparr>)) (\<lambda>(s3, acts2).
       Inr (s3, acts1 @ acts2))))"

definition session_response ::
  "thread_id \<Rightarrow> byte list \<Rightarrow> int \<Rightarrow> RPCSession \<Rightarrow> (RPCSession \<times> rpc_action list) res" where
  "session_response t payload message_id s =
     bind_res (Mutex_Lock t (request_lock s)) (\<lambda>(_, l).
     case request_list s message_id of
       None \<Rightarrow> Inr (s\<lparr>request_lock := snd (Mutex_Unlock t l)\<rparr>, [])
     | Some request \<Rightarrow>
         bind_res (Mutex_Lock t (free_request_id_lock s)) (\<lambda>(_, l2).
           Inr (s\<lparr>request_list := (request_list s)(message_id := None),
                  free_request_id_stack := message_id # free_request_id_stack s,
                  free_request_id_lock := snd (Mutex_Unlock t l2),
                  request_lock := snd (Mutex_Unlock t l)\<rparr>,
                case request of None \<Rightarrow> [] | Some r \<Rightarrow> [RpcCallBack r payload, RpcDeleteRequest r])))"

definition RPCSession_OnRecv ::
  "thread_id \<Rightarrow> handle_call \<Rightarrow> byte list option \<Rightarrow> int \<Rightarrow> RPCSession \<Rightarrow> (RPCSession \<times> rpc_action list) res" where
  "RPCSession_OnRecv t hc data len s = (case data of
       None \<Rightarrow> Inr (s, [])
     | Some d \<Rightarrow>
         if len \<le> 4 then Inr (s, [])
         else bind_res (read_header d) (\<lambda>head.
           if hd_type head = RPC_MESSAGE_TYPE_RESPONSE then
             bind_res (read_mem d 4 (len - 4)) (\<lambda>payload. session_response t payload (hd_message_id head) s)
           else if hd_type head = RPC_MESSAGE_TYPE_REQUEST then
             bind_res (read_mem d 4 (len - 4)) (\<lambda>payload.
               session_handlers t hc payload (hd_message_id head) (rs_handler_list s) s)
           else Inr (s, [])))"

section \<open>The manager\<close>

definition CalculateRPCSessionKey :: "Port \<Rightarrow> IPAddr \<Rightarrow> Port \<Rightarrow> std_string" where
  "CalculateRPCSessionKey lport ip port = decimal (unat lport) @ str ''_'' @ ip @ str ''_'' @ decimal (unat port)"

record UncheckRPCInfo =
  ui_network_id :: NetworkID
  ui_remote_ip_addr :: IPAddr
  ui_remote_port :: Port
  ui_local_port :: Port

definition UncheckRPCInfo_new :: UncheckRPCInfo where
  "UncheckRPCInfo_new = \<lparr>ui_network_id = 0, ui_remote_ip_addr = [], ui_remote_port = 0, ui_local_port = 0\<rparr>"

record RPCManager =
  rm_has_handler :: bool
  rm_has_network :: bool
  session_id_2_network_id_map :: "std_string \<rightharpoonup> NetworkID"
  network_id_2_session_id_map :: "NetworkID \<rightharpoonup> std_string"
  session_map :: "std_string \<rightharpoonup> RPCSession"
  uncheck_key_map :: "std_string \<rightharpoonup> std_string"
  uncheck_rpc_info_map :: "int \<rightharpoonup> UncheckRPCInfo"
  listen_port_2_key_map :: "int \<rightharpoonup> std_string"
  network_id_2_key_map :: "int \<rightharpoonup> std_string"

definition RPCManager_new :: "bool \<Rightarrow> bool \<Rightarrow> RPCManager \<times> rpc_action list" where
  "RPCManager_new handler network =
     (\<lparr>rm_has_handler = handler, rm_has_network = network, session_id_2_network_id_map = Map.empty,
       network_id_2_session_id_map = Map.empty, session_map = Map.empty, uncheck_key_map = Map.empty,
       uncheck_rpc_info_map = Map.empty, listen_port_2_key_map = Map.empty, network_id_2_key_map = Map.empty\<rparr>,
      if network then [RpcRegistHandler] else [])"

definition RPCManager_AsyncConnect ::
  "IPAddr \<Rightarrow> Port \<Rightarrow> std_string \<Rightarrow> RPCManager \<Rightarrow> (RPCManager \<times> rpc_action list) res" where
  "RPCManager_AsyncConnect server_ip port key m =
     (if \<not> rm_has_network m then Inl NullPointer
      else Inr (m\<lparr>uncheck_key_map := (uncheck_key_map m)(CalculateRPCSessionKey 0 server_ip port \<mapsto> key)\<rparr>,
                [RpcSyncConnect server_ip port]))"

definition RPCManager_AsyncListen ::
  "Port \<Rightarrow> std_string \<Rightarrow> RPCManager \<Rightarrow> (RPCManager \<times> rpc_action list) res" where
  "RPCManager_AsyncListen port key m =
     (if \<not> rm_has_network m then Inl NullPointer
      else Inr (m\<lparr>listen_port_2_key_map := (listen_port_2_key_map m)(uint port \<mapsto> key)\<rparr>, [RpcSyncListen port]))"

definition to_handler :: "RPCManager \<Rightarrow> rpc_action \<Rightarrow> rpc_action list" where
  "to_handler m act = (if rm_has_handler m then [act] else [])"

text \<open>A session found under its id keeps the connection number it was created with.\<close>

definition OnActiveNetwork ::
  "byte list \<Rightarrow> NetworkID \<Rightarrow> Port \<Rightarrow> IPAddr \<Rightarrow> Port \<Rightarrow> RPCManager \<Rightarrow> RPCManager \<times> rpc_action list" where
  "OnActiveNetwork junk net_id lport ip port m =
     (let session_id = CalculateRPCSessionKey lport ip port;
          m1 = (case session_map m session_id of
                  None \<Rightarrow> m\<lparr>session_map := (session_map m)(session_id \<mapsto>
                    RPCSession_SetData ip port lport (rm_has_network m) net_id (RPCSession_new junk))\<rparr>
                | Some _ \<Rightarrow> m)
      in (m1\<lparr>session_id_2_network_id_map := (session_id_2_network_id_map m1)(session_id \<mapsto> net_id),
             network_id_2_session_id_map := (network_id_2_session_id_map m1)(net_id \<mapsto> session_id)\<rparr>,
          to_handler m (RpcSessionActive session_id)))"

definition RPCManager_OnConnect ::
  "IPAddr \<Rightarrow> Port \<Rightarrow> Port \<Rightarrow> bool \<Rightarrow> NetworkID \<Rightarrow> RPCManager \<Rightarrow> (RPCManager \<times> rpc_action list) res" where
  "RPCManager_OnConnect ip port lport success net_id m =
     (if \<not> success then Inr (m, to_handler m (RpcConnectFail ip port))
      else case uncheck_key_map m (CalculateRPCSessionKey 0 ip port) of
        None \<Rightarrow> Inr (m, [])
      | Some rpc_key \<Rightarrow>
          if int (length rpc_key) < RPC_MAX_KEY_STRING_LENGTH then
            (if \<not> rm_has_network m then Inl NullPointer
             else Inr (m\<lparr>uncheck_rpc_info_map := (uncheck_rpc_info_map m)(net_id \<mapsto>
                   \<lparr>ui_network_id = net_id, ui_remote_ip_addr = ip, ui_remote_port = port, ui_local_port = lport\<rparr>)\<rparr>,
                 [RpcSend net_id (check_key_message rpc_key)]))
          else Inr (m, []))"

definition RPCManager_OnListenFail :: "Port \<Rightarrow> RPCManager \<Rightarrow> RPCManager \<times> rpc_action list" where
  "RPCManager_OnListenFail port m = (m, to_handler m (RpcListenFail port))"

definition RPCManager_OnAccept :: "IPAddr \<Rightarrow> Port \<Rightarrow> Port \<Rightarrow> NetworkID \<Rightarrow> RPCManager \<Rightarrow> RPCManager" where
  "RPCManager_OnAccept ip port lport net_id m = (case listen_port_2_key_map m (uint lport) of
       None \<Rightarrow> m
     | Some key \<Rightarrow>
         let m1 = m\<lparr>network_id_2_key_map := (network_id_2_key_map m)(net_id \<mapsto> key)\<rparr> in
         case uncheck_rpc_info_map m1 net_id of
           None \<Rightarrow> m1\<lparr>uncheck_rpc_info_map := (uncheck_rpc_info_map m1)(net_id \<mapsto>
               UncheckRPCInfo_new\<lparr>ui_network_id := net_id, ui_remote_ip_addr := ip, ui_remote_port := port\<rparr>)\<rparr>
         | Some _ \<Rightarrow> m1)"

text \<open>\<^verbatim>\<open>m[k]\<close>: the entry, made with the default value when there is none.\<close>

definition subscript :: "('k \<rightharpoonup> 'v) \<Rightarrow> 'k \<Rightarrow> 'v \<Rightarrow> 'v \<times> ('k \<rightharpoonup> 'v)" where
  "subscript f k d = (case f k of None \<Rightarrow> (d, f(k \<mapsto> d)) | Some v \<Rightarrow> (v, f))"

definition activate_unchecked ::
  "byte list \<Rightarrow> NetworkID \<Rightarrow> RPCManager \<Rightarrow> RPCManager \<times> rpc_action list" where
  "activate_unchecked junk net_id m =
     (let (info, infos) = subscript (uncheck_rpc_info_map m) net_id UncheckRPCInfo_new
      in OnActiveNetwork junk net_id (ui_local_port info) (ui_remote_ip_addr info) (ui_remote_port info)
           (m\<lparr>uncheck_rpc_info_map := infos\<rparr>))"

definition RPCManager_OnRecv ::
  "thread_id \<Rightarrow> handle_call \<Rightarrow> byte list \<Rightarrow> NetworkID \<Rightarrow> byte list \<Rightarrow> int \<Rightarrow> RPCManager \<Rightarrow>
   (RPCManager \<times> rpc_action list) res" where
  "RPCManager_OnRecv t hc junk net_id data len m =
     bind_res (read_mem data 0 1) (\<lambda>ty.
     if ty = [RPC_MESSAGE_TYPE_CHECK_KEY] then
       bind_res (c_string (drop 4 data)) (\<lambda>receive_key.
       let (key, keys) = subscript (network_id_2_key_map m) net_id [];
           m1 = m\<lparr>network_id_2_key_map := keys\<rparr>
       in if \<not> rm_has_network m then Inl NullPointer
          else if receive_key = key then
            let (m2, acts) = activate_unchecked junk net_id m1
            in Inr (m2, RpcSend net_id check_key_response # acts)
          else Inr (m1, [RpcDisconnect net_id]))
     else if ty = [RPC_MESSAGE_TYPE_CHECK_KEY_RESPONSE] then
       bind_res (read_mem data 1 1) (\<lambda>response.
       if response = [1] then Inr (activate_unchecked junk net_id m)
       else if \<not> rm_has_network m then Inl NullPointer
       else Inr (m, [RpcDisconnect net_id]))
     else
       let (session_id, ids) = subscript (network_id_2_session_id_map m) net_id [];
           m1 = m\<lparr>network_id_2_session_id_map := ids\<rparr>
       in case session_map m1 session_id of
            None \<Rightarrow> Inr (m1, [])
          | Some s \<Rightarrow> bind_res (RPCSession_OnRecv t hc (Some data) len s) (\<lambda>(s1, acts).
              Inr (m1\<lparr>session_map := (session_map m1)(session_id \<mapsto> s1)\<rparr>, acts)))"

definition RPCManager_OnDisconnect :: "NetworkID \<Rightarrow> RPCManager \<Rightarrow> RPCManager \<times> rpc_action list" where
  "RPCManager_OnDisconnect net_id m =
     (let (session_id, ids) = subscript (network_id_2_session_id_map m) net_id [];
          m1 = m\<lparr>session_id_2_network_id_map := (session_id_2_network_id_map m)(session_id := None),
                 network_id_2_session_id_map := ids(net_id := None)\<rparr>
      in (m1, case session_map m1 session_id of
                None \<Rightarrow> []
              | Some _ \<Rightarrow> to_handler m (RpcSessionInactive session_id)))"

text \<open>The user's call on a session the manager gave out.\<close>

definition RPCManager_call ::
  "thread_id \<Rightarrow> std_string \<Rightarrow> nat \<Rightarrow> byte list \<Rightarrow> RPCManager \<Rightarrow> (RPCManager \<times> rpc_action list) res" where
  "RPCManager_call t session_id req data m = (case session_map m session_id of
       None \<Rightarrow> Inl NullPointer
     | Some s \<Rightarrow> bind_res (AsyncCall t (Some req) (Some data) (int (length data)) s) (\<lambda>(s1, acts).
         Inr (m\<lparr>session_map := (session_map m)(session_id \<mapsto> s1)\<rparr>, acts)))"

section \<open>Session keys\<close>

lemma decimal_no_separator: "95 \<notin> set (decimal n)"
proof
  assume "95 \<in> set (decimal n)"
  then obtain d where d: "d < 10" "(95 :: byte) = of_nat (48 + d)" using decimal_digits by blast
  from arg_cong[OF d(2), of unat] d(1) digit_byte[OF d(1)] show False by (simp del: of_nat_add)
qed

lemma separated_prefix:
  assumes "x @ 95 # u = y @ (95 :: byte) # v" and "95 \<notin> set x" and "95 \<notin> set y"
  shows "x = y \<and> u = v"
proof -
  have "takeWhile (\<lambda>b. b \<noteq> 95) (x @ 95 # u) = x" "takeWhile (\<lambda>b. b \<noteq> 95) (y @ 95 # v) = y"
    using assms(2,3) by (auto simp: takeWhile_append takeWhile_eq_all_conv)
  with assms(1) show ?thesis by auto
qed

lemma CalculateRPCSessionKey_inject:
  "CalculateRPCSessionKey l ip p = CalculateRPCSessionKey l' ip' p' \<longleftrightarrow> l = l' \<and> ip = ip' \<and> p = p'"
proof
  assume "CalculateRPCSessionKey l ip p = CalculateRPCSessionKey l' ip' p'"
  then have e: "decimal (unat l) @ 95 # (ip @ 95 # decimal (unat p)) =
      decimal (unat l') @ 95 # (ip' @ 95 # decimal (unat p'))"
    by (simp add: CalculateRPCSessionKey_def str_def)
  from separated_prefix[OF e decimal_no_separator decimal_no_separator]
  have 1: "unat l = unat l'" "ip @ 95 # decimal (unat p) = ip' @ 95 # decimal (unat p')"
    by (simp_all add: decimal_inject)
  then have "rev (decimal (unat p)) @ 95 # rev ip = rev (decimal (unat p')) @ 95 # rev ip'"
    by (metis append.assoc append_Cons append_Nil rev.simps(2) rev_append)
  from separated_prefix[OF this] decimal_no_separator 1(1) show "l = l' \<and> ip = ip' \<and> p = p'"
    by (simp add: decimal_inject word_unat_eq_iff)
qed simp

section \<open>Requests and their numbers\<close>

lemma lock_free [simp]:
  "Mutex_Lock t Mutex_new = Inr (True, \<lparr>mutex_owner = Some t, mutex_depth = 1\<rparr>)"
  "Mutex_Unlock t \<lparr>mutex_owner = Some t, mutex_depth = Suc 0\<rparr> = (True, Mutex_new)"
  by (simp_all add: Mutex_Lock_def Mutex_Unlock_def Mutex_new_def)

text \<open>A message of the protocol: header and body; \<open>r\<close> is the reserved byte.\<close>

definition rpc_message :: "byte \<Rightarrow> byte \<Rightarrow> int \<Rightarrow> byte list \<Rightarrow> byte list" where
  "rpc_message ty r i d = ty # r # le_bytes 2 (word_of_int i :: u16) @ d"

lemma length_rpc_message [simp]: "length (rpc_message ty r i d) = 4 + length d"
  by (simp add: rpc_message_def)

lemma write_header_message:
  assumes "4 \<le> length b"
  shows "write_header ty i b = Inr (rpc_message ty (b ! 1) i (drop 4 b))"
proof -
  from assms obtain b0 b1 b2 b3 d where b: "b = b0 # b1 # b2 # b3 # d"
    by (auto simp: numeral_eq_Suc Suc_le_length_iff)
  show ?thesis by (simp add: b write_header_def memcpy_def rpc_message_def)
qed

lemma read_header_message:
  assumes "- 32768 \<le> i" and "i < 32768"
  shows "read_header (rpc_message ty r i d) = Inr \<lparr>hd_type = ty, hd_message_id = i\<rparr>"
proof -
  have "sint (word_of_int i :: u16) = i" using assms by (simp add: sint_word_of_int)
  moreover obtain x y where "le_bytes 2 (word_of_int i :: u16) = [x, y]" by simp
  ultimately have "sint (of_le_bytes [x, y] :: u16) = i" "le_bytes 2 (word_of_int i :: u16) = [x, y]"
    using of_le_bytes_le_bytes[of 2 "word_of_int i :: u16"] by simp_all
  then show ?thesis by (simp add: read_header_def read_mem_def rpc_message_def del: le_bytes_numeral of_le_bytes.simps)
qed

text \<open>Between calls no lock is held; the buffer has its size and the session its network.\<close>

definition session_idle :: "RPCSession \<Rightarrow> bool" where
  "session_idle s \<longleftrightarrow> send_message_lock s = Mutex_new \<and> request_lock s = Mutex_new \<and>
     free_request_id_lock s = Mutex_new \<and> length (message_buffer s) = 10240 \<and> rs_has_network s"

text \<open>
  The numbers below the next one are partitioned into those of outstanding requests and those on
  the free stack.
\<close>

definition numbers_ok :: "RPCSession \<Rightarrow> bool" where
  "numbers_ok s \<longleftrightarrow> 0 \<le> next_request_id s \<and> next_request_id s < SHRT_MAX \<and> distinct (free_request_id_stack s) \<and>
     dom (request_list s) \<inter> set (free_request_id_stack s) = {} \<and>
     dom (request_list s) \<union> set (free_request_id_stack s) = {0..<next_request_id s}"

lemma GetRequestID_new:
  assumes "session_idle s" and "numbers_ok s" and "card (dom (request_list s)) < 32766"
  shows "\<exists>i s1. GetRequestID t s = Inr (i, s1) \<and> session_idle s1 \<and> request_list s i = None \<and>
    request_list s1 = request_list s \<and> message_buffer s1 = message_buffer s \<and> rs_network_id s1 = rs_network_id s \<and>
    rs_handler_list s1 = rs_handler_list s \<and>
    0 \<le> i \<and> i < 32766 \<and> numbers_ok (s1\<lparr>request_list := (request_list s)(i \<mapsto> v)\<rparr>)"
proof (cases "free_request_id_stack s")
  case Nil
  let ?n = "next_request_id s"
  have d: "dom (request_list s) = {0..<?n}" "0 \<le> ?n" using assms(2) Nil by (auto simp: numbers_ok_def)
  with assms(3) have n: "?n < 32766" by simp
  have f: "request_list s ?n = None" using d by (auto simp: domIff[symmetric])
  have m: "(?n + 1) smod 32767 = ?n + 1" using d(2) n by (simp add: signed_modulo_int_def)
  have e: "{0..<?n + 1} = insert ?n {0..<?n}" using d(2) by auto
  show ?thesis
    using assms(1) Nil d n f m e
    by (auto simp: GetRequestID_def session_idle_def numbers_ok_def c_int_def INT_MAX_def INT_MIN_def)
next
  case (Cons i js)
  have "dom (request_list s) \<union> set (i # js) = {0..<next_request_id s}"
    using assms(2) Cons by (simp add: numbers_ok_def)
  then have i: "i \<in> {0..<next_request_id s}" "request_list s i = None" "i \<notin> set js"
    using assms(2) Cons by (fastforce simp: numbers_ok_def)+
  have "next_request_id s \<le> 32766" using assms(2) by (simp add: numbers_ok_def)
  with i(1) have "0 \<le> i" "i < 32766" by auto
  with i(2,3) assms Cons show ?thesis
    by (auto simp: GetRequestID_def session_idle_def numbers_ok_def)
qed

text \<open>What a call that is within the limits does.\<close>

lemma AsyncCall_sends:
  assumes "session_idle s" and "numbers_ok s" and "card (dom (request_list s)) < 32766"
    and "data \<noteq> []" and "length data < 10236"
  shows "\<exists>i s1 s'. request_list s i = None \<and> 0 \<le> i \<and> i < 32766 \<and>
    AsyncCall_send t data (int (length data)) (int (length data) + 4) s =
      Inr (i, s1, [RpcSend (rs_network_id s) (rpc_message RPC_MESSAGE_TYPE_REQUEST (message_buffer s ! 1) i data)]) \<and>
    request_list s1 = request_list s \<and> request_lock s1 = Mutex_new \<and> free_request_id_lock s1 = Mutex_new \<and>
    AsyncCall_register t r i s1 = Inr s' \<and> request_list s' = (request_list s)(i \<mapsto> Some r) \<and>
    rs_network_id s' = rs_network_id s \<and> rs_handler_list s' = rs_handler_list s \<and>
    session_idle s' \<and> numbers_ok s'"
proof -
  from GetRequestID_new[OF assms(1-3), of t "Some r"] obtain i s0 where
    g: "GetRequestID t s = Inr (i, s0)" "session_idle s0" "request_list s i = None" "request_list s0 = request_list s"
      "message_buffer s0 = message_buffer s" "rs_network_id s0 = rs_network_id s" "rs_handler_list s0 = rs_handler_list s"
      "0 \<le> i" "i < 32766" "numbers_ok (s0\<lparr>request_list := (request_list s)(i \<mapsto> Some r)\<rparr>)" by blast
  let ?b = "message_buffer s"
  have l: "length ?b = 10240" using assms(1) by (simp add: session_idle_def)
  have w: "write_header RPC_MESSAGE_TYPE_REQUEST i ?b = Inr (rpc_message RPC_MESSAGE_TYPE_REQUEST (?b ! 1) i (drop 4 ?b))"
    using l by (simp add: write_header_message)
  define b2 where "b2 = rpc_message RPC_MESSAGE_TYPE_REQUEST (?b ! 1) i (data @ drop (4 + length data) ?b)"
  have c: "memcpy (rpc_message RPC_MESSAGE_TYPE_REQUEST (?b ! 1) i (drop 4 ?b)) 4 data (int (length data)) = Inr b2"
    using l assms(5) by (simp add: memcpy_def b2_def rpc_message_def nat_add_distrib) (simp add: numeral_eq_Suc)
  have r: "read_mem b2 0 (int (length data) + 4) = Inr (rpc_message RPC_MESSAGE_TYPE_REQUEST (?b ! 1) i data)"
    using l assms(5) by (simp add: read_mem_def b2_def nat_add_distrib) (simp add: rpc_message_def numeral_eq_Suc)
  have b2: "length b2 = 10240" using l assms(5) by (simp add: b2_def)
  define s1 where "s1 = s0\<lparr>send_message_lock := \<lparr>mutex_owner = Some t, mutex_depth = 1\<rparr>, message_buffer := b2\<rparr>"
  have "AsyncCall_send t data (int (length data)) (int (length data) + 4) s =
      Inr (i, s1, [RpcSend (rs_network_id s) (rpc_message RPC_MESSAGE_TYPE_REQUEST (?b ! 1) i data)])"
    using g(1,2,5,6) w c r by (simp add: AsyncCall_send_def session_idle_def s1_def)
  moreover define s' where "s' = s0\<lparr>message_buffer := b2, request_list := (request_list s)(i \<mapsto> Some r)\<rparr>"
  moreover have "AsyncCall_register t r i s1 = Inr s'"
    using g(2,4) by (simp add: AsyncCall_register_def session_idle_def s1_def s'_def)
  moreover have "session_idle s'" "numbers_ok s'"
    using g(2,10) b2 by (simp_all add: session_idle_def numbers_ok_def s'_def)
  ultimately show ?thesis using g b2 by (auto simp: s1_def session_idle_def)
qed

text \<open>A handler writes inside the memory it is given.\<close>

definition handler_ok :: "handle_call \<Rightarrow> bool" where
  "handler_ok hc \<longleftrightarrow> (\<forall>h d b. length (fst (snd (hc h d b))) = length b)"

definition same_requests :: "RPCSession \<Rightarrow> RPCSession \<Rightarrow> bool" where
  "same_requests s s' \<longleftrightarrow> request_list s' = request_list s \<and> next_request_id s' = next_request_id s \<and>
     free_request_id_stack s' = free_request_id_stack s"

lemma same_requests_numbers: "same_requests s s' \<Longrightarrow> numbers_ok s' = numbers_ok s"
  by (simp add: same_requests_def numbers_ok_def)

lemma session_handler_call_keeps:
  assumes "session_handler_call hc d i h s = Inr (s', acts)" and "handler_ok hc" and "length (message_buffer s) = 10240"
  shows "\<exists>b. s' = s\<lparr>message_buffer := b\<rparr> \<and> length b = 10240"
proof -
  obtain res rd rl where h: "hc h d (drop 4 (message_buffer s)) = (res, rd, rl)" by (metis prod_cases3)
  have "length (fst (snd (hc h d (drop 4 (message_buffer s))))) = length (drop 4 (message_buffer s))"
    using assms(2) unfolding handler_ok_def by blast
  then have "length (take 4 (message_buffer s) @ rd) = 10240" using assms(3) by (simp add: h)
  with assms(1) h show ?thesis
    by (fastforce simp: session_handler_call_def bind_res_eq_Inr Let_def write_header_message split: if_splits)
qed

lemma session_handlers_idle:
  "session_handlers t hc d i hs s = Inr (s', acts) \<Longrightarrow> handler_ok hc \<Longrightarrow> session_idle s \<Longrightarrow>
   session_idle s' \<and> same_requests s s'"
proof (induction hs arbitrary: s acts)
  case Nil
  then show ?case by (simp add: same_requests_def)
next
  case (Cons h hs)
  let ?l = "\<lparr>mutex_owner = Some t, mutex_depth = 1\<rparr>"
  from Cons.prems(1,3) obtain s2 a1 a2 where
    2: "session_handler_call hc d i h (s\<lparr>send_message_lock := ?l\<rparr>) = Inr (s2, a1)"
      "session_handlers t hc d i hs (s2\<lparr>send_message_lock := snd (Mutex_Unlock t (send_message_lock s2))\<rparr>) = Inr (s', a2)"
    by (auto simp: bind_res_eq_Inr session_idle_def)
  from session_handler_call_keeps[OF 2(1) Cons.prems(2)] Cons.prems(3) obtain b where
    b: "s2 = s\<lparr>send_message_lock := ?l, message_buffer := b\<rparr>" "length b = 10240" by (auto simp: session_idle_def)
  have "session_idle (s2\<lparr>send_message_lock := snd (Mutex_Unlock t (send_message_lock s2))\<rparr>)" "same_requests s s2"
    using b Cons.prems(3) by (simp_all add: session_idle_def same_requests_def)
  with Cons.IH[OF 2(2) Cons.prems(2)] show ?case by (simp add: same_requests_def)
qed

lemma session_response_law:
  assumes "session_idle s"
  shows "session_response t d i s = Inr (case request_list s i of
      None \<Rightarrow> (s, [])
    | Some request \<Rightarrow> (s\<lparr>request_list := (request_list s)(i := None), free_request_id_stack := i # free_request_id_stack s\<rparr>,
        case request of None \<Rightarrow> [] | Some r \<Rightarrow> [RpcCallBack r d, RpcDeleteRequest r]))"
  using assms by (auto simp: session_response_def session_idle_def split: option.splits)

lemma numbers_ok_response:
  assumes "numbers_ok s" and "i \<in> dom (request_list s)"
  shows "numbers_ok (s\<lparr>request_list := (request_list s)(i := None), free_request_id_stack := i # free_request_id_stack s\<rparr>)"
  using assms by (auto simp: numbers_ok_def)

lemma OnRecv_keeps_session:
  assumes "RPCSession_OnRecv t hc data len s = Inr (s', acts)" and "handler_ok hc"
    and "session_idle s" and "numbers_ok s"
  shows "session_idle s' \<and> numbers_ok s'"
proof -
  consider "s' = s" | (resp) d i where "session_response t d i s = Inr (s', acts)"
    | (req) d i where "session_handlers t hc d i (rs_handler_list s) s = Inr (s', acts)"
    using assms(1) by (auto simp: RPCSession_OnRecv_def bind_res_eq_Inr split: option.splits if_splits)
  then show ?thesis
  proof cases
    case resp
    then show ?thesis using assms(3,4) numbers_ok_response[OF assms(4), of i]
      by (auto simp: session_response_law session_idle_def split: option.splits)
  next
    case req
    from session_handlers_idle[OF req assms(2,3)] assms(4) show ?thesis by (auto simp: same_requests_numbers)
  qed (use assms in simp)
qed

text \<open>The states of a session with a network, as long as fewer than 32766 requests are outstanding at a call.\<close>

inductive session_reachable :: "RPCSession \<Rightarrow> bool" where
  session_made: "length junk = 10240 \<Longrightarrow>
     session_reachable (RPCSession_SetData ip port lport True net_id (RPCSession_new junk))"
| session_handler: "session_reachable s \<Longrightarrow> session_reachable (RPCSession_RegisterHandler h s)"
| session_call: "session_reachable s \<Longrightarrow> card (dom (request_list s)) < 32766 \<Longrightarrow>
     AsyncCall t req (Some data) (int (length data)) s = Inr (s', acts) \<Longrightarrow> session_reachable s'"
| session_recv: "session_reachable s \<Longrightarrow> handler_ok hc \<Longrightarrow>
     RPCSession_OnRecv t hc data len s = Inr (s', acts) \<Longrightarrow> session_reachable s'"

lemma AsyncCall_within_limits:
  assumes "data \<noteq> []" and "length data < 10236"
  shows "AsyncCall t (Some r) (Some data) (int (length data)) s =
    bind_res (AsyncCall_send t data (int (length data)) (int (length data) + 4) s) (\<lambda>(request_id, s1, acts).
      bind_res (AsyncCall_register t r request_id s1) (\<lambda>s2. Inr (s2, acts)))"
  using assms by (simp add: AsyncCall_def Let_def INT_MIN_def INT_MAX_def)

lemma AsyncCall_over_limit:
  assumes "session_idle s" and "numbers_ok s" and "card (dom (request_list s)) < 32766"
    and "\<not> length data < 10236" and "AsyncCall t req (Some data) (int (length data)) s = Inr (s', acts)"
  shows "s' = s"
proof (rule ccontr)
  assume "s' \<noteq> s"
  with assms(5) obtain tl i s1 a where "AsyncCall_send t data (int (length data)) tl s = Inr (i, s1, a)"
    and tl: "to_int32 (int (length data) + 4) < 10240"
    by (auto simp: AsyncCall_def Let_def bind_res_eq_Inr split: option.splits if_splits)
  then obtain s0 b1 b2 where g: "GetRequestID t s = Inr (i, s0)"
    and w: "write_header RPC_MESSAGE_TYPE_REQUEST i (message_buffer s0) = Inr b1"
    and m: "memcpy b1 4 data (int (length data)) = Inr b2"
    by (auto simp: AsyncCall_send_def bind_res_eq_Inr split: if_splits)
  from GetRequestID_new[OF assms(1-3), of t] g assms(1) have "length (message_buffer s0) = 10240"
    by (auto simp: session_idle_def)
  with w have "length b1 = 10240" by (auto simp: write_header_message)
  with m assms(4) have "length data = 10236" by (auto simp: memcpy_def split: if_splits)
  with tl show False by (simp add: INT_MIN_def INT_MAX_def)
qed

lemma AsyncCall_keeps_session:
  assumes "AsyncCall t req (Some data) (int (length data)) s = Inr (s', acts)"
    and "session_idle s" and "numbers_ok s" and "card (dom (request_list s)) < 32766"
  shows "session_idle s' \<and> numbers_ok s'"
proof (cases "length data < 10236 \<and> data \<noteq> [] \<and> req \<noteq> None")
  case True
  then obtain r where r: "req = Some r" "length data < 10236" "data \<noteq> []" by auto
  from AsyncCall_sends[OF assms(2-4) r(3,2), of t r] assms(1) show ?thesis
    unfolding r(1) AsyncCall_within_limits[OF r(3,2)] by auto
next
  case False
  have "s' = s"
  proof (cases "length data < 10236")
    case True
    then show ?thesis using False assms(1) by (auto simp: AsyncCall_def split: option.splits)
  qed (use AsyncCall_over_limit[OF assms(2-4) _ assms(1)] in simp)
  then show ?thesis using assms by simp
qed

lemma session_reachable_ok: "session_reachable s \<Longrightarrow> session_idle s \<and> numbers_ok s"
proof (induction rule: session_reachable.induct)
  case (session_made junk ip port lport net_id)
  then show ?case
    by (simp add: session_idle_def numbers_ok_def RPCSession_SetData_def RPCSession_new_def)
next
  case (session_handler s h)
  then show ?case
    by (simp add: session_idle_def numbers_ok_def RPCSession_RegisterHandler_def split: option.splits)
next
  case (session_call s t req data s' acts)
  then show ?case using AsyncCall_keeps_session by blast
next
  case (session_recv s hc t data len s' acts)
  then show ?case using OnRecv_keeps_session by blast
qed

lemma read_body: "read_mem (rpc_message ty r i d) 4 (int (length (rpc_message ty r i d)) - 4) = Inr d"
  by (simp add: read_mem_def) (simp add: rpc_message_def numeral_eq_Suc)

lemma response_answers:
  assumes "session_idle s" and "request_list s i = Some (Some r)" and "0 \<le> i" and "i < 32768" and "d \<noteq> []"
  shows "RPCSession_OnRecv t hc (Some (rpc_message RPC_MESSAGE_TYPE_RESPONSE rsv i d))
      (int (length (rpc_message RPC_MESSAGE_TYPE_RESPONSE rsv i d))) s =
    Inr (s\<lparr>request_list := (request_list s)(i := None), free_request_id_stack := i # free_request_id_stack s\<rparr>,
      [RpcCallBack r d, RpcDeleteRequest r])"
  using assms read_body[of RPC_MESSAGE_TYPE_RESPONSE rsv i d] read_header_message[of i RPC_MESSAGE_TYPE_RESPONSE rsv d]
  by (simp add: RPCSession_OnRecv_def session_response_law)

lemma handler_answers:
  assumes "session_idle s" and "rs_handler_list s = [h]" and "hc h d (drop 4 (message_buffer s)) = (0, result, len)"
    and "length result = 10236" and "0 < len" and "len < 10236" and "d \<noteq> []" and "0 \<le> i" and "i < 32768"
  shows "\<exists>s1. RPCSession_OnRecv t hc (Some (rpc_message RPC_MESSAGE_TYPE_REQUEST rsv i d))
      (int (length (rpc_message RPC_MESSAGE_TYPE_REQUEST rsv i d))) s =
    Inr (s1, [RpcHandleCall h d, RpcSend (rs_network_id s)
      (rpc_message RPC_MESSAGE_TYPE_RESPONSE (message_buffer s ! 1) i (take (nat len) result))])"
proof -
  let ?b = "take 4 (message_buffer s) @ result"
  have lb: "length (message_buffer s) = 10240" using assms(1) by (simp add: session_idle_def)
  have w: "write_header RPC_MESSAGE_TYPE_RESPONSE i ?b =
      Inr (rpc_message RPC_MESSAGE_TYPE_RESPONSE (message_buffer s ! 1) i result)"
    using lb by (simp add: write_header_message assms(4) nth_append)
  have r: "read_mem (rpc_message RPC_MESSAGE_TYPE_RESPONSE (message_buffer s ! 1) i result) 0 (len + 4) =
      Inr (rpc_message RPC_MESSAGE_TYPE_RESPONSE (message_buffer s ! 1) i (take (nat len) result))"
    using assms(4-6) by (simp add: read_mem_def nat_add_distrib) (simp add: rpc_message_def numeral_eq_Suc)
  have t: "to_int32 (len + 4) = len + 4" using assms(5,6) by (simp add: INT_MIN_def INT_MAX_def)
  have n: "rs_has_network s" "send_message_lock s = Mutex_new" using assms(1) by (simp_all add: session_idle_def)
  show ?thesis
    using assms(2,3,5-9) w r t n read_body[of RPC_MESSAGE_TYPE_REQUEST rsv i d]
      read_header_message[of i RPC_MESSAGE_TYPE_REQUEST rsv d]
    by (simp add: RPCSession_OnRecv_def session_handler_call_def)
qed

section \<open>Properties of sessions\<close>

text \<open>
  C18: A call gets a number no outstanding request has. In every reachable state with fewer than
  32766 outstanding requests, a call with 1 to 10235 bytes of data sends one message, a request
  header with the number followed by exactly the data, and enters the request under that number.
\<close>

theorem rpc_request_numbers_unique:
  assumes "session_reachable s" and "card (dom (request_list s)) < 32766"
    and "data \<noteq> []" and "length data < 10236"
  shows "\<exists>i s' rsv. AsyncCall t (Some r) (Some data) (int (length data)) s =
      Inr (s', [RpcSend (rs_network_id s) ([2, rsv] @ le_bytes 2 (word_of_int i :: u16) @ data)]) \<and>
    request_list s i = None \<and> request_list s' = (request_list s)(i \<mapsto> Some r) \<and> 0 \<le> i \<and> i < 32766"
proof -
  from AsyncCall_sends[OF _ _ assms(2-4), of t r] session_reachable_ok[OF assms(1)]
  obtain i s1 s' where "request_list s i = None" "0 \<le> i" "i < 32766"
    "AsyncCall_send t data (int (length data)) (int (length data) + 4) s =
      Inr (i, s1, [RpcSend (rs_network_id s) (rpc_message RPC_MESSAGE_TYPE_REQUEST (message_buffer s ! 1) i data)])"
    "AsyncCall_register t r i s1 = Inr s'" "request_list s' = (request_list s)(i \<mapsto> Some r)" by blast
  then show ?thesis
    by (intro exI[of _ i] exI[of _ s'] exI[of _ "message_buffer s ! 1"])
      (simp add: AsyncCall_within_limits[OF assms(3,4)] rpc_message_def)
qed

definition demo_session :: RPCSession where
  "demo_session = RPCSession_SetData (str ''10.0.0.1'') 5000 80 True 1 (RPCSession_new (replicate 10240 0))"

lemma demo_session_reachable: "session_reachable demo_session"
  unfolding demo_session_def by (rule session_made) simp

lemma demo_session_requests [simp]: "request_list demo_session = Map.empty" "rs_network_id demo_session = 1"
  by (simp_all add: demo_session_def RPCSession_SetData_def RPCSession_new_def)

theorem rpc_request_numbers_unique_witness:
  "\<exists>i s' rsv. AsyncCall 5 (Some 77) (Some [65, 66]) 2 demo_session =
      Inr (s', [RpcSend 1 ([2, rsv] @ le_bytes 2 (word_of_int i :: u16) @ [65, 66])]) \<and>
    request_list s' = [i \<mapsto> Some 77] \<and> 0 \<le> i \<and> i < 32766"
  using rpc_request_numbers_unique [OF demo_session_reachable, of "[65, 66]" 5 77] by simp

lemma call_round_trip:
  assumes "session_reachable c" and "card (dom (request_list c)) < 32766"
    and "data \<noteq> []" and "length data < 10236"
    and "session_reachable s" and "rs_handler_list s = [h]" and "handler_ok hc"
    and "hc h data (drop 4 (message_buffer s)) = (0, result, len)" and "0 < len" and "len < 10236"
  obtains c1 c2 s1 i rsv rsv' where
    "AsyncCall t (Some r) (Some data) (int (length data)) c =
      Inr (c1, [RpcSend (rs_network_id c) (rpc_message RPC_MESSAGE_TYPE_REQUEST rsv i data)])"
    "RPCSession_OnRecv t' hc (Some (rpc_message RPC_MESSAGE_TYPE_REQUEST rsv i data))
       (int (length (rpc_message RPC_MESSAGE_TYPE_REQUEST rsv i data))) s =
      Inr (s1, [RpcHandleCall h data, RpcSend (rs_network_id s) (rpc_message RPC_MESSAGE_TYPE_RESPONSE rsv' i (take (nat len) result))])"
    "\<And>t'' hc'. RPCSession_OnRecv t'' hc' (Some (rpc_message RPC_MESSAGE_TYPE_RESPONSE rsv' i (take (nat len) result)))
       (int (length (rpc_message RPC_MESSAGE_TYPE_RESPONSE rsv' i (take (nat len) result)))) c1 =
      Inr (c2, [RpcCallBack r (take (nat len) result), RpcDeleteRequest r])"
    "request_list c2 = request_list c" "length result = 10236"
proof -
  from AsyncCall_sends[OF _ _ assms(2-4), of t r] session_reachable_ok[OF assms(1)]
  obtain i c0 c1 where c: "request_list c i = None" "0 \<le> i" "i < 32766"
    "AsyncCall_send t data (int (length data)) (int (length data) + 4) c =
      Inr (i, c0, [RpcSend (rs_network_id c) (rpc_message RPC_MESSAGE_TYPE_REQUEST (message_buffer c ! 1) i data)])"
    "AsyncCall_register t r i c0 = Inr c1" "request_list c1 = (request_list c)(i \<mapsto> Some r)" "session_idle c1" by blast
  define req where "req = rpc_message RPC_MESSAGE_TYPE_REQUEST (message_buffer c ! 1) i data"
  from session_reachable_ok[OF assms(5)] have si: "session_idle s" by simp
  then have lb: "length (message_buffer s) = 10240" by (simp add: session_idle_def)
  have "length (fst (snd (hc h data (drop 4 (message_buffer s))))) = length (drop 4 (message_buffer s))"
    using assms(7) unfolding handler_ok_def by blast
  then have lr: "length result = 10236" using assms(8) lb by simp
  then have rn: "result \<noteq> []" by auto
  define rsp where "rsp = rpc_message RPC_MESSAGE_TYPE_RESPONSE (message_buffer s ! 1) i (take (nat len) result)"
  obtain s1 where srv: "RPCSession_OnRecv t' hc (Some req) (int (length req)) s =
      Inr (s1, [RpcHandleCall h data, RpcSend (rs_network_id s) rsp])"
    using handler_answers[of s h hc data result len i t', OF si assms(6,8) lr assms(9,10) assms(3)] c(2,3) by (auto simp: req_def rsp_def)
  define c2 where "c2 = c1\<lparr>request_list := (request_list c1)(i := None), free_request_id_stack := i # free_request_id_stack c1\<rparr>"
  have answer: "RPCSession_OnRecv t'' hc' (Some rsp) (int (length rsp)) c1 =
      Inr (c2, [RpcCallBack r (take (nat len) result), RpcDeleteRequest r])" for t'' hc'
    using response_answers[OF c(7), of i r "take (nat len) result"] c(2,3,6) rn assms(9) by (simp add: rsp_def c2_def)
  have fin: "request_list c2 = request_list c" using c(1,6) by (simp add: c2_def fun_upd_idem)
  have call: "AsyncCall t (Some r) (Some data) (int (length data)) c = Inr (c1, [RpcSend (rs_network_id c) req])"
    using c(4,5) by (simp add: AsyncCall_within_limits[OF assms(3,4)] req_def)
  show ?thesis by (rule that[OF call[unfolded req_def] srv[unfolded req_def rsp_def] answer[unfolded rsp_def] fin lr])
qed

text \<open>
  C10: A call returns. The request that \<^verbatim>\<open>AsyncCall\<close> sends makes the other side call its handler with
  exactly the data of the call; the message the handler's result is sent in makes this side call
  back the request object with exactly the result, delete it, and leave no request behind.
\<close>

theorem rpc_call_returns:
  assumes "session_reachable c" and "card (dom (request_list c)) < 32766"
    and "data \<noteq> []" and "length data < 10236"
    and "session_reachable s" and "rs_handler_list s = [h]" and "handler_ok hc"
    and "hc h data (drop 4 (message_buffer s)) = (0, result, len)" and "0 < len" and "len < 10236"
  shows "\<exists>c1 c2 s1 req rsp. AsyncCall t (Some r) (Some data) (int (length data)) c = Inr (c1, [RpcSend (rs_network_id c) req]) \<and>
    RPCSession_OnRecv t' hc (Some req) (int (length req)) s =
      Inr (s1, [RpcHandleCall h data, RpcSend (rs_network_id s) rsp]) \<and>
    RPCSession_OnRecv t'' hc (Some rsp) (int (length rsp)) c1 =
      Inr (c2, [RpcCallBack r (take (nat len) result), RpcDeleteRequest r]) \<and>
    request_list c2 = request_list c"
  by (rule call_round_trip[OF assms, of t r t']) blast

definition demo_handle_call :: handle_call where
  "demo_handle_call h d b = (if b = [] then (1, b, 0) else (0, 90 # drop 1 b, 1))"

theorem rpc_call_returns_witness:
  "\<exists>c1 c2 s1 req rsp. AsyncCall 5 (Some 77) (Some [65, 66]) 2 demo_session = Inr (c1, [RpcSend 1 req]) \<and>
    RPCSession_OnRecv 6 demo_handle_call (Some req) (int (length req)) (RPCSession_RegisterHandler (Some 9) demo_session) =
      Inr (s1, [RpcHandleCall 9 [65, 66], RpcSend 1 rsp]) \<and>
    RPCSession_OnRecv 7 demo_handle_call (Some rsp) (int (length rsp)) c1 =
      Inr (c2, [RpcCallBack 77 [90], RpcDeleteRequest 77]) \<and> request_list c2 = Map.empty"
proof -
  let ?s = "RPCSession_RegisterHandler (Some 9) demo_session"
  have s: "rs_handler_list ?s = [9]" "rs_network_id ?s = 1" "length (message_buffer ?s) = 10240"
    by (simp_all add: RPCSession_RegisterHandler_def demo_session_def RPCSession_SetData_def RPCSession_new_def)
  then have h: "demo_handle_call 9 [65, 66] (drop 4 (message_buffer ?s)) =
      (0, 90 # drop 1 (drop 4 (message_buffer ?s)), 1)" by (auto simp: demo_handle_call_def)
  have ok: "handler_ok demo_handle_call" by (simp add: handler_ok_def demo_handle_call_def)
  from rpc_call_returns [OF demo_session_reachable _ _ _ session_handler[OF demo_session_reachable] s(1) ok h, of 5 77 6 7]
  show ?thesis by (simp add: s(2))
qed

text \<open>
  The request is entered only after it was sent. When the response is received by another thread
  before that, it finds no request, is dropped without a trace, and the request is then entered to
  wait for a response that has already come.
\<close>

theorem rpc_early_response_lost:
  assumes "session_reachable s" and "card (dom (request_list s)) < 32766"
    and "data \<noteq> []" and "length data < 10236"
  shows "\<exists>i s1 s2 s3. AsyncCall_send t data (int (length data)) (int (length data) + 4) s =
      Inr (i, s1, [RpcSend (rs_network_id s) (rpc_message RPC_MESSAGE_TYPE_REQUEST (message_buffer s ! 1) i data)]) \<and>
    RPCSession_OnRecv t' hc (Some (rpc_message RPC_MESSAGE_TYPE_RESPONSE rsv i answer))
      (int (length (rpc_message RPC_MESSAGE_TYPE_RESPONSE rsv i answer))) s1 = Inr (s2, []) \<and>
    AsyncCall_register t r i s2 = Inr s3 \<and> request_list s3 i = Some (Some r)"
proof -
  from AsyncCall_sends[OF _ _ assms(2-4), of t r] session_reachable_ok[OF assms(1)]
  obtain i s1 s' where c: "request_list s i = None" "0 \<le> i" "i < 32766"
    "AsyncCall_send t data (int (length data)) (int (length data) + 4) s =
      Inr (i, s1, [RpcSend (rs_network_id s) (rpc_message RPC_MESSAGE_TYPE_REQUEST (message_buffer s ! 1) i data)])"
    "request_list s1 = request_list s" "request_lock s1 = Mutex_new" "AsyncCall_register t r i s1 = Inr s'"
    "request_list s' = (request_list s)(i \<mapsto> Some r)" by blast
  have "s1\<lparr>request_lock := Mutex_new\<rparr> = s1" using c(6) by simp
  then have "RPCSession_OnRecv t' hc (Some (rpc_message RPC_MESSAGE_TYPE_RESPONSE rsv i answer))
      (int (length (rpc_message RPC_MESSAGE_TYPE_RESPONSE rsv i answer))) s1 = Inr (s1, [])"
    using c(1-3,5,6) read_body[of RPC_MESSAGE_TYPE_RESPONSE rsv i answer]
      read_header_message[of i RPC_MESSAGE_TYPE_RESPONSE rsv answer]
    by (simp add: RPCSession_OnRecv_def session_response_def)
  moreover have "request_list s' i = Some (Some r)" using c(8) by simp
  ultimately show ?thesis using c(4,7) by blast
qed

theorem rpc_early_response_lost_witness:
  "\<exists>i s1 s2 s3. AsyncCall_send 5 [65] 1 5 demo_session =
      Inr (i, s1, [RpcSend 1 (rpc_message RPC_MESSAGE_TYPE_REQUEST (message_buffer demo_session ! 1) i [65])]) \<and>
    RPCSession_OnRecv 6 demo_handle_call (Some (rpc_message RPC_MESSAGE_TYPE_RESPONSE 0 i [90])) 5 s1 = Inr (s2, []) \<and>
    AsyncCall_register 5 77 i s2 = Inr s3 \<and> request_list s3 i = Some (Some 77)"
  using rpc_early_response_lost [OF demo_session_reachable, of "[65]" 5 6 demo_handle_call 0 "[90]" 77] by simp

section \<open>Properties of the manager\<close>

lemma check_key_received:
  assumes "0 \<notin> set key"
  shows "read_mem (check_key_message key) 0 1 = Inr [RPC_MESSAGE_TYPE_CHECK_KEY]"
    and "c_string (drop 4 (check_key_message key)) = Inr key"
proof -
  have "drop 4 (check_key_message key) = key @ 0 # []" by (simp add: check_key_message_def)
  then show "c_string (drop 4 (check_key_message key)) = Inr key" using c_string_append[OF assms, of "[]"] by simp
qed (simp add: read_mem_def check_key_message_def)

lemma check_key_response_received:
  "read_mem check_key_response 0 1 = Inr [RPC_MESSAGE_TYPE_CHECK_KEY_RESPONSE]" "read_mem check_key_response 1 1 = Inr [1]"
  by (simp_all add: read_mem_def check_key_response_def)

lemma OnActiveNetwork_law:
  "\<exists>s. OnActiveNetwork junk i l ip p m =
     (m\<lparr>session_map := (session_map m)(CalculateRPCSessionKey l ip p \<mapsto> s),
        session_id_2_network_id_map := (session_id_2_network_id_map m)(CalculateRPCSessionKey l ip p \<mapsto> i),
        network_id_2_session_id_map := (network_id_2_session_id_map m)(i \<mapsto> CalculateRPCSessionKey l ip p)\<rparr>,
      to_handler m (RpcSessionActive (CalculateRPCSessionKey l ip p))) \<and>
     (\<forall>s0. session_map m (CalculateRPCSessionKey l ip p) = Some s0 \<longrightarrow> s = s0)"
proof (cases "session_map m (CalculateRPCSessionKey l ip p)")
  case None
  then show ?thesis by (auto simp: OnActiveNetwork_def Let_def)
next
  case (Some s0)
  then have "(session_map m)(CalculateRPCSessionKey l ip p \<mapsto> s0) = session_map m" by (simp add: fun_upd_idem)
  with Some show ?thesis by (intro exI[of _ s0]) (simp add: OnActiveNetwork_def Let_def)
qed

text \<open>What the arrival of a key message does to a connection with a key.\<close>

lemma key_message_arrives:
  assumes "0 \<notin> set key" and "rm_has_network m" and "network_id_2_key_map m i = Some key'"
  shows "RPCManager_OnRecv t hc junk i (check_key_message key) len m =
    (if key = key' then let (m2, acts) = activate_unchecked junk i m in Inr (m2, RpcSend i check_key_response # acts)
     else Inr (m, [RpcDisconnect i]))"
  using assms by (simp add: RPCManager_OnRecv_def check_key_received subscript_def)

lemma key_response_arrives:
  "RPCManager_OnRecv t hc junk i check_key_response len m = Inr (activate_unchecked junk i m)"
  by (simp add: RPCManager_OnRecv_def check_key_response_received)

text \<open>
  The key decides. A client sends its key after connecting; the listening side compares it with
  the key of its port. When they are equal, both sides report an active session for the other
  side, entered under the number of the connection; when they differ, the listening side
  disconnects and has no new session.
\<close>

theorem rpc_key_handshake:
  assumes "uncheck_key_map mc (CalculateRPCSessionKey 0 ip port) = Some key" and "length key < 99" and "0 \<notin> set key"
    and "rm_has_network mc" and "rm_has_handler mc" and "rm_has_network ms" and "rm_has_handler ms"
    and "listen_port_2_key_map ms (uint port) = Some key'" and "uncheck_rpc_info_map ms si = None"
  shows "\<exists>mc1 msg. RPCManager_OnConnect ip port lport True ci mc = Inr (mc1, [RpcSend ci msg]) \<and>
    (if key = key' then
       \<exists>ms1 mc2 rsp.
         RPCManager_OnRecv t hc junk si msg (int (length msg)) (RPCManager_OnAccept cip cport port si ms) =
           Inr (ms1, [RpcSend si rsp, RpcSessionActive (CalculateRPCSessionKey 0 cip cport)]) \<and>
         network_id_2_session_id_map ms1 si = Some (CalculateRPCSessionKey 0 cip cport) \<and>
         session_map ms1 (CalculateRPCSessionKey 0 cip cport) \<noteq> None \<and>
         RPCManager_OnRecv t' hc' junk' ci rsp (int (length rsp)) mc1 =
           Inr (mc2, [RpcSessionActive (CalculateRPCSessionKey lport ip port)]) \<and>
         network_id_2_session_id_map mc2 ci = Some (CalculateRPCSessionKey lport ip port) \<and>
         session_map mc2 (CalculateRPCSessionKey lport ip port) \<noteq> None
     else
       \<exists>ms1. RPCManager_OnRecv t hc junk si msg (int (length msg)) (RPCManager_OnAccept cip cport port si ms) =
           Inr (ms1, [RpcDisconnect si]) \<and>
         session_map ms1 = session_map ms \<and> network_id_2_session_id_map ms1 = network_id_2_session_id_map ms)"
proof -
  define mc1 where "mc1 = mc\<lparr>uncheck_rpc_info_map := (uncheck_rpc_info_map mc)(ci \<mapsto>
      \<lparr>ui_network_id = ci, ui_remote_ip_addr = ip, ui_remote_port = port, ui_local_port = lport\<rparr>)\<rparr>"
  have c: "RPCManager_OnConnect ip port lport True ci mc = Inr (mc1, [RpcSend ci (check_key_message key)])"
    using assms(1,2,4) by (simp add: RPCManager_OnConnect_def mc1_def)
  define ms0 where "ms0 = RPCManager_OnAccept cip cport port si ms"
  have s0: "rm_has_network ms0" "rm_has_handler ms0" "network_id_2_key_map ms0 si = Some key'"
    "session_map ms0 = session_map ms" "network_id_2_session_id_map ms0 = network_id_2_session_id_map ms"
    "uncheck_rpc_info_map ms0 si = Some (UncheckRPCInfo_new\<lparr>ui_network_id := si, ui_remote_ip_addr := cip, ui_remote_port := cport\<rparr>)"
    using assms(6-9) by (simp_all add: ms0_def RPCManager_OnAccept_def Let_def)
  note K = key_message_arrives[OF assms(3) s0(1,3), of t hc junk "int (length (check_key_message key))"]
  show ?thesis
  proof (cases "key = key'")
    case True
    have "ui_local_port (UncheckRPCInfo_new\<lparr>ui_network_id := si, ui_remote_ip_addr := cip, ui_remote_port := cport\<rparr>) = 0"
      by (simp add: UncheckRPCInfo_new_def)
    with OnActiveNetwork_law[of junk si 0 cip cport ms0] s0 obtain ms1 where
      "activate_unchecked junk si ms0 = (ms1, [RpcSessionActive (CalculateRPCSessionKey 0 cip cport)])"
      "network_id_2_session_id_map ms1 si = Some (CalculateRPCSessionKey 0 cip cport)"
      "session_map ms1 (CalculateRPCSessionKey 0 cip cport) \<noteq> None"
      by (auto simp: activate_unchecked_def subscript_def to_handler_def)
    moreover from OnActiveNetwork_law[of junk' ci lport ip port mc1] assms(5) obtain mc2 where
      "activate_unchecked junk' ci mc1 = (mc2, [RpcSessionActive (CalculateRPCSessionKey lport ip port)])"
      "network_id_2_session_id_map mc2 ci = Some (CalculateRPCSessionKey lport ip port)"
      "session_map mc2 (CalculateRPCSessionKey lport ip port) \<noteq> None"
      by (auto simp: activate_unchecked_def subscript_def to_handler_def mc1_def)
    ultimately show ?thesis
      using c K True key_response_arrives[of t' hc' junk' ci "int (length check_key_response)" mc1]
      unfolding ms0_def by auto
  next
    case False
    with c K s0(4,5) show ?thesis unfolding ms0_def by auto
  qed
qed

text \<open>A client and a server with the key "k".\<close>

definition demo_client :: RPCManager where
  "demo_client = (fst (RPCManager_new True True))
     \<lparr>uncheck_key_map := [CalculateRPCSessionKey 0 (str ''10.0.0.1'') 80 \<mapsto> str ''k'']\<rparr>"

definition demo_rpc_server :: RPCManager where
  "demo_rpc_server = (fst (RPCManager_new True True))\<lparr>listen_port_2_key_map := [80 \<mapsto> str ''k'']\<rparr>"

theorem rpc_key_handshake_witness:
  "\<exists>mc1 msg ms1 mc2 rsp. RPCManager_OnConnect (str ''10.0.0.1'') 80 5000 True 1 demo_client = Inr (mc1, [RpcSend 1 msg]) \<and>
    RPCManager_OnRecv 5 demo_handle_call [] 3 msg (int (length msg))
        (RPCManager_OnAccept (str ''10.0.0.2'') 5000 80 3 demo_rpc_server) =
      Inr (ms1, [RpcSend 3 rsp, RpcSessionActive (CalculateRPCSessionKey 0 (str ''10.0.0.2'') 5000)]) \<and>
    RPCManager_OnRecv 6 demo_handle_call [] 1 rsp (int (length rsp)) mc1 =
      Inr (mc2, [RpcSessionActive (CalculateRPCSessionKey 5000 (str ''10.0.0.1'') 80)])"
  using rpc_key_handshake [of demo_client "str ''10.0.0.1''" 80 "str ''k''" demo_rpc_server "str ''k''" 3 5000 1 5
      demo_handle_call "[]" "str ''10.0.0.2''" 5000 6 demo_handle_call "[]"]
  by (simp add: demo_client_def demo_rpc_server_def RPCManager_new_def str_def) blast

text \<open>
  C36: The key check can be skipped. The listening side also accepts the message that a client
  expects as the answer to its key: two bytes, sent by anybody who connects, make the connection
  an active session, whatever the key of the port.
\<close>

theorem rpc_key_check_bypassed:
  assumes "listen_port_2_key_map ms (uint port) = Some key" and "uncheck_rpc_info_map ms si = None"
    and "rm_has_handler ms"
  shows "\<exists>ms1. RPCManager_OnRecv t hc junk si [1, 1] 2 (RPCManager_OnAccept cip cport port si ms) =
      Inr (ms1, [RpcSessionActive (CalculateRPCSessionKey 0 cip cport)]) \<and>
    network_id_2_session_id_map ms1 si = Some (CalculateRPCSessionKey 0 cip cport) \<and>
    session_map ms1 (CalculateRPCSessionKey 0 cip cport) \<noteq> None"
proof -
  define ms0 where "ms0 = RPCManager_OnAccept cip cport port si ms"
  have s0: "rm_has_handler ms0"
    "uncheck_rpc_info_map ms0 si = Some (UncheckRPCInfo_new\<lparr>ui_network_id := si, ui_remote_ip_addr := cip, ui_remote_port := cport\<rparr>)"
    using assms by (simp_all add: ms0_def RPCManager_OnAccept_def Let_def)
  have "RPCManager_OnRecv t hc junk si [1, 1] 2 ms0 = Inr (activate_unchecked junk si ms0)"
    using key_response_arrives[of t hc junk si 2 ms0] by (simp add: check_key_response_def)
  with OnActiveNetwork_law[of junk si 0 cip cport ms0] s0 show ?thesis
    by (auto simp: activate_unchecked_def subscript_def to_handler_def UncheckRPCInfo_new_def simp flip: ms0_def)
qed

theorem rpc_key_check_bypassed_witness:
  "\<exists>ms1. RPCManager_OnRecv 5 demo_handle_call [] 3 [1, 1] 2
      (RPCManager_OnAccept (str ''10.9.9.9'') 4000 80 3 demo_rpc_server) =
      Inr (ms1, [RpcSessionActive (CalculateRPCSessionKey 0 (str ''10.9.9.9'') 4000)])"
  using rpc_key_check_bypassed [of demo_rpc_server 80 "str ''k''" 3 5 demo_handle_call "[]" "str ''10.9.9.9''" 4000]
  by (auto simp: demo_rpc_server_def RPCManager_new_def)

text \<open>
  A new connection can get the session of an old one. \<^verbatim>\<open>OnDisconnect\<close> keeps what was noted about
  the peer of a connection number, and \<^verbatim>\<open>OnAccept\<close> does not replace it; when the number is used
  again, the next peer with the right key is given the session of the first, with its handlers
  and its outstanding requests, and none of its own.
\<close>

theorem rpc_reused_number_gets_old_session:
  assumes "uncheck_rpc_info_map ms si = Some (UncheckRPCInfo_new\<lparr>ui_network_id := si, ui_remote_ip_addr := ip1, ui_remote_port := port1\<rparr>)"
    and "session_map ms (CalculateRPCSessionKey 0 ip1 port1) = Some s1"
    and "listen_port_2_key_map ms (uint port) = Some key" and "0 \<notin> set key"
    and "rm_has_handler ms" and "rm_has_network ms" and "(ip2, port2) \<noteq> (ip1, port1)"
  shows "\<exists>ms1. RPCManager_OnRecv t hc junk si (check_key_message key) (int (length (check_key_message key)))
        (RPCManager_OnAccept ip2 port2 port si (fst (RPCManager_OnDisconnect si ms))) =
      Inr (ms1, [RpcSend si check_key_response, RpcSessionActive (CalculateRPCSessionKey 0 ip1 port1)]) \<and>
    session_map ms1 = session_map ms \<and> network_id_2_session_id_map ms1 si = Some (CalculateRPCSessionKey 0 ip1 port1) \<and>
    CalculateRPCSessionKey 0 ip1 port1 \<noteq> CalculateRPCSessionKey 0 ip2 port2"
proof -
  define ms0 where "ms0 = RPCManager_OnAccept ip2 port2 port si (fst (RPCManager_OnDisconnect si ms))"
  have s0: "rm_has_network ms0" "rm_has_handler ms0" "network_id_2_key_map ms0 si = Some key"
    "session_map ms0 = session_map ms"
    "uncheck_rpc_info_map ms0 si = Some (UncheckRPCInfo_new\<lparr>ui_network_id := si, ui_remote_ip_addr := ip1, ui_remote_port := port1\<rparr>)"
    using assms by (simp_all add: ms0_def RPCManager_OnAccept_def RPCManager_OnDisconnect_def Let_def split: prod.splits)
  have n: "ui_local_port (UncheckRPCInfo_new\<lparr>ui_network_id := si, ui_remote_ip_addr := ip1, ui_remote_port := port1\<rparr>) = 0"
    by (simp add: UncheckRPCInfo_new_def)
  obtain ms1 where "activate_unchecked junk si ms0 = (ms1, [RpcSessionActive (CalculateRPCSessionKey 0 ip1 port1)])"
    "session_map ms1 = session_map ms" "network_id_2_session_id_map ms1 si = Some (CalculateRPCSessionKey 0 ip1 port1)"
    using s0 n assms(2) by (simp add: activate_unchecked_def subscript_def OnActiveNetwork_def to_handler_def Let_def)
  with key_message_arrives[OF assms(4) s0(1,3), of t hc junk "int (length (check_key_message key))"] show ?thesis
    using assms(7) by (auto simp: CalculateRPCSessionKey_inject simp flip: ms0_def)
qed

theorem rpc_reused_number_gets_old_session_witness:
  "\<exists>ms1. RPCManager_OnRecv 5 demo_handle_call [] 3 (check_key_message (str ''k'')) 6
        (RPCManager_OnAccept (str ''10.9.9.9'') 4000 80 3 (fst (RPCManager_OnDisconnect 3
          (demo_rpc_server\<lparr>uncheck_rpc_info_map := [3 \<mapsto> UncheckRPCInfo_new\<lparr>ui_network_id := 3,
             ui_remote_ip_addr := str ''10.0.0.2'', ui_remote_port := 5000\<rparr>],
             session_map := [CalculateRPCSessionKey 0 (str ''10.0.0.2'') 5000 \<mapsto> demo_session]\<rparr>)))) =
      Inr (ms1, [RpcSend 3 check_key_response, RpcSessionActive (CalculateRPCSessionKey 0 (str ''10.0.0.2'') 5000)])"
  using rpc_reused_number_gets_old_session [where ms = "demo_rpc_server\<lparr>uncheck_rpc_info_map := [3 \<mapsto> UncheckRPCInfo_new\<lparr>ui_network_id := 3,
             ui_remote_ip_addr := str ''10.0.0.2'', ui_remote_port := 5000\<rparr>],
             session_map := [CalculateRPCSessionKey 0 (str ''10.0.0.2'') 5000 \<mapsto> demo_session]\<rparr>"
      and si = 3 and ?ip1.0 = "str ''10.0.0.2''" and ?port1.0 = 5000 and ?s1.0 = demo_session and port = 80 and key = "str ''k''"
      and ?ip2.0 = "str ''10.9.9.9''" and ?port2.0 = 4000 and t = 5 and hc = demo_handle_call and junk = "[]"]
  by (auto simp: demo_rpc_server_def RPCManager_new_def str_def check_key_message_def)

end
