(* ===== verification/RpcNetwork.thy ===== *)
theory RpcNetwork
  imports Rpc Connections
begin

text \<open>
  Remote calls over the network: an \<^verbatim>\<open>RPCManager\<close> registered as a handler of a \<^verbatim>\<open>NetworkManager\<close>. The
  manager's calls of its handlers become calls of the functions of \<^verbatim>\<open>RPCManager\<close>
  (\<^verbatim>\<open>INetworkHandler\<close>), and what these ask of the network is done by \<^verbatim>\<open>Send\<close> and \<^verbatim>\<open>Disconnect\<close>, as
  soon as the event that caused it is handled.
\<close>

section \<open>A node\<close>

record rpc_node =
  node_net :: NetworkManager
  node_rpc :: RPCManager
  node_handler :: nat

definition rpc_callback ::
  "thread_id \<Rightarrow> handle_call \<Rightarrow> byte list \<Rightarrow> nat \<Rightarrow> callback \<Rightarrow> RPCManager \<Rightarrow> (RPCManager \<times> rpc_action list) res" where
  "rpc_callback t hc junk self cb m = (case cb of
       CbListenFail h port \<Rightarrow> if h = self then Inr (RPCManager_OnListenFail port m) else Inr (m, [])
     | CbAccept h ip port lport i \<Rightarrow> if h = self then Inr (RPCManager_OnAccept ip port lport i m, []) else Inr (m, [])
     | CbConnect h ip port lport success i \<Rightarrow>
         if h = self then RPCManager_OnConnect ip port lport success i m else Inr (m, [])
     | CbRecv h i data \<Rightarrow> if h = self then RPCManager_OnRecv t hc junk i data (int (length data)) m else Inr (m, [])
     | CbDisconnect h i \<Rightarrow> if h = self then Inr (RPCManager_OnDisconnect i m) else Inr (m, []))"

fun rpc_callbacks ::
  "thread_id \<Rightarrow> handle_call \<Rightarrow> byte list \<Rightarrow> nat \<Rightarrow> callback list \<Rightarrow> RPCManager \<Rightarrow> (RPCManager \<times> rpc_action list) res" where
  "rpc_callbacks t hc junk self [] m = Inr (m, [])"
| "rpc_callbacks t hc junk self (cb # cbs) m =
     bind_res (rpc_callback t hc junk self cb m) (\<lambda>(m1, acts1).
     bind_res (rpc_callbacks t hc junk self cbs m1) (\<lambda>(m2, acts2). Inr (m2, acts1 @ acts2)))"

text \<open>What is asked of the network is done, the rest concerns the user.\<close>

fun perform :: "int \<Rightarrow> rpc_action list \<Rightarrow> NetworkManager \<Rightarrow> (NetworkManager \<times> rpc_action list \<times> os_action list) res" where
  "perform os_send [] m = Inr (m, [], [])"
| "perform os_send (act # acts) m = (case act of
       RpcSend i data \<Rightarrow>
         bind_res (Send os_send i data (int (length data)) m) (\<lambda>out1.
         bind_res (perform os_send acts m) (\<lambda>(m1, seen, out). Inr (m1, seen, out1 @ out)))
     | RpcDisconnect i \<Rightarrow>
         bind_res (Disconnect i m) (\<lambda>(m1, out1).
         bind_res (perform os_send acts m1) (\<lambda>(m2, seen, out). Inr (m2, seen, out1 @ out)))
     | _ \<Rightarrow> bind_res (perform os_send acts m) (\<lambda>(m1, seen, out). Inr (m1, act # seen, out)))"

definition node_event ::
  "int \<Rightarrow> thread_id \<Rightarrow> handle_call \<Rightarrow> byte list \<Rightarrow> socket_event \<Rightarrow> rpc_node \<Rightarrow>
   (rpc_node \<times> rpc_action list \<times> os_action list) res" where
  "node_event os_send t hc junk ev node =
     bind_res (handle_events [ev] (node_net node)) (\<lambda>(net1, cbs).
     bind_res (rpc_callbacks t hc junk (node_handler node) cbs (node_rpc node)) (\<lambda>(rpc1, acts).
     bind_res (perform os_send acts net1) (\<lambda>(net2, seen, out).
       Inr (node\<lparr>node_net := net2, node_rpc := rpc1\<rparr>, seen, out))))"

fun node_events ::
  "int \<Rightarrow> thread_id \<Rightarrow> handle_call \<Rightarrow> byte list \<Rightarrow> socket_event list \<Rightarrow> rpc_node \<Rightarrow>
   (rpc_node \<times> rpc_action list \<times> os_action list) res" where
  "node_events os_send t hc junk [] node = Inr (node, [], [])"
| "node_events os_send t hc junk (ev # evs) node =
     bind_res (node_event os_send t hc junk ev node) (\<lambda>(node1, seen1, out1).
     bind_res (node_events os_send t hc junk evs node1) (\<lambda>(node2, seen, out).
       Inr (node2, seen1 @ seen, out1 @ out)))"

text \<open>The user makes a call.\<close>

definition node_call ::
  "int \<Rightarrow> thread_id \<Rightarrow> std_string \<Rightarrow> nat \<Rightarrow> byte list \<Rightarrow> rpc_node \<Rightarrow> (rpc_node \<times> rpc_action list \<times> os_action list) res" where
  "node_call os_send t session_id req data node =
     bind_res (RPCManager_call t session_id req data (node_rpc node)) (\<lambda>(rpc1, acts).
     bind_res (perform os_send acts (node_net node)) (\<lambda>(net1, seen, out).
       Inr (node\<lparr>node_net := net1, node_rpc := rpc1\<rparr>, seen, out)))"

section \<open>Calls of the handlers\<close>

lemma rpc_callbacks_append:
  "rpc_callbacks t hc junk self (as @ bs) m =
     bind_res (rpc_callbacks t hc junk self as m) (\<lambda>(m1, acts1).
     bind_res (rpc_callbacks t hc junk self bs m1) (\<lambda>(m2, acts2). Inr (m2, acts1 @ acts2)))"
  by (induction as arbitrary: m) (auto simp: bind_res_assoc bind_res_right split_def)

lemma rpc_callbacks_one:
  assumes "distinct hs" and "self \<in> set hs" and "\<And>h m. h \<noteq> self \<Longrightarrow> rpc_callback t hc junk self (cb h) m = Inr (m, [])"
    and "rpc_callback t hc junk self (cb self) m = Inr (m1, acts)"
  shows "rpc_callbacks t hc junk self (map cb hs) m = Inr (m1, acts)"
proof -
  obtain xs ys where hs: "hs = xs @ self # ys" using assms(2) split_list by fastforce
  have skip: "self \<notin> set zs \<Longrightarrow> rpc_callbacks t hc junk self (map cb zs) m = Inr (m, [])" for zs m
    by (induction zs) (simp_all add: assms(3))
  from hs assms(1) have "self \<notin> set xs" "self \<notin> set ys" by auto
  with assms(4) show ?thesis by (simp add: hs rpc_callbacks_append skip)
qed

lemma rpc_callbacks_recv:
  assumes "distinct hs" and "self \<in> set hs" and "RPCManager_OnRecv t hc junk i d (int (length d)) m = Inr (m1, acts)"
  shows "rpc_callbacks t hc junk self (map (\<lambda>h. CbRecv h i d) hs) m = Inr (m1, acts)"
  by (rule rpc_callbacks_one[OF assms(1,2)]) (use assms(3) in \<open>simp_all add: rpc_callback_def\<close>)

text \<open>Handling one piece: the messages it completes are handed on, the cache takes the rest.\<close>

lemma piece_handled:
  assumes "receiving_after p m ip port lport i" and "d \<noteq> []" and "parse_stream (p @ d) = Inr (ms, r)" and "[] \<notin> set ms"
  shows "\<exists>pk. handle_events [EvRecv ip port lport d] m =
      Inr (m\<lparr>packager := pk\<rparr>, concat (map (\<lambda>msg. map (\<lambda>h. CbRecv h i msg) (handler_list m)) ms)) \<and>
    receiving_after r (m\<lparr>packager := pk\<rparr>) ip port lport i \<and> has_net_manager pk = has_net_manager (packager m)"
proof -
  from UnPack_meets[of "packager m" i p d] assms obtain c where
    c: "UnPack (packager m) i d (int (length d)) = Inr (put_cache (packager m) i c, delivered (packager m) i ms)"
      "holds (Some c) r" by (auto simp: unpack_meets_def receiving_after_def)
  then have "unpack_all (packager m) i [d] = Inr (put_cache (packager m) i c, delivered (packager m) i ms)" by simp
  from handle_pieces_direct[OF _ _ this, of ip port lport] recv_calls_delivered[of "packager m" i ms] assms(1,4) c(2)
  show ?thesis by (intro exI[of _ "put_cache (packager m) i c"]) (simp add: receiving_after_def)
qed

lemma parse_split:
  assumes "parse_stream (p @ d @ rest) = Inr (ms, r)"
  obtains m1 r1 m2 where "parse_stream (p @ d) = Inr (m1, r1)" "parse_stream (r1 @ rest) = Inr (m2, r)" "ms = m1 @ m2"
proof -
  obtain m1 r1 where p1: "parse_stream (p @ d) = Inr (m1, r1)"
    using parse_stream_append_error[of "p @ d" _ rest] assms by (cases "parse_stream (p @ d)") auto
  from parse_stream_append[OF p1, of rest] assms obtain m2 where "parse_stream (r1 @ rest) = Inr (m2, r)" "ms = m1 @ m2"
    by (cases "parse_stream (r1 @ rest)") auto
  with p1 that show ?thesis by blast
qed

lemma idle_pieces:
  assumes "receiving_after p (node_net N) ip port lport i" and "[] \<notin> set ds" and "parse_stream (p @ concat ds) = Inr ([], r)"
  shows "\<exists>pk. node_events s t hc junk (map (EvRecv ip port lport) ds) N =
      Inr (N\<lparr>node_net := (node_net N)\<lparr>packager := pk\<rparr>\<rparr>, [], []) \<and>
    receiving_after r ((node_net N)\<lparr>packager := pk\<rparr>) ip port lport i \<and>
    has_net_manager pk = has_net_manager (packager (node_net N))"
  using assms
proof (induction ds arbitrary: p N)
  case Nil
  have "r = p" using holds_idle[of _ p] Nil by (auto simp: receiving_after_def)
  with Nil(1) show ?case by (intro exI[of _ "packager (node_net N)"]) simp
next
  case (Cons d ds)
  from Cons.prems(3) obtain r1 where 1: "parse_stream (p @ d) = Inr ([], r1)" "parse_stream (r1 @ concat ds) = Inr ([], r)"
    by (auto elim: parse_split[of p d "concat ds"])
  from piece_handled[OF Cons.prems(1) _ 1(1)] Cons.prems(2) obtain pk where
    pk: "handle_events [EvRecv ip port lport d] (node_net N) = Inr ((node_net N)\<lparr>packager := pk\<rparr>, [])"
      "receiving_after r1 ((node_net N)\<lparr>packager := pk\<rparr>) ip port lport i"
      "has_net_manager pk = has_net_manager (packager (node_net N))" by auto
  then have e: "node_event s t hc junk (EvRecv ip port lport d) N = Inr (N\<lparr>node_net := (node_net N)\<lparr>packager := pk\<rparr>\<rparr>, [], [])"
    unfolding node_event_def by (simp del: handle_events.simps)
  from Cons.IH[of r1 "N\<lparr>node_net := (node_net N)\<lparr>packager := pk\<rparr>\<rparr>"] pk(2,3) 1(2) Cons.prems(2) e show ?case by auto
qed

text \<open>Actions that leave the network manager alone, whatever its caches hold.\<close>

definition performs :: "int \<Rightarrow> rpc_action list \<Rightarrow> NetworkManager \<Rightarrow> rpc_action list \<Rightarrow> os_action list \<Rightarrow> bool" where
  "performs s acts m seen out \<longleftrightarrow> (\<forall>pk. has_net_manager pk = has_net_manager (packager m) \<longrightarrow>
     perform s acts (m\<lparr>packager := pk\<rparr>) = Inr (m\<lparr>packager := pk\<rparr>, seen, out))"

lemma message_pieces:
  assumes "receiving_after p (node_net N) ip port lport i" and "[] \<notin> set ds" and "parse_stream (p @ concat ds) = Inr ([msg], r)"
    and "msg \<noteq> []" and "distinct (handler_list (node_net N))" and "node_handler N \<in> set (handler_list (node_net N))"
    and "RPCManager_OnRecv t hc junk i msg (int (length msg)) (node_rpc N) = Inr (rpc1, acts)"
    and "performs s acts (node_net N) seen out"
  shows "\<exists>pk. node_events s t hc junk (map (EvRecv ip port lport) ds) N =
      Inr (N\<lparr>node_net := (node_net N)\<lparr>packager := pk\<rparr>, node_rpc := rpc1\<rparr>, seen, out) \<and>
    receiving_after r ((node_net N)\<lparr>packager := pk\<rparr>) ip port lport i \<and>
    has_net_manager pk = has_net_manager (packager (node_net N))"
  using assms
proof (induction ds arbitrary: p N)
  case Nil
  then show ?case using holds_idle[of _ p] by (auto simp: receiving_after_def)
next
  case (Cons d ds)
  from Cons.prems(3) obtain m1 r1 m2 where p1: "parse_stream (p @ d) = Inr (m1, r1)"
    and p2: "parse_stream (r1 @ concat ds) = Inr (m2, r)" and m: "[msg] = m1 @ m2"
    by (auto elim: parse_split[of p d "concat ds"])
  have "x = msg" if "x \<in> set m1" for x
  proof -
    have "x \<in> set (m1 @ m2)" using that by simp
    then show ?thesis unfolding m[symmetric] by simp
  qed
  then have d: "d \<noteq> []" "[] \<notin> set ds" "[] \<notin> set m1" using Cons.prems(2,4) by auto
  from piece_handled[OF Cons.prems(1) d(1) p1 d(3)] obtain pk where
    pk: "handle_events [EvRecv ip port lport d] (node_net N) = Inr ((node_net N)\<lparr>packager := pk\<rparr>,
        concat (map (\<lambda>msg. map (\<lambda>h. CbRecv h i msg) (handler_list (node_net N))) m1))"
      "receiving_after r1 ((node_net N)\<lparr>packager := pk\<rparr>) ip port lport i"
      "has_net_manager pk = has_net_manager (packager (node_net N))" by blast
  from m consider "m1 = []" "m2 = [msg]" | "m1 = [msg]" "m2 = []" by (cases m1) auto
  then show ?case
  proof cases
    case 1
    let ?N = "N\<lparr>node_net := (node_net N)\<lparr>packager := pk\<rparr>\<rparr>"
    have e: "node_event s t hc junk (EvRecv ip port lport d) N = Inr (?N, [], [])"
      using pk(1) 1(1) unfolding node_event_def by (simp del: handle_events.simps)
    have "performs s acts (node_net ?N) seen out" using Cons.prems(8) pk(3) by (simp add: performs_def)
    with pk(2) p2[unfolded 1] d(2) Cons.prems(4-7) obtain pk2 where "node_events s t hc junk (map (EvRecv ip port lport) ds) ?N =
        Inr (?N\<lparr>node_net := (node_net ?N)\<lparr>packager := pk2\<rparr>, node_rpc := rpc1\<rparr>, seen, out)"
      "receiving_after r ((node_net ?N)\<lparr>packager := pk2\<rparr>) ip port lport i"
      "has_net_manager pk2 = has_net_manager (packager (node_net ?N))"
      using Cons.IH[of r1 ?N] by auto
    with e pk(3) show ?thesis by (intro exI[of _ pk2]) simp
  next
    case 2
    let ?N = "N\<lparr>node_net := (node_net N)\<lparr>packager := pk\<rparr>, node_rpc := rpc1\<rparr>"
    have "perform s acts ((node_net N)\<lparr>packager := pk\<rparr>) = Inr ((node_net N)\<lparr>packager := pk\<rparr>, seen, out)"
      using Cons.prems(8) pk(3) by (simp add: performs_def)
    then have e: "node_event s t hc junk (EvRecv ip port lport d) N = Inr (?N, seen, out)"
      using pk(1) 2(1) rpc_callbacks_recv[OF Cons.prems(5-7)] unfolding node_event_def by (simp del: handle_events.simps)
    obtain pk2 where "node_events s t hc junk (map (EvRecv ip port lport) ds) ?N =
        Inr (?N\<lparr>node_net := (node_net ?N)\<lparr>packager := pk2\<rparr>\<rparr>, [], [])"
      "receiving_after r ((node_net ?N)\<lparr>packager := pk2\<rparr>) ip port lport i"
      "has_net_manager pk2 = has_net_manager (packager (node_net ?N))"
      using idle_pieces[of r1 ?N ip port lport i ds r s t hc junk] pk(2) p2[unfolded 2] d(2) by auto
    with e pk(3) show ?thesis by (intro exI[of _ pk2]) simp
  qed
qed

lemma performs_request: "writable m i fd \<Longrightarrow> 4 + int (length d) \<le> INT_MAX \<Longrightarrow>
    performs s [RpcSend i d] m [] [OsSend fd (frame d)]"
  by (simp add: performs_def Send_writable)

lemma performs_answer: "writable m i fd \<Longrightarrow> 4 + int (length d) \<le> INT_MAX \<Longrightarrow>
    performs s [RpcHandleCall h a, RpcSend i d] m [RpcHandleCall h a] [OsSend fd (frame d)]"
  by (simp add: performs_def Send_writable)

lemma performs_callback: "performs s [RpcCallBack r a, RpcDeleteRequest r] m [RpcCallBack r a, RpcDeleteRequest r] []"
  by (simp add: performs_def)

section \<open>Active sessions\<close>

text \<open>The session of connection \<open>i\<close>, reachable by what its own functions do.\<close>

definition active_session :: "rpc_node \<Rightarrow> NetworkID \<Rightarrow> std_string \<Rightarrow> RPCSession \<Rightarrow> bool" where
  "active_session N i sid s \<longleftrightarrow> network_id_2_session_id_map (node_rpc N) i = Some sid \<and>
     session_map (node_rpc N) sid = Some s \<and> rs_network_id s = i \<and> session_reachable s"

definition attached :: "rpc_node \<Rightarrow> bool" where
  "attached N \<longleftrightarrow> distinct (handler_list (node_net N)) \<and> node_handler N \<in> set (handler_list (node_net N))"

lemma manager_passes_to_session:
  assumes "network_id_2_session_id_map m i = Some sid" and "session_map m sid = Some s"
    and "ty = RPC_MESSAGE_TYPE_REQUEST \<or> ty = RPC_MESSAGE_TYPE_RESPONSE"
    and "RPCSession_OnRecv t hc (Some (rpc_message ty rsv n d)) (int (length (rpc_message ty rsv n d))) s = Inr (s1, acts)"
  shows "RPCManager_OnRecv t hc junk i (rpc_message ty rsv n d) (int (length (rpc_message ty rsv n d))) m =
    Inr (m\<lparr>session_map := (session_map m)(sid \<mapsto> s1)\<rparr>, acts)"
proof -
  have "read_mem (rpc_message ty rsv n d) 0 1 = Inr [ty]" by (simp add: rpc_message_def read_mem_def)
  moreover have "ty \<noteq> RPC_MESSAGE_TYPE_CHECK_KEY" "ty \<noteq> RPC_MESSAGE_TYPE_CHECK_KEY_RESPONSE" using assms(3) by auto
  ultimately show ?thesis using assms(1,2,4)
    by (simp add: RPCManager_OnRecv_def subscript_def del: length_rpc_message rpc_consts)
qed

lemma parse_one_frame:
  "4 + int (length msg) \<le> INT_MAX \<Longrightarrow> msg \<noteq> [] \<Longrightarrow> parse_stream (frame msg) = Inr ([msg], [])"
  using parse_stream_frames[of "[msg]"] by simp

text \<open>
  C9: A remote call across the network. The user calls on an active session; the request is framed and
  written to the socket; however the network cuts the bytes, the other node calls its handler once,
  with exactly the data, and writes its answer; however that is cut, the first node calls the
  request back once with exactly the result and deletes it, and no request is left behind.
\<close>

theorem rpc_call_over_network:
  assumes c: "active_session C ci cid c" "card (dom (request_list c)) < 32766" "data \<noteq> []" "length data < 10236"
    "writable (node_net C) ci cfd" "receiving (node_net C) cip cport clport ci" "attached C"
    and s: "active_session S si sid s" "rs_handler_list s = [h]" "handler_ok hc"
    "hc h data (drop 4 (message_buffer s)) = (0, result, len)" "0 < len" "len < 10236"
    "writable (node_net S) si sfd" "receiving (node_net S) sip sport slport si" "attached S"
  shows "\<exists>C1 out. node_call os t cid r data C = Inr (C1, [], out) \<and>
    (\<forall>chunks. concat chunks = sent_bytes cfd out \<and> [] \<notin> set chunks \<longrightarrow>
      (\<exists>S1 out'. node_events os t' hc junk (map (EvRecv sip sport slport) chunks) S =
          Inr (S1, [RpcHandleCall h data], out') \<and>
        (\<forall>chunks'. concat chunks' = sent_bytes sfd out' \<and> [] \<notin> set chunks' \<longrightarrow>
          (\<exists>C2 c2. node_events os t'' hc' junk' (map (EvRecv cip cport clport) chunks') C1 =
              Inr (C2, [RpcCallBack r (take (nat len) result), RpcDeleteRequest r], []) \<and>
            session_map (node_rpc C2) cid = Some c2 \<and> request_list c2 = request_list c))))"
proof -
  note ac = c(1)[unfolded active_session_def] and as = s(1)[unfolded active_session_def]
  obtain c1 c2 s1 i rsv rsv' where
    call: "AsyncCall t (Some r) (Some data) (int (length data)) c =
      Inr (c1, [RpcSend (rs_network_id c) (rpc_message RPC_MESSAGE_TYPE_REQUEST rsv i data)])"
    and srv: "RPCSession_OnRecv t' hc (Some (rpc_message RPC_MESSAGE_TYPE_REQUEST rsv i data))
       (int (length (rpc_message RPC_MESSAGE_TYPE_REQUEST rsv i data))) s =
      Inr (s1, [RpcHandleCall h data, RpcSend (rs_network_id s) (rpc_message RPC_MESSAGE_TYPE_RESPONSE rsv' i (take (nat len) result))])"
    and answer: "\<And>t'' hc'. RPCSession_OnRecv t'' hc' (Some (rpc_message RPC_MESSAGE_TYPE_RESPONSE rsv' i (take (nat len) result)))
       (int (length (rpc_message RPC_MESSAGE_TYPE_RESPONSE rsv' i (take (nat len) result)))) c1 =
      Inr (c2, [RpcCallBack r (take (nat len) result), RpcDeleteRequest r])"
    and fin: "request_list c2 = request_list c" and lr: "length result = 10236"
    by (rule call_round_trip[of c data s h hc result len t r t']) (use ac as c s in auto)
  define req where "req = rpc_message RPC_MESSAGE_TYPE_REQUEST rsv i data"
  define rsp where "rsp = rpc_message RPC_MESSAGE_TYPE_RESPONSE rsv' i (take (nat len) result)"
  have lq: "4 + int (length req) \<le> INT_MAX" "req \<noteq> []" and lp: "4 + int (length rsp) \<le> INT_MAX" "rsp \<noteq> []"
    using c(4) s(6) lr by (auto simp: req_def rsp_def INT_MAX_def rpc_message_def)
  define C1 where "C1 = C\<lparr>node_rpc := (node_rpc C)\<lparr>session_map := (session_map (node_rpc C))(cid \<mapsto> c1)\<rparr>\<rparr>"
  have 1: "node_call os t cid r data C = Inr (C1, [], [OsSend cfd (frame req)])"
    using ac call Send_writable[OF c(5) lq(1)] by (simp add: node_call_def RPCManager_call_def req_def C1_def)
  have 2: "\<exists>S1. node_events os t' hc junk (map (EvRecv sip sport slport) chunks) S =
      Inr (S1, [RpcHandleCall h data], [OsSend sfd (frame rsp)])"
    if "concat chunks = frame req" "[] \<notin> set chunks" for chunks
  proof -
    have "RPCManager_OnRecv t' hc junk si req (int (length req)) (node_rpc S) =
        Inr ((node_rpc S)\<lparr>session_map := (session_map (node_rpc S))(sid \<mapsto> s1)\<rparr>, [RpcHandleCall h data, RpcSend si rsp])"
      unfolding req_def by (rule manager_passes_to_session) (use as srv in \<open>auto simp: rsp_def\<close>)
    from message_pieces[OF s(8) that(2) _ lq(2) _ _ this performs_answer[OF s(7) lp(1)], of "[]"]
      parse_one_frame[OF lq] that(1) s(9) show ?thesis by (auto simp: attached_def)
  qed
  have 3: "\<exists>C2. node_events os t'' hc' junk' (map (EvRecv cip cport clport) chunks) C1 =
      Inr (C2, [RpcCallBack r (take (nat len) result), RpcDeleteRequest r], []) \<and> session_map (node_rpc C2) cid = Some c2"
    if "concat chunks = frame rsp" "[] \<notin> set chunks" for chunks
  proof -
    have "RPCManager_OnRecv t'' hc' junk' ci rsp (int (length rsp)) (node_rpc C1) =
        Inr ((node_rpc C1)\<lparr>session_map := (session_map (node_rpc C1))(cid \<mapsto> c2)\<rparr>, [RpcCallBack r (take (nat len) result), RpcDeleteRequest r])"
      unfolding rsp_def by (rule manager_passes_to_session) (use ac answer in \<open>auto simp: C1_def\<close>)
    moreover have "receiving (node_net C1) cip cport clport ci" using c(6) by (simp add: C1_def)
    ultimately show ?thesis
      using message_pieces[of "[]" C1 cip cport clport ci chunks rsp "[]", OF _ that(2) _ lp(2) _ _ _ performs_callback]
        parse_one_frame[OF lp] that(1) c(7) by (fastforce simp: attached_def C1_def)
  qed
  have b: "sent_bytes cfd [OsSend cfd (frame req)] = frame req" "sent_bytes sfd [OsSend sfd (frame rsp)] = frame rsp"
    by (simp_all add: sent_bytes_def)
  show ?thesis using 1 2 3 b fin by metis
qed

text \<open>A client that connected and a server that accepted.\<close>

definition demo_rpc :: "RPCSession \<Rightarrow> RPCManager" where
  "demo_rpc s = (fst (RPCManager_new True True))\<lparr>network_id_2_session_id_map := [1 \<mapsto> str ''s''], session_map := [str ''s'' \<mapsto> s]\<rparr>"

definition demo_client_net :: NetworkManager where
  "demo_client_net = (demo_manager False)\<lparr>net_id_to_endpoint_map := [1 \<mapsto> demo_peer], endpoint_to_net_id_map := [(demo_peer, 1)],
     net_id_to_connect := [1 \<mapsto> 5], connects := [5 \<mapsto> (SocketConnect_new [])\<lparr>con_local_sock := 4\<rparr>]\<rparr>"

definition demo_client_node :: rpc_node where
  "demo_client_node = \<lparr>node_net = demo_client_net, node_rpc = demo_rpc demo_session, node_handler = 1\<rparr>"

definition demo_server_node :: rpc_node where
  "demo_server_node = \<lparr>node_net = demo_server, node_rpc = demo_rpc (RPCSession_RegisterHandler (Some 9) demo_session), node_handler = 1\<rparr>"

lemma demo_nodes:
  "active_session demo_client_node 1 (str ''s'') demo_session"
  "active_session demo_server_node 1 (str ''s'') (RPCSession_RegisterHandler (Some 9) demo_session)"
  "attached demo_client_node" "attached demo_server_node"
  "writable (node_net demo_client_node) 1 4" "writable (node_net demo_server_node) 1 7"
  "receiving (node_net demo_client_node) (str ''10.0.0.1'') 5000 80 1"
  "receiving (node_net demo_server_node) (str ''10.0.0.1'') 5000 80 1"
proof -
  have s: "rs_network_id (RPCSession_RegisterHandler (Some 9) demo_session) = 1"
    by (simp add: RPCSession_RegisterHandler_def)
  show "active_session demo_client_node 1 (str ''s'') demo_session"
    "active_session demo_server_node 1 (str ''s'') (RPCSession_RegisterHandler (Some 9) demo_session)"
    using demo_session_reachable session_handler[OF demo_session_reachable] s
    by (simp_all add: active_session_def demo_client_node_def demo_server_node_def demo_rpc_def)
  show "attached demo_client_node" "attached demo_server_node"
    by (simp_all add: attached_def demo_client_node_def demo_server_node_def demo_client_net_def demo_server_simps)
  show "writable (node_net demo_client_node) 1 4"
    by (simp add: writable_def connected_def demo_client_node_def demo_client_net_def demo_server_simps)
  have "accepted demo_server 1 7"
    using demo_reachable by (simp add: accepted_def demo_server_simps) (simp add: demo_connected_def)
  then show "writable (node_net demo_server_node) 1 7" by (simp add: writable_def demo_server_node_def)
  show "receiving (node_net demo_client_node) (str ''10.0.0.1'') 5000 80 1"
    "receiving (node_net demo_server_node) (str ''10.0.0.1'') 5000 80 1"
    by (simp_all add: receiving_after_def demo_client_node_def demo_server_node_def demo_client_net_def demo_server_simps
        demo_peer_def holds_def)
qed

lemma demo_server_session:
  "rs_handler_list (RPCSession_RegisterHandler (Some 9) demo_session) = [9]"
  "handler_ok demo_handle_call"
  "demo_handle_call 9 [65, 66] (drop 4 (message_buffer (RPCSession_RegisterHandler (Some 9) demo_session))) =
     (0, 90 # drop 1 (drop 4 (message_buffer (RPCSession_RegisterHandler (Some 9) demo_session))), 1)"
  by (auto simp: RPCSession_RegisterHandler_def demo_session_def RPCSession_SetData_def RPCSession_new_def
      handler_ok_def demo_handle_call_def)

theorem rpc_call_over_network_witness:
  "\<exists>C1 out S1 out' C2. node_call 2 5 (str ''s'') 77 [65, 66] demo_client_node = Inr (C1, [], out) \<and>
    node_events 2 6 demo_handle_call [] [EvRecv (str ''10.0.0.1'') 5000 80 (sent_bytes 4 out)] demo_server_node =
      Inr (S1, [RpcHandleCall 9 [65, 66]], out') \<and>
    node_events 2 7 demo_handle_call [] [EvRecv (str ''10.0.0.1'') 5000 80 (sent_bytes 7 out')] C1 =
      Inr (C2, [RpcCallBack 77 [90], RpcDeleteRequest 77], [])"
proof -
  let ?ip = "str ''10.0.0.1''"
  have "card (dom (request_list demo_session)) < 32766" by simp
  from rpc_call_over_network [OF demo_nodes(1) this _ _ demo_nodes(5,7,3) demo_nodes(2) demo_server_session _ _ demo_nodes(6,8,4),
      of 2 5 77 6 "[]" 7 demo_handle_call "[]"]
  obtain C1 out where call: "node_call 2 5 (str ''s'') 77 [65, 66] demo_client_node = Inr (C1, [], out)"
    and there: "\<And>chunks. concat chunks = sent_bytes 4 out \<Longrightarrow> [] \<notin> set chunks \<Longrightarrow>
      \<exists>S1 out'. node_events 2 6 demo_handle_call [] (map (EvRecv ?ip 5000 80) chunks) demo_server_node =
          Inr (S1, [RpcHandleCall 9 [65, 66]], out') \<and>
        (\<forall>chunks'. concat chunks' = sent_bytes 7 out' \<and> [] \<notin> set chunks' \<longrightarrow>
          (\<exists>C2 c2. node_events 2 7 demo_handle_call [] (map (EvRecv ?ip 5000 80) chunks') C1 =
              Inr (C2, [RpcCallBack 77 [90], RpcDeleteRequest 77], []) \<and>
            session_map (node_rpc C2) (str ''s'') = Some c2 \<and> request_list c2 = request_list demo_session))"
    by auto
  have "sent_bytes 4 out \<noteq> []" using there[of "[]"] by auto
  with there[of "[sent_bytes 4 out]"] obtain S1 out' where
    srv: "node_events 2 6 demo_handle_call [] [EvRecv ?ip 5000 80 (sent_bytes 4 out)] demo_server_node =
      Inr (S1, [RpcHandleCall 9 [65, 66]], out')"
    and rest: "\<forall>chunks'. concat chunks' = sent_bytes 7 out' \<and> [] \<notin> set chunks' \<longrightarrow>
      (\<exists>C2 c2. node_events 2 7 demo_handle_call [] (map (EvRecv ?ip 5000 80) chunks') C1 =
          Inr (C2, [RpcCallBack 77 [90], RpcDeleteRequest 77], []) \<and>
        session_map (node_rpc C2) (str ''s'') = Some c2 \<and> request_list c2 = request_list demo_session)"
    by (auto simp del: node_events.simps)
  have again: "\<exists>C2. node_events 2 7 demo_handle_call [] (map (EvRecv ?ip 5000 80) chunks') C1 =
      Inr (C2, [RpcCallBack 77 [90], RpcDeleteRequest 77], [])"
    if "concat chunks' = sent_bytes 7 out'" "[] \<notin> set chunks'" for chunks' using rest that by blast
  have "sent_bytes 7 out' \<noteq> []" using again[of "[]"] by auto
  with again[of "[sent_bytes 7 out']"] call srv show ?thesis by (auto simp del: node_events.simps)
qed

section \<open>A new session\<close>

text \<open>
  A socket \<open>c\<close> that has just connected to \<open>ip\<close> and \<open>port\<close>, and a socket \<open>a\<close> that has just accepted that peer: the
  manager is about to be told, and will use the number \<open>i\<close>.
\<close>

definition outgoing :: "NetworkManager \<Rightarrow> nat \<Rightarrow> IPAddr \<Rightarrow> Port \<Rightarrow> int \<Rightarrow> NetworkID \<Rightarrow> bool" where
  "outgoing m c ip port fd i \<longleftrightarrow> \<not> single_thread_handle_mode m \<and> (\<exists>m1. GetFreeNetID m = Inr (i, m1)) \<and> unused_number i m \<and>
     distinct (connect_list m) \<and> c \<in> set (connect_list m) \<and> (\<exists>con. connects m c = Some con \<and> con_local_sock con = fd) \<and>
     (\<forall>b \<in> set (connect_list m). \<exists>con. connects m b = Some con \<and> SocketConnect_CheckOnHandle ip port con = (b = c))"

definition incoming :: "NetworkManager \<Rightarrow> nat \<Rightarrow> IPAddr \<Rightarrow> Port \<Rightarrow> Port \<Rightarrow> int \<Rightarrow> NetworkID \<Rightarrow> bool" where
  "incoming m a ip port lport fd i \<longleftrightarrow> \<not> single_thread_handle_mode m \<and> (\<exists>m1. GetFreeNetID m = Inr (i, m1)) \<and> unused_number i m \<and>
     distinct (accept_list m) \<and> a \<in> set (accept_list m) \<and>
     (\<exists>acc. accepts m a = Some acc \<and> accept_reachable acc \<and>
        sock_endpoint_map acc fd = Some \<lparr>remote_ip_addr = ip, remote_port = port, local_port = lport\<rparr>) \<and>
     (\<forall>b \<in> set (accept_list m). \<exists>acc. accepts m b = Some acc \<and> SocketAccept_CheckOnHandle ip port acc = (b = a))"

lemma outgoing_connects:
  assumes "outgoing m c ip port fd i"
  obtains m' where "handle_events [EvConnect ip port lport] m = Inr (m', map (\<lambda>h. CbConnect h ip port lport True i) (handler_list m))"
    "connected m' i fd" "receiving m' ip port lport i" "handler_list m' = handler_list m"
proof -
  from assms obtain m1 con where 1: "GetFreeNetID m = Inr (i, m1)" "unused_number i m" "\<not> single_thread_handle_mode m"
    "connects m c = Some con" "con_local_sock con = fd" by (auto simp: outgoing_def)
  obtain m' cbs where 2: "OnConnect ip port lport m = Inr (m', cbs)" "announced (\<lambda>h. CbConnect h ip port lport True i) m m' cbs"
    "core m' = register_endpoint i \<lparr>remote_ip_addr = ip, remote_port = port, local_port = lport\<rparr>
      ((core m1)\<lparr>net_id_to_connect := (net_id_to_connect m)(i \<mapsto> c)\<rparr>)"
    using OnConnect_registers[OF 1(1), of ip port c lport] assms by (auto simp: outgoing_def)
  have m': "\<not> single_thread_handle_mode m'" "handler_list m' = handler_list m" "cbs = map (\<lambda>h. CbConnect h ip port lport True i) (handler_list m)"
    using 2(2) 1(3) by (simp_all add: announced_def)
  have "connected (core m') i fd" "receiving (core m') ip port lport i"
    using 1 GetFreeNetID_frame[OF 1(1)] unfolding 2(3)
    by (simp_all add: connected_def receiving_after_def register_endpoint_def core_def unused_number_def endpoint_keys.find_put)
  with 2(1) m' show thesis using that by (auto simp: connected_core receiving_after_def)
qed

lemma incoming_accepts:
  assumes "incoming m a ip port lport fd i"
  obtains m' where "handle_events [EvAccept ip port lport] m = Inr (m', map (\<lambda>h. CbAccept h ip port lport i) (handler_list m))"
    "accepted m' i fd" "receiving m' ip port lport i" "handler_list m' = handler_list m"
proof -
  from assms obtain m1 acc where 1: "GetFreeNetID m = Inr (i, m1)" "unused_number i m" "\<not> single_thread_handle_mode m"
    "accepts m a = Some acc" "accept_reachable acc"
    "sock_endpoint_map acc fd = Some \<lparr>remote_ip_addr = ip, remote_port = port, local_port = lport\<rparr>" by (auto simp: incoming_def)
  obtain m' cbs where 2: "OnAccept ip port lport m = Inr (m', cbs)" "announced (\<lambda>h. CbAccept h ip port lport i) m m' cbs"
    "core m' = register_endpoint i \<lparr>remote_ip_addr = ip, remote_port = port, local_port = lport\<rparr>
      ((core m1)\<lparr>net_id_to_accept := (net_id_to_accept m)(i \<mapsto> a)\<rparr>)"
    using OnAccept_registers[OF 1(1), of ip port a lport] assms by (auto simp: incoming_def)
  have m': "\<not> single_thread_handle_mode m'" "handler_list m' = handler_list m" "cbs = map (\<lambda>h. CbAccept h ip port lport i) (handler_list m)"
    using 2(2) 1(3) by (simp_all add: announced_def)
  have "accepted (core m') i fd" "receiving (core m') ip port lport i"
    using 1 GetFreeNetID_frame[OF 1(1)] unfolding 2(3)
    by (simp_all add: accepted_def receiving_after_def register_endpoint_def core_def unused_number_def endpoint_keys.find_put)
  with 2(1) m' show thesis using that by (auto simp: accepted_core receiving_after_def)
qed

lemma performs_disconnect:
  assumes "accepted m i fd"
  shows "performs s [RpcDisconnect i] m [] [OsClose fd]"
proof -
  from assms obtain e a acc where
    1: "net_id_to_endpoint_map m i = Some e" "net_id_to_accept m i = Some a" "accepts m a = Some acc"
      "accept_reachable acc" "sock_endpoint_map acc fd = Some e" "net_id_to_connect m i = None" by (auto simp: accepted_def)
  from accept_ok_write[OF accept_reachable_ok[OF 1(4)] 1(5), of "[0]"] 1 show ?thesis
    by (simp add: performs_def Disconnect_def)
qed

lemma performs_session: "writable m i fd \<Longrightarrow> 4 + int (length d) \<le> INT_MAX \<Longrightarrow>
    performs s [RpcSend i d, RpcSessionActive k] m [RpcSessionActive k] [OsSend fd (frame d)]"
  "performs s [RpcSessionActive k] m [RpcSessionActive k] []"
  by (simp_all add: performs_def Send_writable)

lemma OnActiveNetwork_new:
  assumes "session_map m (CalculateRPCSessionKey l ip p) = None" and "rm_has_handler m" and "rm_has_network m" and "length junk = 10240"
  obtains m' s where "OnActiveNetwork junk i l ip p m = (m', [RpcSessionActive (CalculateRPCSessionKey l ip p)])"
    "network_id_2_session_id_map m' i = Some (CalculateRPCSessionKey l ip p)"
    "session_map m' (CalculateRPCSessionKey l ip p) = Some s" "rs_network_id s = i" "session_reachable s" "rs_handler_list s = []"
    "request_list s = Map.empty"
proof (rule that)
  let ?k = "CalculateRPCSessionKey l ip p" and ?s = "RPCSession_SetData ip p l True i (RPCSession_new junk)"
  show "OnActiveNetwork junk i l ip p m = (m\<lparr>session_map := (session_map m)(?k \<mapsto> ?s),
      session_id_2_network_id_map := (session_id_2_network_id_map m)(?k \<mapsto> i),
      network_id_2_session_id_map := (network_id_2_session_id_map m)(i \<mapsto> ?k)\<rparr>, [RpcSessionActive ?k])"
    using assms(1-3) by (simp add: OnActiveNetwork_def Let_def to_handler_def)
  show "session_reachable ?s" using assms(4) by (rule session_made)
qed (simp_all add: RPCSession_SetData_def RPCSession_new_def)


text \<open>Everything a remote call needs: a session without requests on a connection that can be read and written.\<close>

definition session_ready :: "rpc_node \<Rightarrow> NetworkID \<Rightarrow> int \<Rightarrow> IPAddr \<Rightarrow> Port \<Rightarrow> Port \<Rightarrow> std_string \<Rightarrow> bool" where
  "session_ready N i fd ip port lport sid \<longleftrightarrow> attached N \<and> writable (node_net N) i fd \<and> receiving (node_net N) ip port lport i \<and>
     (\<exists>s. active_session N i sid s \<and> request_list s = Map.empty)"

lemma node_connects:
  assumes "outgoing (node_net C) cs ip port fd i" and "attached C" and "rm_has_network (node_rpc C)"
    and "uncheck_key_map (node_rpc C) (CalculateRPCSessionKey 0 ip port) = Some key" and "length key < 99"
  obtains net where "node_events os t hc junk [EvConnect ip port lport] C =
      Inr (C\<lparr>node_net := net, node_rpc := (node_rpc C)\<lparr>uncheck_rpc_info_map := (uncheck_rpc_info_map (node_rpc C))(i \<mapsto>
        \<lparr>ui_network_id = i, ui_remote_ip_addr = ip, ui_remote_port = port, ui_local_port = lport\<rparr>)\<rparr>\<rparr>, [],
        [OsSend fd (frame (check_key_message key))])"
    "connected net i fd" "receiving net ip port lport i" "handler_list net = handler_list (node_net C)"
proof -
  obtain net where n: "handle_events [EvConnect ip port lport] (node_net C) = Inr (net, map (\<lambda>h. CbConnect h ip port lport True i) (handler_list (node_net C)))"
    "connected net i fd" "receiving net ip port lport i" "handler_list net = handler_list (node_net C)" by (rule outgoing_connects[OF assms(1)])
  let ?rpc = "(node_rpc C)\<lparr>uncheck_rpc_info_map := (uncheck_rpc_info_map (node_rpc C))(i \<mapsto>
        \<lparr>ui_network_id = i, ui_remote_ip_addr = ip, ui_remote_port = port, ui_local_port = lport\<rparr>)\<rparr>"
  have "rpc_callbacks t hc junk (node_handler C) (map (\<lambda>h. CbConnect h ip port lport True i) (handler_list (node_net C))) (node_rpc C) =
      Inr (?rpc, [RpcSend i (check_key_message key)])"
    by (rule rpc_callbacks_one)
      (use assms(2-5) in \<open>simp_all add: attached_def rpc_callback_def RPCManager_OnConnect_def RPC_MAX_KEY_STRING_LENGTH_def\<close>)
  moreover have "4 + int (length (check_key_message key)) \<le> INT_MAX" using assms(5) by (simp add: check_key_message_def INT_MAX_def)
  moreover have "writable net i fd" using n(2) by (simp add: writable_def)
  ultimately have "node_event os t hc junk (EvConnect ip port lport) C = Inr (C\<lparr>node_net := net, node_rpc := ?rpc\<rparr>, [],
      [OsSend fd (frame (check_key_message key))])"
    using n(1) Send_writable by (simp add: node_event_def del: handle_events.simps)
  with n(2-4) show thesis using that by simp
qed

lemma node_accepts:
  assumes "incoming (node_net S) a ip port lport fd i" and "attached S"
  obtains net where "node_events os t hc junk [EvAccept ip port lport] S =
      Inr (S\<lparr>node_net := net, node_rpc := RPCManager_OnAccept ip port lport i (node_rpc S)\<rparr>, [], [])"
    "accepted net i fd" "receiving net ip port lport i" "handler_list net = handler_list (node_net S)"
proof -
  obtain net where n: "handle_events [EvAccept ip port lport] (node_net S) = Inr (net, map (\<lambda>h. CbAccept h ip port lport i) (handler_list (node_net S)))"
    "accepted net i fd" "receiving net ip port lport i" "handler_list net = handler_list (node_net S)" by (rule incoming_accepts[OF assms(1)])
  have "rpc_callbacks t hc junk (node_handler S) (map (\<lambda>h. CbAccept h ip port lport i) (handler_list (node_net S))) (node_rpc S) =
      Inr (RPCManager_OnAccept ip port lport i (node_rpc S), [])"
    by (rule rpc_callbacks_one) (use assms(2) in \<open>simp_all add: attached_def rpc_callback_def\<close>)
  then have "node_event os t hc junk (EvAccept ip port lport) S =
      Inr (S\<lparr>node_net := net, node_rpc := RPCManager_OnAccept ip port lport i (node_rpc S)\<rparr>, [], [])"
    using n(1) by (simp add: node_event_def del: handle_events.simps)
  with n(2-4) show thesis using that by simp
qed

text \<open>A message that makes the manager activate a session, and what it sends meanwhile.\<close>

lemma node_activates:
  assumes "RPCManager_OnRecv t hc junk i msg (int (length msg)) (node_rpc N) = Inr (rpc1, acts)"
    and "performs os acts (node_net N) [RpcSessionActive sid] out"
    and "network_id_2_session_id_map rpc1 i = Some sid" "session_map rpc1 sid = Some s" "rs_network_id s = i" "session_reachable s"
    "request_list s = Map.empty"
    and "attached N" and "writable (node_net N) i fd" and "receiving (node_net N) ip port lport i"
    and "msg \<noteq> []" and "4 + int (length msg) \<le> INT_MAX" and "concat chunks = frame msg" and "[] \<notin> set chunks"
  shows "\<exists>N'. node_events os t hc junk (map (EvRecv ip port lport) chunks) N = Inr (N', [RpcSessionActive sid], out) \<and>
    session_ready N' i fd ip port lport sid"
proof -
  have p: "parse_stream ([] @ concat chunks) = Inr ([msg], [])" using parse_one_frame[OF assms(12,11)] assms(13) by simp
  obtain pk where "node_events os t hc junk (map (EvRecv ip port lport) chunks) N =
      Inr (N\<lparr>node_net := (node_net N)\<lparr>packager := pk\<rparr>, node_rpc := rpc1\<rparr>, [RpcSessionActive sid], out)"
    "receiving ((node_net N)\<lparr>packager := pk\<rparr>) ip port lport i" "has_net_manager pk = has_net_manager (packager (node_net N))"
    using message_pieces[OF assms(10,14) p assms(11) _ _ assms(1,2)] assms(8) by (auto simp: attached_def)
  with assms(3-9) show ?thesis by (auto simp: session_ready_def active_session_def attached_def)
qed

text \<open>
  C8: Two RPC managers find each other through their network managers. When a connection is made, the client
  sends its key; however the network cuts the bytes, the server compares it with the key of its port. If they
  are equal, the server reports a session, answers, and, however that is cut, the client reports a session too,
  and both sessions have all that a remote call needs. If they differ, the server closes the connection
  and has no new session.
\<close>

theorem rpc_connects_over_network:
  assumes c: "outgoing (node_net C) cs sip port cfd ci" "attached C" "rm_has_network (node_rpc C)" "rm_has_handler (node_rpc C)"
    "uncheck_key_map (node_rpc C) (CalculateRPCSessionKey 0 sip port) = Some key" "length key < 99" "0 \<notin> set key"
    "session_map (node_rpc C) (CalculateRPCSessionKey lport sip port) = None" "length cjunk = 10240"
    and s: "incoming (node_net S) a cip lport port sfd si" "attached S" "rm_has_network (node_rpc S)" "rm_has_handler (node_rpc S)"
    "listen_port_2_key_map (node_rpc S) (uint port) = Some key'" "uncheck_rpc_info_map (node_rpc S) si = None"
    "session_map (node_rpc S) (CalculateRPCSessionKey 0 cip lport) = None" "length sjunk = 10240"
  shows "\<exists>C1 S1 out. node_events os t hc cjunk [EvConnect sip port lport] C = Inr (C1, [], out) \<and>
    node_events os t' hc' sjunk [EvAccept cip lport port] S = Inr (S1, [], []) \<and>
    (\<forall>chunks. concat chunks = sent_bytes cfd out \<and> [] \<notin> set chunks \<longrightarrow>
      (if key = key' then
        \<exists>S2 out'. node_events os t' hc' sjunk (map (EvRecv cip lport port) chunks) S1 =
            Inr (S2, [RpcSessionActive (CalculateRPCSessionKey 0 cip lport)], out') \<and>
          session_ready S2 si sfd cip lport port (CalculateRPCSessionKey 0 cip lport) \<and>
          (\<forall>chunks'. concat chunks' = sent_bytes sfd out' \<and> [] \<notin> set chunks' \<longrightarrow>
            (\<exists>C2. node_events os t hc cjunk (map (EvRecv sip port lport) chunks') C1 =
                Inr (C2, [RpcSessionActive (CalculateRPCSessionKey lport sip port)], []) \<and>
              session_ready C2 ci cfd sip port lport (CalculateRPCSessionKey lport sip port)))
       else
        \<exists>S2. node_events os t' hc' sjunk (map (EvRecv cip lport port) chunks) S1 = Inr (S2, [], [OsClose sfd]) \<and>
          session_map (node_rpc S2) = session_map (node_rpc S)))"
proof -
  let ?cid = "CalculateRPCSessionKey lport sip port" and ?sid = "CalculateRPCSessionKey 0 cip lport" and ?msg = "check_key_message key"
  let ?info = "\<lparr>ui_network_id = ci, ui_remote_ip_addr = sip, ui_remote_port = port, ui_local_port = lport\<rparr>"
  obtain cnet where C1: "node_events os t hc cjunk [EvConnect sip port lport] C =
      Inr (C\<lparr>node_net := cnet, node_rpc := (node_rpc C)\<lparr>uncheck_rpc_info_map := (uncheck_rpc_info_map (node_rpc C))(ci \<mapsto> ?info)\<rparr>\<rparr>, [],
        [OsSend cfd (frame ?msg)])"
    "connected cnet ci cfd" "receiving cnet sip port lport ci" "handler_list cnet = handler_list (node_net C)"
    by (rule node_connects[OF c(1,2,3,5,6)])
  obtain snet where S1: "node_events os t' hc' sjunk [EvAccept cip lport port] S =
      Inr (S\<lparr>node_net := snet, node_rpc := RPCManager_OnAccept cip lport port si (node_rpc S)\<rparr>, [], [])"
    "accepted snet si sfd" "receiving snet cip lport port si" "handler_list snet = handler_list (node_net S)"
    by (rule node_accepts[OF s(1,2)])
  define N where "N = S\<lparr>node_net := snet, node_rpc := RPCManager_OnAccept cip lport port si (node_rpc S)\<rparr>"
  define D where "D = C\<lparr>node_net := cnet, node_rpc := (node_rpc C)\<lparr>uncheck_rpc_info_map := (uncheck_rpc_info_map (node_rpc C))(ci \<mapsto> ?info)\<rparr>\<rparr>"
  have l: "?msg \<noteq> []" "4 + int (length ?msg) \<le> INT_MAX" "check_key_response \<noteq> []" "4 + int (length check_key_response) \<le> INT_MAX"
    using c(6) by (simp_all add: check_key_message_def check_key_response_def INT_MAX_def)
  have n: "rm_has_network (node_rpc N)" "rm_has_handler (node_rpc N)" "network_id_2_key_map (node_rpc N) si = Some key'"
    "session_map (node_rpc N) = session_map (node_rpc S)" "attached N" "node_net N = snet"
    "uncheck_rpc_info_map (node_rpc N) si = Some (UncheckRPCInfo_new\<lparr>ui_network_id := si, ui_remote_ip_addr := cip, ui_remote_port := lport\<rparr>)"
    using s(2-6) S1(4) by (simp_all add: N_def RPCManager_OnAccept_def Let_def attached_def)
  note K = key_message_arrives[OF c(7) n(1,3), of t' hc' sjunk "int (length ?msg)"]
  have equal: "\<exists>S2. node_events os t' hc' sjunk (map (EvRecv cip lport port) chunks) N =
      Inr (S2, [RpcSessionActive ?sid], [OsSend sfd (frame check_key_response)]) \<and> session_ready S2 si sfd cip lport port ?sid"
    if "key = key'" "concat chunks = frame ?msg" "[] \<notin> set chunks" for chunks
  proof -
    obtain m' ss where m': "OnActiveNetwork sjunk si 0 cip lport (node_rpc N) = (m', [RpcSessionActive ?sid])"
      "network_id_2_session_id_map m' si = Some ?sid" "session_map m' ?sid = Some ss" "rs_network_id ss = si" "session_reachable ss"
      "request_list ss = Map.empty"
      by (rule OnActiveNetwork_new[of "node_rpc N" 0 cip lport sjunk si]) (use s(7,8) n in auto)
    then have "RPCManager_OnRecv t' hc' sjunk si ?msg (int (length ?msg)) (node_rpc N) = Inr (m', [RpcSend si check_key_response, RpcSessionActive ?sid])"
      using K that(1) n(7) by (simp add: activate_unchecked_def subscript_def UncheckRPCInfo_new_def)
    from node_activates[OF this performs_session(1) m'(2-6) n(5) _ _ l(1,2) that(2,3)] S1(2,3) l(4) n(6) show ?thesis
      by (auto simp: writable_def)
  qed
  have client: "\<exists>C2. node_events os t hc cjunk (map (EvRecv sip port lport) chunks) D = Inr (C2, [RpcSessionActive ?cid], []) \<and>
      session_ready C2 ci cfd sip port lport ?cid"
    if "concat chunks = frame check_key_response" "[] \<notin> set chunks" for chunks
  proof -
    have d: "rm_has_network (node_rpc D)" "rm_has_handler (node_rpc D)" "session_map (node_rpc D) = session_map (node_rpc C)"
      "uncheck_rpc_info_map (node_rpc D) ci = Some ?info" "attached D" "node_net D = cnet"
      using c(2-4) C1(4) by (simp_all add: D_def attached_def)
    obtain m' ss where m': "OnActiveNetwork cjunk ci lport sip port (node_rpc D) = (m', [RpcSessionActive ?cid])"
      "network_id_2_session_id_map m' ci = Some ?cid" "session_map m' ?cid = Some ss" "rs_network_id ss = ci" "session_reachable ss"
      "request_list ss = Map.empty"
      by (rule OnActiveNetwork_new[of "node_rpc D" lport sip port cjunk ci]) (use c(8,9) d in auto)
    then have "RPCManager_OnRecv t hc cjunk ci check_key_response (int (length check_key_response)) (node_rpc D) = Inr (m', [RpcSessionActive ?cid])"
      using key_response_arrives d(4) by (simp add: activate_unchecked_def subscript_def)
    from node_activates[OF this performs_session(2) m'(2-6) d(5) _ _ l(3,4) that] C1(2,3) d(6) show ?thesis
      by (auto simp: writable_def)
  qed
  have different: "\<exists>S2. node_events os t' hc' sjunk (map (EvRecv cip lport port) chunks) N = Inr (S2, [], [OsClose sfd]) \<and>
      session_map (node_rpc S2) = session_map (node_rpc S)"
    if "key \<noteq> key'" "concat chunks = frame ?msg" "[] \<notin> set chunks" for chunks
  proof -
    have r: "RPCManager_OnRecv t' hc' sjunk si ?msg (int (length ?msg)) (node_rpc N) = Inr (node_rpc N, [RpcDisconnect si])" using K that(1) by simp
    have p: "parse_stream ([] @ concat chunks) = Inr ([?msg], [])" using parse_one_frame[OF l(2,1)] that(2) by simp
    from message_pieces[OF _ that(3) p l(1) _ _ r performs_disconnect, of cip lport port sfd os] S1(2,3) n(4-6) show ?thesis
      by (auto simp: attached_def)
  qed
  have b: "sent_bytes cfd [OsSend cfd (frame ?msg)] = frame ?msg" "sent_bytes sfd [OsSend sfd (frame check_key_response)] = frame check_key_response"
    by (simp_all add: sent_bytes_def)
  show ?thesis
    using C1(1) S1(1) equal client different b by (simp flip: N_def D_def del: node_events.simps) metis
qed


text \<open>A client that has just connected from port 5000 and a server that has just accepted it, both with the key "k".\<close>

definition demo_connecting :: rpc_node where
  "demo_connecting = \<lparr>node_net = (demo_manager False)\<lparr>connect_list := [5], connects := [5 \<mapsto> (SocketConnect_new [])\<lparr>con_local_sock := 4,
     con_remote_ip := str ''10.0.0.1'', con_remote_port := 80\<rparr>]\<rparr>, node_rpc = demo_client, node_handler = 1\<rparr>"

definition demo_accepting :: rpc_node where
  "demo_accepting = \<lparr>node_net = (demo_manager False)\<lparr>accept_list := [9], accepts := [9 \<mapsto> demo_connected]\<rparr>,
     node_rpc = demo_rpc_server, node_handler = 1\<rparr>"

lemma demo_outgoing: "outgoing (node_net demo_connecting) 5 (str ''10.0.0.1'') 80 4 1" "attached demo_connecting"
  by (simp_all add: outgoing_def attached_def demo_connecting_def demo_server_simps GetFreeNetID_def c_int_def INT_MIN_def INT_MAX_def
      unused_number_def holds_def SocketConnect_CheckOnHandle_def SocketConnect_new_def)

lemma demo_incoming: "incoming (node_net demo_accepting) 9 (str ''10.0.0.1'') 5000 80 7 1" "attached demo_accepting"
  using demo_reachable
  by (simp_all add: incoming_def attached_def demo_accepting_def demo_server_simps GetFreeNetID_def c_int_def INT_MIN_def INT_MAX_def
      unused_number_def holds_def) (simp add: demo_connected_def demo_peer_def demo_listening_def SocketAccept_CheckOnHandle_def)

theorem rpc_connects_over_network_witness:
  "\<exists>C1 S1 out S2 out' C2. node_events 2 5 demo_handle_call (replicate 10240 0) [EvConnect (str ''10.0.0.1'') 80 5000] demo_connecting =
      Inr (C1, [], out) \<and>
    node_events 2 6 demo_handle_call (replicate 10240 0) [EvAccept (str ''10.0.0.1'') 5000 80] demo_accepting = Inr (S1, [], []) \<and>
    node_events 2 6 demo_handle_call (replicate 10240 0) [EvRecv (str ''10.0.0.1'') 5000 80 (sent_bytes 4 out)] S1 =
      Inr (S2, [RpcSessionActive (CalculateRPCSessionKey 0 (str ''10.0.0.1'') 5000)], out') \<and>
    node_events 2 5 demo_handle_call (replicate 10240 0) [EvRecv (str ''10.0.0.1'') 80 5000 (sent_bytes 7 out')] C1 =
      Inr (C2, [RpcSessionActive (CalculateRPCSessionKey 5000 (str ''10.0.0.1'') 80)], []) \<and>
    session_ready C2 1 4 (str ''10.0.0.1'') 80 5000 (CalculateRPCSessionKey 5000 (str ''10.0.0.1'') 80)"
proof -
  let ?ip = "str ''10.0.0.1''" and ?j = "replicate 10240 (0 :: byte)"
  have r: "rm_has_network (node_rpc demo_connecting)" "rm_has_handler (node_rpc demo_connecting)"
    "uncheck_key_map (node_rpc demo_connecting) (CalculateRPCSessionKey 0 ?ip 80) = Some (str ''k'')"
    "length (str ''k'') < 99" "0 \<notin> set (str ''k'')" "session_map (node_rpc demo_connecting) (CalculateRPCSessionKey 5000 ?ip 80) = None"
    "length ?j = 10240" "rm_has_network (node_rpc demo_accepting)" "rm_has_handler (node_rpc demo_accepting)"
    "listen_port_2_key_map (node_rpc demo_accepting) (uint (80 :: Port)) = Some (str ''k'')"
    "uncheck_rpc_info_map (node_rpc demo_accepting) 1 = None" "session_map (node_rpc demo_accepting) (CalculateRPCSessionKey 0 ?ip 5000) = None"
    by (simp_all add: demo_connecting_def demo_accepting_def demo_client_def demo_rpc_server_def RPCManager_new_def str_def)
  obtain C1 S1 out where 1: "node_events 2 5 demo_handle_call ?j [EvConnect ?ip 80 5000] demo_connecting = Inr (C1, [], out)"
    "node_events 2 6 demo_handle_call ?j [EvAccept ?ip 5000 80] demo_accepting = Inr (S1, [], [])"
    and there: "\<And>chunks. concat chunks = sent_bytes 4 out \<Longrightarrow> [] \<notin> set chunks \<Longrightarrow>
      \<exists>S2 out'. node_events 2 6 demo_handle_call ?j (map (EvRecv ?ip 5000 80) chunks) S1 =
          Inr (S2, [RpcSessionActive (CalculateRPCSessionKey 0 ?ip 5000)], out') \<and>
        (\<forall>chunks'. concat chunks' = sent_bytes 7 out' \<and> [] \<notin> set chunks' \<longrightarrow>
          (\<exists>C2. node_events 2 5 demo_handle_call ?j (map (EvRecv ?ip 80 5000) chunks') C1 =
              Inr (C2, [RpcSessionActive (CalculateRPCSessionKey 5000 ?ip 80)], []) \<and>
            session_ready C2 1 4 ?ip 80 5000 (CalculateRPCSessionKey 5000 ?ip 80)))"
    using rpc_connects_over_network [OF demo_outgoing r(1-7) demo_incoming r(8-12,7), of 2 5 demo_handle_call 6 demo_handle_call]
    by (simp only: if_True simp_thms) blast
  have "sent_bytes 4 out \<noteq> []" using there[of "[]"] by auto
  with there[of "[sent_bytes 4 out]"] obtain S2 out' where
    2: "node_events 2 6 demo_handle_call ?j [EvRecv ?ip 5000 80 (sent_bytes 4 out)] S1 =
      Inr (S2, [RpcSessionActive (CalculateRPCSessionKey 0 ?ip 5000)], out')"
    and last: "\<And>chunks'. concat chunks' = sent_bytes 7 out' \<Longrightarrow> [] \<notin> set chunks' \<Longrightarrow>
      \<exists>C2. node_events 2 5 demo_handle_call ?j (map (EvRecv ?ip 80 5000) chunks') C1 =
          Inr (C2, [RpcSessionActive (CalculateRPCSessionKey 5000 ?ip 80)], []) \<and>
        session_ready C2 1 4 ?ip 80 5000 (CalculateRPCSessionKey 5000 ?ip 80)"
    by (auto simp del: node_events.simps)
  have "sent_bytes 7 out' \<noteq> []" using last[of "[]"] by auto
  with last[of "[sent_bytes 7 out']"] 1 2 show ?thesis by (auto simp del: node_events.simps)
qed

end
