(* ===== verification/Signals.thy ===== *)
theory Signals
  imports Prelude
begin

text \<open>
  Signals (\<^verbatim>\<open>elegance/platform/thread/signal.*\<close>). \<^verbatim>\<open>ISignal\<close> objects register with the one
  \<^verbatim>\<open>SignalManager_\<close>, which installs its handler for the types somebody wants. An object is a number,
  the system's table of signal dispositions is part of the state. The mutexes only order the
  operations, each of which is one step here.
\<close>

datatype SignalType = INTERRUPT | SIGNAL_COUNT

datatype disposition = SIG_DFL | SIG_HANDLE

record SignalManager =
  type_set :: "nat \<rightharpoonup> SignalType set"
  signal_set :: "nat list"
  dispositions :: "int \<Rightarrow> disposition"

definition SIGHUP :: int where "SIGHUP = 1"
definition SIGINT :: int where "SIGINT = 2"

definition SignalManager_new :: SignalManager where
  "SignalManager_new = \<lparr>type_set = Map.empty, signal_set = [], dispositions = (\<lambda>_. SIG_DFL)\<rparr>"

definition CheckType :: "nat \<Rightarrow> SignalType \<Rightarrow> SignalManager \<Rightarrow> bool" where
  "CheckType p ty m = (case type_set m p of None \<Rightarrow> False | Some tys \<Rightarrow> ty \<in> tys)"

text \<open>The types below \<^verbatim>\<open>COUNT\<close> and the signals of the system they stand for.\<close>

definition signal_types :: "SignalType list" where "signal_types = [INTERRUPT]"
definition real_signal_value_list :: "int list" where "real_signal_value_list = [SIGINT]"

text \<open>\<^verbatim>\<open>signal(number, handler)\<close> of the system; the second call passes the entry of the status list as the number.\<close>

fun install_signals :: "int list \<Rightarrow> bool list \<Rightarrow> (int \<Rightarrow> disposition) \<Rightarrow> int \<Rightarrow> disposition" where
  "install_signals (v # vs) (st # sts) d =
     (let d1 = d(v := SIG_DFL) in install_signals vs sts (if st then d1(of_bool st := SIG_HANDLE) else d1))"
| "install_signals _ _ d = d"

definition UpdateSignal :: "SignalManager \<Rightarrow> SignalManager" where
  "UpdateSignal m =
     (let signal_status_list = map (\<lambda>ty. list_ex (\<lambda>p. CheckType p ty m) (signal_set m)) signal_types
      in m\<lparr>dispositions := install_signals real_signal_value_list signal_status_list (dispositions m)\<rparr>)"

definition SignalManager_Register :: "nat \<Rightarrow> SignalManager \<Rightarrow> SignalManager" where
  "SignalManager_Register p m = UpdateSignal
     (if p \<in> set (signal_set m) then m else m\<lparr>signal_set := insort p (signal_set m)\<rparr>)"

definition SignalManager_Unregister :: "nat \<Rightarrow> SignalManager \<Rightarrow> SignalManager" where
  "SignalManager_Unregister p m = UpdateSignal (m\<lparr>signal_set := filter (\<lambda>q. q \<noteq> p) (signal_set m)\<rparr>)"

definition AddType :: "nat \<Rightarrow> SignalType \<Rightarrow> SignalManager \<Rightarrow> SignalManager" where
  "AddType p ty m = UpdateSignal (m\<lparr>type_set := (type_set m)(p \<mapsto>
     insert ty (case type_set m p of None \<Rightarrow> {} | Some tys \<Rightarrow> tys))\<rparr>)"

definition RemoveType :: "nat \<Rightarrow> SignalType \<Rightarrow> SignalManager \<Rightarrow> SignalManager" where
  "RemoveType p ty m = UpdateSignal (m\<lparr>type_set := (type_set m)(p \<mapsto>
     (case type_set m p of None \<Rightarrow> {} | Some tys \<Rightarrow> tys) - {ty})\<rparr>)"

definition ISignal_new :: "nat \<Rightarrow> SignalType \<Rightarrow> SignalManager \<Rightarrow> SignalManager" where
  "ISignal_new p ty m = SignalManager_Register p (AddType p ty (m\<lparr>type_set := (type_set m)(p \<mapsto> {})\<rparr>))"

definition ISignal_delete :: "nat \<Rightarrow> SignalManager \<Rightarrow> SignalManager" where
  "ISignal_delete p m = (SignalManager_Unregister p m)\<lparr>type_set := (type_set m)(p := None)\<rparr>"

text \<open>The objects whose \<^verbatim>\<open>OnReceive\<close> is called when signal \<open>sig\<close> is delivered.\<close>

definition SignalManager_Handle :: "int \<Rightarrow> SignalManager \<Rightarrow> nat list" where
  "SignalManager_Handle sig m = filter (\<lambda>p. CheckType p INTERRUPT m) (signal_set m)"

definition deliver :: "int \<Rightarrow> SignalManager \<Rightarrow> nat list" where
  "deliver sig m = (case dispositions m sig of SIG_DFL \<Rightarrow> [] | SIG_HANDLE \<Rightarrow> SignalManager_Handle sig m)"

inductive signal_reachable :: "SignalManager \<Rightarrow> bool" where
  signals_start: "signal_reachable SignalManager_new"
| signals_make: "signal_reachable m \<Longrightarrow> type_set m p = None \<Longrightarrow> signal_reachable (ISignal_new p ty m)"
| signals_delete: "signal_reachable m \<Longrightarrow> signal_reachable (ISignal_delete p m)"
| signals_add: "signal_reachable m \<Longrightarrow> type_set m p \<noteq> None \<Longrightarrow> signal_reachable (AddType p ty m)"
| signals_remove: "signal_reachable m \<Longrightarrow> type_set m p \<noteq> None \<Longrightarrow> signal_reachable (RemoveType p ty m)"

lemma UpdateSignal_dispositions:
  "dispositions (UpdateSignal m) =
     (if list_ex (\<lambda>p. CheckType p INTERRUPT m) (signal_set m)
      then (dispositions m)(SIGINT := SIG_DFL, SIGHUP := SIG_HANDLE) else (dispositions m)(SIGINT := SIG_DFL))"
  by (simp add: UpdateSignal_def signal_types_def real_signal_value_list_def SIGINT_def SIGHUP_def Let_def)

lemma signal_updates:
  "type_set (UpdateSignal m) = type_set m" "signal_set (UpdateSignal m) = signal_set m"
  "dispositions (UpdateSignal m) SIGINT = SIG_DFL"
  by (simp_all add: UpdateSignal_def Let_def install_signals.simps signal_types_def real_signal_value_list_def SIGINT_def)

lemma interrupt_default: "signal_reachable m \<Longrightarrow> dispositions m SIGINT = SIG_DFL"
  by (induction rule: signal_reachable.induct)
    (simp_all add: SignalManager_new_def ISignal_new_def ISignal_delete_def AddType_def RemoveType_def
      SignalManager_Register_def SignalManager_Unregister_def signal_updates)

lemma update_handles_hangup:
  "p \<in> set (signal_set m) \<Longrightarrow> CheckType p INTERRUPT m \<Longrightarrow> dispositions (UpdateSignal m) SIGHUP = SIG_HANDLE"
  by (auto simp: UpdateSignal_dispositions list_ex_iff SIGINT_def SIGHUP_def)

lemma hangup_handled: "dispositions (ISignal_new p INTERRUPT m) SIGHUP = SIG_HANDLE"
  unfolding ISignal_new_def SignalManager_Register_def
  by (rule update_handles_hangup[of p])
    (simp_all add: AddType_def signal_updates CheckType_def set_insort_key)

text \<open>
  The interrupt signal is never handled. Whatever objects are made, deleted and changed,
  \<^verbatim>\<open>SIGINT\<close> keeps its default action, because the handler is installed for the number 1 (the status
  flag, which is \<^verbatim>\<open>SIGHUP\<close>) instead of the entry of the table; an object that asks for interrupts
  is called on a hangup instead.
\<close>

theorem interrupt_never_handled:
  assumes "signal_reachable m" and "type_set m p = None"
  shows "deliver SIGINT (ISignal_new p INTERRUPT m) = [] \<and> p \<in> set (deliver SIGHUP (ISignal_new p INTERRUPT m))"
proof -
  have "signal_reachable (ISignal_new p INTERRUPT m)" using assms by (rule signals_make)
  then have "deliver SIGINT (ISignal_new p INTERRUPT m) = []" by (simp add: deliver_def interrupt_default)
  moreover have "p \<in> set (SignalManager_Handle SIGHUP (ISignal_new p INTERRUPT m))"
    by (simp add: SignalManager_Handle_def ISignal_new_def SignalManager_Register_def AddType_def signal_updates
        CheckType_def set_insort_key)
  ultimately show ?thesis by (simp add: deliver_def hangup_handled)
qed

theorem interrupt_never_handled_witness:
  "deliver SIGINT (ISignal_new 4 INTERRUPT SignalManager_new) = [] \<and>
   4 \<in> set (deliver SIGHUP (ISignal_new 4 INTERRUPT SignalManager_new))"
  by (rule interrupt_never_handled [OF signals_start]) (simp add: SignalManager_new_def)

end
