(* ===== verification/ThreadPool.thy ===== *)
theory ThreadPool
  imports Signals "HOL-Library.Multiset"
begin

text \<open>
  The thread pool (\<^verbatim>\<open>elegance/platform/thread/thread_pool.*\<close>, Linux half) as interleaved threads: the
  workers, each in the loop of \<^verbatim>\<open>ThreadPoolWorkingTask::Run\<close> around \<^verbatim>\<open>GetNextTask\<close>, and one thread that
  calls \<^verbatim>\<open>AddTask\<close>, \<^verbatim>\<open>Stop\<close> and \<^verbatim>\<open>WaitALlThread\<close>. Taking the mutex is a step of its own, and so is
  every access to \<^verbatim>\<open>is_running_\<close> outside it, as in the code; accesses protected by the mutex are
  grouped. A worker in \<^verbatim>\<open>pthread_cond_wait\<close> has released the mutex and stays blocked until it is
  signalled or, as POSIX permits, wakes up by itself; then it takes the mutex again.
\<close>

section \<open>State\<close>

type_synonym task = nat

text \<open>
  Where a worker is: \<open>W_check\<close> at the entry of \<^verbatim>\<open>GetNextTask\<close>, \<open>W_lock\<close> about to take the mutex,
  \<open>W_test\<close> at the condition of the while loop, \<open>W_wait\<close> about to wait and still holding the mutex,
  \<open>W_blocked\<close> waiting on the condition, \<open>W_take\<close> behind the loop, \<open>W_run\<close> with a task in hand, and
  \<open>W_exit\<close> once \<^verbatim>\<open>GetNextTask\<close> returned nullptr.
\<close>

datatype worker_pc = W_check | W_lock | W_test | W_wait | W_blocked | W_take | W_run task | W_exit

datatype client_pc =
    C_idle
  | C_add_lock task | C_add_push task | C_add_unlock
  | C_stop_lock | C_stop_clear | C_stop_flag | C_stop_broadcast | C_stop_join
  | C_wait_join

text \<open>The mutex is owned by nobody, by the client (0) or by a worker (from 1 on); it is never taken twice here.
  The member \<^verbatim>\<open>signal_\<close> is object 0 of the signal manager.\<close>

record pool =
  is_running :: bool
  pool_lock :: "nat option"
  task_list :: "task list"
  pc :: "nat \<Rightarrow> worker_pc"
  client :: client_pc
  condition_alive :: bool
  signals :: SignalManager
  returned :: "bool option"
  added :: "task list"
  executed :: "task list"
  discarded :: "task list"

definition ThreadPool_new :: "SignalManager \<Rightarrow> pool" where
  "ThreadPool_new m = \<lparr>is_running = False, pool_lock = None, task_list = [], pc = (\<lambda>_. W_exit), client = C_idle,
     condition_alive = True, signals = ISignal_new 0 INTERRUPT m, returned = None, added = [], executed = [], discarded = []\<rparr>"

definition MAX_THREAD_NUM_LIMIT :: int where "MAX_THREAD_NUM_LIMIT = 1000"

text \<open>\<^verbatim>\<open>Run\<close>: \<open>cpu_num\<close> is what \<^verbatim>\<open>SystemInfo::GetCPUNum\<close> returns. \<open>starts\<close> says of
  each new thread whether \<^verbatim>\<open>Thread::Run\<close> started it; the code does not look at that result. It gives the number of threads made.\<close>

definition ThreadPool_Run :: "(nat \<Rightarrow> bool) \<Rightarrow> int \<Rightarrow> int \<Rightarrow> pool \<Rightarrow> bool \<times> nat \<times> pool" where
  "ThreadPool_Run starts cpu_num thread_num s =
     (if is_running s then (True, 0, s)
      else let n = (if thread_num \<le> 0 then cpu_num else thread_num) in
        if n \<le> 0 \<or> MAX_THREAD_NUM_LIMIT < n then (False, 0, s)
        else (True, nat n, s\<lparr>is_running := True, pc := (\<lambda>w. if 1 \<le> w \<and> w \<le> nat n \<and> starts w then W_check else pc s w)\<rparr>))"

section \<open>Steps\<close>

definition at :: "nat \<Rightarrow> worker_pc \<Rightarrow> pool \<Rightarrow> pool" where
  "at w q s = s\<lparr>pc := (pc s)(w := q)\<rparr>"

definition worker_step :: "nat \<Rightarrow> pool \<Rightarrow> pool option" where
  "worker_step w s = (case pc s w of
       W_check \<Rightarrow> Some (at w (if is_running s then W_lock else W_exit) s)
     | W_lock \<Rightarrow> (case pool_lock s of None \<Rightarrow> Some (at w W_test (s\<lparr>pool_lock := Some w\<rparr>)) | Some _ \<Rightarrow> None)
     | W_test \<Rightarrow> Some (at w (if task_list s = [] \<and> is_running s then W_wait else W_take) s)
     | W_wait \<Rightarrow> Some (at w W_blocked (s\<lparr>pool_lock := None\<rparr>))
     | W_blocked \<Rightarrow> None
     | W_take \<Rightarrow>
         (case task_list s of
            [] \<Rightarrow> Some (at w W_exit (s\<lparr>pool_lock := None\<rparr>))
          | t # ts \<Rightarrow>
              if \<not> is_running s then Some (at w W_exit (s\<lparr>pool_lock := None\<rparr>))
              else Some (at w (W_run t) (s\<lparr>task_list := ts, pool_lock := None\<rparr>)))
     | W_run t \<Rightarrow> Some (at w W_check (s\<lparr>executed := executed s @ [t]\<rparr>))
     | W_exit \<Rightarrow> None)"

datatype client_call = AddTask "task option" | Stop | WaitALlThread

definition client_begin :: "client_call \<Rightarrow> pool \<Rightarrow> pool option" where
  "client_begin call s =
     (if client s \<noteq> C_idle then None
      else case call of
        AddTask None \<Rightarrow> Some (s\<lparr>returned := Some False\<rparr>)
      | AddTask (Some t) \<Rightarrow>
          Some (if is_running s then s\<lparr>client := C_add_lock t\<rparr> else s\<lparr>returned := Some False\<rparr>)
      | Stop \<Rightarrow> Some (if is_running s then s\<lparr>client := C_stop_lock\<rparr> else s\<lparr>returned := Some True\<rparr>)
      | WaitALlThread \<Rightarrow> Some (s\<lparr>client := C_wait_join\<rparr>))"

definition ThreadPool_delete :: "pool \<Rightarrow> pool option" where
  "ThreadPool_delete s = client_begin Stop s"

definition ThreadPoolSignal_OnReceive :: "bool \<Rightarrow> SignalType \<Rightarrow> pool \<Rightarrow> pool option" where
  "ThreadPoolSignal_OnReceive has_pool ty s = (if has_pool then client_begin Stop s else Some s)"

text \<open>\<^verbatim>\<open>Join\<close> of every worker returns once all of them left their loop.\<close>

definition workers_joined :: "nat \<Rightarrow> pool \<Rightarrow> bool" where
  "workers_joined n s = list_all (\<lambda>w. pc s w = W_exit) [1..<Suc n]"

text \<open>\<open>pthread_cond_signal\<close> wakes one waiting worker, \<open>pthread_cond_broadcast\<close> all of them.\<close>

definition cond_signal :: "nat \<Rightarrow> pool \<Rightarrow> pool" where
  "cond_signal w s = (if pc s w = W_blocked then at w W_lock s else s)"

definition cond_broadcast :: "pool \<Rightarrow> pool" where
  "cond_broadcast s = s\<lparr>pc := (\<lambda>w. if pc s w = W_blocked then W_lock else pc s w)\<rparr>"

definition client_step :: "nat \<Rightarrow> nat \<Rightarrow> pool \<Rightarrow> pool option" where
  "client_step n wake s = (case client s of
       C_idle \<Rightarrow> None
     | C_add_lock t \<Rightarrow> (case pool_lock s of None \<Rightarrow> Some (s\<lparr>pool_lock := Some 0, client := C_add_push t\<rparr>) | Some _ \<Rightarrow> None)
     | C_add_push t \<Rightarrow>
         Some (cond_signal wake (s\<lparr>task_list := task_list s @ [t], added := added s @ [t], client := C_add_unlock\<rparr>))
     | C_add_unlock \<Rightarrow> Some (s\<lparr>pool_lock := None, returned := Some True, client := C_idle\<rparr>)
     | C_stop_lock \<Rightarrow> (case pool_lock s of None \<Rightarrow> Some (s\<lparr>pool_lock := Some 0, client := C_stop_clear\<rparr>) | Some _ \<Rightarrow> None)
     | C_stop_clear \<Rightarrow>
         Some (s\<lparr>discarded := discarded s @ task_list s, task_list := [], pool_lock := None, client := C_stop_flag\<rparr>)
     | C_stop_flag \<Rightarrow> Some (s\<lparr>is_running := False, client := C_stop_broadcast\<rparr>)
     | C_stop_broadcast \<Rightarrow> Some ((cond_broadcast s)\<lparr>client := C_stop_join\<rparr>)
     | C_stop_join \<Rightarrow>
         if workers_joined n s
         then Some (s\<lparr>condition_alive := False, signals := RemoveType 0 INTERRUPT (signals s), returned := Some True,
           client := C_idle\<rparr>)
         else None
     | C_wait_join \<Rightarrow> if workers_joined n s then Some (s\<lparr>client := C_idle\<rparr>) else None)"

text \<open>Steps of the program with \<open>n\<close> workers, and the spurious wakeups of the environment.\<close>

inductive program_step :: "nat \<Rightarrow> pool \<Rightarrow> pool \<Rightarrow> bool" where
  step_worker: "1 \<le> w \<Longrightarrow> w \<le> n \<Longrightarrow> worker_step w s = Some s' \<Longrightarrow> program_step n s s'"
| step_begin: "client_begin call s = Some s' \<Longrightarrow> program_step n s s'"
| step_client: "client_step n wake s = Some s' \<Longrightarrow> 1 \<le> wake \<Longrightarrow> wake \<le> n \<Longrightarrow>
     pc s wake = W_blocked \<or> (\<forall>w. 1 \<le> w \<and> w \<le> n \<longrightarrow> pc s w \<noteq> W_blocked) \<Longrightarrow> program_step n s s'"

inductive pool_step :: "nat \<Rightarrow> pool \<Rightarrow> pool \<Rightarrow> bool" where
  step_program: "program_step n s s' \<Longrightarrow> pool_step n s s'"
| step_spurious: "1 \<le> w \<Longrightarrow> w \<le> n \<Longrightarrow> pc s w = W_blocked \<Longrightarrow> pool_step n s (at w W_lock s)"

definition pool_started :: "nat \<Rightarrow> SignalManager \<Rightarrow> pool" where
  "pool_started n m = snd (snd (ThreadPool_Run (\<lambda>_. True) 0 (int n) (ThreadPool_new m)))"

inductive pool_reachable :: "nat \<Rightarrow> pool \<Rightarrow> bool" where
  pool_begin: "1 \<le> n \<Longrightarrow> n \<le> 1000 \<Longrightarrow> pool_reachable n (pool_started n m)"
| pool_next: "pool_reachable n s \<Longrightarrow> pool_step n s s' \<Longrightarrow> pool_reachable n s'"

section \<open>Invariants\<close>

definition worker_id :: "nat \<Rightarrow> nat \<Rightarrow> bool" where
  "worker_id n w \<longleftrightarrow> 1 \<le> w \<and> w \<le> n"

fun holds_lock :: "worker_pc \<Rightarrow> bool" where
  "holds_lock W_test = True" | "holds_lock W_wait = True" | "holds_lock W_take = True" | "holds_lock _ = False"

fun client_holds_lock :: "client_pc \<Rightarrow> bool" where
  "client_holds_lock (C_add_push _) = True" | "client_holds_lock C_add_unlock = True"
| "client_holds_lock C_stop_clear = True" | "client_holds_lock _ = False"

fun in_hand :: "worker_pc \<Rightarrow> task multiset" where
  "in_hand (W_run t) = {#t#}" | "in_hand _ = {#}"

fun active :: "worker_pc \<Rightarrow> bool" where
  "active W_wait = False" | "active W_blocked = False" | "active W_exit = False" | "active _ = True"

fun stopping :: "client_pc \<Rightarrow> bool" where
  "stopping C_stop_broadcast = True" | "stopping C_stop_join = True" | "stopping _ = False"

definition lock_inv :: "nat \<Rightarrow> pool \<Rightarrow> bool" where
  "lock_inv n s \<longleftrightarrow> (\<forall>w. pool_lock s = Some w \<longleftrightarrow>
     (w = 0 \<and> client_holds_lock (client s)) \<or> (worker_id n w \<and> holds_lock (pc s w)))"

definition wait_inv :: "nat \<Rightarrow> pool \<Rightarrow> bool" where
  "wait_inv n s \<longleftrightarrow> (\<forall>w. worker_id n w \<and> pc s w = W_wait \<longrightarrow> task_list s = [])"

definition take_inv :: "nat \<Rightarrow> pool \<Rightarrow> bool" where
  "take_inv n s \<longleftrightarrow> (\<forall>w. worker_id n w \<and> pc s w = W_take \<and> is_running s \<longrightarrow> task_list s \<noteq> [])"

definition running_inv :: "nat \<Rightarrow> pool \<Rightarrow> bool" where
  "running_inv n s \<longleftrightarrow>
     (is_running s \<longrightarrow> (\<forall>w. worker_id n w \<longrightarrow> pc s w \<noteq> W_exit) \<and> \<not> stopping (client s) \<and>
        (discarded s = [] \<or> client s = C_stop_flag)) \<and>
     (\<not> is_running s \<longrightarrow> client s = C_idle \<or> client s = C_wait_join \<or> stopping (client s))"

definition active_inv :: "nat \<Rightarrow> pool \<Rightarrow> bool" where
  "active_inv n s \<longleftrightarrow> (is_running s \<and> task_list s \<noteq> [] \<longrightarrow> (\<exists>w. worker_id n w \<and> active (pc s w)))"

definition hands :: "nat \<Rightarrow> pool \<Rightarrow> task multiset" where
  "hands n s = (\<Sum>w \<in> {1..n}. in_hand (pc s w))"

definition tasks_inv :: "nat \<Rightarrow> pool \<Rightarrow> bool" where
  "tasks_inv n s \<longleftrightarrow>
     mset (added s) = mset (task_list s) + mset (executed s) + mset (discarded s) + hands n s"

lemma at_simps [simp]:
  "is_running (at w q s) = is_running s" "pool_lock (at w q s) = pool_lock s" "task_list (at w q s) = task_list s"
  "pc (at w q s) = (pc s)(w := q)" "client (at w q s) = client s" "added (at w q s) = added s"
  "executed (at w q s) = executed s" "discarded (at w q s) = discarded s"
  by (simp_all add: at_def)

lemma hands_other [simp]:
  "hands n (s\<lparr>pool_lock := a\<rparr>) = hands n s" "hands n (s\<lparr>task_list := b\<rparr>) = hands n s"
  "hands n (s\<lparr>executed := c\<rparr>) = hands n s" "hands n (s\<lparr>discarded := c\<rparr>) = hands n s"
  "hands n (s\<lparr>added := c\<rparr>) = hands n s" "hands n (s\<lparr>client := d\<rparr>) = hands n s"
  "hands n (s\<lparr>returned := f\<rparr>) = hands n s" "hands n (s\<lparr>signals := g\<rparr>) = hands n s"
  "hands n (s\<lparr>is_running := e\<rparr>) = hands n s" "hands n (s\<lparr>condition_alive := e\<rparr>) = hands n s"
  by (simp_all add: hands_def)

text \<open>What one worker contributes to a sum over all of them, before and after it moves.\<close>

lemma sum_update:
  fixes f :: "'pc \<Rightarrow> 'a::comm_monoid_add"
  assumes "worker_id n w"
  shows "(\<Sum>v \<in> {1..n}. f ((g(w := q)) v)) + f (g w) = (\<Sum>v \<in> {1..n}. f (g v)) + f q"
proof -
  have w: "w \<in> {1..n}" using assms by (simp add: worker_id_def)
  have "(\<Sum>v \<in> {1..n} - {w}. f ((g(w := q)) v)) = (\<Sum>v \<in> {1..n} - {w}. f (g v))"
    by (rule sum.cong) auto
  then show ?thesis
    using sum.remove[OF _ w, of "\<lambda>v. f ((g(w := q)) v)"] sum.remove[OF _ w, of "\<lambda>v. f (g v)"]
    by (simp add: ac_simps)
qed

lemma hands_update: "worker_id n w \<Longrightarrow> hands n (at w q s) + in_hand (pc s w) = hands n s + in_hand q"
  unfolding hands_def at_simps by (rule sum_update)

lemma hands_take: "worker_id n w \<Longrightarrow> in_hand (pc s w) = {#} \<Longrightarrow> hands n (at w q s) = hands n s + in_hand q"
  using hands_update[of n w q s] by simp

lemma hands_drop: "worker_id n w \<Longrightarrow> pc s w = W_run t \<Longrightarrow> in_hand q = {#} \<Longrightarrow> hands n s = add_mset t (hands n (at w q s))"
  using hands_update[of n w q s] by simp

lemma worker_step_tasks:
  assumes "worker_step w s = Some s'" and "worker_id n w" and "tasks_inv n s"
  shows "tasks_inv n s'"
proof (cases "\<exists>t. pc s w = W_run t")
  case True
  then obtain t where t: "pc s w = W_run t" by blast
  with assms(1) have "s' = at w W_check (s\<lparr>executed := executed s @ [t]\<rparr>)" by (simp add: worker_step_def)
  then show ?thesis
    using assms(3) hands_drop[OF assms(2), of "s\<lparr>executed := executed s @ [t]\<rparr>" t W_check] t by (simp add: tasks_inv_def)
next
  case False
  then have "in_hand (pc s w) = {#}" by (cases "pc s w") auto
  with assms False show ?thesis
    by (auto simp: worker_step_def tasks_inv_def hands_take split: worker_pc.splits option.splits list.splits if_splits)
qed

lemma lock_holder:
  "lock_inv n s \<Longrightarrow> worker_id n w \<Longrightarrow> pool_lock s = Some w \<longleftrightarrow> holds_lock (pc s w)"
  "lock_inv n s \<Longrightarrow> pool_lock s = Some 0 \<longleftrightarrow> client_holds_lock (client s)"
  by (auto simp: lock_inv_def worker_id_def)

lemma lock_keep:
  assumes "lock_inv n s" and "holds_lock q = holds_lock (pc s w)"
  shows "lock_inv n (at w q s)"
proof -
  have "holds_lock (((pc s)(w := q)) v) = holds_lock (pc s v)" for v using assms(2) by simp
  then show ?thesis using assms(1) unfolding lock_inv_def at_simps by presburger
qed

lemma lock_acquire:
  assumes "lock_inv n s" and "pool_lock s = None" and "worker_id n w" and "holds_lock q"
  shows "lock_inv n (at w q (s\<lparr>pool_lock := Some w\<rparr>))"
proof -
  have "\<not> client_holds_lock (client s)" "\<And>v. worker_id n v \<Longrightarrow> \<not> holds_lock (pc s v)"
    using assms(1,2) by (auto simp: lock_inv_def)
  then show ?thesis using assms(3,4) by (auto simp: lock_inv_def)
qed

lemma lock_release:
  assumes "lock_inv n s" and "worker_id n w" and "holds_lock (pc s w)" and "\<not> holds_lock q"
  shows "lock_inv n (at w q (s\<lparr>pool_lock := None, task_list := ts\<rparr>))"
proof -
  have l: "pool_lock s = Some w" using lock_holder(1)[OF assms(1,2)] assms(3) by simp
  have c: "\<not> client_holds_lock (client s)" using l lock_holder(2)[OF assms(1)] assms(2) by (auto simp: worker_id_def)
  have "v = w" if "worker_id n v" "holds_lock (pc s v)" for v
    using l lock_holder(1)[OF assms(1) that(1)] that(2) by simp
  with c assms(4) show ?thesis by (auto simp: lock_inv_def)
qed

lemma worker_step_lock:
  assumes "worker_step w s = Some s'" and "worker_id n w" and "lock_inv n s"
  shows "lock_inv n s'"
proof -
  have r: "lock_inv n (at w q (s\<lparr>pool_lock := None\<rparr>))" if "holds_lock (pc s w)" "\<not> holds_lock q" for q
    using lock_release[OF assms(3,2) that, of "task_list s"] by (simp add: lock_inv_def)
  have r2: "lock_inv n (at w q (s\<lparr>task_list := ts, pool_lock := None\<rparr>))" if "holds_lock (pc s w)" "\<not> holds_lock q" for q ts
    using lock_release[OF assms(3,2) that, of ts] by (simp add: lock_inv_def)
  have e: "lock_inv n (at w q (s\<lparr>executed := ts\<rparr>))" if "holds_lock q = holds_lock (pc s w)" for q ts
    using lock_keep[OF assms(3) that] by (simp add: lock_inv_def)
  from assms(1) show ?thesis
    using r r2 e lock_keep[OF assms(3)] lock_acquire[OF assms(3) _ assms(2)]
    by (cases "pc s w") (auto simp: worker_step_def split: option.splits list.splits if_splits)
qed

text \<open>While a thread holds the mutex no worker is at a place where it is held.\<close>

lemma lock_excludes:
  assumes "lock_inv n s" and "worker_id n v" and "holds_lock (pc s v)"
  shows "worker_id n w \<Longrightarrow> holds_lock (pc s w) \<Longrightarrow> w = v" and "\<not> client_holds_lock (client s)"
proof -
  have v: "pool_lock s = Some v" using lock_holder(1)[OF assms(1,2)] assms(3) by simp
  then show "worker_id n w \<Longrightarrow> holds_lock (pc s w) \<Longrightarrow> w = v" using lock_holder(1)[OF assms(1), of w] by simp
  show "\<not> client_holds_lock (client s)" using v lock_holder(2)[OF assms(1)] assms(2) by (auto simp: worker_id_def)
qed

lemma worker_step_wait:
  assumes "worker_step w s = Some s'" and "worker_id n w" and "wait_inv n s"
  shows "wait_inv n s'"
  using assms
  by (cases "pc s w") (auto simp: worker_step_def wait_inv_def split: option.splits list.splits if_splits)

lemma worker_step_take:
  assumes "worker_step w s = Some s'" and "worker_id n w" and "take_inv n s" and "lock_inv n s"
  shows "take_inv n s'"
proof (cases "pc s w = W_take")
  case True
  have o: "pc s v \<noteq> W_take" if "worker_id n v" "v \<noteq> w" for v
    using lock_excludes(1)[OF assms(4,2) _ that(1)] True that(2) by auto
  with assms(1) True show ?thesis
    by (auto simp: worker_step_def take_inv_def split: list.splits if_splits)
next
  case False
  with assms(1-3) show ?thesis
    by (cases "pc s w") (auto simp: worker_step_def take_inv_def split: option.splits list.splits if_splits)
qed

lemma worker_step_running:
  assumes "worker_step w s = Some s'" and "worker_id n w" and "running_inv n s" and "take_inv n s"
  shows "running_inv n s'"
  using assms
  by (cases "pc s w") (auto simp: worker_step_def running_inv_def take_inv_def split: option.splits list.splits if_splits)

lemma worker_step_active:
  assumes "worker_step w s = Some s'" and "worker_id n w" and "active_inv n s" and "wait_inv n s" and "take_inv n s"
  shows "active_inv n s'"
proof -
  have "active (pc s' w) \<or> task_list s' = [] \<or> \<not> is_running s'"
    using assms(1,2,4,5)
    by (cases "pc s w") (auto simp: worker_step_def wait_inv_def take_inv_def split: option.splits list.splits if_splits)
  then show ?thesis using assms(2) by (auto simp: active_inv_def)
qed

definition pool_inv :: "nat \<Rightarrow> pool \<Rightarrow> bool" where
  "pool_inv n s \<longleftrightarrow> lock_inv n s \<and> wait_inv n s \<and> take_inv n s \<and> running_inv n s \<and> active_inv n s \<and> tasks_inv n s"

lemma pool_invI:
  "lock_inv n s \<Longrightarrow> wait_inv n s \<Longrightarrow> take_inv n s \<Longrightarrow> running_inv n s \<Longrightarrow> active_inv n s \<Longrightarrow> tasks_inv n s \<Longrightarrow> pool_inv n s"
  by (simp add: pool_inv_def)

lemma pool_invD:
  assumes "pool_inv n s"
  shows "lock_inv n s" "wait_inv n s" "take_inv n s" "running_inv n s" "active_inv n s" "tasks_inv n s"
  using assms by (simp_all add: pool_inv_def)

lemma worker_step_inv:
  assumes "worker_step w s = Some s'" and "worker_id n w" and "pool_inv n s"
  shows "pool_inv n s'"
  using worker_step_lock[OF assms(1,2)] worker_step_wait[OF assms(1,2)] worker_step_take[OF assms(1,2)]
    worker_step_running[OF assms(1,2)] worker_step_active[OF assms(1,2)] worker_step_tasks[OF assms(1,2)]
    pool_invD[OF assms(3)]
  by (intro pool_invI) simp_all

text \<open>Waking a blocked worker keeps everything.\<close>

lemma wake_inv:
  assumes "pool_inv n s" and "worker_id n w" and "pc s w = W_blocked"
  shows "pool_inv n (at w W_lock s)"
proof (rule pool_invI)
  note I = pool_invD[OF assms(1)]
  show "lock_inv n (at w W_lock s)" using lock_keep[OF I(1)] assms(3) by simp
  show "wait_inv n (at w W_lock s)" "take_inv n (at w W_lock s)" "running_inv n (at w W_lock s)"
    using I by (auto simp: wait_inv_def take_inv_def running_inv_def)
  show "active_inv n (at w W_lock s)" using assms(2) by (auto simp: active_inv_def)
  show "tasks_inv n (at w W_lock s)" using I(6) hands_take[OF assms(2), of s W_lock] assms(3) by (simp add: tasks_inv_def)
qed

lemma client_begin_inv:
  assumes "client_begin call s = Some s'" and "pool_inv n s"
  shows "pool_inv n s'"
proof -
  note I = pool_invD[OF assms(2)]
  from assms(1) consider b where "s' = s\<lparr>returned := b\<rparr>"
    | c where "s' = s\<lparr>client := c\<rparr>" "\<not> client_holds_lock c" "\<not> stopping c"
      "client s = C_idle" "is_running s \<or> c = C_wait_join" "c \<noteq> C_idle"
    by (cases call) (auto simp: client_begin_def split: if_splits option.splits)
  then show ?thesis
  proof cases
    case 2
    with I show ?thesis
      by (intro pool_invI) (auto simp: lock_inv_def wait_inv_def take_inv_def running_inv_def active_inv_def tasks_inv_def)
  next
    case 1
    with I show ?thesis
      by (intro pool_invI) (auto simp: lock_inv_def wait_inv_def take_inv_def running_inv_def active_inv_def tasks_inv_def)
  qed
qed

lemma client_lock_inv:
  assumes "pool_inv n s" and "pool_lock s = None" and "client_holds_lock c"
    and "\<not> stopping c" and "is_running s" and "client s \<noteq> C_stop_flag"
  shows "pool_inv n (s\<lparr>pool_lock := Some 0, client := c\<rparr>)"
proof (rule pool_invI)
  note I = pool_invD[OF assms(1)]
  have "\<not> holds_lock (pc s v)" if "worker_id n v" for v using I(1) assms(2) that by (auto simp: lock_inv_def)
  then show "lock_inv n (s\<lparr>pool_lock := Some 0, client := c\<rparr>)" using assms(3) by (auto simp: lock_inv_def worker_id_def)
  show "running_inv n (s\<lparr>pool_lock := Some 0, client := c\<rparr>)" using I(4) assms(4-6) by (auto simp: running_inv_def)
qed (use pool_invD[OF assms(1)] in \<open>simp_all add: wait_inv_def take_inv_def active_inv_def tasks_inv_def\<close>)

lemma client_unlock_lock:
  assumes "lock_inv n s" and "client_holds_lock (client s)" and "\<not> client_holds_lock c"
  shows "lock_inv n (s\<lparr>pool_lock := None, client := c\<rparr>)"
proof -
  have "pool_lock s = Some 0" using lock_holder(2)[OF assms(1)] assms(2) by simp
  then have "\<not> holds_lock (pc s v)" if "worker_id n v" for v
    using lock_holder(1)[OF assms(1) that] that by (simp add: worker_id_def)
  with assms(3) show ?thesis by (auto simp: lock_inv_def)
qed

lemma client_holds_excludes:
  assumes "lock_inv n s" and "client_holds_lock (client s)" and "worker_id n w"
  shows "\<not> holds_lock (pc s w)"
  using lock_excludes(2)[OF assms(1,3)] assms(2) by blast

lemma push_inv:
  assumes "pool_inv n s" and "client s = C_add_push t" and "worker_id n w" and "active (pc s w)"
  shows "pool_inv n (s\<lparr>task_list := task_list s @ [t], added := added s @ [t], client := C_add_unlock\<rparr>)"
proof (rule pool_invI)
  note I = pool_invD[OF assms(1)]
  let ?s = "s\<lparr>task_list := task_list s @ [t], added := added s @ [t], client := C_add_unlock\<rparr>"
  have h: "\<not> holds_lock (pc s v)" if "worker_id n v" for v using client_holds_excludes[OF I(1) _ that] assms(2) by simp
  show "lock_inv n ?s" using I(1) assms(2) by (auto simp: lock_inv_def)
  show "wait_inv n ?s" using h by (fastforce simp: wait_inv_def)
  show "take_inv n ?s" by (simp add: take_inv_def)
  show "running_inv n ?s" using I(4) assms(2) by (auto simp: running_inv_def)
  show "active_inv n ?s" using assms(3,4) by (auto simp: active_inv_def)
  show "tasks_inv n ?s" using I(6) by (simp add: tasks_inv_def)
qed

lemma add_push_inv:
  assumes "pool_inv n s" and "client s = C_add_push t" and "worker_id n wake"
    and "pc s wake = W_blocked \<or> (\<forall>w. worker_id n w \<longrightarrow> pc s w \<noteq> W_blocked)"
  shows "pool_inv n (cond_signal wake (s\<lparr>task_list := task_list s @ [t], added := added s @ [t], client := C_add_unlock\<rparr>))"
proof (cases "pc s wake = W_blocked")
  case True
  define s1 where "s1 = at wake W_lock s"
  have "cond_signal wake (s\<lparr>task_list := task_list s @ [t], added := added s @ [t], client := C_add_unlock\<rparr>) =
      s1\<lparr>task_list := task_list s1 @ [t], added := added s1 @ [t], client := C_add_unlock\<rparr>"
    using True by (simp add: cond_signal_def at_def s1_def)
  with push_inv[OF wake_inv[OF assms(1,3) True] _ assms(3), of t] assms(2) show ?thesis by (simp add: s1_def)
next
  case False
  have r: "is_running s" using pool_invD(4)[OF assms(1)] assms(2) by (auto simp: running_inv_def)
  have "\<not> holds_lock (pc s wake)" using client_holds_excludes[OF pool_invD(1)[OF assms(1)] _ assms(3)] assms(2) by simp
  moreover have "pc s wake \<noteq> W_exit" using pool_invD(4)[OF assms(1)] assms(3) r by (auto simp: running_inv_def)
  ultimately have "active (pc s wake)" using False by (cases "pc s wake") auto
  from push_inv[OF assms(1-3) this] False show ?thesis by (simp add: cond_signal_def)
qed

lemma stop_clear_inv:
  assumes "pool_inv n s" and "client s = C_stop_clear"
  shows "pool_inv n (s\<lparr>discarded := discarded s @ task_list s, task_list := [], pool_lock := None, client := C_stop_flag\<rparr>)"
proof (rule pool_invI)
  note I = pool_invD[OF assms(1)]
  let ?s = "s\<lparr>discarded := discarded s @ task_list s, task_list := [], pool_lock := None, client := C_stop_flag\<rparr>"
  have h: "\<not> holds_lock (pc s v)" if "worker_id n v" for v using client_holds_excludes[OF I(1) _ that] assms(2) by simp
  show "lock_inv n ?s" using client_unlock_lock[OF I(1), of C_stop_flag] assms(2) by (simp add: lock_inv_def)
  show "wait_inv n ?s" "active_inv n ?s" by (simp_all add: wait_inv_def active_inv_def)
  show "take_inv n ?s" using h by (fastforce simp: take_inv_def)
  show "running_inv n ?s" using I(4) assms(2) by (auto simp: running_inv_def)
  show "tasks_inv n ?s" using I(6) by (simp add: tasks_inv_def)
qed

lemma broadcast_inv:
  assumes "pool_inv n s" and "client s = C_stop_broadcast"
  shows "pool_inv n ((cond_broadcast s)\<lparr>client := C_stop_join\<rparr>)"
proof (rule pool_invI)
  note I = pool_invD[OF assms(1)]
  let ?s = "(cond_broadcast s)\<lparr>client := C_stop_join\<rparr>"
  have p: "pc ?s w = (if pc s w = W_blocked then W_lock else pc s w)" for w by (simp add: cond_broadcast_def)
  have h: "holds_lock (pc ?s w) = holds_lock (pc s w)" "in_hand (pc ?s w) = in_hand (pc s w)" for w unfolding p by simp_all
  have f: "pool_lock ?s = pool_lock s" "task_list ?s = task_list s" "is_running ?s = is_running s"
    "added ?s = added s" "executed ?s = executed s" "discarded ?s = discarded s"
    by (simp_all add: cond_broadcast_def)
  have r: "\<not> is_running s" using I(4) assms(2) by (auto simp: running_inv_def)
  show "lock_inv n ?s" using I(1) assms(2) unfolding lock_inv_def f(1) h by simp
  show "wait_inv n ?s" using I(2) unfolding wait_inv_def f p by auto
  show "take_inv n ?s" "active_inv n ?s" "running_inv n ?s" using r by (simp_all add: take_inv_def active_inv_def running_inv_def f)
  show "tasks_inv n ?s" using I(6) unfolding tasks_inv_def f hands_def h .
qed

lemma client_step_inv:
  assumes "client_step n wake s = Some s'" and "worker_id n wake"
    and "pc s wake = W_blocked \<or> (\<forall>w. worker_id n w \<longrightarrow> pc s w \<noteq> W_blocked)" and "pool_inv n s"
  shows "pool_inv n s'"
proof (cases "client s")
  case (C_add_push t)
  then show ?thesis using assms add_push_inv[OF assms(4) C_add_push assms(2,3)] by (simp add: client_step_def)
next
  case C_stop_clear
  then show ?thesis using assms(1) stop_clear_inv[OF assms(4)] by (simp add: client_step_def)
next
  case C_stop_broadcast
  then show ?thesis using assms(1) broadcast_inv[OF assms(4)] by (simp add: client_step_def)
next
  case (C_add_lock t)
  then show ?thesis using assms(1) client_lock_inv[OF assms(4), of "C_add_push t"] pool_invD(4)[OF assms(4)]
    by (auto simp: client_step_def running_inv_def split: option.splits)
next
  case C_stop_lock
  then show ?thesis using assms(1) client_lock_inv[OF assms(4), of C_stop_clear] pool_invD(4)[OF assms(4)]
    by (auto simp: client_step_def running_inv_def split: option.splits)
next
  case C_add_unlock
  then have "s' = s\<lparr>pool_lock := None, returned := Some True, client := C_idle\<rparr>" using assms(1) by (simp add: client_step_def)
  then show ?thesis using pool_invD[OF assms(4)] client_unlock_lock[OF pool_invD(1)[OF assms(4)], of C_idle] C_add_unlock
    by (intro pool_invI) (simp_all add: lock_inv_def wait_inv_def take_inv_def running_inv_def active_inv_def tasks_inv_def)
next
  case C_stop_flag
  then have "s' = s\<lparr>is_running := False, client := C_stop_broadcast\<rparr>" using assms(1) by (simp add: client_step_def)
  then show ?thesis using pool_invD[OF assms(4)] C_stop_flag
    by (intro pool_invI) (simp_all add: lock_inv_def wait_inv_def take_inv_def running_inv_def active_inv_def tasks_inv_def)
next
  case C_stop_join
  then have "s' = s\<lparr>condition_alive := False, signals := RemoveType 0 INTERRUPT (signals s), returned := Some True,
      client := C_idle\<rparr>" using assms(1)
    by (simp add: client_step_def split: if_splits)
  then show ?thesis using pool_invD[OF assms(4)] C_stop_join
    by (intro pool_invI) (simp_all add: lock_inv_def wait_inv_def take_inv_def running_inv_def active_inv_def tasks_inv_def)
next
  case C_wait_join
  then have "s' = s\<lparr>client := C_idle\<rparr>" using assms(1) by (simp add: client_step_def split: if_splits)
  then show ?thesis using pool_invD[OF assms(4)] C_wait_join
    by (intro pool_invI) (auto simp: lock_inv_def wait_inv_def take_inv_def running_inv_def active_inv_def tasks_inv_def)
qed (use assms(1) in \<open>simp add: client_step_def\<close>)

lemma pool_started_inv:
  assumes "1 \<le> n" and "n \<le> 1000"
  shows "pool_inv n (pool_started n m)"
proof -
  have s: "pool_started n m = (ThreadPool_new m)\<lparr>is_running := True, pc := (\<lambda>w. if 1 \<le> w \<and> w \<le> n then W_check else W_exit)\<rparr>"
    using assms by (auto simp: pool_started_def ThreadPool_Run_def ThreadPool_new_def MAX_THREAD_NUM_LIMIT_def)
  have "hands n (pool_started n m) = {#}" by (simp add: hands_def s)
  then show ?thesis
    by (intro pool_invI)
      (auto simp: s ThreadPool_new_def lock_inv_def wait_inv_def take_inv_def running_inv_def active_inv_def
        tasks_inv_def worker_id_def)
qed

lemma pool_step_inv:
  assumes "pool_step n s s'" and "pool_inv n s"
  shows "pool_inv n s'"
  using assms(1)
proof cases
  case step_program
  then show ?thesis
  proof cases
    case (step_worker w)
    then show ?thesis using worker_step_inv[OF _ _ assms(2)] by (simp add: worker_id_def)
  next
    case (step_begin call)
    then show ?thesis using client_begin_inv assms(2) by blast
  next
    case (step_client wake)
    then show ?thesis using client_step_inv[OF _ _ _ assms(2)] by (simp add: worker_id_def)
  qed
next
  case (step_spurious w)
  then show ?thesis using wake_inv[OF assms(2)] by (simp add: worker_id_def)
qed

lemma pool_reachable_inv: "pool_reachable n s \<Longrightarrow> pool_inv n s"
  by (induction rule: pool_reachable.induct) (auto intro: pool_started_inv pool_step_inv)

section \<open>Schedules\<close>

text \<open>A run of the program under a given schedule, for concrete interleavings.\<close>

datatype turn = Worker nat | Begin client_call | Client nat

fun take_turn :: "nat \<Rightarrow> turn \<Rightarrow> pool \<Rightarrow> pool option" where
  "take_turn n (Worker w) s = (if 1 \<le> w \<and> w \<le> n then worker_step w s else None)"
| "take_turn n (Begin call) s = client_begin call s"
| "take_turn n (Client wake) s =
     (if 1 \<le> wake \<and> wake \<le> n \<and> (pc s wake = W_blocked \<or> list_all (\<lambda>w. pc s w \<noteq> W_blocked) [1..<Suc n])
      then client_step n wake s else None)"

fun run_schedule :: "nat \<Rightarrow> turn list \<Rightarrow> pool \<Rightarrow> pool option" where
  "run_schedule n [] s = Some s"
| "run_schedule n (t # ts) s = (case take_turn n t s of None \<Rightarrow> None | Some s1 \<Rightarrow> run_schedule n ts s1)"

lemma take_turn_step: "take_turn n t s = Some s' \<Longrightarrow> program_step n s s'"
proof (cases t)
  case (Client wake)
  assume "take_turn n t s = Some s'"
  with Client have c: "client_step n wake s = Some s'" "1 \<le> wake" "wake \<le> n"
    "pc s wake = W_blocked \<or> list_all (\<lambda>w. pc s w \<noteq> W_blocked) [1..<Suc n]" by (auto split: if_splits)
  then have "pc s wake = W_blocked \<or> (\<forall>w. 1 \<le> w \<and> w \<le> n \<longrightarrow> pc s w \<noteq> W_blocked)"
    by (auto simp: list_all_iff simp del: upt_Suc)
  with c(1-3) show ?thesis by (rule step_client)
qed (auto intro: step_worker step_begin split: if_splits)

lemma run_schedule_reachable: "run_schedule n ts s = Some s' \<Longrightarrow> pool_reachable n s \<Longrightarrow> pool_reachable n s'"
proof (induction ts arbitrary: s)
  case (Cons t ts)
  then obtain s1 where s1: "take_turn n t s = Some s1" "run_schedule n ts s1 = Some s'" by (auto split: option.splits)
  have "pool_reachable n s1" using Cons.prems(2) take_turn_step[OF s1(1)] by (auto intro: pool_next step_program)
  with Cons.IH[OF s1(2)] show ?case by simp
qed simp

lemmas run_simps = worker_step_def client_begin_def client_step_def cond_signal_def cond_broadcast_def at_def
  workers_joined_def pool_started_def ThreadPool_Run_def ThreadPool_new_def MAX_THREAD_NUM_LIMIT_def

section \<open>The workers stop\<close>

text \<open>Every step of a worker brings it nearer to the end of its round, or consumes a task.\<close>

fun rank :: "worker_pc \<Rightarrow> nat" where
  "rank (W_run t) = 6" | "rank W_check = 5" | "rank W_lock = 4" | "rank W_test = 3" | "rank W_take = 2"
| "rank W_wait = 1" | "rank W_blocked = 0" | "rank W_exit = 0"

definition work :: "nat \<Rightarrow> pool \<Rightarrow> nat" where
  "work n s = 8 * length (task_list s) + (\<Sum>w \<in> {1..n}. rank (pc s w))"

lemma work_bound: "work n s \<le> 8 * length (task_list s) + 6 * n"
proof -
  have "rank q \<le> 6" for q by (cases q) simp_all
  then have "(\<Sum>w \<in> {1..n}. rank (pc s w)) \<le> (\<Sum>w \<in> {1..n}. 6)" by (intro sum_mono) simp
  then show ?thesis by (simp add: work_def)
qed

lemma work_decreases:
  assumes "worker_step w s = Some s'" and "worker_id n w"
  shows "work n s' < work n s"
proof -
  have "\<exists>q. pc s' = (pc s)(w := q) \<and> 8 * length (task_list s') + rank q < 8 * length (task_list s) + rank (pc s w)"
    using assms(1) by (cases "pc s w") (auto simp: worker_step_def split: option.splits list.splits if_splits)
  then obtain q where q: "pc s' = (pc s)(w := q)"
    "8 * length (task_list s') + rank q < 8 * length (task_list s) + rank (pc s w)" by blast
  from sum_update[OF assms(2), of rank "pc s" q] q show ?thesis by (simp add: work_def)
qed

lemma worker_keeps:
  "worker_step w s = Some s' \<Longrightarrow> is_running s' = is_running s \<and> client s' = client s \<and> added s' = added s"
  by (cases "pc s w") (auto simp: worker_step_def split: option.splits list.splits if_splits)

lemma workers_keep:
  "run_schedule n (map Worker ws) s = Some s' \<Longrightarrow> is_running s' = is_running s \<and> client s' = client s \<and> added s' = added s"
proof (induction ws arbitrary: s)
  case (Cons w ws)
  then obtain s1 where "worker_step w s = Some s1" "run_schedule n (map Worker ws) s1 = Some s'"
    by (auto split: option.splits if_splits)
  with Cons.IH[of s1] worker_keeps[of w s s1] show ?case by simp
qed simp

lemma workers_bounded: "run_schedule n (map Worker ws) s = Some s' \<Longrightarrow> length ws + work n s' \<le> work n s"
proof (induction ws arbitrary: s)
  case (Cons w ws)
  then obtain s1 where s1: "worker_step w s = Some s1" "worker_id n w" "run_schedule n (map Worker ws) s1 = Some s'"
    by (auto simp: worker_id_def split: option.splits if_splits)
  from Cons.IH[OF s1(3)] work_decreases[OF s1(1,2)] show ?case by simp
qed simp

text \<open>When no worker can move and the client is not in a call, every task has been run.\<close>

lemma pool_quiet:
  assumes "pool_reachable n s" and "is_running s" and "client s = C_idle"
    and "\<forall>w \<in> {1..n}. worker_step w s = None"
  shows "task_list s = [] \<and> mset (executed s) = mset (added s)"
proof -
  note I = pool_invD[OF pool_reachable_inv[OF assms(1)]]
  have n: "worker_step w s = None" if "worker_id n w" for w using assms(4) that by (simp add: worker_id_def)
  have nh: "\<not> holds_lock (pc s w)" if "worker_id n w" for w
    using n[OF that] by (cases "pc s w") (auto simp: worker_step_def split: list.splits if_splits)
  then have "pool_lock s = None"
    using I(1) assms(3) by (cases "pool_lock s") (auto simp: lock_inv_def)
  then have b: "pc s w = W_blocked \<or> pc s w = W_exit" if "worker_id n w" for w
    using n[OF that] nh[OF that] by (cases "pc s w") (auto simp: worker_step_def)
  have "\<not> active (pc s w)" if "worker_id n w" for w using b[OF that] by auto
  then have t: "task_list s = []" using I(5) assms(2) by (auto simp: active_inv_def)
  have "in_hand (pc s w) = {#}" if "w \<in> {1..n}" for w using b[of w] that by (auto simp: worker_id_def)
  then have h: "hands n s = {#}" unfolding hands_def by (rule sum.neutral[OF ballI])
  have "discarded s = []" using I(4) assms(2,3) by (auto simp: running_inv_def)
  with t h I(6) show ?thesis by (simp add: tasks_inv_def)
qed

section \<open>Properties\<close>

text \<open>
  C12: A task is run at most once and never lost sight of. In every interleaving, with spurious
  wakeups, every task added is at exactly one place: still queued, in the hands of one worker,
  run and deleted, or deleted by \<^verbatim>\<open>Stop\<close>; and nothing else was ever run.
\<close>

theorem pool_tasks_once:
  assumes "pool_reachable n s"
  shows "mset (added s) = mset (task_list s) + (\<Sum>w \<in> {1..n}. in_hand (pc s w)) + mset (executed s) + mset (discarded s)"
  using pool_invD(6)[OF pool_reachable_inv[OF assms]] by (simp add: tasks_inv_def hands_def ac_simps)

text \<open>One worker, one task, added and run, after which the worker waits again.\<close>

definition demo_pool :: pool where
  "demo_pool = the (run_schedule 1 ([Begin (AddTask (Some 7))] @ replicate 3 (Client 1) @ replicate 9 (Worker 1)) (pool_started 1 SignalManager_new))"

lemma demo_pool_run:
  "run_schedule 1 ([Begin (AddTask (Some 7))] @ replicate 3 (Client 1) @ replicate 9 (Worker 1)) (pool_started 1 SignalManager_new) = Some demo_pool"
  "added demo_pool = [7]" "executed demo_pool = [7]" "pc demo_pool 1 = W_blocked" "is_running demo_pool"
  "client demo_pool = C_idle"
  by (simp_all add: demo_pool_def run_simps numeral_eq_Suc)

lemma demo_pool_reachable: "pool_reachable 1 demo_pool"
  by (rule run_schedule_reachable[OF demo_pool_run(1)]) (rule pool_begin, simp_all)

theorem pool_tasks_once_witness:
  "mset [7] = mset (task_list demo_pool) + (\<Sum>w \<in> {1..1}. in_hand (pc demo_pool w)) + mset [7] + mset (discarded demo_pool)"
  using pool_tasks_once [OF demo_pool_reachable] by (simp add: demo_pool_run)

text \<open>
  C13: Every task that was added gets run. From any reachable state of a running pool in which no
  call is under way, the workers can take only a bounded number of steps, however they are
  scheduled, and once none of them can move the queue is empty and exactly the tasks that were added
  have been run: no wakeup is lost.
\<close>

theorem pool_drains:
  assumes "pool_reachable n s" and "is_running s" and "client s = C_idle"
    and "run_schedule n (map Worker ws) s = Some s'"
  shows "length ws \<le> 8 * length (task_list s) + 6 * n \<and>
    ((\<forall>w \<in> {1..n}. worker_step w s' = None) \<longrightarrow> task_list s' = [] \<and> mset (executed s') = mset (added s))"
proof -
  note k = workers_keep[OF assms(4)]
  have "pool_reachable n s'" using run_schedule_reachable[OF assms(4,1)] .
  from pool_quiet[OF this] k assms(2,3) have
    "(\<forall>w \<in> {1..n}. worker_step w s' = None) \<longrightarrow> task_list s' = [] \<and> mset (executed s') = mset (added s)" by simp
  moreover have "length ws \<le> work n s" using workers_bounded[OF assms(4)] by linarith
  ultimately show ?thesis using work_bound[of n s] by linarith
qed

text \<open>A task is queued; the worker fetches and runs it and goes to sleep.\<close>

definition queued_pool :: pool where
  "queued_pool = the (run_schedule 1 ([Begin (AddTask (Some 7))] @ replicate 3 (Client 1)) (pool_started 1 SignalManager_new))"

lemma queued_pool_run:
  "run_schedule 1 ([Begin (AddTask (Some 7))] @ replicate 3 (Client 1)) (pool_started 1 SignalManager_new) = Some queued_pool"
  "added queued_pool = [7]" "is_running queued_pool" "client queued_pool = C_idle" "task_list queued_pool = [7]"
  by (simp_all add: queued_pool_def run_simps numeral_eq_Suc)

lemma queued_pool_reachable: "pool_reachable 1 queued_pool"
  by (rule run_schedule_reachable[OF queued_pool_run(1)]) (rule pool_begin, simp_all)

lemma queued_pool_drained: "run_schedule 1 (map Worker (replicate 9 1)) queued_pool = Some demo_pool"
  by (simp add: queued_pool_def demo_pool_def run_simps numeral_eq_Suc)

theorem pool_drains_witness:
  "length (replicate 9 (1 :: nat)) \<le> 8 * length (task_list queued_pool) + 6 \<and> task_list demo_pool = [] \<and>
   mset (executed demo_pool) = mset [7]"
proof -
  have "\<forall>w \<in> {1..1}. worker_step w demo_pool = None" using demo_pool_run(4) by (simp add: worker_step_def)
  with pool_drains [OF queued_pool_reachable queued_pool_run(3,4) queued_pool_drained] queued_pool_run(2)
  show ?thesis by simp
qed

definition hung_pool :: pool where
  "hung_pool = the (run_schedule 1 [Begin Stop, Client 1, Client 1, Worker 1, Worker 1, Worker 1, Client 1, Client 1, Worker 1]
     (pool_started 1 SignalManager_new))"

lemma hung_pool_run:
  "run_schedule 1 [Begin Stop, Client 1, Client 1, Worker 1, Worker 1, Worker 1, Client 1, Client 1, Worker 1]
     (pool_started 1 SignalManager_new) = Some hung_pool"
  "client hung_pool = C_stop_join" "pc hung_pool 1 = W_blocked" "\<not> is_running hung_pool"
  by (simp_all add: hung_pool_def run_simps)

text \<open>
  C37: \<^verbatim>\<open>Stop\<close> can wait for ever. The flag is cleared and the condition broadcast without the mutex, so
  this can fall between a worker's test of the flag and its wait: the broadcast finds nobody, the
  worker then waits for a signal that never comes, and \<^verbatim>\<open>Stop\<close> waits for the worker. In this state
  no thread of the program can take a step.
\<close>

theorem pool_stop_can_hang:
  "\<exists>s. pool_reachable 1 s \<and> client s = C_stop_join \<and> pc s 1 = W_blocked \<and> \<not> is_running s \<and>
     (\<forall>s'. \<not> program_step 1 s s')"
proof -
  have "\<not> program_step 1 hung_pool s'" for s'
  proof
    assume "program_step 1 hung_pool s'"
    then show False
    proof cases
      case (step_worker w)
      then have "w = 1" by linarith
      with step_worker hung_pool_run(3) show False by (simp add: worker_step_def)
    qed (use hung_pool_run(2-4) in \<open>simp_all add: client_begin_def client_step_def workers_joined_def\<close>)
  qed
  moreover have "pool_reachable 1 hung_pool"
    by (rule run_schedule_reachable[OF hung_pool_run(1)]) (rule pool_begin, simp_all)
  ultimately show ?thesis using hung_pool_run(2-4) by blast
qed

end
