(* ===== verification/ThreadPoolWin.thy ===== *)
theory ThreadPoolWin
  imports ThreadPool
begin

text \<open>
  The thread pool on Windows (\<^verbatim>\<open>elegance/platform/thread/thread_pool.*\<close> with \<^verbatim>\<open>__WINDOWS__\<close>). There is no condition
  variable: a worker leaves the mutex, tests the list and the flag without it, and waits on two events.
  The auto reset event releases one worker and is cleared by that; the manual reset event releases
  every worker that waits, stays set, and is reset by the first worker that handles it.
\<close>

section \<open>State\<close>

text \<open>
  \<open>V_check\<close> at the entry of \<^verbatim>\<open>GetNextTask\<close>, \<open>V_lock\<close> and \<open>V_unlock\<close> at the first pair of mutex calls, \<open>V_test\<close> at the
  condition of the loop, \<open>V_wait\<close> about to wait and \<open>V_blocked\<close> waiting, \<open>V_reset\<close> released by the manual
  event, \<open>V_relock\<close> behind the loop, \<open>V_take\<close> with the mutex.
\<close>

datatype win_pc = V_check | V_lock | V_unlock | V_test | V_wait | V_blocked | V_reset | V_relock | V_take | V_run task | V_exit

datatype win_client =
    D_idle
  | D_add_lock task | D_add_push task | D_add_set | D_add_unlock
  | D_stop_lock | D_stop_clear | D_stop_flag | D_stop_set | D_stop_join
  | D_wait_join

record win_pool =
  wp_running :: bool
  wp_lock :: "nat option"
  wp_tasks :: "task list"
  wp_pc :: "nat \<Rightarrow> win_pc"
  wp_client :: win_client
  auto_event :: bool
  manual_event :: bool
  events_open :: bool
  wp_signals :: SignalManager
  wp_returned :: "bool option"
  wp_added :: "task list"
  wp_executed :: "task list"
  wp_discarded :: "task list"

text \<open>
  The two events belong to the pool alone. The code creates them with names, so two pools of a session
  would share them; the model is of a session with one pool.
\<close>

definition WinPool_new :: "SignalManager \<Rightarrow> win_pool" where
  "WinPool_new m = \<lparr>wp_running = False, wp_lock = None, wp_tasks = [], wp_pc = (\<lambda>_. V_exit), wp_client = D_idle,
     auto_event = False, manual_event = False, events_open = True, wp_signals = ISignal_new 0 INTERRUPT m,
     wp_returned = None, wp_added = [], wp_executed = [], wp_discarded = []\<rparr>"

definition WinPool_Run :: "(nat \<Rightarrow> bool) \<Rightarrow> int \<Rightarrow> int \<Rightarrow> win_pool \<Rightarrow> bool \<times> nat \<times> win_pool" where
  "WinPool_Run starts cpu_num thread_num s =
     (if wp_running s then (True, 0, s)
      else let n = (if thread_num \<le> 0 then cpu_num else thread_num) in
        if n \<le> 0 \<or> MAX_THREAD_NUM_LIMIT < n then (False, 0, s)
        else (True, nat n, s\<lparr>wp_running := True, wp_pc := (\<lambda>w. if 1 \<le> w \<and> w \<le> nat n \<and> starts w then V_check else wp_pc s w)\<rparr>))"

section \<open>Steps\<close>

definition move :: "nat \<Rightarrow> win_pc \<Rightarrow> win_pool \<Rightarrow> win_pool" where
  "move w q s = s\<lparr>wp_pc := (wp_pc s)(w := q)\<rparr>"

text \<open>When both events are set, \<^verbatim>\<open>WaitForMultipleObjects\<close> reports the first one of the list.\<close>

definition win_worker_step :: "nat \<Rightarrow> win_pool \<Rightarrow> win_pool option" where
  "win_worker_step w s = (case wp_pc s w of
       V_check \<Rightarrow> Some (move w (if wp_running s then V_lock else V_exit) s)
     | V_lock \<Rightarrow> (case wp_lock s of None \<Rightarrow> Some (move w V_unlock (s\<lparr>wp_lock := Some w\<rparr>)) | Some _ \<Rightarrow> None)
     | V_unlock \<Rightarrow> Some (move w V_test (s\<lparr>wp_lock := None\<rparr>))
     | V_test \<Rightarrow> Some (move w (if wp_tasks s = [] \<and> wp_running s then V_wait else V_relock) s)
     | V_wait \<Rightarrow>
         if auto_event s then Some (move w V_test (s\<lparr>auto_event := False\<rparr>))
         else Some (move w (if manual_event s then V_reset else V_blocked) s)
     | V_blocked \<Rightarrow> None
     | V_reset \<Rightarrow> Some (move w V_test (s\<lparr>manual_event := False\<rparr>))
     | V_relock \<Rightarrow> (case wp_lock s of None \<Rightarrow> Some (move w V_take (s\<lparr>wp_lock := Some w\<rparr>)) | Some _ \<Rightarrow> None)
     | V_take \<Rightarrow>
         (case wp_tasks s of
            [] \<Rightarrow> Some (move w V_exit (s\<lparr>wp_lock := None\<rparr>))
          | t # ts \<Rightarrow>
              if \<not> wp_running s then Some (move w V_exit (s\<lparr>wp_lock := None\<rparr>))
              else Some (move w (V_run t) (s\<lparr>wp_tasks := ts, wp_lock := None\<rparr>)))
     | V_run t \<Rightarrow> Some (move w V_check (s\<lparr>wp_executed := wp_executed s @ [t]\<rparr>))
     | V_exit \<Rightarrow> None)"

definition win_begin :: "client_call \<Rightarrow> win_pool \<Rightarrow> win_pool option" where
  "win_begin call s =
     (if wp_client s \<noteq> D_idle then None
      else case call of
        AddTask None \<Rightarrow> Some (s\<lparr>wp_returned := Some False\<rparr>)
      | AddTask (Some t) \<Rightarrow>
          Some (if wp_running s then s\<lparr>wp_client := D_add_lock t\<rparr> else s\<lparr>wp_returned := Some False\<rparr>)
      | Stop \<Rightarrow> Some (if wp_running s then s\<lparr>wp_client := D_stop_lock\<rparr> else s\<lparr>wp_returned := Some True\<rparr>)
      | WaitALlThread \<Rightarrow> Some (s\<lparr>wp_client := D_wait_join\<rparr>))"

definition win_joined :: "nat \<Rightarrow> win_pool \<Rightarrow> bool" where
  "win_joined n s = list_all (\<lambda>w. wp_pc s w = V_exit) [1..<Suc n]"

text \<open>\<^verbatim>\<open>SetEvent\<close> of the auto reset event: \<open>w\<close> is the waiting worker it releases, if there is one.\<close>

definition set_auto :: "nat \<Rightarrow> win_pool \<Rightarrow> win_pool" where
  "set_auto w s = (if wp_pc s w = V_blocked then move w V_test s else s\<lparr>auto_event := True\<rparr>)"

definition set_manual :: "win_pool \<Rightarrow> win_pool" where
  "set_manual s = s\<lparr>wp_pc := (\<lambda>w. if wp_pc s w = V_blocked then V_reset else wp_pc s w), manual_event := True\<rparr>"

definition win_client_step :: "nat \<Rightarrow> nat \<Rightarrow> win_pool \<Rightarrow> win_pool option" where
  "win_client_step n wake s = (case wp_client s of
       D_idle \<Rightarrow> None
     | D_add_lock t \<Rightarrow> (case wp_lock s of None \<Rightarrow> Some (s\<lparr>wp_lock := Some 0, wp_client := D_add_push t\<rparr>) | Some _ \<Rightarrow> None)
     | D_add_push t \<Rightarrow> Some (s\<lparr>wp_tasks := wp_tasks s @ [t], wp_added := wp_added s @ [t], wp_client := D_add_set\<rparr>)
     | D_add_set \<Rightarrow> Some ((set_auto wake s)\<lparr>wp_client := D_add_unlock\<rparr>)
     | D_add_unlock \<Rightarrow> Some (s\<lparr>wp_lock := None, wp_returned := Some True, wp_client := D_idle\<rparr>)
     | D_stop_lock \<Rightarrow> (case wp_lock s of None \<Rightarrow> Some (s\<lparr>wp_lock := Some 0, wp_client := D_stop_clear\<rparr>) | Some _ \<Rightarrow> None)
     | D_stop_clear \<Rightarrow>
         Some (s\<lparr>wp_discarded := wp_discarded s @ wp_tasks s, wp_tasks := [], wp_lock := None, wp_client := D_stop_flag\<rparr>)
     | D_stop_flag \<Rightarrow> Some (s\<lparr>wp_running := False, wp_client := D_stop_set\<rparr>)
     | D_stop_set \<Rightarrow> Some ((set_manual s)\<lparr>wp_client := D_stop_join\<rparr>)
     | D_stop_join \<Rightarrow>
         if win_joined n s
         then Some (s\<lparr>events_open := False, wp_signals := RemoveType 0 INTERRUPT (wp_signals s), wp_returned := Some True,
           wp_client := D_idle\<rparr>)
         else None
     | D_wait_join \<Rightarrow> if win_joined n s then Some (s\<lparr>wp_client := D_idle\<rparr>) else None)"

inductive win_step :: "nat \<Rightarrow> win_pool \<Rightarrow> win_pool \<Rightarrow> bool" where
  win_worker: "worker_id n w \<Longrightarrow> win_worker_step w s = Some s' \<Longrightarrow> win_step n s s'"
| win_call: "win_begin call s = Some s' \<Longrightarrow> win_step n s s'"
| win_client: "win_client_step n wake s = Some s' \<Longrightarrow> worker_id n wake \<Longrightarrow>
     wp_pc s wake = V_blocked \<or> (\<forall>w. worker_id n w \<longrightarrow> wp_pc s w \<noteq> V_blocked) \<Longrightarrow> win_step n s s'"

inductive_cases win_stepE: "win_step n s s'"

definition win_started :: "nat \<Rightarrow> SignalManager \<Rightarrow> win_pool" where
  "win_started n m = snd (snd (WinPool_Run (\<lambda>_. True) 0 (int n) (WinPool_new m)))"

inductive win_pool_reachable :: "nat \<Rightarrow> win_pool \<Rightarrow> bool" where
  win_pool_begin: "1 \<le> n \<Longrightarrow> n \<le> 1000 \<Longrightarrow> win_pool_reachable n (win_started n m)"
| win_pool_next: "win_pool_reachable n s \<Longrightarrow> win_step n s s' \<Longrightarrow> win_pool_reachable n s'"

section \<open>Invariant\<close>

fun has_lock :: "win_pc \<Rightarrow> bool" where
  "has_lock V_unlock = True" | "has_lock V_take = True" | "has_lock _ = False"

fun client_has_lock :: "win_client \<Rightarrow> bool" where
  "client_has_lock (D_add_push _) = True" | "client_has_lock D_add_set = True" | "client_has_lock D_add_unlock = True"
| "client_has_lock D_stop_clear = True" | "client_has_lock _ = False"

fun win_hand :: "win_pc \<Rightarrow> task multiset" where
  "win_hand (V_run t) = {#t#}" | "win_hand _ = {#}"

fun past_test :: "win_pc \<Rightarrow> bool" where
  "past_test V_relock = True" | "past_test V_take = True" | "past_test V_exit = True" | "past_test _ = False"

text \<open>A worker that will look at the list again without further help.\<close>

definition awake :: "win_pool \<Rightarrow> nat \<Rightarrow> bool" where
  "awake s w \<longleftrightarrow> wp_pc s w \<notin> {V_wait, V_blocked, V_exit} \<or> wp_pc s w = V_wait \<and> auto_event s"

definition win_hands :: "nat \<Rightarrow> win_pool \<Rightarrow> task multiset" where
  "win_hands n s = (\<Sum>w \<in> {1..n}. win_hand (wp_pc s w))"

definition win_tasks_inv :: "nat \<Rightarrow> win_pool \<Rightarrow> bool" where
  "win_tasks_inv n s \<longleftrightarrow>
     mset (wp_added s) = mset (wp_tasks s) + mset (wp_executed s) + mset (wp_discarded s) + win_hands n s"

definition win_lock_inv :: "nat \<Rightarrow> win_pool \<Rightarrow> bool" where
  "win_lock_inv n s \<longleftrightarrow> (\<forall>w. wp_lock s = Some w \<longrightarrow>
     (w = 0 \<and> client_has_lock (wp_client s)) \<or> (worker_id n w \<and> has_lock (wp_pc s w)))"

text \<open>Before \<^verbatim>\<open>Stop\<close> the manual event is not used, nothing was deleted, and somebody is left to work.\<close>

definition win_running_inv :: "nat \<Rightarrow> win_pool \<Rightarrow> bool" where
  "win_running_inv n s \<longleftrightarrow>
     (wp_running s \<longrightarrow> \<not> manual_event s \<and> (\<forall>w. worker_id n w \<longrightarrow> wp_pc s w \<noteq> V_reset) \<and>
        wp_client s \<notin> {D_stop_set, D_stop_join} \<and> (wp_discarded s = [] \<or> wp_client s = D_stop_flag)) \<and>
     (\<not> wp_running s \<longrightarrow> wp_client s \<in> {D_idle, D_wait_join, D_stop_set, D_stop_join})"

definition win_alive_inv :: "nat \<Rightarrow> win_pool \<Rightarrow> bool" where
  "win_alive_inv n s \<longleftrightarrow> (wp_running s \<and> wp_client s \<noteq> D_stop_flag \<longrightarrow>
     (\<exists>w. worker_id n w \<and> wp_pc s w \<noteq> V_exit) \<and> (wp_tasks s = [] \<longrightarrow> (\<exists>w. worker_id n w \<and> \<not> past_test (wp_pc s w))))"

definition win_awake_inv :: "nat \<Rightarrow> win_pool \<Rightarrow> bool" where
  "win_awake_inv n s \<longleftrightarrow> (wp_running s \<and> wp_tasks s \<noteq> [] \<and> wp_client s \<noteq> D_add_set \<longrightarrow> (\<exists>w. worker_id n w \<and> awake s w))"

lemma move_simps [simp]:
  "wp_running (move w q s) = wp_running s" "wp_lock (move w q s) = wp_lock s" "wp_tasks (move w q s) = wp_tasks s"
  "wp_pc (move w q s) = (wp_pc s)(w := q)" "wp_client (move w q s) = wp_client s" "wp_added (move w q s) = wp_added s"
  "wp_executed (move w q s) = wp_executed s" "wp_discarded (move w q s) = wp_discarded s"
  "auto_event (move w q s) = auto_event s" "manual_event (move w q s) = manual_event s"
  by (simp_all add: move_def)

text \<open>What a step of a worker does, in one shape.\<close>

lemma win_hands_move:
  assumes "worker_id n w" "wp_pc s' = (wp_pc s)(w := q)"
  shows "win_hands n s' + win_hand (wp_pc s w) = win_hands n s + win_hand q"
  unfolding win_hands_def assms(2) by (rule sum_update[OF assms(1)])

lemma win_worker_tasks:
  assumes "win_worker_step w s = Some s'" "worker_id n w" "win_tasks_inv n s"
  shows "win_tasks_inv n s'"
proof -
  obtain q where q: "wp_pc s' = (wp_pc s)(w := q)" "wp_added s' = wp_added s" "wp_discarded s' = wp_discarded s"
    "mset (wp_tasks s') + mset (wp_executed s') + win_hand q = mset (wp_tasks s) + mset (wp_executed s) + win_hand (wp_pc s w)"
    using assms(1) by (cases "wp_pc s w") (auto simp: win_worker_step_def split: option.splits list.splits if_splits)
  have "mset (wp_tasks s') + mset (wp_executed s') + win_hands n s' + (win_hand q + win_hand (wp_pc s w)) =
      mset (wp_tasks s) + mset (wp_executed s) + win_hands n s + (win_hand q + win_hand (wp_pc s w))"
    using win_hands_move[OF assms(2) q(1)] q(4) by (metis add.assoc add.commute)
  then have "mset (wp_tasks s') + mset (wp_executed s') + win_hands n s' = mset (wp_tasks s) + mset (wp_executed s) + win_hands n s"
    by simp
  then show ?thesis using assms(3) q(2,3) unfolding win_tasks_inv_def by (metis add.assoc add.commute)
qed

lemma win_worker_lock:
  assumes "win_worker_step w s = Some s'" "worker_id n w" "win_lock_inv n s"
  shows "win_lock_inv n s'"
  using assms by (cases "wp_pc s w")
    (auto simp: win_worker_step_def win_lock_inv_def worker_id_def split: option.splits list.splits if_splits)

lemma win_worker_running:
  assumes "win_worker_step w s = Some s'" "worker_id n w" "win_running_inv n s"
  shows "win_running_inv n s'"
proof -
  have k: "wp_running s' = wp_running s" "wp_client s' = wp_client s" "wp_discarded s' = wp_discarded s"
    "manual_event s' \<longrightarrow> manual_event s"
    using assms(1) by (cases "wp_pc s w"; auto simp: win_worker_step_def split: option.splits list.splits if_splits)+
  obtain q where q: "wp_pc s' = (wp_pc s)(w := q)" "q = V_reset \<longrightarrow> manual_event s"
    using assms(1) by (cases "wp_pc s w") (auto simp: win_worker_step_def split: option.splits list.splits if_splits)
  from assms(3) k q show ?thesis unfolding win_running_inv_def by auto
qed

lemma win_worker_alive:
  assumes "win_worker_step w s = Some s'" "worker_id n w" "win_alive_inv n s"
  shows "win_alive_inv n s'"
proof (cases "wp_running s")
  case True
  have k: "wp_running s' = wp_running s" "wp_client s' = wp_client s"
    using assms(1) by (cases "wp_pc s w"; auto simp: win_worker_step_def split: option.splits list.splits if_splits)+
  have pc: "wp_pc s' = (wp_pc s)(w := wp_pc s' w)"
    using assms(1) by (cases "wp_pc s w") (auto simp: win_worker_step_def split: option.splits list.splits if_splits)
  consider "\<not> past_test (wp_pc s' w)" | "past_test (wp_pc s w)" "wp_tasks s' = []" "wp_tasks s = []"
    | "wp_pc s' w \<noteq> V_exit" "wp_tasks s' \<noteq> []" | "wp_pc s' w = V_take" "wp_pc s w = V_relock" "wp_tasks s' = wp_tasks s"
    using assms(1) True
    by (cases "wp_pc s w") (auto simp: win_worker_step_def split: option.splits list.splits if_splits)
  then show ?thesis
  proof cases
    case 1
    then have "wp_pc s' w \<noteq> V_exit" by auto
    with 1 assms(2) show ?thesis unfolding win_alive_inv_def by blast
  next
    case 2
    show ?thesis unfolding win_alive_inv_def
    proof (rule impI)
      assume "wp_running s' \<and> wp_client s' \<noteq> D_stop_flag"
      with assms(3) k 2(3) obtain v where v: "worker_id n v" "\<not> past_test (wp_pc s v)" unfolding win_alive_inv_def by auto
      then have "v \<noteq> w" using 2(1) by auto
      then have "wp_pc s' v = wp_pc s v" by (subst pc) simp
      with v show "(\<exists>w. worker_id n w \<and> wp_pc s' w \<noteq> V_exit) \<and>
          (wp_tasks s' = [] \<longrightarrow> (\<exists>w. worker_id n w \<and> \<not> past_test (wp_pc s' w)))" by auto
    qed
  next
    case 3
    then show ?thesis using assms(2) unfolding win_alive_inv_def by blast
  next
    case 4
    have "past_test (wp_pc s' v) = past_test (wp_pc s v)" for v using 4(1,2) by (subst pc) simp
    then show ?thesis using assms(2,3) 4 k unfolding win_alive_inv_def by auto
  qed
next
  case False
  then have "\<not> wp_running s'"
    using assms(1) by (cases "wp_pc s w") (auto simp: win_worker_step_def split: option.splits list.splits if_splits)
  then show ?thesis by (simp add: win_alive_inv_def)
qed

lemma win_worker_awake:
  assumes "win_worker_step w s = Some s'" "worker_id n w" "win_awake_inv n s" "win_running_inv n s"
  shows "win_awake_inv n s'"
proof (cases "wp_pc s w = V_wait \<and> \<not> auto_event s")
  case True
  then have s': "s' = move w (if manual_event s then V_reset else V_blocked) s" using assms(1) by (simp add: win_worker_step_def)
  have "\<not> awake s w" using True by (simp add: awake_def)
  then have "awake s' v" if "awake s v" for v using that by (cases "v = w") (auto simp: awake_def s')
  then show ?thesis using assms(3) unfolding win_awake_inv_def s' by auto
next
  case False
  have "awake s' w \<or> wp_tasks s' = [] \<or> \<not> wp_running s'"
    using assms(1) False
    by (cases "wp_pc s w") (auto simp: win_worker_step_def awake_def split: option.splits list.splits if_splits)
  then show ?thesis using assms(2) by (auto simp: win_awake_inv_def)
qed

definition win_pool_inv :: "nat \<Rightarrow> win_pool \<Rightarrow> bool" where
  "win_pool_inv n s \<longleftrightarrow> win_tasks_inv n s \<and> win_lock_inv n s \<and> win_running_inv n s \<and> win_alive_inv n s \<and> win_awake_inv n s"

lemma win_pool_invI:
  "win_tasks_inv n s \<Longrightarrow> win_lock_inv n s \<Longrightarrow> win_running_inv n s \<Longrightarrow> win_alive_inv n s \<Longrightarrow> win_awake_inv n s \<Longrightarrow> win_pool_inv n s"
  by (simp add: win_pool_inv_def)

lemma win_pool_invD:
  assumes "win_pool_inv n s"
  shows "win_tasks_inv n s" "win_lock_inv n s" "win_running_inv n s" "win_alive_inv n s" "win_awake_inv n s"
  using assms by (simp_all add: win_pool_inv_def)

lemmas win_inv_defs = win_tasks_inv_def win_hands_def win_lock_inv_def win_running_inv_def win_alive_inv_def
  win_awake_inv_def awake_def

lemma win_worker_inv:
  assumes "win_worker_step w s = Some s'" "worker_id n w" "win_pool_inv n s"
  shows "win_pool_inv n s'"
  using win_worker_tasks[OF assms(1,2)] win_worker_lock[OF assms(1,2)] win_worker_running[OF assms(1,2)]
    win_worker_alive[OF assms(1,2)] win_worker_awake[OF assms(1,2)] win_pool_invD[OF assms(3)]
  by (intro win_pool_invI) simp_all

lemma win_begin_inv:
  assumes "win_begin call s = Some s'" "win_pool_inv n s"
  shows "win_pool_inv n s'"
proof -
  note I = win_pool_invD[OF assms(2)]
  from assms(1) consider b where "s' = s\<lparr>wp_returned := b\<rparr>"
    | c where "s' = s\<lparr>wp_client := c\<rparr>" "\<not> client_has_lock c" "wp_client s = D_idle" "wp_running s \<or> c = D_wait_join"
      "c \<notin> {D_idle, D_stop_flag, D_stop_set, D_stop_join, D_add_set}"
    by (cases call) (auto simp: win_begin_def split: if_splits option.splits)
  then show ?thesis
  proof cases
    case 1
    with I show ?thesis by (intro win_pool_invI) (simp_all add: win_inv_defs)
  next
    case 2
    with I show ?thesis by (intro win_pool_invI) (auto simp: win_inv_defs)
  qed
qed

text \<open>Releasing a waiting worker.\<close>

lemma win_wake_inv:
  assumes "win_pool_inv n s" "worker_id n w" "wp_pc s w = V_blocked" "wp_client s = D_add_set"
  shows "win_pool_inv n ((move w V_test s)\<lparr>wp_client := D_add_unlock\<rparr>)"
proof (rule win_pool_invI)
  note I = win_pool_invD[OF assms(1)]
  let ?s = "(move w V_test s)\<lparr>wp_client := D_add_unlock\<rparr>"
  show "win_tasks_inv n ?s" using I(1) win_hands_move[OF assms(2), of ?s s V_test] assms(3) by (simp add: win_tasks_inv_def)
  show "win_lock_inv n ?s" using I(2) assms(3,4) by (auto simp: win_lock_inv_def)
  show "win_running_inv n ?s" using I(3) assms(4) by (auto simp: win_running_inv_def)
  show "win_alive_inv n ?s" "win_awake_inv n ?s" using assms(2) by (auto simp: win_alive_inv_def win_awake_inv_def awake_def)
qed

lemma win_set_auto_inv:
  assumes "win_pool_inv n s" "worker_id n wake" "wp_client s = D_add_set"
    "wp_pc s wake = V_blocked \<or> (\<forall>w. worker_id n w \<longrightarrow> wp_pc s w \<noteq> V_blocked)"
  shows "win_pool_inv n ((set_auto wake s)\<lparr>wp_client := D_add_unlock\<rparr>)"
proof (cases "wp_pc s wake = V_blocked")
  case True
  then show ?thesis using win_wake_inv[OF assms(1,2) True assms(3)] by (simp add: set_auto_def)
next
  case False
  note I = win_pool_invD[OF assms(1)]
  have nb: "wp_pc s w \<noteq> V_blocked" if "worker_id n w" for w using assms(4) False that by blast
  have "win_awake_inv n (s\<lparr>auto_event := True, wp_client := D_add_unlock\<rparr>)"
    using I(4) assms(3) nb by (auto simp: win_awake_inv_def awake_def win_alive_inv_def)
  with I assms(3) False show ?thesis
    by (intro win_pool_invI) (auto simp: set_auto_def win_tasks_inv_def win_hands_def win_lock_inv_def win_running_inv_def
        win_alive_inv_def)
qed

lemma win_set_manual_inv:
  assumes "win_pool_inv n s" "wp_client s = D_stop_set"
  shows "win_pool_inv n ((set_manual s)\<lparr>wp_client := D_stop_join\<rparr>)"
proof (rule win_pool_invI)
  note I = win_pool_invD[OF assms(1)]
  let ?s = "(set_manual s)\<lparr>wp_client := D_stop_join\<rparr>"
  have p: "wp_pc ?s = (\<lambda>w. if wp_pc s w = V_blocked then V_reset else wp_pc s w)" by (simp add: set_manual_def)
  have h: "has_lock (wp_pc ?s w) = has_lock (wp_pc s w)" "win_hand (wp_pc ?s w) = win_hand (wp_pc s w)" for w
    unfolding p by simp_all
  have f: "wp_lock ?s = wp_lock s" "wp_tasks ?s = wp_tasks s" "wp_running ?s = wp_running s" "wp_added ?s = wp_added s"
    "wp_executed ?s = wp_executed s" "wp_discarded ?s = wp_discarded s"
    by (simp_all add: set_manual_def)
  have r: "\<not> wp_running s" using I(3) assms(2) by (auto simp: win_running_inv_def)
  show "win_tasks_inv n ?s" using I(1) unfolding win_tasks_inv_def win_hands_def f h .
  show "win_lock_inv n ?s" using I(2) assms(2) unfolding win_lock_inv_def f h by simp
  show "win_running_inv n ?s" "win_alive_inv n ?s" "win_awake_inv n ?s" using r
    by (simp_all add: win_running_inv_def win_alive_inv_def win_awake_inv_def f)
qed

text \<open>The other steps of a call leave the workers and the events alone.\<close>

lemma win_client_other:
  assumes "win_client_step n wake s = Some s'" "wp_client s \<notin> {D_add_set, D_stop_set}"
  shows "win_tasks_inv n s \<Longrightarrow> win_tasks_inv n s'" "win_lock_inv n s \<Longrightarrow> win_lock_inv n s'"
    "win_running_inv n s \<Longrightarrow> win_running_inv n s'" "win_running_inv n s \<Longrightarrow> win_alive_inv n s \<Longrightarrow> win_alive_inv n s'"
    "win_awake_inv n s \<Longrightarrow> win_awake_inv n s'"
proof -
  note split = option.splits if_splits
  show "win_tasks_inv n s \<Longrightarrow> win_tasks_inv n s'"
    using assms by (cases "wp_client s") (auto simp: win_client_step_def win_tasks_inv_def win_hands_def split: split)
  show "win_lock_inv n s \<Longrightarrow> win_lock_inv n s'"
    using assms by (cases "wp_client s") (auto simp: win_client_step_def win_lock_inv_def split: split)
  show "win_running_inv n s \<Longrightarrow> win_running_inv n s'"
    using assms by (cases "wp_client s") (auto simp: win_client_step_def win_running_inv_def split: split)
  show "win_running_inv n s \<Longrightarrow> win_alive_inv n s \<Longrightarrow> win_alive_inv n s'"
    using assms by (cases "wp_client s") (auto simp: win_client_step_def win_alive_inv_def win_running_inv_def split: split)
  show "win_awake_inv n s \<Longrightarrow> win_awake_inv n s'"
    using assms by (cases "wp_client s") (auto simp: win_client_step_def win_awake_inv_def awake_def split: split)
qed

lemma win_client_inv:
  assumes "win_client_step n wake s = Some s'" "worker_id n wake"
    "wp_pc s wake = V_blocked \<or> (\<forall>w. worker_id n w \<longrightarrow> wp_pc s w \<noteq> V_blocked)" "win_pool_inv n s"
  shows "win_pool_inv n s'"
proof -
  consider "wp_client s = D_add_set" | "wp_client s = D_stop_set" | "wp_client s \<notin> {D_add_set, D_stop_set}" by blast
  then show ?thesis
  proof cases
    case 1
    then show ?thesis using assms(1) win_set_auto_inv[OF assms(4,2) 1 assms(3)] by (simp add: win_client_step_def)
  next
    case 2
    then show ?thesis using assms(1) win_set_manual_inv[OF assms(4) 2] by (simp add: win_client_step_def)
  next
    case 3
    note I = win_pool_invD[OF assms(4)] and S = win_client_other[OF assms(1) 3]
    show ?thesis by (rule win_pool_invI[OF S(1)[OF I(1)] S(2)[OF I(2)] S(3)[OF I(3)] S(4)[OF I(3,4)] S(5)[OF I(5)]])
  qed
qed

lemma win_started_inv:
  assumes "1 \<le> n" "n \<le> 1000"
  shows "win_pool_inv n (win_started n m)"
proof -
  have s: "win_started n m = (WinPool_new m)\<lparr>wp_running := True, wp_pc := (\<lambda>w. if 1 \<le> w \<and> w \<le> n then V_check else V_exit)\<rparr>"
    using assms by (auto simp: win_started_def WinPool_Run_def WinPool_new_def MAX_THREAD_NUM_LIMIT_def)
  have "worker_id n 1" using assms(1) by (simp add: worker_id_def)
  then show ?thesis
    by (intro win_pool_invI) (auto simp: s WinPool_new_def win_inv_defs worker_id_def)
qed

lemma win_pool_reachable_inv: "win_pool_reachable n s \<Longrightarrow> win_pool_inv n s"
  by (induction rule: win_pool_reachable.induct)
    (auto intro: win_started_inv win_worker_inv win_begin_inv win_client_inv elim!: win_stepE)

section \<open>Schedules\<close>

fun win_turn :: "nat \<Rightarrow> turn \<Rightarrow> win_pool \<Rightarrow> win_pool option" where
  "win_turn n (Worker w) s = (if 1 \<le> w \<and> w \<le> n then win_worker_step w s else None)"
| "win_turn n (Begin call) s = win_begin call s"
| "win_turn n (Client wake) s =
     (if 1 \<le> wake \<and> wake \<le> n \<and> (wp_pc s wake = V_blocked \<or> list_all (\<lambda>w. wp_pc s w \<noteq> V_blocked) [1..<Suc n])
      then win_client_step n wake s else None)"

fun win_schedule :: "nat \<Rightarrow> turn list \<Rightarrow> win_pool \<Rightarrow> win_pool option" where
  "win_schedule n [] s = Some s"
| "win_schedule n (t # ts) s = (case win_turn n t s of None \<Rightarrow> None | Some s1 \<Rightarrow> win_schedule n ts s1)"

lemma win_turn_step: "win_turn n t s = Some s' \<Longrightarrow> win_step n s s'"
proof (cases t)
  case (Client wake)
  assume "win_turn n t s = Some s'"
  with Client have c: "win_client_step n wake s = Some s'" "worker_id n wake"
    "wp_pc s wake = V_blocked \<or> list_all (\<lambda>w. wp_pc s w \<noteq> V_blocked) [1..<Suc n]"
    by (auto simp: worker_id_def split: if_splits)
  then have "wp_pc s wake = V_blocked \<or> (\<forall>w. worker_id n w \<longrightarrow> wp_pc s w \<noteq> V_blocked)"
    by (auto simp: list_all_iff worker_id_def simp del: upt_Suc)
  with c(1,2) show ?thesis by (rule win_client)
qed (auto intro: win_worker win_call simp: worker_id_def split: if_splits)

lemma win_schedule_reachable: "win_schedule n ts s = Some s' \<Longrightarrow> win_pool_reachable n s \<Longrightarrow> win_pool_reachable n s'"
proof (induction ts arbitrary: s)
  case (Cons t ts)
  then obtain s1 where s1: "win_turn n t s = Some s1" "win_schedule n ts s1 = Some s'" by (auto split: option.splits)
  have "win_pool_reachable n s1" by (rule win_pool_next[OF Cons.prems(2) win_turn_step[OF s1(1)]])
  with Cons.IH[OF s1(2)] show ?case by simp
qed simp

lemmas win_run_simps = win_worker_step_def win_begin_def win_client_step_def set_auto_def set_manual_def move_def
  win_joined_def win_started_def WinPool_Run_def WinPool_new_def MAX_THREAD_NUM_LIMIT_def

section \<open>The workers come to rest\<close>

fun win_rank :: "win_pc \<Rightarrow> nat" where
  "win_rank (V_run t) = 8" | "win_rank V_check = 7" | "win_rank V_lock = 6" | "win_rank V_unlock = 5" | "win_rank V_test = 4"
| "win_rank V_relock = 3" | "win_rank V_take = 2" | "win_rank V_wait = 2" | "win_rank V_reset = 1" | "win_rank V_blocked = 0"
| "win_rank V_exit = 0"

definition win_work :: "nat \<Rightarrow> win_pool \<Rightarrow> nat" where
  "win_work n s = 12 * length (wp_tasks s) + (if auto_event s then 8 else 0) + (\<Sum>w \<in> {1..n}. win_rank (wp_pc s w))"

lemma win_work_bound: "win_work n s \<le> 12 * length (wp_tasks s) + 8 + 8 * n"
proof -
  have "win_rank q \<le> 8" for q by (cases q) simp_all
  then have "(\<Sum>w \<in> {1..n}. win_rank (wp_pc s w)) \<le> (\<Sum>w \<in> {1..n}. 8)" by (intro sum_mono) simp
  then show ?thesis by (simp add: win_work_def)
qed

lemma win_work_decreases:
  assumes "win_worker_step w s = Some s'" "worker_id n w" "win_running_inv n s" "wp_running s"
  shows "win_work n s' < win_work n s"
proof -
  let ?e = "\<lambda>s. 12 * length (wp_tasks s) + (if auto_event s then 8 else 0 :: nat)"
  have "wp_pc s w \<noteq> V_reset" "\<not> manual_event s" using assms(2-4) by (auto simp: win_running_inv_def)
  then obtain q where q: "wp_pc s' = (wp_pc s)(w := q)" "?e s' + win_rank q < ?e s + win_rank (wp_pc s w)"
    using assms(1,4) by (cases "wp_pc s w") (auto simp: win_worker_step_def split: option.splits list.splits if_splits)
  from sum_update[OF assms(2), of win_rank "wp_pc s" q] q show ?thesis unfolding win_work_def q(1) by linarith
qed

lemma win_worker_keeps:
  "win_worker_step w s = Some s' \<Longrightarrow> wp_running s' = wp_running s \<and> wp_client s' = wp_client s \<and> wp_added s' = wp_added s"
  by (cases "wp_pc s w") (auto simp: win_worker_step_def split: option.splits list.splits if_splits)

lemma win_workers_run:
  assumes "win_schedule n (map Worker ws) s = Some s'" "win_pool_reachable n s" "wp_running s"
  shows "length ws + win_work n s' \<le> win_work n s \<and> wp_running s' \<and> wp_client s' = wp_client s \<and> wp_added s' = wp_added s"
  using assms
proof (induction ws arbitrary: s)
  case (Cons w ws)
  from Cons.prems(1) obtain s1 where s1: "win_worker_step w s = Some s1" "worker_id n w" "win_schedule n (map Worker ws) s1 = Some s'"
    by (auto simp: worker_id_def split: option.splits if_splits)
  have r: "win_pool_reachable n s1" by (rule win_pool_next[OF Cons.prems(2) win_worker[OF s1(2,1)]])
  note k = win_worker_keeps[OF s1(1)]
  note d = win_work_decreases[OF s1(1,2) win_pool_invD(3)[OF win_pool_reachable_inv[OF Cons.prems(2)]] Cons.prems(3)]
  show ?case using Cons.IH[OF s1(3) r] k d Cons.prems(3) by simp
qed simp

lemma win_pool_quiet:
  assumes "win_pool_reachable n s" "wp_running s" "wp_client s = D_idle" "\<forall>w \<in> {1..n}. win_worker_step w s = None"
  shows "wp_tasks s = []" "mset (wp_executed s) = mset (wp_added s)" "\<exists>w. worker_id n w \<and> wp_pc s w = V_blocked"
proof -
  note I = win_pool_invD[OF win_pool_reachable_inv[OF assms(1)]]
  have nb: "win_worker_step w s = None" if "worker_id n w" for w using assms(4) that by (simp add: worker_id_def)
  have nh: "\<not> has_lock (wp_pc s w)" if "worker_id n w" for w
    using nb[OF that] by (cases "wp_pc s w") (auto simp: win_worker_step_def split: list.splits if_splits)
  then have "wp_lock s = None" using I(2) assms(3) by (cases "wp_lock s") (auto simp: win_lock_inv_def)
  then have b: "wp_pc s w = V_blocked \<or> wp_pc s w = V_exit" if "worker_id n w" for w
    using nb[OF that] nh[OF that] by (cases "wp_pc s w") (auto simp: win_worker_step_def split: if_splits)
  have "\<not> awake s w" if "worker_id n w" for w using b[OF that] by (auto simp: awake_def)
  then show t: "wp_tasks s = []" using I(5) assms(2,3) by (auto simp: win_awake_inv_def)
  have "win_hand (wp_pc s w) = {#}" if "w \<in> {1..n}" for w using b[of w] that by (auto simp: worker_id_def)
  then have "win_hands n s = {#}" unfolding win_hands_def by (rule sum.neutral[OF ballI])
  moreover have "wp_discarded s = []" using I(3) assms(2,3) by (auto simp: win_running_inv_def)
  ultimately show "mset (wp_executed s) = mset (wp_added s)" using t I(1) by (simp add: win_tasks_inv_def)
  show "\<exists>w. worker_id n w \<and> wp_pc s w = V_blocked" using I(4) assms(2,3) b by (auto simp: win_alive_inv_def)
qed

section \<open>Properties\<close>

text \<open>
  C14: On Windows, too, every task that was added gets run, although the list is tested without the mutex and
  workers can be lost on the way: from any reachable state of a running pool in which no call is under
  way the workers can take only a bounded number of steps, and once none of them can move the queue is
  empty, exactly the tasks that were added have been run, and a worker is left that waits for the next.
\<close>

theorem win_pool_drains:
  assumes "win_pool_reachable n s" "wp_running s" "wp_client s = D_idle" "win_schedule n (map Worker ws) s = Some s'"
  shows "length ws \<le> 12 * length (wp_tasks s) + 8 + 8 * n \<and>
    ((\<forall>w \<in> {1..n}. win_worker_step w s' = None) \<longrightarrow>
       wp_tasks s' = [] \<and> mset (wp_executed s') = mset (wp_added s) \<and> (\<exists>w. worker_id n w \<and> wp_pc s' w = V_blocked))"
proof -
  note k = win_workers_run[OF assms(4,1,2)]
  have r: "win_pool_reachable n s'" using win_schedule_reachable[OF assms(4,1)] .
  have "(\<forall>w \<in> {1..n}. win_worker_step w s' = None) \<longrightarrow>
      wp_tasks s' = [] \<and> mset (wp_executed s') = mset (wp_added s) \<and> (\<exists>w. worker_id n w \<and> wp_pc s' w = V_blocked)"
    using win_pool_quiet[OF r] k assms(3) by simp
  moreover have "length ws \<le> 12 * length (wp_tasks s) + 8 + 8 * n" using k win_work_bound[of n s] by linarith
  ultimately show ?thesis by blast
qed

text \<open>Two workers, one task: both leave the loop for it, one runs it, the other finds the list empty and is gone.\<close>

definition win_lost :: win_pool where
  "win_lost = the (win_schedule 2 ([Begin (AddTask (Some 7))] @ replicate 4 (Client 1) @
     replicate 4 (Worker 1) @ replicate 4 (Worker 2) @ replicate 2 (Worker 1) @ replicate 2 (Worker 2)) (win_started 2 SignalManager_new))"

lemma win_lost_run:
  "win_schedule 2 ([Begin (AddTask (Some 7))] @ replicate 4 (Client 1) @
     replicate 4 (Worker 1) @ replicate 4 (Worker 2) @ replicate 2 (Worker 1) @ replicate 2 (Worker 2)) (win_started 2 SignalManager_new)
   = Some win_lost"
  "wp_added win_lost = [7]" "wp_pc win_lost 1 = V_run 7" "wp_pc win_lost 2 = V_exit" "wp_running win_lost" "wp_client win_lost = D_idle"
  "wp_tasks win_lost = []" "auto_event win_lost"
  by (simp_all add: win_lost_def win_run_simps numeral_eq_Suc)

lemma win_lost_reachable: "win_pool_reachable 2 win_lost"
  by (rule win_schedule_reachable[OF win_lost_run(1)]) (rule win_pool_begin, simp_all)


definition win_rest :: win_pool where
  "win_rest = the (win_schedule 2 (map Worker (replicate 8 1)) win_lost)"

lemma win_rest_run:
  "win_schedule 2 (map Worker (replicate 8 1)) win_lost = Some win_rest" "wp_pc win_rest 1 = V_blocked" "wp_pc win_rest 2 = V_exit"
  by (simp_all add: win_rest_def win_lost_def win_run_simps numeral_eq_Suc)

theorem win_pool_drains_witness:
  "length (replicate 8 (1 :: nat)) \<le> 12 * length (wp_tasks win_lost) + 24 \<and> wp_tasks win_rest = [] \<and> mset (wp_executed win_rest) = mset [7]"
proof -
  have "\<forall>w \<in> {1..2}. win_worker_step w win_rest = None"
  proof
    fix w :: nat
    assume "w \<in> {1..2}"
    then have "w = 1 \<or> w = 2" by auto
    then show "win_worker_step w win_rest = None" using win_rest_run(2,3) by (auto simp: win_worker_step_def)
  qed
  with win_pool_drains [OF win_lost_reachable win_lost_run(5,6) win_rest_run(1)] win_lost_run(2) show ?thesis by simp
qed

text \<open>
  On Windows a task is run at most once and never lost sight of, whatever the interleaving: every task
  added is still queued, in the hands of one worker, run, or deleted by \<^verbatim>\<open>Stop\<close>.
\<close>

theorem win_pool_tasks_once:
  assumes "win_pool_reachable n s"
  shows "mset (wp_added s) = mset (wp_tasks s) + (\<Sum>w \<in> {1..n}. win_hand (wp_pc s w)) + mset (wp_executed s) + mset (wp_discarded s)"
  using win_pool_invD(1)[OF win_pool_reachable_inv[OF assms]] by (simp add: win_tasks_inv_def win_hands_def ac_simps)

theorem win_pool_tasks_once_witness:
  "mset [7] = mset (wp_tasks win_lost) + (\<Sum>w \<in> {1..2}. win_hand (wp_pc win_lost w)) + mset (wp_executed win_lost) + mset (wp_discarded win_lost)"
  using win_pool_tasks_once [OF win_lost_reachable] by (simp add: win_lost_run)

text \<open>
  C40: A running pool loses workers on Windows. Two workers can leave the waiting loop for the same task; the
  second finds the list empty behind the mutex, \<^verbatim>\<open>GetNextTask\<close> returns nullptr as if the pool had been
  stopped, and its thread ends. No step brings it back.
\<close>

theorem win_pool_loses_worker:
  "\<exists>s. win_pool_reachable 2 s \<and> wp_running s \<and> wp_client s = D_idle \<and> wp_pc s 2 = V_exit \<and>
     (\<nexists>s'. win_step 2 s s' \<and> wp_pc s' 2 \<noteq> V_exit)"
proof -
  have "wp_pc s' 2 = V_exit" if "win_step 2 win_lost s'" for s'
    using that
  proof (rule win_stepE)
    fix w
    assume w: "worker_id 2 w" "win_worker_step w win_lost = Some s'"
    then have "w = 1 \<or> w = 2" by (auto simp: worker_id_def)
    with w win_lost_run(3,4) show ?thesis by (auto simp: win_worker_step_def)
  next
    fix call
    assume "win_begin call win_lost = Some s'"
    with win_lost_run(4) show ?thesis by (cases call) (auto simp: win_begin_def split: if_splits option.splits)
  next
    fix wake
    assume "win_client_step 2 wake win_lost = Some s'"
    with win_lost_run(6) show ?thesis by (simp add: win_client_step_def)
  qed
  with win_lost_reachable win_lost_run(4-6) show ?thesis by blast
qed

text \<open>Two workers, one about to wait and one waiting, when \<^verbatim>\<open>Stop\<close> is called.\<close>

definition win_hung :: win_pool where
  "win_hung = the (win_schedule 2 (replicate 4 (Worker 1) @ replicate 5 (Worker 2) @ [Begin Stop] @ replicate 4 (Client 2) @
     replicate 4 (Worker 2) @ [Worker 1]) (win_started 2 SignalManager_new))"

lemma win_hung_run:
  "win_schedule 2 (replicate 4 (Worker 1) @ replicate 5 (Worker 2) @ [Begin Stop] @ replicate 4 (Client 2) @
     replicate 4 (Worker 2) @ [Worker 1]) (win_started 2 SignalManager_new) = Some win_hung"
  "wp_client win_hung = D_stop_join" "wp_pc win_hung 1 = V_blocked" "wp_pc win_hung 2 = V_exit" "\<not> wp_running win_hung"
  by (simp_all add: win_hung_def win_run_simps numeral_eq_Suc)

text \<open>
  On Windows \<^verbatim>\<open>Stop\<close> can wait for ever: the first worker released by the manual reset event resets it, so a
  worker that had tested the flag before and begins to wait afterwards is not released any more, and
  \<^verbatim>\<open>Stop\<close> waits for that worker. No thread of the program can take a step.
\<close>

theorem win_pool_stop_can_hang:
  "\<exists>s. win_pool_reachable 2 s \<and> wp_client s = D_stop_join \<and> wp_pc s 1 = V_blocked \<and> \<not> wp_running s \<and> (\<forall>s'. \<not> win_step 2 s s')"
proof -
  have "\<not> win_step 2 win_hung s'" for s'
  proof
    assume "win_step 2 win_hung s'"
    then show False
    proof (rule win_stepE)
      fix w
      assume w: "worker_id 2 w" "win_worker_step w win_hung = Some s'"
      then have "w = 1 \<or> w = 2" by (auto simp: worker_id_def)
      with w win_hung_run(3,4) show False by (auto simp: win_worker_step_def)
    qed (use win_hung_run(2-4) in \<open>simp_all add: win_begin_def win_client_step_def win_joined_def numeral_eq_Suc\<close>)
  qed
  moreover have "win_pool_reachable 2 win_hung"
    by (rule win_schedule_reachable[OF win_hung_run(1)]) (rule win_pool_begin, simp_all)
  ultimately show ?thesis using win_hung_run(2-5) by blast
qed

end
