(* ===== verification/ThreadsWin.thy ===== *)
theory ThreadsWin
  imports Threads MemPool
begin

text \<open>
  \<^verbatim>\<open>Thread\<close> and \<^verbatim>\<open>Mutex\<close> on Windows (the second halves of \<^verbatim>\<open>elegance/platform/thread/thread.cpp\<close> and \<^verbatim>\<open>mutex.cpp\<close>). A thread
  object also keeps the handle of its thread; \<^verbatim>\<open>Run\<close> stores it when \<^verbatim>\<open>CreateThread\<close> has returned, while the
  new thread may already be at work. The critical section is the recursive mutex of the Linux half,
  except that leaving one that is not held is an error of the caller.
\<close>

section \<open>Mutex\<close>

definition WinMutex_Lock :: "thread_id \<Rightarrow> Mutex \<Rightarrow> (bool \<times> Mutex) res" where
  "WinMutex_Lock t m = (case mutex_owner m of
       None \<Rightarrow> Inr (True, \<lparr>mutex_owner = Some t, mutex_depth = 1\<rparr>)
     | Some t' \<Rightarrow> if t' = t then Inr (True, m\<lparr>mutex_depth := mutex_depth m + 1\<rparr>) else Inl WouldBlock)"

definition WinMutex_TryLock :: "thread_id \<Rightarrow> Mutex \<Rightarrow> bool \<times> Mutex" where
  "WinMutex_TryLock t m =
     (if mutex_owner m = None \<or> mutex_owner m = Some t
      then (True, \<lparr>mutex_owner = Some t, mutex_depth = mutex_depth m + 1\<rparr>) else (False, m))"

text \<open>Leaving a section that another thread holds, or nobody, corrupts it.\<close>

definition WinMutex_Unlock :: "thread_id \<Rightarrow> Mutex \<Rightarrow> (bool \<times> Mutex) res" where
  "WinMutex_Unlock t m =
     (if mutex_owner m \<noteq> Some t then Inl NotOwner
      else Inr (True, if mutex_depth m = 1 then Mutex_new else m\<lparr>mutex_depth := mutex_depth m - 1\<rparr>))"

definition mutex_ok :: "Mutex \<Rightarrow> bool" where
  "mutex_ok m \<longleftrightarrow> (mutex_owner m = None \<longleftrightarrow> mutex_depth m = 0)"

lemma mutex_ok_new: "mutex_ok Mutex_new"
  by (simp add: mutex_ok_def Mutex_new_def)

lemma mutex_ok_keep:
  "mutex_ok m \<Longrightarrow> WinMutex_Lock t m = Inr (b, m') \<Longrightarrow> mutex_ok m'"
  "mutex_ok m \<Longrightarrow> WinMutex_TryLock t m = (b, m') \<Longrightarrow> mutex_ok m'"
  "mutex_ok m \<Longrightarrow> WinMutex_Unlock t m = Inr (b, m') \<Longrightarrow> mutex_ok m'"
  by (auto simp: mutex_ok_def WinMutex_Lock_def WinMutex_TryLock_def WinMutex_Unlock_def Mutex_new_def
      split: option.splits if_splits)

text \<open>Where the calls are used as meant the two halves agree.\<close>

lemma win_mutex_agrees:
  assumes "mutex_ok m"
  shows "WinMutex_Lock t m = Mutex_Lock t m" "WinMutex_TryLock t m = Mutex_TryLock t m"
    "mutex_owner m = Some t \<Longrightarrow> WinMutex_Unlock t m = Inr (Mutex_Unlock t m)"
  using assms by (auto simp: mutex_ok_def WinMutex_Lock_def Mutex_Lock_def WinMutex_TryLock_def Mutex_TryLock_def
      WinMutex_Unlock_def Mutex_Unlock_def split: option.splits)

section \<open>Thread\<close>

record 'task WinThread =
  wt_id :: nat
  wt_task :: "'task option"
  wt_running :: bool
  wt_handle :: "nat option"

definition WinThread_new :: "'task WinThread" where
  "WinThread_new = \<lparr>wt_id = 0, wt_task = None, wt_running = False, wt_handle = None\<rparr>"

text \<open>\<open>created\<close> is the handle and id \<^verbatim>\<open>CreateThread\<close> returned, or nothing.\<close>

definition WinThread_Run ::
  "(nat \<times> nat) option \<Rightarrow> 'task option \<Rightarrow> 'task WinThread \<Rightarrow> bool \<times> 'task WinThread \<times> 'task list" where
  "WinThread_Run created func th =
     (case func of
        None \<Rightarrow> (False, th, [])
      | Some task \<Rightarrow>
          if wt_handle th \<noteq> None then (False, th, [])
          else (case created of
              None \<Rightarrow> (False, th\<lparr>wt_task := None\<rparr>, [task])
            | Some (h, new_id) \<Rightarrow>
                (True, th\<lparr>wt_task := Some task, wt_handle := Some h, wt_id := new_id, wt_running := True\<rparr>, [])))"

text \<open>\<open>ok\<close> is what the system call answers for a handle; for a null handle it fails.\<close>

definition WinThread_Join :: "bool \<Rightarrow> 'task WinThread \<Rightarrow> bool \<times> 'task WinThread" where
  "WinThread_Join ok th =
     (if wt_handle th \<noteq> None \<and> ok then (True, th\<lparr>wt_handle := None, wt_id := 0\<rparr>) else (False, th))"

definition WinThread_Terminate :: "bool \<Rightarrow> 'task WinThread \<Rightarrow> bool \<times> 'task WinThread" where
  "WinThread_Terminate ok th =
     (wt_handle th \<noteq> None \<and> ok, th\<lparr>wt_handle := None, wt_id := 0, wt_running := False\<rparr>)"

definition WinThread_Detach :: "bool \<Rightarrow> 'task WinThread \<Rightarrow> bool \<times> 'task WinThread" where
  "WinThread_Detach ok th =
     (if wt_handle th = None then (False, th) else (ok, th\<lparr>wt_handle := None, wt_id := 0\<rparr>))"

definition WinThread_delete :: "bool \<Rightarrow> 'task WinThread \<Rightarrow> 'task WinThread" where
  "WinThread_delete ok th = snd (WinThread_Detach ok th)"

definition WinThread_GetThreadID :: "'task WinThread \<Rightarrow> nat" where
  "WinThread_GetThreadID th = wt_id th"

section \<open>Starter and started thread\<close>

text \<open>The thread exists; its creator still has to store the handle and to set \<^verbatim>\<open>running_\<close>.\<close>

datatype creator_pc = Cr_store nat | Cr_set_running | Cr_returned

record 'task create_state =
  cr_thread :: "'task WinThread"
  cr_starter :: creator_pc
  cr_routine :: routine_pc
  cr_ran :: "'task list"
  cr_deleted :: "'task list"

definition create_init :: "nat \<Rightarrow> nat \<Rightarrow> 'task \<Rightarrow> 'task create_state" where
  "create_init h new_id task =
     \<lparr>cr_thread = \<lparr>wt_id = new_id, wt_task = Some task, wt_running = False, wt_handle = None\<rparr>,
      cr_starter = Cr_store h, cr_routine = R_start, cr_ran = [], cr_deleted = []\<rparr>"

definition creator_step :: "'task create_state \<Rightarrow> 'task create_state option" where
  "creator_step s = (case cr_starter s of
       Cr_store h \<Rightarrow> Some (s\<lparr>cr_thread := (cr_thread s)\<lparr>wt_handle := Some h\<rparr>, cr_starter := Cr_set_running\<rparr>)
     | Cr_set_running \<Rightarrow> Some (s\<lparr>cr_thread := (cr_thread s)\<lparr>wt_running := True\<rparr>, cr_starter := Cr_returned\<rparr>)
     | Cr_returned \<Rightarrow> None)"

definition win_routine_step :: "'task create_state \<Rightarrow> 'task create_state option" where
  "win_routine_step s = (let th = cr_thread s in case cr_routine s of
       R_start \<Rightarrow> Some (s\<lparr>cr_routine := (if wt_task th = None then R_exit else R_run)\<rparr>)
     | R_run \<Rightarrow> (case wt_task th of
         None \<Rightarrow> None
       | Some task \<Rightarrow> Some (s\<lparr>cr_ran := cr_ran s @ [task], cr_routine := R_delete\<rparr>))
     | R_delete \<Rightarrow> (case wt_task th of
         None \<Rightarrow> Some (s\<lparr>cr_routine := R_clear\<rparr>)
       | Some task \<Rightarrow> Some (s\<lparr>cr_deleted := cr_deleted s @ [task], cr_routine := R_clear\<rparr>))
     | R_clear \<Rightarrow> Some (s\<lparr>cr_thread := th\<lparr>wt_task := None\<rparr>, cr_routine := R_detach\<rparr>)
     | R_detach \<Rightarrow> Some (s\<lparr>cr_thread := snd (WinThread_Detach True th), cr_routine := R_stop\<rparr>)
     | R_stop \<Rightarrow> Some (s\<lparr>cr_thread := th\<lparr>wt_running := False\<rparr>, cr_routine := R_exit\<rparr>)
     | R_exit \<Rightarrow> None)"

inductive create_reaches :: "'task create_state \<Rightarrow> 'task create_state \<Rightarrow> bool" where
  create_here: "create_reaches s s"
| create_starter: "create_reaches s s' \<Longrightarrow> creator_step s' = Some s'' \<Longrightarrow> create_reaches s s''"
| create_routine: "create_reaches s s' \<Longrightarrow> win_routine_step s' = Some s'' \<Longrightarrow> create_reaches s s''"

definition create_inv :: "'task \<Rightarrow> 'task create_state \<Rightarrow> bool" where
  "create_inv task s \<longleftrightarrow>
     wt_task (cr_thread s) = (if cr_routine s \<in> {R_start, R_run, R_delete, R_clear} then Some task else None) \<and>
     cr_ran s = (if cr_routine s \<in> {R_start, R_run} then [] else [task]) \<and>
     cr_deleted s = (if cr_routine s \<in> {R_start, R_run, R_delete} then [] else [task])"

lemma create_inv_reaches: "create_reaches s s' \<Longrightarrow> create_inv task s \<Longrightarrow> create_inv task s'"
proof (induction rule: create_reaches.induct)
  case (create_starter s s' s'')
  then show ?case by (cases "cr_starter s'") (auto simp: creator_step_def create_inv_def)
next
  case (create_routine s s' s'')
  then show ?case
    by (cases "cr_routine s'") (auto simp: win_routine_step_def create_inv_def WinThread_Detach_def Let_def)
qed

lemma win_thread_runs_once:
  assumes "create_reaches (create_init h new_id task) s"
  shows "cr_ran s \<in> {[], [task]}" "cr_deleted s \<in> {[], cr_ran s}"
    "cr_routine s = R_exit \<Longrightarrow> cr_ran s = [task] \<and> cr_deleted s = [task] \<and> wt_task (cr_thread s) = None"
proof -
  have "create_inv task (create_init h new_id task)" by (simp add: create_inv_def create_init_def)
  from create_inv_reaches[OF assms this] show "cr_ran s \<in> {[], [task]}" "cr_deleted s \<in> {[], cr_ran s}"
    "cr_routine s = R_exit \<Longrightarrow> cr_ran s = [task] \<and> cr_deleted s = [task] \<and> wt_task (cr_thread s) = None"
    by (cases "cr_routine s"; simp add: create_inv_def)+
qed

text \<open>
  When the new thread is over before the creator stores the handle, the object keeps the handle of a
  thread that is gone: it says it is running, and \<^verbatim>\<open>Run\<close> refuses every other task.
\<close>

fun routine_run :: "nat \<Rightarrow> 'task create_state \<Rightarrow> 'task create_state option" where
  "routine_run 0 s = Some s"
| "routine_run (Suc k) s = (case win_routine_step s of None \<Rightarrow> None | Some s1 \<Rightarrow> routine_run k s1)"

lemma routine_run_reaches: "routine_run k s1 = Some s2 \<Longrightarrow> create_reaches s s1 \<Longrightarrow> create_reaches s s2"
  by (induction k arbitrary: s1) (auto intro: create_routine split: option.splits)

lemma win_thread_object_lost:
  "\<exists>s. create_reaches (create_init h new_id task) s \<and> cr_starter s = Cr_returned \<and> cr_routine s = R_exit \<and>
     wt_running (cr_thread s) \<and> (\<forall>created func. fst (WinThread_Run created func (cr_thread s)) = False)"
proof -
  let ?th = "\<lparr>wt_id = new_id, wt_task = None, wt_running = False, wt_handle = None\<rparr>"
  let ?s = "\<lambda>th c. \<lparr>cr_thread = th, cr_starter = c, cr_routine = R_exit, cr_ran = [task], cr_deleted = [task]\<rparr>"
  have "routine_run 6 (create_init h new_id task) = Some (?s ?th (Cr_store h))"
    by (simp add: numeral_eq_Suc create_init_def win_routine_step_def WinThread_Detach_def Let_def)
  then have "create_reaches (create_init h new_id task) (?s ?th (Cr_store h))"
    using routine_run_reaches create_here by blast
  from create_starter[OF this, of "?s (?th\<lparr>wt_handle := Some h\<rparr>) Cr_set_running"]
  have "create_reaches (create_init h new_id task) (?s (?th\<lparr>wt_handle := Some h\<rparr>) Cr_set_running)"
    by (simp add: creator_step_def)
  from create_starter[OF this, of "?s (?th\<lparr>wt_handle := Some h, wt_running := True\<rparr>) Cr_returned"]
  have "create_reaches (create_init h new_id task) (?s (?th\<lparr>wt_handle := Some h, wt_running := True\<rparr>) Cr_returned)"
    by (simp add: creator_step_def)
  then show ?thesis
    by (rule exI[of _ "?s (?th\<lparr>wt_handle := Some h, wt_running := True\<rparr>) Cr_returned", OF conjI])
      (auto simp: WinThread_Run_def split: option.splits)
qed

end
