(* ===== verification/Common.thy ===== *)
theory Common
  imports Prelude
begin

text \<open>
  Small helpers: \<^verbatim>\<open>Random\<close> (\<^verbatim>\<open>elegance/common/random.*\<close>), \<^verbatim>\<open>Timer\<close> and \<^verbatim>\<open>SystemInfo\<close>
  (\<^verbatim>\<open>elegance/platform/common\<close>) and \<^verbatim>\<open>DebugMessage\<close> (\<^verbatim>\<open>elegance/common/debug_message.*\<close>). What the system
  returns (\<^verbatim>\<open>rand\<close>, \<^verbatim>\<open>gettimeofday\<close>, \<^verbatim>\<open>sysconf\<close>) is an argument; on the target \<^verbatim>\<open>RAND_MAX\<close> is the largest
  \<^verbatim>\<open>int\<close>.
\<close>

section \<open>Random numbers\<close>

definition RAND_MAX :: int where "RAND_MAX = INT_MAX"

text \<open>
  \<open>r1\<close> and \<open>r2\<close> are what \<^verbatim>\<open>rand()\<close> returns, \<open>now\<close> the time; the result carries the seed flag and the
  seed that was set, if any. Shifting a value out of an \<^verbatim>\<open>int\<close> is undefined.
\<close>

definition RandomNum :: "int \<Rightarrow> int \<Rightarrow> int \<Rightarrow> int \<Rightarrow> int \<Rightarrow> bool \<Rightarrow> (int \<times> bool \<times> int option) res" where
  "RandomNum now r1 r2 min_num0 max_num0 has_set_seed =
     (let (min_num, max_num) = (if max_num0 < min_num0 then (max_num0, min_num0) else (min_num0, max_num0));
          seed = (if has_set_seed then None else Some (uint (word_of_int now :: u32)))
      in bind_res (c_int (max_num - min_num)) (\<lambda>interval_num.
         if interval_num < RAND_MAX then
           (if interval_num = 0 then Inl DivisionByZero
            else bind_res (c_int (min_num + r1 smod interval_num)) (\<lambda>v. Inr (v, True, seed)))
         else
           bind_res (c_int (r1 * 65536)) (\<lambda>hi.
           bind_res (c_int (hi + r2)) (\<lambda>rand_num0.
           bind_res (if rand_num0 < 0 then c_int (- rand_num0) else Inr rand_num0) (\<lambda>rand_num.
           bind_res (c_int (min_num + rand_num smod interval_num)) (\<lambda>v. Inr (v, True, seed)))))))"

definition RandomNum_below :: "int \<Rightarrow> int \<Rightarrow> int \<Rightarrow> int \<Rightarrow> bool \<Rightarrow> (int \<times> bool \<times> int option) res" where
  "RandomNum_below now r1 r2 max_num has_set_seed = RandomNum now r1 r2 0 max_num has_set_seed"

section \<open>Time and system\<close>

text \<open>\<^verbatim>\<open>usleep\<close> gets \<^verbatim>\<open>milliseconds * 1000\<close>, computed in 32 bits.\<close>

definition Timer_Sleep :: "u32 \<Rightarrow> u32" where
  "Timer_Sleep milliseconds = milliseconds * 1000"

definition GetNowTimeS :: "int \<Rightarrow> int" where
  "GetNowTimeS now = now"

definition GetNowTimeMS :: "int \<Rightarrow> int \<Rightarrow> u64" where
  "GetNowTimeMS tv_sec tv_usec = word_of_int (tv_sec * 1000 + tv_usec sdiv 1000)"

definition GetCPUNum :: "int \<Rightarrow> int" where
  "GetCPUNum sc_nprocessors_onln = to_int32 sc_nprocessors_onln"

text \<open>On Windows \<^verbatim>\<open>Sleep\<close> takes milliseconds as they are, and the time is local time put through \<^verbatim>\<open>mktime\<close>.\<close>

definition Timer_Sleep_win :: "u32 \<Rightarrow> u32" where
  "Timer_Sleep_win milliseconds = milliseconds"

record system_time =
  wYear :: int
  wMonth :: int
  wDay :: int
  wHour :: int
  wMinute :: int
  wSecond :: int
  wMilliseconds :: int

record tm =
  tm_year :: int
  tm_mon :: int
  tm_mday :: int
  tm_hour :: int
  tm_min :: int
  tm_sec :: int
  tm_isdst :: int

definition local_tm :: "system_time \<Rightarrow> tm" where
  "local_tm wtm = \<lparr>tm_year = wYear wtm - 1900, tm_mon = wMonth wtm - 1, tm_mday = wDay wtm, tm_hour = wHour wtm,
     tm_min = wMinute wtm, tm_sec = wSecond wtm, tm_isdst = - 1\<rparr>"

definition GetNowTimeMS_win :: "(tm \<Rightarrow> int) \<Rightarrow> system_time \<Rightarrow> u64" where
  "GetNowTimeMS_win mktime wtm = word_of_int (mktime (local_tm wtm) * 1000 + wMilliseconds wtm)"

definition GetCPUNum_win :: "u32 \<Rightarrow> int" where
  "GetCPUNum_win dwNumberOfProcessors = to_int32 (uint dwNumberOfProcessors)"

section \<open>Debug messages\<close>

datatype DebugMessageType =
  DEBUG_INVALID | DEBUG_THREAD | DEBUG_BASE_NETWORK | DEBUG_REMOTE_PROCEDURE_CALL | DEBUG_BYTE_ARRAY | DEBUG_TYPE_COUNT

datatype DebugMessageCharacter = DEBUG_HEAD | DEBUG_ENDL

record debug_state =
  onshow_type_set :: "DebugMessageType set"
  msg_type_to_head_str_map :: "DebugMessageType \<rightharpoonup> std_string"
  console :: "std_string list"

record DebugMessage =
  debug_type :: DebugMessageType
  debug_stream :: std_string

definition InitMessageTypeStr :: "debug_state \<Rightarrow> debug_state" where
  "InitMessageTypeStr d = d\<lparr>msg_type_to_head_str_map := (msg_type_to_head_str_map d)
     (DEBUG_THREAD \<mapsto> str ''[thread] '', DEBUG_BASE_NETWORK \<mapsto> str ''[network] '',
      DEBUG_REMOTE_PROCEDURE_CALL \<mapsto> str ''[rpc] '')\<rparr>"

definition DebugMessage_new :: "DebugMessageType \<Rightarrow> debug_state \<Rightarrow> DebugMessage \<times> debug_state" where
  "DebugMessage_new ty d = (\<lparr>debug_type = ty, debug_stream = []\<rparr>, InitMessageTypeStr d)"

definition SetMsgType :: "DebugMessageType \<Rightarrow> DebugMessage \<Rightarrow> DebugMessage" where
  "SetMsgType ty msg = msg\<lparr>debug_type := ty\<rparr>"

definition SetOnshowType :: "DebugMessageType \<Rightarrow> bool \<Rightarrow> debug_state \<Rightarrow> debug_state" where
  "SetOnshowType ty show_it d =
     (if show_it then d\<lparr>onshow_type_set := insert ty (onshow_type_set d)\<rparr>
      else if ty \<in> onshow_type_set d then d\<lparr>onshow_type_set := onshow_type_set d - {ty}\<rparr>
      else d)"

definition ShowMessage :: "DebugMessageType \<Rightarrow> std_string \<Rightarrow> debug_state \<Rightarrow> debug_state" where
  "ShowMessage ty msg d =
     (if ty \<in> onshow_type_set d then
        let head = (case msg_type_to_head_str_map d ty of None \<Rightarrow> [] | Some h \<Rightarrow> h)
        in d\<lparr>msg_type_to_head_str_map := (msg_type_to_head_str_map d)(ty \<mapsto> head), console := console d @ [head @ msg]\<rparr>
      else d)"

definition debug_put :: "std_string \<Rightarrow> DebugMessage \<Rightarrow> debug_state \<Rightarrow> DebugMessage" where
  "debug_put v msg d =
     (if debug_type msg \<in> onshow_type_set d then msg\<lparr>debug_stream := debug_stream msg @ v\<rparr> else msg)"

text \<open>\<^verbatim>\<open>stream_.clear()\<close> resets the error flags of the stream and keeps its contents.\<close>

definition debug_char :: "DebugMessageCharacter \<Rightarrow> DebugMessage \<Rightarrow> debug_state \<Rightarrow> DebugMessage \<times> debug_state" where
  "debug_char c msg d =
     (if debug_type msg \<in> onshow_type_set d then
        (case c of
           DEBUG_HEAD \<Rightarrow> (msg, d)
         | DEBUG_ENDL \<Rightarrow> (msg, d\<lparr>console := console d @ [debug_stream msg]\<rparr>))
      else (msg, d))"

section \<open>Properties\<close>

text \<open>
  C29: \<^verbatim>\<open>RandomNum\<close> stays in its interval exactly when the bounds allow it: for two different bounds
  less than \<^verbatim>\<open>INT_MAX\<close> apart the result, whatever \<^verbatim>\<open>rand\<close> returns, is at least the smaller and less
  than the larger one; equal bounds divide by zero, and bounds more than \<^verbatim>\<open>INT_MAX\<close> apart overflow.
\<close>

theorem random_in_interval:
  assumes "INT_MIN \<le> a" and "a \<le> INT_MAX" and "INT_MIN \<le> b" and "b \<le> INT_MAX"
    and "0 \<le> r1" and "r1 \<le> RAND_MAX"
  shows "(a \<noteq> b \<and> \<bar>b - a\<bar> < INT_MAX \<longrightarrow>
      (\<exists>v seed. RandomNum now r1 r2 a b flag = Inr (v, True, seed) \<and> min a b \<le> v \<and> v < max a b)) \<and>
    (a = b \<longrightarrow> RandomNum now r1 r2 a b flag = Inl DivisionByZero) \<and>
    (\<bar>b - a\<bar> > INT_MAX \<longrightarrow> RandomNum now r1 r2 a b flag = Inl SignedOverflow)"
proof -
  define lo hi where "lo = min a b" and "hi = max a b"
  have p: "(if b < a then (b, a) else (a, b)) = (lo, hi)" by (auto simp: lo_def hi_def)
  have d: "\<bar>b - a\<bar> = hi - lo" "lo \<le> hi" by (auto simp: lo_def hi_def)
  have r: "INT_MIN \<le> lo" "hi \<le> INT_MAX" using assms by (auto simp: lo_def hi_def)
  have m: "0 \<le> r1 smod k \<and> r1 smod k < k" if "0 < k" for k
    using that assms(5) by (simp add: signed_modulo_int_def sgn_if)
  have "\<exists>v seed. RandomNum now r1 r2 a b flag = Inr (v, True, seed) \<and> lo \<le> v \<and> v < hi"
    if "lo < hi" "hi - lo < INT_MAX"
    using that m[of "hi - lo"] r
    by (simp add: RandomNum_def p c_int_def RAND_MAX_def INT_MIN_def INT_MAX_def Let_def del: split_paired_Ex)
  moreover have "RandomNum now r1 r2 a b flag = Inl DivisionByZero" if "lo = hi"
    using that by (simp add: RandomNum_def p c_int_def RAND_MAX_def INT_MIN_def INT_MAX_def Let_def)
  moreover have "RandomNum now r1 r2 a b flag = Inl SignedOverflow" if "hi - lo > INT_MAX"
    using that by (simp add: RandomNum_def p c_int_def)
  ultimately show ?thesis using d by (auto simp: lo_def hi_def)
qed

theorem random_in_interval_witness:
  "\<exists>v seed. RandomNum 0 12345 0 10 3 False = Inr (v, True, seed) \<and> 3 \<le> v \<and> v < 10"
  using random_in_interval [of 10 3 12345 0 0 False] by (simp add: INT_MIN_def INT_MAX_def RAND_MAX_def)

text \<open>Sleeping for as long as asked needs at most 4294967 milliseconds, about 71 minutes.\<close>

lemma Timer_Sleep_exact_iff: "unat (Timer_Sleep ms) = unat ms * 1000 \<longleftrightarrow> unat ms \<le> 4294967"
proof
  assume "unat (Timer_Sleep ms) = unat ms * 1000"
  then have "unat ms * 1000 < 2 ^ 32" using unat_bound[of "Timer_Sleep ms"] by simp
  then show "unat ms \<le> 4294967" by simp
next
  assume "unat ms \<le> 4294967"
  then have "unat ms * unat (1000 :: u32) < 2 ^ LENGTH(32)" by simp
  then show "unat (Timer_Sleep ms) = unat ms * 1000"
    unfolding Timer_Sleep_def by (subst (asm) unat_mult_lem) simp
qed

text \<open>
  Nothing is printed for a type that is not shown; and since \<^verbatim>\<open>clear\<close> does not empty the stream, an
  object used for a second line prints the first one again.
\<close>

lemma hidden_type_prints_nothing:
  "ty \<notin> onshow_type_set d \<Longrightarrow> debug_type msg = ty \<Longrightarrow> console (snd (debug_char c (debug_put v msg d) d)) = console d"
  by (simp add: debug_char_def debug_put_def)

lemma second_line_repeats_first:
  assumes "debug_type msg \<in> onshow_type_set d" and "debug_stream msg = []"
  shows "let (m1, d1) = debug_char DEBUG_ENDL (debug_put x msg d) d;
             (m2, d2) = debug_char DEBUG_ENDL (debug_put y m1 d1) d1
         in console d2 = console d @ [x, x @ y]"
  using assms by (simp add: debug_char_def debug_put_def)

end
