(* ===== verification/Tools.thy ===== *)
theory Tools
  imports Prelude
begin

text \<open>
  \<^verbatim>\<open>BytesToSizeStr\<close> (\<^verbatim>\<open>elegance/common/tools.cpp\<close>). A \<^verbatim>\<open>long double\<close> holds every 64 bit number, the units are powers of
  two, and below the size at which the conversion to \<^verbatim>\<open>int\<close> overflows ten times the size and a half
  more still fit its mantissa, so the arithmetic up to that conversion is exact and is done here in
  integers. The number of tenths is then printed with the default precision of a stream, six
  significant digits.
\<close>

section \<open>Printing\<close>

text \<open>\<open>k\<close> tenths with \<open>%g\<close>, exact below 100000.0.\<close>

definition tenths :: "nat \<Rightarrow> std_string" where
  "tenths k = decimal (k div 10) @ (if k mod 10 = 0 then [] else str ''.'' @ decimal (k mod 10))"

definition round_half_even :: "nat \<Rightarrow> nat \<Rightarrow> nat" where
  "round_half_even k q =
     (let d = k div q; r = k mod q
      in if 2 * r < q \<or> 2 * r = q \<and> even d then d else d + 1)"

fun strip_zeros :: "nat \<Rightarrow> nat" where
  "strip_zeros n = (if n \<noteq> 0 \<and> n mod 10 = 0 then strip_zeros (n div 10) else n)"

declare strip_zeros.simps [simp del]

text \<open>Six digits \<open>m\<close> in scientific notation.\<close>

definition scientific :: "nat \<Rightarrow> nat \<Rightarrow> std_string" where
  "scientific m x =
     (case decimal (strip_zeros m) of
        [] \<Rightarrow> []
      | a # rest \<Rightarrow> [a] @ (if rest = [] then [] else str ''.'' @ rest) @ str ''e+'' @ (if x < 10 then str ''0'' else []) @ decimal x)"

definition print_tenths :: "nat \<Rightarrow> std_string" where
  "print_tenths k =
     (if k < 1000000 then tenths k
      else
        let d = length (decimal k);
            m = round_half_even k (10 ^ (d - 6));
            (m1, x) = (if m = 1000000 then (100000, d - 1) else (m, d - 2))
        in if x < 6 then decimal m1 else scientific m1 x)"

section \<open>Sizes\<close>

definition size_unit :: "u64 \<Rightarrow> nat \<times> std_string" where
  "size_unit sz =
     (let KB = 1024; MB = KB * 1024; GB = MB * 1024
      in if GB < unat sz then (GB, str ''GB'')
         else if MB < unat sz then (MB, str ''MB'')
         else if KB < unat sz then (KB, str ''KB'')
         else (1, str ''B''))"

text \<open>\<^verbatim>\<open>int(file_size * 10 + 0.5)\<close>\<close>

definition size_tenths :: "u64 \<Rightarrow> int res" where
  "size_tenths sz = (let u = fst (size_unit sz) in c_int (int ((20 * unat sz + u) div (2 * u))))"

definition BytesToSizeStr :: "u64 \<Rightarrow> std_string res" where
  "BytesToSizeStr sz = bind_res (size_tenths sz) (\<lambda>k. Inr (print_tenths (nat k) @ snd (size_unit sz)))"

section \<open>Rounding\<close>

lemma size_unit_cases:
  obtains "size_unit sz = (1, str ''B'')" "unat sz \<le> 1024"
  | "size_unit sz = (1024, str ''KB'')" "1024 < unat sz" "unat sz \<le> 1048576"
  | "size_unit sz = (1048576, str ''MB'')" "1048576 < unat sz" "unat sz \<le> 1073741824"
  | "size_unit sz = (1073741824, str ''GB'')" "1073741824 < unat sz"
  by (cases "1073741824 < unat sz"; cases "1048576 < unat sz"; cases "1024 < unat sz"; auto simp: size_unit_def Let_def)

text \<open>Rounding to the nearest tenth of the unit.\<close>

lemma nearest_tenth:
  fixes n u :: nat
  assumes "0 < u"
  shows "2 * u * ((20 * n + u) div (2 * u)) \<le> 20 * n + u" "20 * n < 2 * u * ((20 * n + u) div (2 * u)) + u"
proof -
  let ?k = "(20 * n + u) div (2 * u)" and ?r = "(20 * n + u) mod (2 * u)"
  have e: "2 * u * ?k + ?r = 20 * n + u" by simp
  have r: "?r < 2 * u" using assms by simp
  show "2 * u * ?k \<le> 20 * n + u" using e by linarith
  show "20 * n < 2 * u * ?k + u" using e r by linarith
qed

lemma size_tenths_small:
  assumes "unat sz \<le> 107374182400000"
  shows "(20 * unat sz + fst (size_unit sz)) div (2 * fst (size_unit sz)) \<le> 1000000"
proof -
  have "20 * unat sz + fst (size_unit sz) \<le> 2 * fst (size_unit sz) * 1000000 + fst (size_unit sz)"
    using assms by (cases rule: size_unit_cases[of sz]) auto
  then show ?thesis by (cases rule: size_unit_cases[of sz]) auto
qed

lemma print_tenths_exact: "k \<le> 1000000 \<Longrightarrow> print_tenths k = tenths k"
proof (cases "k = 1000000")
  case True
  have "length (decimal 1000000) = 7" by (simp add: decimal.simps)
  with True show ?thesis by (simp add: print_tenths_def tenths_def round_half_even_def)
qed (simp add: print_tenths_def)

lemma size_str_defined:
  "is_ok (BytesToSizeStr sz) \<longleftrightarrow> (20 * unat sz + fst (size_unit sz)) div (2 * fst (size_unit sz)) \<le> 2147483647"
  by (simp add: BytesToSizeStr_def size_tenths_def Let_def is_ok_def bind_res_def c_int_def INT_MAX_def INT_MIN_def
      zdiv_int[symmetric] del: of_nat_div split: sum.splits)

lemma size_str_overflow: "is_ok (BytesToSizeStr sz) \<longleftrightarrow> unat sz < 230584300867682304"
  unfolding size_str_defined
proof (cases rule: size_unit_cases[of sz])
  case 4
  have "(20 * unat sz + 1073741824) div 2147483648 < 2147483648 \<longleftrightarrow> 20 * unat sz + 1073741824 < 2147483648 * 2147483648"
    by (rule div_less_iff_less_mult) simp
  also have "\<dots> \<longleftrightarrow> unat sz < 230584300867682304" by auto
  finally show "(20 * unat sz + fst (size_unit sz)) div (2 * fst (size_unit sz)) \<le> 2147483647 \<longleftrightarrow> unat sz < 230584300867682304"
    using 4(1) by auto
qed auto

section \<open>Properties\<close>

text \<open>
  C30: \<^verbatim>\<open>BytesToSizeStr\<close> is defined exactly for sizes below about 205 petabytes; beyond, the number of tenths
  leaves \<^verbatim>\<open>int\<close>. For every size up to 100000 GB the text is a number of tenths and a unit, the unit is the
  largest one below the size (bytes when there is none), and the number is the one nearest to the
  size, at most half a tenth of the unit away.
\<close>

theorem size_str_nearest:
  "(is_ok (BytesToSizeStr sz) \<longleftrightarrow> unat sz < 230584300867682304) \<and>
   (unat sz \<le> 107374182400000 \<longrightarrow>
     (\<exists>k u name. BytesToSizeStr sz = Inr (tenths k @ name) \<and>
        (u, name) \<in> {(1, str ''B''), (1024, str ''KB''), (1024 ^ 2, str ''MB''), (1024 ^ 3, str ''GB'')} \<and>
        (u = 1 \<or> u < unat sz) \<and> (unat sz \<le> 1024 * u \<or> u = 1024 ^ 3) \<and>
        2 * u * k \<le> 20 * unat sz + u \<and> 20 * unat sz \<le> 2 * u * k + u))"
proof (rule conjI[OF size_str_overflow], rule impI)
  assume small: "unat sz \<le> 107374182400000"
  obtain u name where u: "size_unit sz = (u, name)" by fastforce
  let ?k = "(20 * unat sz + u) div (2 * u)"
  have k: "?k \<le> 1000000" using size_tenths_small[OF small] u by simp
  then have "size_tenths sz = Inr (int ?k)"
    using u by (simp add: size_tenths_def c_int_def INT_MAX_def INT_MIN_def del: of_nat_div)
  then have "BytesToSizeStr sz = Inr (tenths ?k @ name)"
    using u print_tenths_exact[OF k] by (simp add: BytesToSizeStr_def bind_res_def del: of_nat_div)
  moreover have "(u, name) \<in> {(1, str ''B''), (1024, str ''KB''), (1024 ^ 2, str ''MB''), (1024 ^ 3, str ''GB'')}"
    "u = 1 \<or> u < unat sz" "unat sz \<le> 1024 * u \<or> u = 1024 ^ 3" "0 < u"
    using u by (cases rule: size_unit_cases[of sz]; auto)+
  moreover note nearest_tenth[of u "unat sz"]
  ultimately show "\<exists>k u name. BytesToSizeStr sz = Inr (tenths k @ name) \<and>
        (u, name) \<in> {(1, str ''B''), (1024, str ''KB''), (1024 ^ 2, str ''MB''), (1024 ^ 3, str ''GB'')} \<and>
        (u = 1 \<or> u < unat sz) \<and> (unat sz \<le> 1024 * u \<or> u = 1024 ^ 3) \<and>
        2 * u * k \<le> 20 * unat sz + u \<and> 20 * unat sz \<le> 2 * u * k + u"
    by (intro exI[of _ ?k] exI[of _ u] exI[of _ name]) simp
qed

theorem size_str_nearest_witness:
  "\<exists>k u name. BytesToSizeStr 1536 = Inr (tenths k @ name) \<and> 2 * u * k \<le> 20 * 1536 + u \<and> 20 * 1536 \<le> 2 * u * k + (u :: nat)"
  using size_str_nearest [of 1536] by auto

end
