(* ===== verification/Mysql.thy ===== *)
theory Mysql
  imports MemPool
begin

text \<open>
  \<^verbatim>\<open>MysqlConnector\<close> (\<^verbatim>\<open>database/mysql_connector.*\<close>). The MySQL client library is not part of the
  repository: what its functions return is an argument of the operations, and the calls made of it
  are returned as a list. A column of a row is a NUL terminated object, or nothing for an SQL NULL, as
  the manual of \<^verbatim>\<open>mysql_fetch_row\<close> has it. Chunks come from the \<^verbatim>\<open>MemoryPoolManager\<close>, and the
  bytes in them are part of the state.
\<close>

section \<open>Numbers in text\<close>

definition is_space :: "byte \<Rightarrow> bool" where
  "is_space b = (b = 32 \<or> (9 \<le> b \<and> b \<le> 13))"

definition is_digit :: "byte \<Rightarrow> bool" where
  "is_digit b = (48 \<le> b \<and> b \<le> 57)"

text \<open>The number at the start of a text: white space, a sign, digits.\<close>

definition leading_number :: "std_string \<Rightarrow> int" where
  "leading_number s = (let t = dropWhile is_space s in
     case t of
       [] \<Rightarrow> 0
     | c # u \<Rightarrow>
         if c = 45 then - int (undecimal (takeWhile is_digit u))
         else if c = 43 then int (undecimal (takeWhile is_digit u))
         else int (undecimal (takeWhile is_digit t)))"

text \<open>A value outside the range of the result is undefined.\<close>

definition atoi :: "byte list \<Rightarrow> int res" where
  "atoi data = bind_res (c_string data) (\<lambda>s. c_int (leading_number s))"

definition atoll :: "byte list \<Rightarrow> int res" where
  "atoll data = bind_res (c_string data) (\<lambda>s.
     if - (2 ^ 63) \<le> leading_number s \<and> leading_number s < 2 ^ 63 then Inr (leading_number s)
     else Inl SignedOverflow)"

section \<open>Descriptions and nodes\<close>

datatype MysqlType = TYPE_INVALID | INT8 | INT16 | INT32 | INT64 | STRING | BINARY_DATA

record MysqlNodeDescribe =
  nd_name :: std_string
  nd_type :: MysqlType
  nd_data_length :: int

definition MysqlNodeDescribe_new :: MysqlNodeDescribe where
  "MysqlNodeDescribe_new = \<lparr>nd_name = [], nd_type = TYPE_INVALID, nd_data_length = 0\<rparr>"

record MysqlTableDescribe =
  node_list :: "MysqlNodeDescribe list"

text \<open>The union of a node, as the member last written.\<close>

datatype node_union = Int8 byte | Int16 u16 | Int32 u32 | Int64 u64 | Data "mem_ptr option"

record MysqlNodeData =
  node_value :: node_union
  node_data_length :: u32

definition MysqlNodeData_Reset :: MysqlNodeData where
  "MysqlNodeData_Reset = \<lparr>node_value = Int64 0, node_data_length = 0\<rparr>"

definition DataLength :: "MysqlNodeData \<Rightarrow> u32" where
  "DataLength node = node_data_length node"

text \<open>The memory a node can point into: the pools and the bytes of every block.\<close>

record mysql_memory =
  pools :: "heap \<times> MemoryPoolManager"
  contents :: "nat \<Rightarrow> int \<Rightarrow> byte"

definition mem_store :: "mem_ptr \<Rightarrow> byte list \<Rightarrow> mysql_memory \<Rightarrow> mysql_memory res" where
  "mem_store p bs m =
     (if chunk_valid (fst (pools m)) p (int (length bs))
      then Inr (m\<lparr>contents := (\<lambda>b i. if b = fst p \<and> snd p \<le> i \<and> i < snd p + int (length bs)
        then bs ! nat (i - snd p) else contents m b i)\<rparr>)
      else Inl OutOfBounds)"

definition deref :: "'a option \<Rightarrow> 'a res" where
  "deref p = (case p of None \<Rightarrow> Inl NullPointer | Some x \<Rightarrow> Inr x)"

definition ChangeDataLength ::
  "thread_id \<Rightarrow> int \<Rightarrow> MysqlNodeData \<Rightarrow> mysql_memory \<Rightarrow> (MysqlNodeData \<times> mysql_memory) res" where
  "ChangeDataLength t len node m =
     bind_res
       (if 0 < node_data_length node then
          (case node_value node of
             Data (Some p) \<Rightarrow> bind_res (MemoryPoolManager_Free t p (pools m)) (\<lambda>(_, ps). Inr (m\<lparr>pools := ps\<rparr>))
           | Data None \<Rightarrow> Inr m
           | _ \<Rightarrow> Inl InactiveMember)
        else Inr m)
       (\<lambda>m1. let data_length = word_of_int len in
          if data_length = 0 then Inr (\<lparr>node_value = Data None, node_data_length = data_length\<rparr>, m1)
          else bind_res (MemoryPoolManager_Alloc t len (pools m1)) (\<lambda>(p, ps).
            Inr (\<lparr>node_value = Data (Some p), node_data_length = data_length\<rparr>, m1\<lparr>pools := ps\<rparr>)))"

section \<open>The connector\<close>

record MysqlConnector =
  is_connected :: bool

datatype mysql_call =
    MysqlInit
  | MysqlRealConnect std_string std_string std_string std_string u32
  | MysqlClose
  | MysqlQuery std_string
  | MysqlFreeResult
  | Print std_string

definition MysqlConnector_new :: MysqlConnector where
  "MysqlConnector_new = \<lparr>is_connected = False\<rparr>"

text \<open>What a C function sees of \<^verbatim>\<open>c_str()\<close>.\<close>

definition c_str :: "std_string \<Rightarrow> std_string" where
  "c_str s = takeWhile (\<lambda>b. b \<noteq> 0) s"

definition MysqlConnector_Disconnect :: "MysqlConnector \<Rightarrow> MysqlConnector \<times> mysql_call list" where
  "MysqlConnector_Disconnect c = (if is_connected c then (c\<lparr>is_connected := False\<rparr>, [MysqlClose]) else (c, []))"

text \<open>\<open>ok\<close> is what \<^verbatim>\<open>mysql_real_connect\<close> returned; the port is a \<^verbatim>\<open>short\<close> passed as \<^verbatim>\<open>unsigned int\<close>.\<close>

definition MysqlConnector_Connect ::
  "bool \<Rightarrow> std_string \<Rightarrow> u16 \<Rightarrow> std_string \<Rightarrow> std_string \<Rightarrow> std_string \<Rightarrow> MysqlConnector \<Rightarrow>
   bool \<times> MysqlConnector \<times> mysql_call list" where
  "MysqlConnector_Connect ok host port user passwd db_name c =
     (let (c1, acts) = MysqlConnector_Disconnect c;
          calls = acts @ [MysqlInit, MysqlRealConnect (c_str host) (c_str user) (c_str passwd) (c_str db_name) (scast port)]
      in if ok then (True, c1\<lparr>is_connected := True\<rparr>, calls) else (False, c1, calls))"

definition MysqlConnector_IsConnected :: "MysqlConnector \<Rightarrow> bool" where
  "MysqlConnector_IsConnected c = is_connected c"

text \<open>\<open>ret\<close> is what \<^verbatim>\<open>mysql_query\<close> returned, \<open>affected\<close> what \<^verbatim>\<open>mysql_affected_rows\<close> does after it.\<close>

definition MysqlConnector_Query :: "int \<Rightarrow> u64 \<Rightarrow> std_string \<Rightarrow> MysqlConnector \<Rightarrow> int \<times> mysql_call list" where
  "MysqlConnector_Query ret affected command c =
     (if \<not> is_connected c then (- 1, [])
      else if ret \<noteq> 0 then (- 1, [MysqlQuery (c_str command)])
      else (to_int32 (uint affected), [MysqlQuery (c_str command)]))"

definition MysqlConnector_Query_stmt :: "MysqlConnector \<Rightarrow> int" where
  "MysqlConnector_Query_stmt c = - 1"

type_synonym column = "byte list option"

definition MallocAndSetNodeData ::
  "thread_id \<Rightarrow> MysqlNodeDescribe \<Rightarrow> column \<Rightarrow> int \<Rightarrow> MysqlNodeData \<Rightarrow> mysql_memory \<Rightarrow>
   (MysqlNodeData \<times> mysql_memory) res" where
  "MallocAndSetNodeData t d data data_length node m = (case nd_type d of
       INT8 \<Rightarrow>
         if 0 < data_length
         then bind_res (deref data) (\<lambda>bs. bind_res (read_mem bs 0 1) (\<lambda>cs. Inr (node\<lparr>node_value := Int8 (hd cs)\<rparr>, m)))
         else Inr (node, m)
     | INT16 \<Rightarrow>
         if 0 < data_length
         then bind_res (deref data) (\<lambda>bs. bind_res (atoi bs) (\<lambda>v. Inr (node\<lparr>node_value := Int16 (word_of_int v)\<rparr>, m)))
         else Inr (node, m)
     | INT32 \<Rightarrow>
         if 0 < data_length
         then bind_res (deref data) (\<lambda>bs. bind_res (atoi bs) (\<lambda>v. Inr (node\<lparr>node_value := Int32 (word_of_int v)\<rparr>, m)))
         else Inr (node, m)
     | INT64 \<Rightarrow>
         if 0 < data_length
         then bind_res (deref data) (\<lambda>bs. bind_res (atoll bs) (\<lambda>v. Inr (node\<lparr>node_value := Int64 (word_of_int v)\<rparr>, m)))
         else Inr (node, m)
     | TYPE_INVALID \<Rightarrow> Inr (node, m)
     | _ \<Rightarrow>
         let copy_len = (if nd_data_length d \<le> data_length then nd_data_length d else data_length) in
         if 0 < copy_len then
           bind_res (ChangeDataLength t copy_len node m) (\<lambda>(node1, m1).
             case node_value node1 of
               Data p0 \<Rightarrow>
                 bind_res (deref p0) (\<lambda>p. bind_res (deref data) (\<lambda>bs. bind_res (read_mem bs 0 copy_len) (\<lambda>src.
                 bind_res (mem_store p src m1) (\<lambda>m2. Inr (node1, m2)))))
             | _ \<Rightarrow> Inl InactiveMember)
         else Inr (node, m))"

text \<open>\<^verbatim>\<open>printf("%s\t\t", ...)\<close>: passing a null pointer is undefined.\<close>

definition print_column :: "column \<Rightarrow> mysql_call res" where
  "print_column data = bind_res (deref data) (\<lambda>bs. bind_res (c_string bs) (\<lambda>s. Inr (Print (s @ [9, 9]))))"

fun fetch_fields ::
  "thread_id \<Rightarrow> MysqlNodeDescribe list \<Rightarrow> column list \<Rightarrow> u64 list \<Rightarrow> mysql_memory \<Rightarrow>
   (MysqlNodeData list \<times> mysql_memory \<times> mysql_call list) res" where
  "fetch_fields t [] vs ls m = Inr ([], m, [])"
| "fetch_fields t (d # ds) (v # vs) (l # ls) m =
     bind_res (MallocAndSetNodeData t d v (to_int32 (uint l)) MysqlNodeData_Reset m) (\<lambda>(node, m1).
     bind_res (print_column v) (\<lambda>out1.
     bind_res (fetch_fields t ds vs ls m1) (\<lambda>(nodes, m2, out). Inr (node # nodes, m2, out1 # out))))"
| "fetch_fields t (d # ds) _ _ m = Inl OutOfBounds"

text \<open>
  A stored result: the number of columns, the rows, and the array \<^verbatim>\<open>mysql_fetch_lengths\<close> pointed to
  after the first row, by what it holds while the loop is at row \<open>k\<close>. The code asks for the array once; the
  library documents what it holds for the row that was current then, \<open>k = 0\<close>, and nothing for the later ones.
\<close>

record stored_result =
  num_fields :: u32
  rows :: "column list list"
  length_list :: "nat \<Rightarrow> u64 list"

record MysqlResult =
  row_list :: "MysqlNodeData list list"

fun fetch_rows ::
  "thread_id \<Rightarrow> MysqlNodeDescribe list \<Rightarrow> (nat \<Rightarrow> u64 list) \<Rightarrow> nat \<Rightarrow> column list list \<Rightarrow> MysqlResult \<Rightarrow> mysql_memory \<Rightarrow>
   (MysqlResult \<times> mysql_memory \<times> mysql_call list) res" where
  "fetch_rows t ds lens k [] res m = Inr (res, m, [])"
| "fetch_rows t ds lens k (sql_row # sql_rows) res m =
     bind_res (fetch_fields t ds sql_row (lens k) m) (\<lambda>(nodes, m1, out1).
     bind_res (fetch_rows t ds lens (Suc k) sql_rows (res\<lparr>row_list := row_list res @ [nodes]\<rparr>) m1) (\<lambda>(res2, m2, out).
       Inr (res2, m2, out1 @ [Print [10]] @ out)))"

definition FetchQueryResult ::
  "thread_id \<Rightarrow> stored_result option \<Rightarrow> MysqlTableDescribe \<Rightarrow> MysqlResult \<Rightarrow> mysql_memory \<Rightarrow>
   (bool \<times> MysqlResult \<times> mysql_memory \<times> mysql_call list) res" where
  "FetchQueryResult t mysql_result describe query_result m = (case mysql_result of
       None \<Rightarrow> Inr (False, query_result, m, [])
     | Some r \<Rightarrow>
         let head = Print (str ''the result number is '' @ decimal (length (rows r)) @ [10]);
             field_num = to_int32 (uint (num_fields r)) in
         if to_int32 (int (length (node_list describe))) < field_num then Inr (False, query_result, m, [head])
         else bind_res (fetch_rows t (take (nat field_num) (node_list describe)) (length_list r) 0 (rows r) query_result m)
           (\<lambda>(res, m1, out). Inr (True, res, m1, head # out @ [MysqlFreeResult])))"

section \<open>Numbers are read back\<close>

text \<open>How the server writes a number.\<close>

definition int_text :: "int \<Rightarrow> std_string" where
  "int_text n = (if n < 0 then 45 # decimal (nat (- n)) else decimal (nat n))"

lemma byte_digit:
  assumes "d < 10"
  shows "is_digit (of_nat (48 + d)) \<and> \<not> is_space (of_nat (48 + d)) \<and> of_nat (48 + d) \<noteq> (45 :: byte)
    \<and> of_nat (48 + d) \<noteq> (43 :: byte) \<and> of_nat (48 + d) \<noteq> (0 :: byte)"
proof -
  define w :: byte where "w = of_nat (48 + d)"
  have u: "unat w = 48 + d" unfolding w_def by (rule digit_byte[OF assms])
  have "48 \<le> w" "w \<le> 57" "\<not> w \<le> 13" using u assms by (simp_all add: word_le_nat_alt)
  moreover have "w \<noteq> 32" "w \<noteq> 45" "w \<noteq> 43" "w \<noteq> 0" using u by auto
  ultimately show ?thesis unfolding w_def[symmetric] is_digit_def is_space_def by simp
qed

lemma decimal_all_digits: "b \<in> set (decimal n) \<Longrightarrow> is_digit b \<and> \<not> is_space b \<and> b \<noteq> 45 \<and> b \<noteq> 43 \<and> b \<noteq> 0"
proof -
  assume "b \<in> set (decimal n)"
  then obtain d where d: "d < 10" and b: "b = of_nat (48 + d)" using decimal_digits by blast
  show ?thesis unfolding b by (rule byte_digit[OF d])
qed

lemma decimal_takeWhile [simp]: "takeWhile is_digit (decimal n) = decimal n"
  using decimal_all_digits by (simp add: takeWhile_eq_all_conv)

lemma decimal_nonempty [simp]: "decimal n \<noteq> []"
  by (subst decimal.simps) simp

lemma leading_number_text: "leading_number (int_text n) = n"
proof (cases "n < 0")
  case True
  then show ?thesis by (simp add: leading_number_def int_text_def is_space_def undecimal_decimal del: undecimal.simps)
next
  case False
  obtain c u where c: "decimal (nat n) = c # u" by (cases "decimal (nat n)") auto
  then have "\<not> is_space c" "c \<noteq> 45" "c \<noteq> 43" using decimal_all_digits[of c "nat n"] by auto
  then have "leading_number (int_text n) = int (undecimal (takeWhile is_digit (decimal (nat n))))"
    using False c by (simp add: leading_number_def int_text_def del: undecimal.simps)
  then show ?thesis using False by (simp add: undecimal_decimal del: undecimal.simps)
qed

lemma int_text_no_nul: "0 \<notin> set (int_text n)"
  using decimal_all_digits by (auto simp: int_text_def)

lemma int_text_nonempty [simp]: "int_text n \<noteq> []"
  by (simp add: int_text_def)

lemma c_string_text: "c_string (int_text n @ [0]) = Inr (int_text n)"
  using c_string_append[OF int_text_no_nul] by simp

lemma atoi_text: "INT_MIN \<le> n \<Longrightarrow> n \<le> INT_MAX \<Longrightarrow> atoi (int_text n @ [0]) = Inr n"
  by (simp add: atoi_def c_string_text leading_number_text c_int_ok)

lemma atoll_text: "- (2 ^ 63) \<le> n \<Longrightarrow> n < 2 ^ 63 \<Longrightarrow> atoll (int_text n @ [0]) = Inr n"
  by (simp add: atoll_def c_string_text leading_number_text)

section \<open>Chunks keep their bytes\<close>

definition mem_load :: "mem_ptr \<Rightarrow> nat \<Rightarrow> mysql_memory \<Rightarrow> byte list" where
  "mem_load p n m = map (\<lambda>i. contents m (fst p) (snd p + int i)) [0..<n]"

lemma mem_load_pools [simp]: "mem_load p n (m\<lparr>pools := s\<rparr>) = mem_load p n m"
  by (simp add: mem_load_def)

definition holds_chunk :: "mem_ptr set \<Rightarrow> mysql_memory \<Rightarrow> mem_ptr \<Rightarrow> byte list \<Rightarrow> bool" where
  "holds_chunk A m p bs \<longleftrightarrow> p \<in> A \<and> int (length bs) \<le> chunk_size (pools m) p \<and> mem_load p (length bs) m = bs"

definition mem_extends :: "mem_ptr set \<Rightarrow> mysql_memory \<Rightarrow> mem_ptr set \<Rightarrow> mysql_memory \<Rightarrow> bool" where
  "mem_extends A m A' m' \<longleftrightarrow> (\<forall>p bs. holds_chunk A m p bs \<longrightarrow> holds_chunk A' m' p bs)"

lemma mem_extends_refl: "mem_extends A m A m"
  by (simp add: mem_extends_def)

lemma mem_extends_trans: "mem_extends A m A' m' \<Longrightarrow> mem_extends A' m' A'' m'' \<Longrightarrow> mem_extends A m A'' m''"
  by (simp add: mem_extends_def)

lemma chunk_valid_mono: "chunk_valid h p n \<Longrightarrow> k \<le> n \<Longrightarrow> chunk_valid h p k"
  by (auto simp: chunk_valid_def split: option.splits)

text \<open>An allocation gives a chunk of at least the size asked for and leaves the sizes of the others.\<close>

lemma alloc_sizes:
  assumes "manager_invar A (h, mgr)" and "size_ok sz" and "MemoryPoolManager_Alloc t sz (h, mgr) = Inr (p, s')"
  shows "sz \<le> chunk_size s' p" "q \<noteq> p \<Longrightarrow> chunk_size s' q = chunk_size (h, mgr) q"
proof -
  from fix_size_ok[OF assms(2)] obtain fs where fs: "fix_size sz = Inr fs" "sz < fs" by auto
  obtain h' mgr' where s': "s' = (h', mgr')" by (cases s')
  have "memory_to_size_map mgr' = (memory_to_size_map mgr)(p \<mapsto> fs)"
    using manager_Alloc_sizes[OF _ fs(1)] assms(3) by (simp add: s')
  then have "chunk_size s' p = fs" "q \<noteq> p \<Longrightarrow> chunk_size s' q = chunk_size (h, mgr) q" by (simp_all add: chunk_size_def s')
  with fs(2) show "sz \<le> chunk_size s' p" "q \<noteq> p \<Longrightarrow> chunk_size s' q = chunk_size (h, mgr) q" by simp_all
qed

lemma load_stored:
  assumes "mem_store p bs m = Inr m'"
  shows "mem_load p (length bs) m' = bs"
proof -
  have "contents m' (fst p) (snd p + int i) = bs ! i" if "i < length bs" for i
    using assms that by (auto simp: mem_store_def split: if_splits)
  then show ?thesis by (auto simp: mem_load_def intro: nth_equalityI)
qed

lemma load_other:
  assumes "mem_store p bs m = Inr m'" and "chunks_apart p (int (length bs)) q (int n)"
  shows "mem_load q n m' = mem_load q n m"
  using assms by (auto simp: mem_load_def mem_store_def chunks_apart_def split: if_splits)

lemma alloc_and_store:
  assumes I: "manager_invar A (pools m)" and sz: "size_ok (int (length bs))"
  shows "\<exists>p s' m'. MemoryPoolManager_Alloc t (int (length bs)) (pools m) = Inr (p, s') \<and>
    mem_store p bs (m\<lparr>pools := s'\<rparr>) = Inr m' \<and> manager_invar (insert p A) (pools m') \<and>
    holds_chunk (insert p A) m' p bs \<and> mem_extends A m (insert p A) m'"
proof -
  obtain h mgr where ps: "pools m = (h, mgr)" by (cases "pools m")
  obtain p s' where a: "MemoryPoolManager_Alloc t (int (length bs)) (pools m) = Inr (p, s')"
      and p: "p \<notin> A" and I': "manager_invar (insert p A) s'"
    using manager_alloc_law[OF _ sz, of A h mgr t] I ps by auto
  have I0: "manager_invar A (h, mgr)" and a0: "MemoryPoolManager_Alloc t (int (length bs)) (h, mgr) = Inr (p, s')"
    using I a ps by simp_all
  note size = alloc_sizes[OF I0 sz a0]
  have "chunk_valid (fst s') p (int (length bs))"
    by (rule chunk_valid_mono[OF manager.invar_valid[OF I'] size(1)]) simp
  then obtain m' where s: "mem_store p bs (m\<lparr>pools := s'\<rparr>) = Inr m'" and ps': "pools m' = s'"
    by (simp add: mem_store_def)
  have "holds_chunk (insert p A) m' p bs" using load_stored[OF s] size(1) ps' by (simp add: holds_chunk_def)
  moreover have "mem_extends A m (insert p A) m'" unfolding mem_extends_def
  proof (intro allI impI)
    fix q cs assume q: "holds_chunk A m q cs"
    then have ne: "q \<noteq> p" using p by (auto simp: holds_chunk_def)
    have sq: "int (length cs) \<le> chunk_size s' q" using q size(2)[OF ne] ps by (simp add: holds_chunk_def)
    have "chunks_apart p (chunk_size s' p) q (chunk_size s' q)"
      using manager.invar_apart[OF I', of p q] q ne by (auto simp: holds_chunk_def)
    then have "chunks_apart p (int (length bs)) q (int (length cs))"
      using size(1) sq by (auto simp: chunks_apart_def)
    from load_other[OF s this] q sq ps' show "holds_chunk (insert p A) m' q cs"
      by (simp add: holds_chunk_def)
  qed
  ultimately show ?thesis using a s I' ps' by blast
qed

section \<open>What a row means\<close>

text \<open>Values of a table, their text in a row, and when a description fits them.\<close>

datatype sql_value = SqlInt int | SqlText std_string

fun sql_text :: "sql_value \<Rightarrow> std_string" where
  "sql_text (SqlInt n) = int_text n"
| "sql_text (SqlText bs) = bs"

definition sql_column :: "sql_value \<Rightarrow> column" where
  "sql_column v = Some (sql_text v @ [0])"

definition sql_length :: "sql_value \<Rightarrow> u64" where
  "sql_length v = of_nat (length (sql_text v))"

definition copied :: "MysqlNodeDescribe \<Rightarrow> std_string \<Rightarrow> std_string" where
  "copied d bs = take (nat (nd_data_length d)) bs"

fun value_fits :: "MysqlNodeDescribe \<Rightarrow> sql_value \<Rightarrow> bool" where
  "value_fits d (SqlInt n) \<longleftrightarrow>
     (nd_type d = INT8 \<and> - 128 \<le> n \<and> n \<le> 127) \<or> (nd_type d = INT16 \<and> - 32768 \<le> n \<and> n \<le> 32767) \<or> (nd_type d = INT32 \<and> INT_MIN \<le> n \<and> n \<le> INT_MAX) \<or>
     (nd_type d = INT64 \<and> - (2 ^ 63) \<le> n \<and> n < 2 ^ 63)"
| "value_fits d (SqlText bs) \<longleftrightarrow> nd_type d \<in> {STRING, BINARY_DATA} \<and> size_ok (int (length (copied d bs)))"

definition column_fits :: "MysqlNodeDescribe \<Rightarrow> sql_value \<Rightarrow> bool" where
  "column_fits d v \<longleftrightarrow> value_fits d v \<and> int (length (sql_text v)) \<le> INT_MAX"

text \<open>
  The node of a value: the number itself (in an \<^verbatim>\<open>INT8\<close> column the code of the first character of its
  text instead), or a chunk with the bytes, cut to the described length.
\<close>

fun node_shows :: "mem_ptr set \<Rightarrow> mysql_memory \<Rightarrow> MysqlNodeDescribe \<Rightarrow> sql_value \<Rightarrow> MysqlNodeData \<Rightarrow> bool" where
  "node_shows A m d (SqlInt n) node = (case node_value node of
       Int8 w \<Rightarrow> nd_type d = INT8 \<and> w = hd (int_text n)
     | Int16 w \<Rightarrow> nd_type d = INT16 \<and> sint w = n
     | Int32 w \<Rightarrow> nd_type d = INT32 \<and> sint w = n
     | Int64 w \<Rightarrow> nd_type d = INT64 \<and> sint w = n
     | _ \<Rightarrow> False)"
| "node_shows A m d (SqlText bs) node =
     (unat (DataLength node) = length (copied d bs) \<and>
      (copied d bs \<noteq> [] \<longrightarrow> (\<exists>p. node_value node = Data (Some p) \<and> holds_chunk A m p (copied d bs))))"

lemma node_shows_extends: "node_shows A m d v node \<Longrightarrow> mem_extends A m A' m' \<Longrightarrow> node_shows A' m' d v node"
  by (cases v) (auto simp: mem_extends_def)

lemma sql_length_int:
  assumes "int (length (sql_text v)) \<le> INT_MAX"
  shows "to_int32 (uint (sql_length v)) = int (length (sql_text v))"
proof -
  have "uint (sql_length v) = int (length (sql_text v))"
    using assms unfolding sql_length_def by (simp add: uint_nat unat_of_nat INT_MAX_def)
  then show ?thesis using assms by (simp add: INT_MIN_def)
qed

lemma copied_length: "int (length (copied d bs)) = (if nd_data_length d \<le> int (length bs) then max 0 (nd_data_length d) else int (length bs))"
  by (auto simp: copied_def)

lemma set_text_node:
  assumes I: "manager_invar A (pools m)" and ty: "nd_type d \<in> {STRING, BINARY_DATA}"
    and sz: "size_ok (int (length (copied d bs)))"
  shows "\<exists>node m' A'. MallocAndSetNodeData t d (Some (bs @ [0])) (int (length bs)) MysqlNodeData_Reset m = Inr (node, m') \<and>
    manager_invar A' (pools m') \<and> mem_extends A m A' m' \<and> node_shows A' m' d (SqlText bs) node"
proof -
  let ?n = "if nd_data_length d \<le> int (length bs) then nd_data_length d else int (length bs)"
  let ?c = "copied d bs"
  show ?thesis
  proof (cases "?c = []")
    case True
    then have "\<not> 0 < ?n" using copied_length[of d bs] by (auto split: if_splits)
    then have "MallocAndSetNodeData t d (Some (bs @ [0])) (int (length bs)) MysqlNodeData_Reset m = Inr (MysqlNodeData_Reset, m)"
      using ty by (auto simp: MallocAndSetNodeData_def)
    moreover have "node_shows A m d (SqlText bs) MysqlNodeData_Reset"
      using True by (simp add: MysqlNodeData_Reset_def DataLength_def)
    ultimately show ?thesis using I mem_extends_refl by blast
  next
    case False
    then have "0 < int (length ?c)" by simp
    then have n: "?n = int (length ?c)" "0 < ?n" using copied_length[of d bs] by (auto simp: max_def split: if_splits)
    obtain p s' m' where a: "MemoryPoolManager_Alloc t (int (length ?c)) (pools m) = Inr (p, s')"
      "mem_store p ?c (m\<lparr>pools := s'\<rparr>) = Inr m'" "manager_invar (insert p A) (pools m')"
      "holds_chunk (insert p A) m' p ?c" "mem_extends A m (insert p A) m'"
      using alloc_and_store[OF I sz] by blast
    have "length ?c \<le> 2147483647" using sz by (simp add: size_ok_def INT_MAX_def MEMORY_POOL_DEFAULT_INCREASE_ALLOC_NUM_def)
    then have u: "unat (word_of_int (int (length ?c)) :: u32) = length ?c" by (simp add: unat_of_nat)
    then have w: "(word_of_int (int (length ?c)) :: u32) \<noteq> 0" using False by auto
    have r: "read_mem (bs @ [0]) 0 (int (length ?c)) = Inr ?c"
      by (auto simp: read_mem_def copied_def min_def)
    let ?node = "\<lparr>node_value = Data (Some p), node_data_length = word_of_int (int (length ?c))\<rparr>"
    have "ChangeDataLength t (int (length ?c)) MysqlNodeData_Reset m = Inr (?node, m\<lparr>pools := s'\<rparr>)"
      using a(1) w by (simp add: ChangeDataLength_def MysqlNodeData_Reset_def Let_def del: of_int_of_nat_eq)
    then have "MallocAndSetNodeData t d (Some (bs @ [0])) (int (length bs)) MysqlNodeData_Reset m = Inr (?node, m')"
      using ty n(2) a(2) r unfolding MallocAndSetNodeData_def Let_def n(1)
      by (auto simp: deref_def simp del: of_int_of_nat_eq)
    moreover have "node_shows (insert p A) m' d (SqlText bs) ?node"
      using a(4) u by (simp add: DataLength_def del: of_int_of_nat_eq)
    ultimately show ?thesis using a(3,5) by blast
  qed
qed

lemma set_int_node:
  assumes "value_fits d (SqlInt n)"
  shows "\<exists>node. MallocAndSetNodeData t d (Some (int_text n @ [0])) (int (length (int_text n))) MysqlNodeData_Reset m = Inr (node, m) \<and>
    node_shows A m d (SqlInt n) node"
proof -
  have l: "0 < int (length (int_text n))" by simp
  have i: "atoi (int_text n @ [0]) = Inr n" if "INT_MIN \<le> n" "n \<le> INT_MAX" using atoi_text that by blast
  have ll: "atoll (int_text n @ [0]) = Inr n" if "- (2 ^ 63) \<le> n" "n < 2 ^ 63" using atoll_text that by blast
  from assms consider (z) "nd_type d = INT8" | (a) "nd_type d = INT16" "- 32768 \<le> n" "n \<le> 32767"
    | (b) "nd_type d = INT32" "INT_MIN \<le> n" "n \<le> INT_MAX" | (c) "nd_type d = INT64" "- (2 ^ 63) \<le> n" "n < 2 ^ 63" by auto
  then show ?thesis
  proof cases
    case z
    with l show ?thesis by (cases "int_text n") (simp_all add: MallocAndSetNodeData_def deref_def read_mem_def)
  next
    case a
    then have "atoi (int_text n @ [0]) = Inr n" by (intro i) (simp_all add: INT_MIN_def INT_MAX_def)
    with a l show ?thesis by (simp add: MallocAndSetNodeData_def deref_def sint_word_of_int_widths)
  next
    case b
    with l i show ?thesis by (simp add: MallocAndSetNodeData_def deref_def sint_word_of_int_widths INT_MIN_def INT_MAX_def)
  next
    case c
    with l ll show ?thesis by (simp add: MallocAndSetNodeData_def deref_def sint_word_of_int_widths)
  qed
qed

lemma set_node:
  assumes "manager_invar A (pools m)" and "column_fits d v"
  shows "\<exists>node m' A'. MallocAndSetNodeData t d (sql_column v) (to_int32 (uint (sql_length v))) MysqlNodeData_Reset m = Inr (node, m') \<and>
    manager_invar A' (pools m') \<and> mem_extends A m A' m' \<and> node_shows A' m' d v node"
proof -
  have l: "to_int32 (uint (sql_length v)) = int (length (sql_text v))"
    using assms(2) by (simp add: column_fits_def sql_length_int)
  show ?thesis
  proof (cases v)
    case (SqlInt n)
    with assms set_int_node[of d n t m A] l mem_extends_refl show ?thesis by (fastforce simp: column_fits_def sql_column_def)
  next
    case (SqlText bs)
    with assms set_text_node[OF assms(1), of d bs t] l show ?thesis by (simp add: column_fits_def sql_column_def)
  qed
qed

lemma print_sql_column: "\<exists>c. print_column (sql_column v) = Inr c"
proof -
  have "\<exists>s. c_string (sql_text v @ [0]) = Inr s" by (simp add: c_string_def)
  then show ?thesis by (auto simp: print_column_def sql_column_def deref_def)
qed

definition row_shows :: "mem_ptr set \<Rightarrow> mysql_memory \<Rightarrow> MysqlNodeDescribe list \<Rightarrow> sql_value list \<Rightarrow> MysqlNodeData list \<Rightarrow> bool" where
  "row_shows A m ds vs nodes = list_all2 (\<lambda>(d, v) node. node_shows A m d v node) (zip ds vs) nodes"

lemma row_shows_extends: "row_shows A m ds vs nodes \<Longrightarrow> mem_extends A m A' m' \<Longrightarrow> row_shows A' m' ds vs nodes"
  unfolding row_shows_def by (erule list_all2_mono) (auto intro: node_shows_extends)

definition row_fits :: "MysqlNodeDescribe list \<Rightarrow> sql_value list \<Rightarrow> bool" where
  "row_fits ds vs = list_all2 column_fits ds vs"

lemma fetch_row_fields:
  assumes "manager_invar A (pools m)" and "row_fits ds vs"
  shows "\<exists>nodes m' out A'. fetch_fields t ds (map sql_column vs) (map sql_length vs) m = Inr (nodes, m', out) \<and>
    manager_invar A' (pools m') \<and> mem_extends A m A' m' \<and> row_shows A' m' ds vs nodes"
  using assms(2,1) unfolding row_fits_def
proof (induction ds vs arbitrary: A m rule: list_all2_induct)
  case Nil
  then show ?case using mem_extends_refl by (fastforce simp: row_shows_def)
next
  case (Cons d ds v vs)
  obtain node m1 A1 where 1: "MallocAndSetNodeData t d (sql_column v) (to_int32 (uint (sql_length v))) MysqlNodeData_Reset m = Inr (node, m1)"
    "manager_invar A1 (pools m1)" "mem_extends A m A1 m1" "node_shows A1 m1 d v node"
    using set_node[OF Cons.prems Cons.hyps(1)] by blast
  obtain nodes m2 out A2 where 2: "fetch_fields t ds (map sql_column vs) (map sql_length vs) m1 = Inr (nodes, m2, out)"
    "manager_invar A2 (pools m2)" "mem_extends A1 m1 A2 m2" "row_shows A2 m2 ds vs nodes"
    using Cons.IH[OF 1(2)] by blast
  obtain c where "print_column (sql_column v) = Inr c" using print_sql_column by blast
  with 1 2 node_shows_extends[OF 1(4) 2(3)] mem_extends_trans[OF 1(3) 2(3)] show ?case
    by (auto simp: row_shows_def)
qed

lemma fetch_all_rows:
  assumes "manager_invar A (pools m)" and "\<forall>vs \<in> set vss. row_fits ds vs"
    and "\<forall>i < length vss. lens (k + i) = map sql_length (vss ! i)"
  shows "\<exists>nodess m' out A'. fetch_rows t ds lens k (map (map sql_column) vss) res m =
      Inr (res\<lparr>row_list := row_list res @ nodess\<rparr>, m', out) \<and>
    manager_invar A' (pools m') \<and> mem_extends A m A' m' \<and> list_all2 (row_shows A' m' ds) vss nodess"
  using assms
proof (induction vss arbitrary: A m k res)
  case Nil
  then show ?case using mem_extends_refl[of A m]
    by (intro exI[of _ "[]"] exI[of _ m] exI[of _ A]) simp
next
  case (Cons vs vss)
  have f: "row_fits ds vs" using Cons.prems(2) by simp
  have l: "lens k = map sql_length vs" using Cons.prems(3)[rule_format, of 0] by simp
  obtain nodes m1 out1 A1 where 1: "fetch_fields t ds (map sql_column vs) (lens k) m = Inr (nodes, m1, out1)"
    "manager_invar A1 (pools m1)" "mem_extends A m A1 m1" "row_shows A1 m1 ds vs nodes"
    unfolding l using fetch_row_fields[OF Cons.prems(1) f] by blast
  have "lens (Suc k + i) = map sql_length (vss ! i)" if "i < length vss" for i
    using Cons.prems(3)[rule_format, of "Suc i"] that by simp
  then obtain nodess m2 out2 A2 where 2: "fetch_rows t ds lens (Suc k) (map (map sql_column) vss)
      (res\<lparr>row_list := row_list res @ [nodes]\<rparr>) m1 =
      Inr (res\<lparr>row_list := (row_list res @ [nodes]) @ nodess\<rparr>, m2, out2)"
    "manager_invar A2 (pools m2)" "mem_extends A1 m1 A2 m2" "list_all2 (row_shows A2 m2 ds) vss nodess"
    using Cons.IH[OF 1(2), of "Suc k" "res\<lparr>row_list := row_list res @ [nodes]\<rparr>"] Cons.prems(2) by auto
  have "list_all2 (row_shows A2 m2 ds) (vs # vss) (nodes # nodess)"
    using 2(4) row_shows_extends[OF 1(4) 2(3)] by simp
  moreover have "fetch_rows t ds lens k (map (map sql_column) (vs # vss)) res m =
      Inr (res\<lparr>row_list := row_list res @ (nodes # nodess)\<rparr>, m2, out1 @ [Print [10]] @ out2)"
    using 1(1) 2(1) by simp
  ultimately show ?case using 2(2) mem_extends_trans[OF 1(3) 2(3)] by blast
qed

section \<open>Properties\<close>

text \<open>
  C23: A query result of at most one row reaches the caller. The array of \<^verbatim>\<open>mysql_fetch_lengths\<close> holds the lengths
  of the row that was fetched just before the call, as the library documents; when every value of
  that row fits the description of its column, \<^verbatim>\<open>FetchQueryResult\<close> returns true and appends one row of nodes:
  the numbers of \<^verbatim>\<open>INT16\<close>, \<^verbatim>\<open>INT32\<close> and \<^verbatim>\<open>INT64\<close> columns as the server wrote them, the code of the first character
  for an \<^verbatim>\<open>INT8\<close> column, texts in chunks of their own, cut to the described length. All chunks are intact
  at the end, and so are those that held bytes before. Further rows are read with lengths the
  library no longer vouches for: see \<open>fetch_uses_stale_lengths\<close>.
\<close>

theorem fetch_returns_rows:
  assumes "manager_invar A (pools m)"
    and "length ds \<le> nat INT_MAX" and "n \<le> length ds"
    and "length vss \<le> 1"
    and "\<forall>vs \<in> set vss. row_fits (take n ds) vs \<and> lens 0 = map sql_length vs"
  shows "\<exists>nodess m' out A'.
    FetchQueryResult t (Some \<lparr>num_fields = of_nat n, rows = map (map sql_column) vss, length_list = lens\<rparr>)
        \<lparr>node_list = ds\<rparr> res m = Inr (True, res\<lparr>row_list := row_list res @ nodess\<rparr>, m', out) \<and>
    list_all2 (row_shows A' m' (take n ds)) vss nodess \<and> mem_extends A m A' m' \<and> manager_invar A' (pools m')"
proof -
  have b: "int n \<le> INT_MAX" "int (length ds) \<le> INT_MAX" using assms(2,3) by (auto simp: INT_MAX_def)
  then have "uint (of_nat n :: u32) = int n" by (simp add: uint_nat unat_of_nat INT_MAX_def)
  then have n: "to_int32 (uint (of_nat n :: u32)) = int n" "to_int32 (int (length ds)) = int (length ds)"
    using b by (simp_all add: INT_MIN_def)
  have l: "\<forall>i < length vss. lens (0 + i) = map sql_length (vss ! i)"
  proof (intro allI impI)
    fix i assume "i < length vss"
    then have "vss ! i \<in> set vss" "i = 0" using assms(4) by simp_all
    then show "lens (0 + i) = map sql_length (vss ! i)" using assms(5) by simp
  qed
  have r: "\<forall>vs \<in> set vss. row_fits (take n ds) vs" using assms(5) by blast
  obtain nodess m' out A' where f: "fetch_rows t (take n ds) lens 0 (map (map sql_column) vss) res m =
      Inr (res\<lparr>row_list := row_list res @ nodess\<rparr>, m', out)"
    "manager_invar A' (pools m')" "mem_extends A m A' m'" "list_all2 (row_shows A' m' (take n ds)) vss nodess"
    using fetch_all_rows[OF assms(1) r l] by blast
  have "\<exists>out'. FetchQueryResult t (Some \<lparr>num_fields = of_nat n, rows = map (map sql_column) vss, length_list = lens\<rparr>)
        \<lparr>node_list = ds\<rparr> res m = Inr (True, res\<lparr>row_list := row_list res @ nodess\<rparr>, m', out')"
    using f(1) n assms(3) by (simp add: FetchQueryResult_def Let_def)
  with f(2-4) show ?thesis by blast
qed

text \<open>A table of names, levels and flags with one row.\<close>

definition demo_columns :: "MysqlNodeDescribe list" where
  "demo_columns = [\<lparr>nd_name = str ''name'', nd_type = STRING, nd_data_length = 3\<rparr>,
     \<lparr>nd_name = str ''level'', nd_type = INT32, nd_data_length = 0\<rparr>, \<lparr>nd_name = str ''flag'', nd_type = INT8, nd_data_length = 0\<rparr>]"

definition demo_rows :: "sql_value list list" where
  "demo_rows = [[SqlText (str ''anna''), SqlInt (- 40), SqlInt 12]]"

definition demo_memory :: mysql_memory where
  "demo_memory = \<lparr>pools = (\<lparr>next_block = 0, block_size = Map.empty\<rparr>, MemoryPoolManager_new), contents = (\<lambda>_ _. 0)\<rparr>"

lemma demo_memory_invar: "manager_invar {} (pools demo_memory)"
  by (simp add: demo_memory_def manager_invar_new heap_ok_def)

lemma demo_rows_fit: "\<forall>vs \<in> set demo_rows. row_fits (take 3 demo_columns) vs \<and> map sql_length (hd demo_rows) = map sql_length vs"
  by (simp add: demo_rows_def demo_columns_def row_fits_def column_fits_def copied_def size_ok_def str_def int_text_def
      decimal.simps MEMORY_POOL_DEFAULT_INCREASE_ALLOC_NUM_def INT_MAX_def INT_MIN_def)

theorem fetch_returns_rows_witness:
  "\<exists>nodess m' out A'.
    FetchQueryResult 1 (Some \<lparr>num_fields = of_nat 3, rows = map (map sql_column) demo_rows,
        length_list = (\<lambda>_. map sql_length (hd demo_rows))\<rparr>)
        \<lparr>node_list = demo_columns\<rparr> \<lparr>row_list = []\<rparr> demo_memory =
      Inr (True, \<lparr>row_list = []\<rparr>\<lparr>row_list := row_list \<lparr>row_list = []\<rparr> @ nodess\<rparr>, m', out) \<and>
    list_all2 (row_shows A' m' (take 3 demo_columns)) demo_rows nodess \<and> mem_extends {} demo_memory A' m' \<and>
    manager_invar A' (pools m')"
  by (rule fetch_returns_rows [OF demo_memory_invar _ _ _ demo_rows_fit])
    (simp_all add: demo_columns_def demo_rows_def INT_MAX_def)

text \<open>
  The lengths are fetched once, before the loop. If the array still holds the lengths of the first
  row when the second one is handled, a text that is shorter in the second row by more than its
  terminator is copied from beyond its end.
\<close>

theorem fetch_uses_stale_lengths:
  assumes "manager_invar A (pools m)" and "nd_type d \<in> {STRING, BINARY_DATA}"
    and "size_ok (int (length (copied d first)))" and "int (length first) \<le> INT_MAX"
    and "length second + 1 < length (copied d first)"
  shows "FetchQueryResult t (Some \<lparr>num_fields = 1, rows = map (map sql_column) [[SqlText first], [SqlText second]],
      length_list = (\<lambda>_. [sql_length (SqlText first)])\<rparr>) \<lparr>node_list = [d]\<rparr> res m = Inl OutOfBounds"
proof -
  let ?n = "int (length (copied d first))"
  have fits: "column_fits d (SqlText first)" using assms(2-4) by (simp add: column_fits_def)
  have l: "to_int32 (uint (sql_length (SqlText first))) = int (length first)"
    using sql_length_int[of "SqlText first"] assms(4) by simp
  obtain node m1 A1 where 1: "MallocAndSetNodeData t d (sql_column (SqlText first)) (int (length first)) MysqlNodeData_Reset m = Inr (node, m1)"
    "manager_invar A1 (pools m1)"
    using set_node[OF assms(1) fits] unfolding l by blast
  obtain h mgr where ps: "pools m1 = (h, mgr)" by (cases "pools m1")
  have n: "(if nd_data_length d \<le> int (length first) then nd_data_length d else int (length first)) = ?n" "0 < ?n"
    using copied_length[of d first] assms(5) by (auto simp: max_def split: if_splits)
  obtain p s' where a: "MemoryPoolManager_Alloc t ?n (pools m1) = Inr (p, s')"
    using manager_alloc_law[OF _ assms(3), of A1 h mgr t] 1(2) ps by auto
  have "length (copied d first) \<le> 2147483647"
    using assms(3) by (simp add: size_ok_def INT_MAX_def MEMORY_POOL_DEFAULT_INCREASE_ALLOC_NUM_def)
  then have "unat (word_of_int ?n :: u32) = length (copied d first)" by (simp add: unat_of_nat)
  then have w: "(word_of_int ?n :: u32) \<noteq> 0" using n(2) by auto
  have r: "read_mem (second @ [0]) 0 ?n = Inl OutOfBounds" using assms(5) by (simp add: read_mem_def)
  have "ChangeDataLength t ?n MysqlNodeData_Reset m1 =
      Inr (\<lparr>node_value = Data (Some p), node_data_length = word_of_int ?n\<rparr>, m1\<lparr>pools := s'\<rparr>)"
    using a w by (simp add: ChangeDataLength_def MysqlNodeData_Reset_def Let_def del: of_int_of_nat_eq)
  then have "MallocAndSetNodeData t d (sql_column (SqlText second)) (int (length first)) MysqlNodeData_Reset m1 = Inl OutOfBounds"
    using assms(2) n(2) r unfolding MallocAndSetNodeData_def Let_def n(1)
    by (auto simp: deref_def sql_column_def simp del: of_int_of_nat_eq)
  moreover obtain c where "print_column (sql_column (SqlText first)) = Inr c" using print_sql_column by blast
  ultimately show ?thesis using 1(1) l
    by (simp add: FetchQueryResult_def Let_def to_int32_def numeral_eq_Suc)
qed

theorem fetch_uses_stale_lengths_witness:
  "FetchQueryResult 1 (Some \<lparr>num_fields = 1, rows = map (map sql_column) [[SqlText (str ''anna'')], [SqlText (str ''bo'')]],
      length_list = (\<lambda>_. [sql_length (SqlText (str ''anna''))])\<rparr>)
    \<lparr>node_list = [\<lparr>nd_name = str ''name'', nd_type = STRING, nd_data_length = 32\<rparr>]\<rparr> \<lparr>row_list = []\<rparr> demo_memory = Inl OutOfBounds"
  by (rule fetch_uses_stale_lengths [OF demo_memory_invar])
    (simp_all add: copied_def size_ok_def str_def MEMORY_POOL_DEFAULT_INCREASE_ALLOC_NUM_def INT_MAX_def)

text \<open>
  A successful \<^verbatim>\<open>SELECT\<close> looks like an error. \<^verbatim>\<open>mysql_affected_rows\<close> returns all ones for a select
  whose result was not stored yet, and \<^verbatim>\<open>Query\<close> asks it before that, so it returns the -1 it
  returns for a failed command or without a connection.
\<close>

theorem select_looks_like_error:
  assumes "is_connected c" and "ret \<noteq> 0"
  shows "MysqlConnector_Query 0 (- 1) command c = MysqlConnector_Query ret affected command c \<and>
    fst (MysqlConnector_Query 0 (- 1) command c) =
      fst (MysqlConnector_Query 0 affected command MysqlConnector_new)"
proof -
  have "uint (- 1 :: u64) = 2 ^ 64 - 1" by (simp add: uint_word_ariths)
  then have "to_int32 (uint (- 1 :: u64)) = - 1" by (simp add: to_int32_def)
  then show ?thesis using assms by (simp add: MysqlConnector_Query_def MysqlConnector_new_def)
qed

theorem select_looks_like_error_witness:
  "MysqlConnector_Query 0 (- 1) (str ''select 1'') \<lparr>is_connected = True\<rparr> =
     MysqlConnector_Query 1 0 (str ''select 1'') \<lparr>is_connected = True\<rparr>"
  using select_looks_like_error [of "\<lparr>is_connected = True\<rparr>" 1] by simp

text \<open>An \<^verbatim>\<open>INT8\<close> column is set to the first character of its text, so the number 42 becomes the code of '4'.\<close>

lemma int8_takes_first_character:
  assumes "nd_type d = INT8" and "bs \<noteq> []"
  shows "MallocAndSetNodeData t d (Some (bs @ [0])) (int (length bs)) node m = Inr (node\<lparr>node_value := Int8 (hd bs)\<rparr>, m)"
  using assms by (cases bs) (simp_all add: MallocAndSetNodeData_def deref_def read_mem_def)

text \<open>A port above 32767 is passed on with its sign extended.\<close>

lemma connect_sign_extends_port:
  "MysqlConnector_Connect True host 33060 user passwd db MysqlConnector_new =
     (True, \<lparr>is_connected = True\<rparr>, [MysqlInit, MysqlRealConnect (c_str host) (c_str user) (c_str passwd) (c_str db) 4294934820])"
  by (simp add: MysqlConnector_Connect_def MysqlConnector_Disconnect_def MysqlConnector_new_def)

text \<open>Connecting again closes the old connection first, and a connector never closes twice.\<close>

lemma connect_closes_first:
  "snd (snd (MysqlConnector_Connect ok host port user passwd db c)) =
     (if is_connected c then [MysqlClose] else []) @
     [MysqlInit, MysqlRealConnect (c_str host) (c_str user) (c_str passwd) (c_str db) (scast port)]"
  "is_connected (fst (snd (MysqlConnector_Connect ok host port user passwd db c))) = ok"
  "snd (MysqlConnector_Disconnect (fst (MysqlConnector_Disconnect c))) = []"
  by (simp_all add: MysqlConnector_Connect_def MysqlConnector_Disconnect_def Let_def)

end
