(* ===== verification/MysqlTest.thy ===== *)
theory MysqlTest
  imports Mysql
begin

text \<open>
  \<^verbatim>\<open>database/test.cpp\<close>, the test program of the connector: what it returns and prints. What the client
  library answers is an argument: whether \<^verbatim>\<open>mysql_real_connect\<close> succeeded, the results of \<^verbatim>\<open>mysql_query\<close> and
  \<^verbatim>\<open>mysql_affected_rows\<close>, and the stored result. Line 40 of the file is a remark without comment signs, which
  a compiler refuses; the model is the program without it. The last call, half a second of
  sleep, is left out.
\<close>

section \<open>The program\<close>

text \<open>One node is filled and pushed four times, so the length of the second column stays in the later ones.\<close>

definition test_describe :: MysqlTableDescribe where
  "test_describe =
     (let node1 = MysqlNodeDescribe_new\<lparr>nd_name := str ''role_id'', nd_type := INT32\<rparr>;
          node2 = node1\<lparr>nd_name := str ''role_name'', nd_type := STRING, nd_data_length := 32\<rparr>;
          node3 = node2\<lparr>nd_name := str ''level'', nd_type := INT32\<rparr>;
          node4 = node3\<lparr>nd_name := str ''create_time'', nd_type := INT64\<rparr>
      in \<lparr>node_list = [node1, node2, node3, node4]\<rparr>)"

definition test_query :: std_string where
  "test_query = str ''select role_id,role_name,level,create_time from role where role_inc_id = 1301''"

definition test_main ::
  "bool \<Rightarrow> int \<Rightarrow> u64 \<Rightarrow> stored_result option \<Rightarrow> thread_id \<Rightarrow> mysql_memory \<Rightarrow> (int \<times> mysql_memory \<times> mysql_call list) res" where
  "test_main connected ret affected stored t m =
     (let (ok, connector, calls1) = MysqlConnector_Connect connected (str ''127.0.0.1'') 3306 (str ''root'') (str ''12345'')
            (str ''ttaxx_cn'') MysqlConnector_new in
      if \<not> ok then Inr (- 1, m, calls1 @ [Print (str ''Connect Error'' @ [10])])
      else
        let (effect_row, calls2) = MysqlConnector_Query ret affected test_query connector in
        if - 1 = effect_row then Inr (- 2, m, calls1 @ calls2 @ [Print (str ''Query Error'' @ [10])])
        else
          let calls3 = calls1 @ calls2 @ [Print (str ''effect_row = '' @ int_text effect_row @ [10])] in
          bind_res (FetchQueryResult t stored test_describe \<lparr>row_list = []\<rparr> m) (\<lambda>(ok, result, m1, calls4).
            if \<not> ok then Inr (- 3, m1, calls3 @ calls4 @ [Print (str ''FetchQueryResult Error'' @ [10])])
            else Inr (0, m1, calls3 @ calls4 @ [Print ([10] @ str ''test mysql ... END'' @ [10])])))"

section \<open>What it returns\<close>

lemma affected_all_ones: "to_int32 (uint (- 1 :: u64)) = - 1"
  by (simp add: uint_word_ariths to_int32_def)

text \<open>The exit code says which step failed.\<close>

lemma test_main_code:
  assumes "test_main connected ret affected stored t m = Inr (code, m', calls)"
  shows "code = - 1 \<longleftrightarrow> \<not> connected"
    and "code = - 2 \<longleftrightarrow> connected \<and> (ret \<noteq> 0 \<or> to_int32 (uint affected) = - 1)"
    and "code = 0 \<Longrightarrow> stored \<noteq> None" and "code \<in> {- 3 .. 0}"
  using assms
  by (auto simp: test_main_def Let_def MysqlConnector_Connect_def MysqlConnector_Disconnect_def MysqlConnector_new_def
      MysqlConnector_Query_def FetchQueryResult_def bind_res_eq_Inr split: if_splits option.splits prod.splits)

text \<open>
  The test can not succeed. After a select, \<^verbatim>\<open>mysql_affected_rows\<close> is documented to return all ones until
  the result is stored, and the connector asks it before; so with a server that answers, whether
  the query succeeds or not and whatever is in the table, the program prints an error, returns -2
  and never fetches a row.
\<close>

lemma mysql_test_always_fails:
  "test_main True ret (- 1) stored t m =
     Inr (- 2, m, [MysqlInit, MysqlRealConnect (str ''127.0.0.1'') (str ''root'') (str ''12345'') (str ''ttaxx_cn'') 3306,
       MysqlQuery test_query, Print (str ''Query Error'' @ [10])])"
proof -
  have "c_str test_query = test_query" by (simp add: c_str_def test_query_def str_def)
  then show ?thesis
    using affected_all_ones
    by (simp add: test_main_def MysqlConnector_Connect_def MysqlConnector_Disconnect_def MysqlConnector_new_def
        MysqlConnector_Query_def c_str_def str_def)
qed

end
