(* ===== verification/SocketsWin.thy ===== *)
theory SocketsWin
  imports Sockets
begin

text \<open>
  \<^verbatim>\<open>SocketAccept\<close> and \<^verbatim>\<open>SocketConnect\<close> on Windows (the second halves of
  \<^verbatim>\<open>elegance/platform/network/socket_accept.cpp\<close> and \<^verbatim>\<open>socket_connect.cpp\<close>). Sends and receives are
  overlapped: an operation is started and later completes, and worker threads take the completions
  from a port. A \<^verbatim>\<open>PER_HANDLE_DATA\<close> and a \<^verbatim>\<open>PER_IO_OPERATION_DATA\<close> are numbers, the tables of the live ones
  are part of the state, and using a freed one is undefined. The accept loop, \<^verbatim>\<open>Write\<close> and the workers touch
  the maps without a lock, so each is split where another thread can come between: the accept loop
  before the maps are filled, \<^verbatim>\<open>Write\<close> and the workers before and after \<^verbatim>\<open>WSASend\<close>. \<open>win_reachable\<close> has the runs in which calls
  of \<^verbatim>\<open>Write\<close> and passes of workers do not overlap, \<open>race_step\<close> those in which they do.
\<close>

section \<open>Overlapped operations\<close>

datatype IOCPHandleType = IO_SEND | IO_RECV

text \<open>What \<^verbatim>\<open>WSASend\<close> or \<^verbatim>\<open>WSARecv\<close> did: succeed at once, stay pending, or fail. The first two complete later.\<close>

datatype wsa_result = WSA_DONE | WSA_PENDING | WSA_FAILED

text \<open>\<^verbatim>\<open>databuff\<close> points into \<^verbatim>\<open>buffer\<close>: an offset and a length.\<close>

record io_data =
  io_buffer :: "byte list"
  io_buf :: int
  io_len :: int
  io_transferred :: int
  io_type :: IOCPHandleType

definition io_payload :: "io_data \<Rightarrow> byte list" where
  "io_payload io = take (nat (io_len io)) (drop (nat (io_buf io)) (io_buffer io))"

datatype win_action =
    WsaSend int nat "byte list"
  | WsaRecv int nat
  | WinClose int

section \<open>SocketAccept\<close>

record WinAccept =
  wa_handler :: bool
  wa_listening :: bool
  wa_local_port :: Port
  wa_endpoint_sock_map :: "(Endpoint, int) std_map"
  wa_sock_endpoint_map :: "int \<rightharpoonup> Endpoint"
  send_queue_map :: "int \<rightharpoonup> nat option list"
  handles :: "nat \<rightharpoonup> int"
  ios :: "nat \<rightharpoonup> io_data"

definition WinAccept_new :: WinAccept where
  "WinAccept_new = \<lparr>wa_handler = False, wa_listening = False, wa_local_port = 0, wa_endpoint_sock_map = [],
     wa_sock_endpoint_map = Map.empty, send_queue_map = Map.empty, handles = Map.empty, ios = Map.empty\<rparr>"

definition send_queue :: "WinAccept \<Rightarrow> int \<Rightarrow> nat option list" where
  "send_queue w sock = (case send_queue_map w sock of None \<Rightarrow> [] | Some q \<Rightarrow> q)"

record win_listen_os =
  wl_startup :: int
  wl_port :: bool
  wl_threads :: bool
  wl_socket :: bool
  wl_bind :: bool
  wl_listen :: bool

text \<open>\<^verbatim>\<open>Listen\<close> up to its loop: whether the loop is entered.\<close>

definition WinAccept_Listen_setup :: "win_listen_os \<Rightarrow> Port \<Rightarrow> WinAccept \<Rightarrow> bool \<times> WinAccept" where
  "WinAccept_Listen_setup os port w =
     (if wa_listening w then (False, w)
      else if wl_startup os \<noteq> 0 then (False, w)
      else if \<not> wl_port os then (False, w)
      else if \<not> wl_threads os then (False, w)
      else if \<not> wl_socket os then (False, w)
      else if \<not> wl_bind os then (False, w)
      else if \<not> wl_listen os then (False, w)
      else (True, w\<lparr>wa_local_port := port, wa_listening := True\<rparr>))"

text \<open>
  One pass of the loop, up to the first \<^verbatim>\<open>WSARecv\<close> on the new socket: \<open>sock\<close> is what \<^verbatim>\<open>WSAAccept\<close> returned,
  \<open>hdata\<close> and \<open>io\<close> what the allocations did. \<open>None\<close> leaves the loop.
\<close>

definition WinAccept_accept ::
  "int option \<Rightarrow> nat option \<Rightarrow> bool \<Rightarrow> nat option \<Rightarrow> wsa_result \<Rightarrow> WinAccept \<Rightarrow>
   (int option \<times> WinAccept \<times> win_action list)" where
  "WinAccept_accept sock hdata port_ok io recv w =
     (case sock of None \<Rightarrow> (None, w, [])
      | Some acceptSocket \<Rightarrow> (case hdata of None \<Rightarrow> (None, w, [])
      | Some h \<Rightarrow>
          let w1 = w\<lparr>handles := (handles w)(h \<mapsto> acceptSocket)\<rparr> in
          if \<not> port_ok then (None, w1, [])
          else (case io of None \<Rightarrow> (None, w1, [])
      | Some p \<Rightarrow>
          let w2 = w1\<lparr>ios := (ios w1)(p \<mapsto> \<lparr>io_buffer = replicate (nat MAX_SOCKET_MSG_BUFF_LENGTH) 0, io_buf = 0,
                io_len = MAX_SOCKET_MSG_BUFF_LENGTH, io_transferred = 0, io_type = IO_RECV\<rparr>)\<rparr> in
          if recv = WSA_FAILED then (None, w2, []) else (Some acceptSocket, w2, [WsaRecv acceptSocket p]))))"

text \<open>The rest of the pass: the maps are filled and the handler is told.\<close>

definition WinAccept_register :: "int \<Rightarrow> IPAddr \<Rightarrow> Port \<Rightarrow> Port \<Rightarrow> WinAccept \<Rightarrow> WinAccept \<times> socket_event list" where
  "WinAccept_register acceptSocket ip rport port w =
     (let e = \<lparr>remote_ip_addr = ip, remote_port = rport, local_port = port\<rparr>
      in (w\<lparr>wa_sock_endpoint_map := (wa_sock_endpoint_map w)(acceptSocket \<mapsto> e),
            wa_endpoint_sock_map := map_put Endpoint_less e acceptSocket (wa_endpoint_sock_map w)\<rparr>,
          if wa_handler w then [EvAccept ip rport port] else []))"

definition WinAccept_Listen_end :: "WinAccept \<Rightarrow> bool \<times> WinAccept" where
  "WinAccept_Listen_end w = (False, w\<lparr>wa_local_port := 0, wa_listening := False\<rparr>)"

text \<open>
  \<^verbatim>\<open>Write\<close> up to \<^verbatim>\<open>WSASend\<close>: it has returned, the message put into the queue or refused, or it is about to send
  the operation. \<open>alloc\<close> is the new \<^verbatim>\<open>PER_IO_OPERATION_DATA\<close>.
\<close>

datatype write_point = WriteReturns bool | WriteSends int nat io_data

definition Write_prepare ::
  "nat option \<Rightarrow> IPAddr \<Rightarrow> Port \<Rightarrow> byte list option \<Rightarrow> int \<Rightarrow> WinAccept \<Rightarrow> (write_point \<times> WinAccept) res" where
  "Write_prepare alloc ip port data len w =
     (case data of None \<Rightarrow> Inr (WriteReturns False, w)
      | Some bs \<Rightarrow>
          if len \<le> 0 then Inr (WriteReturns False, w)
          else if MAX_SOCKET_MSG_BUFF_LENGTH < len then Inr (WriteReturns False, w)
          else case map_find Endpoint_less \<lparr>remote_ip_addr = ip, remote_port = port, local_port = wa_local_port w\<rparr>
              (wa_endpoint_sock_map w) of
            None \<Rightarrow> Inr (WriteReturns False, w)
          | Some cur_sock \<Rightarrow> (case alloc of None \<Rightarrow> Inr (WriteReturns False, w)
          | Some p \<Rightarrow>
              bind_res (memcpy (replicate (nat MAX_SOCKET_MSG_BUFF_LENGTH) 0) 0 bs len) (\<lambda>buf.
              let io = \<lparr>io_buffer = buf, io_buf = 0, io_len = len, io_transferred = 0, io_type = IO_SEND\<rparr>;
                  q = send_queue w cur_sock;
                  w1 = w\<lparr>ios := (ios w)(p \<mapsto> io), send_queue_map := (send_queue_map w)(cur_sock \<mapsto> q)\<rparr>
              in if q \<noteq> [] then
                   Inr (WriteReturns True, w1\<lparr>send_queue_map := (send_queue_map w1)(cur_sock \<mapsto> q @ [Some p])\<rparr>)
                 else Inr (WriteSends cur_sock p io, w1))))"

text \<open>The null pointer that is put into the queue after a send that stays pending.\<close>

definition push_marker :: "int \<Rightarrow> WinAccept \<Rightarrow> WinAccept" where
  "push_marker sock w = w\<lparr>send_queue_map := (send_queue_map w)(sock \<mapsto> send_queue w sock @ [None])\<rparr>"

text \<open>The whole call when nothing comes between; \<open>send\<close> is what \<^verbatim>\<open>WSASend\<close> would return.\<close>

definition WinAccept_Write ::
  "nat option \<Rightarrow> wsa_result \<Rightarrow> IPAddr \<Rightarrow> Port \<Rightarrow> byte list option \<Rightarrow> int \<Rightarrow> WinAccept \<Rightarrow>
   (bool \<times> WinAccept \<times> win_action list) res" where
  "WinAccept_Write alloc send ip port data len w =
     bind_res (Write_prepare alloc ip port data len w) (\<lambda>(point, w1).
     case point of
       WriteReturns accepted \<Rightarrow> Inr (accepted, w1, [])
     | WriteSends sock p io \<Rightarrow> (case send of
         WSA_FAILED \<Rightarrow> Inr (False, w1, [])
       | WSA_DONE \<Rightarrow> Inr (True, w1, [WsaSend sock p (io_payload io)])
       | WSA_PENDING \<Rightarrow> Inr (True, push_marker sock w1, [WsaSend sock p (io_payload io)])))"

lemmas WinAccept_Write_defs = WinAccept_Write_def Write_prepare_def push_marker_def

definition WinAccept_Disconnect :: "IPAddr \<Rightarrow> Port \<Rightarrow> WinAccept \<Rightarrow> bool \<times> win_action list" where
  "WinAccept_Disconnect ip port w =
     (case map_find Endpoint_less \<lparr>remote_ip_addr = ip, remote_port = port, local_port = wa_local_port w\<rparr>
         (wa_endpoint_sock_map w) of
        None \<Rightarrow> (False, [])
      | Some cur_sock \<Rightarrow> (True, [WinClose cur_sock]))"

definition WinAccept_CheckOnHandle :: "IPAddr \<Rightarrow> Port \<Rightarrow> WinAccept \<Rightarrow> bool" where
  "WinAccept_CheckOnHandle ip port w =
     (map_find Endpoint_less \<lparr>remote_ip_addr = ip, remote_port = port, local_port = wa_local_port w\<rparr>
        (wa_endpoint_sock_map w) \<noteq> None)"

section \<open>The workers\<close>

text \<open>The loop that looks for the next transfer to send, throwing away the markers before it.\<close>

fun pop_send :: "nat option list \<Rightarrow> nat option \<times> nat option list" where
  "pop_send [] = (None, [])"
| "pop_send (None # q) = pop_send q"
| "pop_send (Some p # q) = (Some p, q)"

text \<open>A connection is over: the handler is told, the maps are cleared, the operation and the handle freed.\<close>

definition worker_disconnect ::
  "bool \<Rightarrow> int \<Rightarrow> nat \<Rightarrow> int \<Rightarrow> nat \<Rightarrow> WinAccept \<Rightarrow> (WinAccept \<times> socket_event list \<times> win_action list \<times> bool) res" where
  "worker_disconnect ok bytes h sock p w =
     (case wa_sock_endpoint_map w sock of
        None \<Rightarrow> Inl OutOfBounds
      | Some e \<Rightarrow>
          Inr (w\<lparr>wa_endpoint_sock_map := map_erase Endpoint_less e (wa_endpoint_sock_map w),
                 wa_sock_endpoint_map := (wa_sock_endpoint_map w)(sock := None),
                 send_queue_map := (send_queue_map w)(sock := None),
                 handles := (handles w)(h := None), ios := (ios w)(p := None)\<rparr>,
            (if wa_handler w then [EvDisconnect (remote_ip_addr e) (remote_port e) (local_port e)] else []),
            (if bytes \<noteq> 0 \<or> ok then [WinClose sock] else []), True))"

text \<open>
  A send completed: the next transfer is taken from the queue and started, and the operation is freed; of a
  send that did not take all bytes the rest is started.
\<close>

definition worker_pop :: "int \<Rightarrow> WinAccept \<Rightarrow> nat option \<times> WinAccept" where
  "worker_pop sock w = (let (new, q) = pop_send (send_queue w sock) in (new, w\<lparr>send_queue_map := (send_queue_map w)(sock \<mapsto> q)\<rparr>))"

definition io_free :: "nat \<Rightarrow> WinAccept \<Rightarrow> WinAccept" where
  "io_free p w = w\<lparr>ios := (ios w)(p := None)\<rparr>"

definition worker_send ::
  "int \<Rightarrow> wsa_result \<Rightarrow> int \<Rightarrow> nat \<Rightarrow> io_data \<Rightarrow> WinAccept \<Rightarrow> (WinAccept \<times> socket_event list \<times> win_action list \<times> bool) res" where
  "worker_send bytes next sock p io w =
     (if io_len io \<le> bytes then
        let (new, w1) = worker_pop sock w
        in case new of
             None \<Rightarrow> Inr (io_free p w1, [], [], True)
           | Some n \<Rightarrow> (case ios w1 n of
               None \<Rightarrow> Inl UseAfterFree
             | Some nio \<Rightarrow> (case next of
                 WSA_FAILED \<Rightarrow> Inr (w1, [], [], False)
               | WSA_DONE \<Rightarrow> Inr (io_free p w1, [], [WsaSend sock n (io_payload nio)], True)
               | WSA_PENDING \<Rightarrow> Inr (io_free p (push_marker sock w1), [], [WsaSend sock n (io_payload nio)], True)))
      else
        let io1 = io\<lparr>io_buf := io_buf io + bytes, io_len := io_len io - bytes\<rparr>;
            w1 = w\<lparr>ios := (ios w)(p \<mapsto> io1)\<rparr>
        in if next = WSA_FAILED then Inr (w1, [], [], False)
           else Inr (w1, [], [WsaSend sock p (io_payload io1)], True))"

lemmas worker_send_defs = worker_send_def worker_pop_def io_free_def push_marker_def

text \<open>Bytes arrived: they are handed on and the next receive is started.\<close>

definition worker_recv ::
  "wsa_result \<Rightarrow> int \<Rightarrow> nat \<Rightarrow> io_data \<Rightarrow> WinAccept \<Rightarrow> (WinAccept \<times> socket_event list \<times> win_action list \<times> bool) res" where
  "worker_recv next sock p io w =
     bind_res (read_mem (io_buffer io) 0 (io_transferred io)) (\<lambda>data.
     let evs = (case wa_sock_endpoint_map w sock of
           None \<Rightarrow> []
         | Some e \<Rightarrow> if wa_handler w then [EvRecv (remote_ip_addr e) (remote_port e) (local_port e) data] else []);
         w1 = w\<lparr>ios := (ios w)(p \<mapsto> io\<lparr>io_len := MAX_SOCKET_MSG_BUFF_LENGTH, io_buf := 0, io_transferred := 0\<rparr>)\<rparr>
     in if next = WSA_FAILED then Inr (w1, evs, [], False) else Inr (w1, evs, [WsaRecv sock p], True))"

text \<open>
  One pass of \<^verbatim>\<open>ServerWorkThread\<close>: \<open>ok\<close>, \<open>bytes\<close>, \<open>hdata\<close> and \<open>oper\<close> are what \<^verbatim>\<open>GetQueuedCompletionStatus\<close> gave,
  \<open>received\<close> what the system stored in the buffer of a receive. The last component says whether the
  thread goes on.
\<close>

definition ServerWorkThread_pass ::
  "bool \<Rightarrow> int \<Rightarrow> nat option \<Rightarrow> nat option \<Rightarrow> byte list \<Rightarrow> wsa_result \<Rightarrow> WinAccept \<Rightarrow>
   (WinAccept \<times> socket_event list \<times> win_action list \<times> bool) res" where
  "ServerWorkThread_pass ok bytes hdata oper received next w =
     (case (oper, hdata) of
        (Some p, Some h) \<Rightarrow>
          (case (handles w h, ios w p) of
             (Some sock, Some io) \<Rightarrow>
               if bytes = 0 \<or> \<not> ok then worker_disconnect ok bytes h sock p w
               else
                 let io1 = io\<lparr>io_transferred := io_transferred io + bytes\<rparr>
                 in (case io_type io of
                       IO_SEND \<Rightarrow> worker_send bytes next sock p io1 w
                     | IO_RECV \<Rightarrow> bind_res (memcpy (io_buffer io) 0 received bytes) (\<lambda>buf.
                         worker_recv next sock p (io1\<lparr>io_buffer := buf\<rparr>) w))
           | _ \<Rightarrow> Inl UseAfterFree)
      | _ \<Rightarrow> Inr (w, [], [], True))"

section \<open>SocketConnect\<close>

text \<open>Calls of the handler; a failed \<^verbatim>\<open>recv\<close> is handed on as a length of -1.\<close>

datatype connect_call = CallConnect | CallRecv "byte list" int | CallDisconnect

record win_connect_os =
  wc_startup :: int
  wc_socket :: "int option"
  wc_connect :: bool
  wc_local_port :: Port

definition WinConnect_open ::
  "win_connect_os \<Rightarrow> IPAddr \<Rightarrow> Port \<Rightarrow> SocketConnect \<Rightarrow> bool \<times> SocketConnect \<times> connect_call list \<times> win_action list" where
  "WinConnect_open os ip port c =
     (if running c then (False, c, [], [])
      else if wc_startup os \<noteq> 0 then (False, c, [], [])
      else case wc_socket os of None \<Rightarrow> (False, c\<lparr>con_local_sock := - 1\<rparr>, [], [])
      | Some sock \<Rightarrow>
          let c1 = c\<lparr>con_local_sock := sock\<rparr> in
          if \<not> wc_connect os then (False, c1, [], [WinClose sock])
          else (True, c1\<lparr>con_local_port := wc_local_port os, con_remote_ip := ip, con_remote_port := port, running := True\<rparr>,
            (if con_handler c then [CallConnect] else []), []))"

text \<open>One pass of the receive loop; the last component says whether it goes on.\<close>

definition WinConnect_pass ::
  "read_result \<Rightarrow> SocketConnect \<Rightarrow> (SocketConnect \<times> connect_call list \<times> bool) res" where
  "WinConnect_pass r c =
     (if \<not> running c then Inr (c, [], False)
      else case r of
        ReadError \<Rightarrow> Inr (c, (if con_handler c then [CallRecv (con_buff c) (- 1)] else []), True)
      | ReadBytes bs \<Rightarrow>
          if bs = [] then Inr (c, [], False)
          else bind_res (memcpy (con_buff c) 0 bs (int (length bs))) (\<lambda>buff.
            Inr (c\<lparr>con_buff := buff\<rparr>, (if con_handler c then [CallRecv buff (int (length bs))] else []), True)))"

definition WinConnect_close :: "SocketConnect \<Rightarrow> bool \<times> SocketConnect \<times> connect_call list \<times> win_action list" where
  "WinConnect_close c =
     (True, c\<lparr>running := False\<rparr>, (if con_handler c then [CallDisconnect] else []), [WinClose (con_local_sock c)])"

text \<open>
  The loop over what the calls of \<^verbatim>\<open>recv\<close> return; the last component says whether it was left.
\<close>

fun WinConnect_loop :: "read_result list \<Rightarrow> SocketConnect \<Rightarrow> (SocketConnect \<times> connect_call list \<times> bool) res" where
  "WinConnect_loop [] c = Inr (c, [], \<not> running c)"
| "WinConnect_loop (r # rs) c =
     bind_res (WinConnect_pass r c) (\<lambda>(c1, calls1, more).
       if more then bind_res (WinConnect_loop rs c1) (\<lambda>(c2, calls2, left). Inr (c2, calls1 @ calls2, left))
       else Inr (c1, calls1, True))"

text \<open>\<^verbatim>\<open>Connect\<close>: \<open>None\<close> while it has not returned.\<close>

definition WinConnect_Connect ::
  "win_connect_os \<Rightarrow> read_result list \<Rightarrow> IPAddr \<Rightarrow> Port \<Rightarrow> SocketConnect \<Rightarrow>
   (bool option \<times> SocketConnect \<times> connect_call list \<times> win_action list) res" where
  "WinConnect_Connect os reads ip port c =
     (case WinConnect_open os ip port c of
        (False, c1, calls, acts) \<Rightarrow> Inr (Some False, c1, calls, acts)
      | (True, c1, calls1, acts1) \<Rightarrow>
          bind_res (WinConnect_loop reads c1) (\<lambda>(c2, calls2, left).
            if left then
              let (ret, c3, calls3, acts3) = WinConnect_close c2
              in Inr (Some ret, c3, calls1 @ calls2 @ calls3, acts1 @ acts3)
            else Inr (None, c2, calls1 @ calls2, acts1)))"

definition WinConnect_Write :: "bool \<Rightarrow> byte list \<Rightarrow> int \<Rightarrow> SocketConnect \<Rightarrow> (bool \<times> SocketConnect \<times> os_action list) res" where
  "WinConnect_Write ok data len c =
     (if \<not> running c then Inr (False, c, [])
      else bind_res (read_mem data 0 len) (\<lambda>out.
        if ok then Inr (True, c, [OsSend (con_local_sock c) out]) else Inr (False, c\<lparr>running := False\<rparr>, [])))"

section \<open>Runs\<close>

text \<open>
  The object with the operations that were started and have not completed (handle and operation),
  and per socket what was accepted by \<^verbatim>\<open>Write\<close> and what was passed to \<^verbatim>\<open>WSASend\<close>.
\<close>

record win_run =
  win :: WinAccept
  ops :: "(nat \<times> nat) list"
  written :: "int \<Rightarrow> byte list list"
  issued :: "int \<Rightarrow> byte list list"

fun started :: "nat \<Rightarrow> win_action list \<Rightarrow> (nat \<times> nat) list" where
  "started h [] = []"
| "started h (WsaSend sock p d # acts) = (h, p) # started h acts"
| "started h (WsaRecv sock p # acts) = (h, p) # started h acts"
| "started h (WinClose sock # acts) = started h acts"

fun note_sends :: "win_action list \<Rightarrow> (int \<Rightarrow> byte list list) \<Rightarrow> int \<Rightarrow> byte list list" where
  "note_sends [] f = f"
| "note_sends (WsaSend sock p d # acts) f = note_sends acts (f(sock := f sock @ [d]))"
| "note_sends (_ # acts) f = note_sends acts f"

text \<open>
  Runs in which no connection breaks, no \<^verbatim>\<open>WSASend\<close> of a worker fails, and neither calls of \<^verbatim>\<open>Write\<close> nor passes of
  workers overlap: the listener accepts, the maps are filled, anybody writes, and operations
  complete in any order, a receive with some bytes, a send with all its bytes or with a part of
  them. The rest of a message that was sent in part is not a new message of \<open>issued\<close>.
\<close>

inductive win_reachable :: "win_run \<Rightarrow> bool" where
  win_start: "WinAccept_Listen_setup os port (WinAccept_new\<lparr>wa_handler := b\<rparr>) = (True, w) \<Longrightarrow>
     win_reachable \<lparr>win = w, ops = [], written = (\<lambda>_. []), issued = (\<lambda>_. [])\<rparr>"
| win_accept: "win_reachable r \<Longrightarrow> h \<notin> dom (handles (win r)) \<Longrightarrow> p \<notin> dom (ios (win r)) \<Longrightarrow>
     sock \<notin> ran (handles (win r)) \<Longrightarrow>
     WinAccept_accept (Some sock) (Some h) True (Some p) recv (win r) = (Some sock, w, acts) \<Longrightarrow>
     win_reachable (r\<lparr>win := w, ops := ops r @ started h acts\<rparr>)"
| win_register: "win_reachable r \<Longrightarrow> sock \<in> ran (handles (win r)) \<Longrightarrow>
     win_reachable (r\<lparr>win := fst (WinAccept_register sock ip rport port (win r))\<rparr>)"
| win_write: "win_reachable r \<Longrightarrow> p \<notin> dom (ios (win r)) \<Longrightarrow>
     map_find Endpoint_less \<lparr>remote_ip_addr = ip, remote_port = port, local_port = wa_local_port (win r)\<rparr>
       (wa_endpoint_sock_map (win r)) = Some sock \<Longrightarrow> handles (win r) h = Some sock \<Longrightarrow>
     WinAccept_Write (Some p) send ip port (Some bs) (int (length bs)) (win r) = Inr (accepted, w, acts) \<Longrightarrow>
     win_reachable (r\<lparr>win := w, ops := ops r @ started h acts,
       written := (written r)(sock := written r sock @ (if accepted then [bs] else [])),
       issued := note_sends acts (issued r)\<rparr>)"
| win_complete: "win_reachable r \<Longrightarrow> (h, p) \<in> set (ops r) \<Longrightarrow> ios (win r) p = Some io \<Longrightarrow> 0 < bytes \<Longrightarrow>
     (io_type io = IO_SEND \<Longrightarrow> bytes = io_len io) \<Longrightarrow>
     ServerWorkThread_pass True bytes (Some h) (Some p) received next (win r) = Inr (w, evs, acts, True) \<Longrightarrow>
     win_reachable (r\<lparr>win := w, ops := remove1 (h, p) (ops r) @ started h acts, issued := note_sends acts (issued r)\<rparr>)"
| win_partial: "win_reachable r \<Longrightarrow> (h, p) \<in> set (ops r) \<Longrightarrow> ios (win r) p = Some io \<Longrightarrow> io_type io = IO_SEND \<Longrightarrow>
     0 < bytes \<Longrightarrow> bytes < io_len io \<Longrightarrow>
     ServerWorkThread_pass True bytes (Some h) (Some p) received next (win r) = Inr (w, evs, acts, True) \<Longrightarrow>
     win_reachable (r\<lparr>win := w, ops := remove1 (h, p) (ops r) @ started h acts\<rparr>)"

section \<open>Invariant\<close>

fun transfers :: "nat option list \<Rightarrow> nat list" where
  "transfers [] = []"
| "transfers (None # q) = transfers q"
| "transfers (Some p # q) = p # transfers q"

lemma transfers_append [simp]: "transfers (q @ q') = transfers q @ transfers q'"
  by (induction q rule: transfers.induct) auto

lemma pop_send_cases:
  obtains "pop_send q = (None, [])" "transfers q = []"
  | p q' where "pop_send q = (Some p, q')" "transfers q = p # transfers q'"
  by (induction q rule: pop_send.induct) auto

definition queued_sends :: "WinAccept \<Rightarrow> int \<Rightarrow> nat list" where
  "queued_sends w sock = transfers (send_queue w sock)"

text \<open>
  Every operation that was started lives, every transfer in a queue lives, and no operation is at two
  of these places.
\<close>

definition places_ok :: "WinAccept \<Rightarrow> (nat \<times> nat) list \<Rightarrow> bool" where
  "places_ok w os \<longleftrightarrow>
     (\<forall>h p. (h, p) \<in> set os \<longrightarrow> handles w h \<noteq> None \<and> ios w p \<noteq> None) \<and>
     (\<forall>s p. p \<in> set (queued_sends w s) \<longrightarrow> (\<exists>io. ios w p = Some io \<and> io_type io = IO_SEND)) \<and>
     distinct (map snd os) \<and> (\<forall>s. distinct (queued_sends w s)) \<and>
     (\<forall>s h p. (h, p) \<in> set os \<longrightarrow> p \<notin> set (queued_sends w s)) \<and>
     (\<forall>s s' p. s \<noteq> s' \<longrightarrow> p \<in> set (queued_sends w s) \<longrightarrow> p \<notin> set (queued_sends w s'))"

definition sending :: "WinAccept \<Rightarrow> (nat \<times> nat) list \<Rightarrow> int \<Rightarrow> bool" where
  "sending w os sock \<longleftrightarrow> (\<exists>(h, p) \<in> set os. handles w h = Some sock \<and> (\<exists>io. ios w p = Some io \<and> io_type io = IO_SEND))"

definition payloads :: "WinAccept \<Rightarrow> int \<Rightarrow> byte list list" where
  "payloads w sock = map (\<lambda>p. io_payload (the (ios w p))) (queued_sends w sock)"

definition win_inv :: "WinAccept \<Rightarrow> (nat \<times> nat) list \<Rightarrow> (int \<Rightarrow> byte list list) \<Rightarrow> (int \<Rightarrow> byte list list) \<Rightarrow> bool" where
  "win_inv w os wr iss \<longleftrightarrow> places_ok w os \<and> (\<forall>s. send_queue w s \<noteq> [] \<longrightarrow> sending w os s) \<and>
     (\<forall>s. iss s @ payloads w s = wr s)"

lemma send_queue_put [simp]:
  "send_queue (w\<lparr>send_queue_map := m(sock \<mapsto> q)\<rparr>) s = (if s = sock then q else case m s of None \<Rightarrow> [] | Some q \<Rightarrow> q)"
  by (simp add: send_queue_def)

lemma send_queue_ios [simp]: "send_queue (w\<lparr>ios := i\<rparr>) = send_queue w"
  by (simp add: send_queue_def fun_eq_iff)

lemma places_okD:
  assumes "places_ok w os"
  shows "(h, p) \<in> set os \<Longrightarrow> \<exists>s. handles w h = Some s" "(h, p) \<in> set os \<Longrightarrow> \<exists>io. ios w p = Some io"
    "p \<in> set (queued_sends w s) \<Longrightarrow> \<exists>io. ios w p = Some io \<and> io_type io = IO_SEND"
    "(h, p) \<in> set os \<Longrightarrow> p \<notin> set (queued_sends w s)" "distinct (queued_sends w s)"
    "p \<in> set (queued_sends w s) \<Longrightarrow> s \<noteq> s' \<Longrightarrow> p \<notin> set (queued_sends w s')" "distinct (map snd os)"
  using assms unfolding places_ok_def by blast+

lemma places_okI:
  assumes "\<And>h p. (h, p) \<in> set os \<Longrightarrow> handles w h \<noteq> None \<and> ios w p \<noteq> None"
    "\<And>s p. p \<in> set (queued_sends w s) \<Longrightarrow> \<exists>io. ios w p = Some io \<and> io_type io = IO_SEND"
    "distinct (map snd os)" "\<And>s. distinct (queued_sends w s)" "\<And>s h p. (h, p) \<in> set os \<Longrightarrow> p \<notin> set (queued_sends w s)"
    "\<And>s s' p. s \<noteq> s' \<Longrightarrow> p \<in> set (queued_sends w s) \<Longrightarrow> p \<notin> set (queued_sends w s')"
  shows "places_ok w os"
  using assms unfolding places_ok_def by blast

lemma fresh_not_queued:
  assumes "places_ok w os" "ios w p = None"
  shows "p \<notin> set (queued_sends w s)" "(h, p) \<notin> set os"
  using places_okD(2,3)[OF assms(1)] assms(2) by fastforce+

text \<open>What a step may do to the tables and queues, one lemma a kind of step: start an operation on a fresh address,\<close>

lemma places_ok_start:
  assumes "places_ok w os" "ios w p = None" "handles w' h \<noteq> None"
    "\<And>h'. handles w h' \<noteq> None \<Longrightarrow> handles w' h' = handles w h'"
    "ios w' = (ios w)(p \<mapsto> io)" "queued_sends w' = queued_sends w"
  shows "places_ok w' (os @ [(h, p)])"
proof (rule places_okI)
  note fresh = fresh_not_queued[OF assms(1,2)]
  show "handles w' h' \<noteq> None \<and> ios w' p' \<noteq> None" if "(h', p') \<in> set (os @ [(h, p)])" for h' p'
    using that places_okD(1,2)[OF assms(1)] assms(3-5) by fastforce
  show "\<exists>io. ios w' p' = Some io \<and> io_type io = IO_SEND" if "p' \<in> set (queued_sends w' s)" for s p'
    using that places_okD(3)[OF assms(1)] fresh(1) assms(5,6) by auto
  show "distinct (map snd (os @ [(h, p)]))"
    using fresh(2) places_okD(7)[OF assms(1)] by auto
qed (use fresh_not_queued[OF assms(1,2)] places_okD(4-6)[OF assms(1)] assms(6) in auto)

text \<open>leave one behind a queue,\<close>

lemma places_ok_enqueue:
  assumes "places_ok w os" "ios w p = None" "handles w' = handles w"
    "ios w' = (ios w)(p \<mapsto> io)" "io_type io = IO_SEND" "queued_sends w' = (queued_sends w)(sock := queued_sends w sock @ [p])"
  shows "places_ok w' os"
proof (rule places_okI)
  note fresh = fresh_not_queued[OF assms(1,2)]
  show "handles w' h' \<noteq> None \<and> ios w' p' \<noteq> None" if "(h', p') \<in> set os" for h' p'
    using that places_okD(1,2)[OF assms(1)] assms(3,4) by fastforce
  show "\<exists>io. ios w' p' = Some io \<and> io_type io = IO_SEND" if "p' \<in> set (queued_sends w' s)" for s p'
    using that places_okD(3)[OF assms(1)] assms(4-6) by (auto split: if_splits)
  show "p' \<notin> set (queued_sends w' s)" if "(h', p') \<in> set os" for s h' p'
    using that places_okD(4)[OF assms(1)] fresh(2) assms(6) by auto
  show "p' \<notin> set (queued_sends w' s')" if "s \<noteq> s'" "p' \<in> set (queued_sends w' s)" for s s' p'
    using that places_okD(6)[OF assms(1)] fresh(1) assms(6) by (auto split: if_splits)
qed (use fresh_not_queued[OF assms(1,2)] places_okD(5,7)[OF assms(1)] assms(6) in auto)

text \<open>forget one that completed,\<close>

lemma places_ok_finish:
  assumes "places_ok w os" "(h, p) \<in> set os" "handles w' = handles w" "ios w' = (ios w)(p := None)" "queued_sends w' = queued_sends w"
  shows "places_ok w' (remove1 (h, p) os)"
proof (rule places_okI)
  have d: "distinct os" "inj_on snd (set os)"
    using places_okD(7)[OF assms(1)] by (auto simp: distinct_map)
  show "handles w' h' \<noteq> None \<and> ios w' p' \<noteq> None" if "(h', p') \<in> set (remove1 (h, p) os)" for h' p'
    using that places_okD(1,2)[OF assms(1), of h' p'] assms(2-4) d(1) inj_onD[OF d(2), of "(h', p')" "(h, p)"] by auto
  show "\<exists>io. ios w' p' = Some io \<and> io_type io = IO_SEND" if "p' \<in> set (queued_sends w' s)" for s p'
    using that places_okD(3)[OF assms(1)] places_okD(4)[OF assms(1,2)] assms(4,5) by auto
  show "distinct (map snd (remove1 (h, p) os))"
    using d by (auto simp: distinct_map intro: inj_on_subset)
  show "p' \<notin> set (queued_sends w' s)" if "(h', p') \<in> set (remove1 (h, p) os)" for s h' p'
    using that places_okD(4)[OF assms(1)] notin_set_remove1 assms(5) by metis
qed (use places_okD(5,6)[OF assms(1)] assms(5) in auto)

text \<open>and start the front of a queue.\<close>

lemma places_ok_dequeue:
  assumes "places_ok w os" "handles w h \<noteq> None" "handles w' = handles w" "ios w' = ios w"
    "queued_sends w sock = n # q" "queued_sends w' = (queued_sends w)(sock := q)"
  shows "places_ok w' (os @ [(h, n)])"
proof (rule places_okI)
  have n: "n \<in> set (queued_sends w sock)" "n \<notin> set q" using assms(5) places_okD(5)[OF assms(1), of sock] by auto
  have other: "n \<notin> set (queued_sends w s)" if "s \<noteq> sock" for s using places_okD(6)[OF assms(1) n(1)] that by auto
  show "handles w' h' \<noteq> None \<and> ios w' p' \<noteq> None" if "(h', p') \<in> set (os @ [(h, n)])" for h' p'
    using that places_okD(1,2)[OF assms(1)] places_okD(3)[OF assms(1) n(1)] assms(2-4) by auto
  show "\<exists>io. ios w' p' = Some io \<and> io_type io = IO_SEND" if "p' \<in> set (queued_sends w' s)" for s p'
    using that places_okD(3)[OF assms(1), of p' s] assms(4-6) by (auto split: if_splits)
  show "distinct (map snd (os @ [(h, n)]))"
    using places_okD(4,7)[OF assms(1)] n(1) by auto
  show "distinct (queued_sends w' s)" for s
    using places_okD(5)[OF assms(1), of s] assms(5,6) by auto
  show "p' \<notin> set (queued_sends w' s)" if "(h', p') \<in> set (os @ [(h, n)])" for s h' p'
    using that places_okD(4)[OF assms(1), of h' p' s] n(2) other[of s] assms(5,6) by (auto split: if_splits)
  show "p' \<notin> set (queued_sends w' s')" if "s \<noteq> s'" "p' \<in> set (queued_sends w' s)" for s s' p'
    using that places_okD(6)[OF assms(1), of p' s s'] assms(5,6) by (auto split: if_splits)
qed


lemma payload_map [simp]:
  "p \<notin> set ps \<Longrightarrow> map (\<lambda>x. f (the (if x = p then v else g x))) ps = map (\<lambda>x. f (the (g x))) ps"
  by (rule map_cong) auto

lemma payloads_upd:
  assumes "queued_sends w' s = queued_sends w s" "ios w' = (ios w)(p := v)" "p \<notin> set (queued_sends w s)"
  shows "payloads w' s = payloads w s"
  using assms by (simp add: payloads_def)

lemma sending_mono:
  assumes "sending w os s"
    "\<And>h p io. (h, p) \<in> set os \<Longrightarrow> handles w h = Some s \<Longrightarrow> ios w p = Some io \<Longrightarrow> io_type io = IO_SEND \<Longrightarrow>
       (h, p) \<in> set os' \<and> handles w' h = Some s \<and> ios w' p = Some io"
  shows "sending w' os' s"
proof -
  obtain h p io where "(h, p) \<in> set os" "handles w h = Some s" "ios w p = Some io" "io_type io = IO_SEND"
    using assms(1) by (auto simp: sending_def)
  then show ?thesis using assms(2)[of h p io] unfolding sending_def by blast
qed

lemma sending_self:
  assumes "(h, p) \<in> set os" "handles w h = Some s" "ios w p = Some io" "io_type io = IO_SEND"
  shows "sending w os s"
  using assms unfolding sending_def by blast

lemma win_invI:
  assumes "places_ok w os" "\<And>s. send_queue w s \<noteq> [] \<Longrightarrow> sending w os s" "\<And>s. iss s @ payloads w s = wr s"
  shows "win_inv w os wr iss"
  using assms by (simp add: win_inv_def)

lemma win_invD:
  assumes "win_inv w os wr iss"
  shows "places_ok w os" "send_queue w s \<noteq> [] \<Longrightarrow> sending w os s" "iss s @ payloads w s = wr s"
  using assms by (simp_all add: win_inv_def)

lemma win_inv_start:
  assumes "WinAccept_Listen_setup os port (WinAccept_new\<lparr>wa_handler := b\<rparr>) = (True, w)"
  shows "win_inv w [] (\<lambda>_. []) (\<lambda>_. [])"
  using assms by (auto simp: WinAccept_Listen_setup_def WinAccept_new_def win_inv_def places_ok_def payloads_def queued_sends_def
      send_queue_def split: if_splits)

lemma win_inv_accept:
  assumes inv: "win_inv w os wr iss" and fresh: "handles w h = None" "ios w p = None"
    and run: "WinAccept_accept (Some sock) (Some h) True (Some p) recv w = (Some sock, w', acts)"
  shows "win_inv w' (os @ started h acts) wr iss"
proof (rule win_invI)
  have w: "handles w' = (handles w)(h \<mapsto> sock)" "\<exists>io. ios w' = (ios w)(p \<mapsto> io)"
    "send_queue w' = send_queue w" "started h acts = [(h, p)]"
    using run by (auto simp: WinAccept_accept_def Let_def send_queue_def fun_eq_iff split: if_splits)
  then obtain io where io: "ios w' = (ios w)(p \<mapsto> io)" by blast
  have q: "queued_sends w' = queued_sends w" using w(3) by (simp add: queued_sends_def fun_eq_iff)
  note places = win_invD(1)[OF inv]
  show "places_ok w' (os @ started h acts)"
    unfolding w(4) by (rule places_ok_start[OF places fresh(2) _ _ io q]) (use w(1) fresh in auto)
  show "sending w' (os @ started h acts) s" if "send_queue w' s \<noteq> []" for s
    using win_invD(2)[OF inv, of s] that w fresh io by (auto elim!: sending_mono)
  show "iss s @ payloads w' s = wr s" for s
    using win_invD(3)[OF inv, of s] payloads_upd[OF _ io fresh_not_queued(1)[OF places fresh(2)], of s] q by simp
qed

lemma win_inv_register:
  assumes "win_inv w os wr iss"
  shows "win_inv (fst (WinAccept_register sock ip rport port w)) os wr iss"
  using assms by (simp add: WinAccept_register_def Let_def win_inv_def places_ok_def sending_def payloads_def queued_sends_def
      send_queue_def)

text \<open>A transfer that \<^verbatim>\<open>Write\<close> leaves behind a queue, one it starts at once, and one \<^verbatim>\<open>WSASend\<close> refuses.\<close>

lemma win_inv_enqueue:
  assumes inv: "win_inv w os wr iss" and fresh: "ios w p = None" and io: "io_type io = IO_SEND"
    and q: "send_queue w sock \<noteq> []"
    and w: "handles w' = handles w" "ios w' = (ios w)(p \<mapsto> io)" "send_queue w' = (send_queue w)(sock := send_queue w sock @ [Some p])"
  shows "win_inv w' os (wr(sock := wr sock @ [io_payload io])) iss"
proof (rule win_invI)
  note places = win_invD(1)[OF inv]
  have q': "queued_sends w' = (queued_sends w)(sock := queued_sends w sock @ [p])" using w(3) by (auto simp: queued_sends_def fun_eq_iff)
  show "places_ok w' os" by (rule places_ok_enqueue[OF places fresh w(1,2) io q'])
  show "sending w' os s" if "send_queue w' s \<noteq> []" for s
  proof -
    have "send_queue w s \<noteq> []" using that q w(3) by (auto split: if_splits)
    from win_invD(2)[OF inv this] show ?thesis using w fresh by (auto elim!: sending_mono)
  qed
  show "iss s @ payloads w' s = (wr(sock := wr sock @ [io_payload io])) s" for s
    using win_invD(3)[OF inv, of s] fresh_not_queued(1)[OF places fresh, of s] q' w(2)
    by (auto simp: payloads_def simp flip: append_assoc)
qed

lemma win_inv_send:
  assumes inv: "win_inv w os wr iss" and fresh: "ios w p = None" and io: "io_type io = IO_SEND"
    and q: "send_queue w sock = []" and h: "handles w h = Some sock"
    and w: "handles w' = handles w" "ios w' = (ios w)(p \<mapsto> io)" "send_queue w' = (send_queue w)(sock := m)" "transfers m = []"
  shows "win_inv w' (os @ [(h, p)]) (wr(sock := wr sock @ [io_payload io])) (iss(sock := iss sock @ [io_payload io]))"
proof (rule win_invI)
  note places = win_invD(1)[OF inv]
  have q': "queued_sends w' = queued_sends w" using w(3,4) q by (auto simp: queued_sends_def fun_eq_iff)
  show "places_ok w' (os @ [(h, p)])" by (rule places_ok_start[OF places fresh _ _ w(2) q']) (use w(1) h in auto)
  show "sending w' (os @ [(h, p)]) s" if "send_queue w' s \<noteq> []" for s
  proof (cases "s = sock")
    case True
    then show ?thesis using sending_self[of h p "os @ [(h, p)]" w' s io] h w(1,2) io by simp
  next
    case False
    then have "send_queue w s \<noteq> []" using that w(3) by simp
    from win_invD(2)[OF inv this] show ?thesis using w fresh by (auto elim!: sending_mono)
  qed
  have "payloads w' s = payloads w s" for s
    using payloads_upd[OF _ w(2) fresh_not_queued(1)[OF places fresh], of s] q' by simp
  moreover have "payloads w sock = []" using q by (simp add: payloads_def queued_sends_def)
  ultimately show "(iss(sock := iss sock @ [io_payload io])) s @ payloads w' s = (wr(sock := wr sock @ [io_payload io])) s" for s
    using win_invD(3)[OF inv, of s] by auto
qed

lemma win_inv_unused:
  assumes inv: "win_inv w os wr iss" and fresh: "ios w p = None"
    and w: "handles w' = handles w" "ios w' = (ios w)(p \<mapsto> io)" "send_queue w' = send_queue w"
  shows "win_inv w' os wr iss"
proof (rule win_invI)
  note places = win_invD(1)[OF inv]
  have q: "queued_sends w' = queued_sends w" using w(3) by (simp add: queued_sends_def fun_eq_iff)
  show "places_ok w' os"
    using places fresh_not_queued[OF places fresh] unfolding places_ok_def w(1,2) q by auto
  show "sending w' os s" if "send_queue w' s \<noteq> []" for s
    using win_invD(2)[OF inv, of s] that w fresh by (auto elim!: sending_mono)
  show "iss s @ payloads w' s = wr s" for s
    using win_invD(3)[OF inv, of s] payloads_upd[OF _ w(2) fresh_not_queued(1)[OF places fresh], of s] q by simp
qed

text \<open>A send completes: with nothing left in the queue, and with another transfer to start.\<close>

lemma sending_elsewhere:
  assumes "places_ok w os" "(h, p) \<in> set os" "handles w h = Some sock" "s \<noteq> sock" "sending w os s"
    "handles w' = handles w" "ios w' = (ios w)(p := v)" "set (remove1 (h, p) os) \<subseteq> set os'"
  shows "sending w' os' s"
proof (rule sending_mono[OF assms(5)])
  fix h' p' io
  assume a: "(h', p') \<in> set os" "handles w h' = Some s" "ios w p' = Some io" "io_type io = IO_SEND"
  have ne: "(h', p') \<noteq> (h, p)" using a(2) assms(3,4) by auto
  then have "p' \<noteq> p" using inj_onD[of snd "set os" "(h', p')" "(h, p)"] places_okD(7)[OF assms(1)] a(1) assms(2)
    by (auto simp: distinct_map)
  then show "(h', p') \<in> set os' \<and> handles w' h' = Some s \<and> ios w' p' = Some io"
    using a assms(6-8) ne by (auto simp: in_set_remove1)
qed

lemma win_inv_last:
  assumes inv: "win_inv w os wr iss" and op: "(h, p) \<in> set os" "handles w h = Some sock" and q: "queued_sends w sock = []"
    and w: "handles w' = handles w" "ios w' = (ios w)(p := None)" "send_queue w' = (send_queue w)(sock := [])"
  shows "win_inv w' (remove1 (h, p) os) wr iss"
proof (rule win_invI)
  note places = win_invD(1)[OF inv]
  have q': "queued_sends w' = queued_sends w" using w(3) q by (auto simp: queued_sends_def fun_eq_iff)
  show "places_ok w' (remove1 (h, p) os)" by (rule places_ok_finish[OF places op(1) w(1,2) q'])
  show "sending w' (remove1 (h, p) os) s" if "send_queue w' s \<noteq> []" for s
    using that sending_elsewhere[OF places op _ win_invD(2)[OF inv] w(1,2), of s "remove1 (h, p) os"] w(3)
    by (auto split: if_splits)
  show "iss s @ payloads w' s = wr s" for s
    using win_invD(3)[OF inv, of s] payloads_upd[OF _ w(2) places_okD(4)[OF places op(1)], of s] q' by simp
qed

lemma win_inv_next:
  assumes inv: "win_inv w os wr iss" and op: "(h, p) \<in> set os" "handles w h = Some sock" and q: "queued_sends w sock = n # q"
    and io: "ios w n = Some io"
    and w: "handles w' = handles w" "ios w' = (ios w)(p := None)" "send_queue w' = (send_queue w)(sock := m)" "transfers m = q"
  shows "win_inv w' (remove1 (h, p) os @ [(h, n)]) wr (iss(sock := iss sock @ [io_payload io]))"
proof (rule win_invI)
  let ?v = "w\<lparr>ios := (ios w)(p := None)\<rparr>"
  note places = win_invD(1)[OF inv]
  have v: "queued_sends ?v = queued_sends w" by (simp add: queued_sends_def send_queue_def fun_eq_iff)
  have q': "queued_sends w' = (queued_sends w)(sock := q)" using w(3,4) by (auto simp: queued_sends_def fun_eq_iff)
  have n: "n \<in> set (queued_sends w sock)" using q by simp
  have np: "n \<noteq> p" using places_okD(4)[OF places op(1)] n by auto
  have send: "io_type io = IO_SEND" using places_okD(3)[OF places n] io by simp
  have "places_ok ?v (remove1 (h, p) os)" by (rule places_ok_finish[OF places op(1) _ _ v]) simp_all
  then show "places_ok w' (remove1 (h, p) os @ [(h, n)])"
    by (rule places_ok_dequeue) (use op(2) w(1,2) v q q' in simp_all)
  show "sending w' (remove1 (h, p) os @ [(h, n)]) s" if "send_queue w' s \<noteq> []" for s
  proof (cases "s = sock")
    case True
    then show ?thesis using sending_self[of h n "remove1 (h, p) os @ [(h, n)]" w' s io] op(2) w(1,2) io send np by simp
  next
    case False
    then show ?thesis using that sending_elsewhere[OF places op _ win_invD(2)[OF inv] w(1,2), of s "remove1 (h, p) os @ [(h, n)]"] w(3) by auto
  qed
  have "payloads w' s = payloads w s" if "s \<noteq> sock" for s
    using payloads_upd[OF _ w(2) places_okD(4)[OF places op(1)], of s] q' that by simp
  moreover have "payloads w sock = io_payload io # payloads w' sock"
    using q q' w(2) io np places_okD(4)[OF places op(1), of sock] by (simp add: payloads_def)
  ultimately show "(iss(sock := iss sock @ [io_payload io])) s @ payloads w' s = wr s" for s
    using win_invD(3)[OF inv, of s] by auto
qed

text \<open>An operation completes and the next receive, or the rest of the send, is started on the same address.\<close>

lemma win_inv_again:
  assumes inv: "win_inv w os wr iss" and op: "(h, p) \<in> set os" "ios w p = Some io" "io_type io' = io_type io"
    and w: "handles w' = handles w" "ios w' = (ios w)(p \<mapsto> io')" "send_queue w' = send_queue w"
  shows "win_inv w' (remove1 (h, p) os @ [(h, p)]) wr iss"
proof (rule win_invI)
  note places = win_invD(1)[OF inv]
  have q: "queued_sends w' = queued_sends w" using w(3) by (simp add: queued_sends_def fun_eq_iff)
  have d: "distinct os" "inj_on snd (set os)" using places_okD(7)[OF places] by (auto simp: distinct_map)
  have os: "set (remove1 (h, p) os @ [(h, p)]) = set os" using d(1) op(1) by auto
  show "places_ok w' (remove1 (h, p) os @ [(h, p)])"
  proof (rule places_okI)
    show "distinct (map snd (remove1 (h, p) os @ [(h, p)]))"
      unfolding distinct_map os using d by (auto simp: distinct_remove1)
    show "\<exists>io. ios w' p' = Some io \<and> io_type io = IO_SEND" if "p' \<in> set (queued_sends w' s)" for s p'
      using that places_okD(3)[OF places, of p' s] places_okD(4)[OF places op(1), of s] q w(2) by auto
    show "handles w' h' \<noteq> None \<and> ios w' p' \<noteq> None" if "(h', p') \<in> set (remove1 (h, p) os @ [(h, p)])" for h' p'
      using that places_okD(1,2)[OF places, of h' p'] unfolding os w(1,2) by auto
    show "p' \<notin> set (queued_sends w' s)" if "(h', p') \<in> set (remove1 (h, p) os @ [(h, p)])" for s h' p'
      using that places_okD(4)[OF places, of h' p' s] unfolding os q by auto
  qed (use places_okD(5,6)[OF places] q in auto)
  show "sending w' (remove1 (h, p) os @ [(h, p)]) s" if ne: "send_queue w' s \<noteq> []" for s
  proof -
    obtain h' p' io'' where "(h', p') \<in> set os" "handles w h' = Some s" "ios w p' = Some io''" "io_type io'' = IO_SEND"
      using win_invD(2)[OF inv, of s] ne unfolding w(3) sending_def by blast
    then show ?thesis using sending_self[of h' p' "remove1 (h, p) os @ [(h, p)]" w' s] op(2,3) os w(1,2) by (cases "p' = p") auto
  qed
  show "iss s @ payloads w' s = wr s" for s
    using win_invD(3)[OF inv, of s] payloads_upd[OF _ w(2) places_okD(4)[OF places op(1)], of s] q by simp
qed

text \<open>The operations are these steps.\<close>

lemma WinAccept_Write_cases:
  assumes find: "map_find Endpoint_less \<lparr>remote_ip_addr = ip, remote_port = port, local_port = wa_local_port w\<rparr>
       (wa_endpoint_sock_map w) = Some sock"
    and run: "WinAccept_Write (Some p) send ip port (Some bs) (int (length bs)) w = Inr (accepted, w', acts)"
  obtains "\<not> accepted" "w' = w" "acts = []"
  | io where "io_type io = IO_SEND" "io_payload io = bs" "handles w' = handles w" "ios w' = (ios w)(p \<mapsto> io)"
      "send_queue w sock \<noteq> []" "accepted" "acts = []" "send_queue w' = (send_queue w)(sock := send_queue w sock @ [Some p])"
  | io m where "io_type io = IO_SEND" "io_payload io = bs" "handles w' = handles w" "ios w' = (ios w)(p \<mapsto> io)"
      "send_queue w sock = []" "accepted" "acts = [WsaSend sock p bs]" "send_queue w' = (send_queue w)(sock := m)" "transfers m = []"
  | io where "handles w' = handles w" "ios w' = (ios w)(p \<mapsto> io)" "\<not> accepted" "acts = []" "send_queue w' = send_queue w"
proof (cases "bs = [] \<or> MAX_SOCKET_MSG_BUFF_LENGTH < int (length bs)")
  case True
  then show ?thesis using run that(1) by (auto simp: WinAccept_Write_defs split: if_splits)
next
  case False
  let ?buf = "bs @ drop (length bs) (replicate (nat MAX_SOCKET_MSG_BUFF_LENGTH) 0)"
  define io where "io = \<lparr>io_buffer = ?buf, io_buf = 0, io_len = int (length bs), io_transferred = 0, io_type = IO_SEND\<rparr>"
  have io: "io_type io = IO_SEND" "io_payload io = bs" by (simp_all add: io_def io_payload_def)
  have "memcpy (replicate (nat MAX_SOCKET_MSG_BUFF_LENGTH) 0) 0 bs (int (length bs)) = Inr ?buf"
    using False by (simp add: memcpy_def MAX_SOCKET_MSG_BUFF_LENGTH_def)
  then have w: "(if send_queue w sock \<noteq> [] then
      (True, w\<lparr>ios := (ios w)(p \<mapsto> io), send_queue_map := (send_queue_map w)(sock \<mapsto> send_queue w sock @ [Some p])\<rparr>, [])
    else case send of
        WSA_FAILED \<Rightarrow> (False, w\<lparr>ios := (ios w)(p \<mapsto> io), send_queue_map := (send_queue_map w)(sock \<mapsto> [])\<rparr>, [])
      | WSA_DONE \<Rightarrow> (True, w\<lparr>ios := (ios w)(p \<mapsto> io), send_queue_map := (send_queue_map w)(sock \<mapsto> [])\<rparr>, [WsaSend sock p bs])
      | WSA_PENDING \<Rightarrow> (True, w\<lparr>ios := (ios w)(p \<mapsto> io), send_queue_map := (send_queue_map w)(sock \<mapsto> [None])\<rparr>,
          [WsaSend sock p bs])) = (accepted, w', acts)"
    using run False find io(2) unfolding io_def
    by (auto simp: WinAccept_Write_defs bind_res_def Let_def split: wsa_result.splits if_splits)
  have q: "send_queue (w\<lparr>ios := i, send_queue_map := (send_queue_map w)(sock \<mapsto> m)\<rparr>) = (send_queue w)(sock := m)" for i m
    by (auto simp: send_queue_def fun_eq_iff)
  show ?thesis
  proof (cases "send_queue w sock = []")
    case True
    then have same: "(send_queue w)(sock := []) = send_queue w" by auto
    show ?thesis
      using w True that(3)[OF io, of "[]"] that(3)[OF io, of "[None]"] that(4)[of io]
      by (cases send) (auto simp: q same)
  next
    case ne: False
    then show ?thesis using w that(2)[OF io] by (auto simp: q)
  qed
qed

lemma win_inv_write:
  assumes inv: "win_inv w os wr iss" and fresh: "ios w p = None" and h: "handles w h = Some sock"
    and find: "map_find Endpoint_less \<lparr>remote_ip_addr = ip, remote_port = port, local_port = wa_local_port w\<rparr>
       (wa_endpoint_sock_map w) = Some sock"
    and run: "WinAccept_Write (Some p) send ip port (Some bs) (int (length bs)) w = Inr (accepted, w', acts)"
  shows "win_inv w' (os @ started h acts) (wr(sock := wr sock @ (if accepted then [bs] else []))) (note_sends acts iss)"
proof (cases rule: WinAccept_Write_cases[OF find run])
  case 1
  then show ?thesis using inv by simp
next
  case (2 io)
  then show ?thesis using win_inv_enqueue[OF inv fresh 2(1,5,3,4,8)] by simp
next
  case (3 io m)
  then show ?thesis using win_inv_send[OF inv fresh 3(1,5) h 3(3,4,8,9)] by simp
next
  case (4 io)
  then show ?thesis using win_inv_unused[OF inv fresh 4(1,2,5)] by simp
qed

lemma win_inv_complete:
  assumes inv: "win_inv w os wr iss" and op: "(h, p) \<in> set os" and io: "ios w p = Some io" and bytes: "0 < bytes"
    and all: "io_type io = IO_SEND \<Longrightarrow> bytes = io_len io"
    and run: "ServerWorkThread_pass True bytes (Some h) (Some p) received next w = Inr (w', evs, acts, True)"
  shows "win_inv w' (remove1 (h, p) os @ started h acts) wr (note_sends acts iss)"
proof -
  obtain sock where sock: "handles w h = Some sock" using places_okD(1)[OF win_invD(1)[OF inv] op] by blast
  have q: "send_queue (w\<lparr>send_queue_map := (send_queue_map w)(sock \<mapsto> m), ios := i\<rparr>) = (send_queue w)(sock := m)" for i m
    by (auto simp: send_queue_def fun_eq_iff)
  show ?thesis
  proof (cases "io_type io")
    case IO_RECV
    then obtain buf where "w' = w\<lparr>ios := (ios w)(p \<mapsto> io\<lparr>io_buffer := buf, io_len := MAX_SOCKET_MSG_BUFF_LENGTH, io_buf := 0, io_transferred := 0\<rparr>)\<rparr>"
      "acts = [WsaRecv sock p]"
      using run sock io bytes
      by (auto simp: ServerWorkThread_pass_def worker_recv_def bind_res_def Let_def split: sum.splits if_splits)
    then show ?thesis using win_inv_again[OF inv op io, of "io\<lparr>io_buffer := buf, io_len := MAX_SOCKET_MSG_BUFF_LENGTH, io_buf := 0, io_transferred := 0\<rparr>" w'] by simp
  next
    case IO_SEND
    then have send: "worker_send (io_len io) next sock p (io\<lparr>io_transferred := io_transferred io + io_len io\<rparr>) w
        = Inr (w', evs, acts, True)"
      using run sock io bytes all by (simp add: ServerWorkThread_pass_def Let_def)
    show ?thesis
    proof (cases rule: pop_send_cases[of "send_queue w sock"])
      case 1
      then show ?thesis using send win_inv_last[OF inv op sock, of w'] q
        by (auto simp: worker_send_defs queued_sends_def)
    next
      case (2 n m)
      then have n: "queued_sends w sock = n # transfers m" by (simp add: queued_sends_def)
      then obtain nio where nio: "ios w n = Some nio" using places_okD(3)[OF win_invD(1)[OF inv], of n sock] by auto
      show ?thesis
        using send 2 nio q win_inv_next[OF inv op sock n nio, of w' m] win_inv_next[OF inv op sock n nio, of w' "m @ [None]"]
        by (cases "next") (auto simp: worker_send_defs)
    qed
  qed
qed

lemma win_inv_partial:
  assumes inv: "win_inv w os wr iss" and op: "(h, p) \<in> set os" and io: "ios w p = Some io" "io_type io = IO_SEND"
    and bytes: "0 < bytes" "bytes < io_len io"
    and run: "ServerWorkThread_pass True bytes (Some h) (Some p) received next w = Inr (w', evs, acts, True)"
  shows "win_inv w' (remove1 (h, p) os @ started h acts) wr iss"
proof -
  obtain sock where sock: "handles w h = Some sock" using places_okD(1)[OF win_invD(1)[OF inv] op] by blast
  let ?io = "io\<lparr>io_transferred := io_transferred io + bytes, io_buf := io_buf io + bytes, io_len := io_len io - bytes\<rparr>"
  have "w' = w\<lparr>ios := (ios w)(p \<mapsto> ?io)\<rparr>" "acts = [WsaSend sock p (io_payload ?io)]"
    using run sock io bytes by (auto simp: ServerWorkThread_pass_def worker_send_def Let_def split: if_splits)
  then show ?thesis using win_inv_again[OF inv op io(1), of ?io w'] by simp
qed

lemma win_reachable_inv:
  assumes "win_reachable r"
  shows "win_inv (win r) (ops r) (written r) (issued r)"
  using assms
proof (induction rule: win_reachable.induct)
  case (win_start os port b w)
  then show ?case using win_inv_start by simp
next
  case (win_accept r h p sock recv w acts)
  then show ?case using win_inv_accept[of "win r" "ops r" "written r" "issued r"] by (auto simp: domIff)
next
  case (win_register r sock ip rport port)
  then show ?case using win_inv_register by simp
next
  case (win_write r p ip port sock h send bs accepted w acts)
  then have "ios (win r) p = None" by (simp add: domIff)
  from win_inv_write[OF win_write.IH this win_write.hyps(4,3,5)] show ?case by (cases accepted) (simp_all add: fun_upd_def)
next
  case (win_complete r h p io bytes received nxt w evs acts)
  then show ?case using win_inv_complete[OF win_complete.IH win_complete.hyps(2-6)] by simp
next
  case (win_partial r h p io bytes received nxt w evs acts)
  then show ?case using win_inv_partial[OF win_partial.IH win_partial.hyps(2-7)] by simp
qed

section \<open>The client\<close>

fun recv_pieces :: "connect_call list \<Rightarrow> byte list list" where
  "recv_pieces [] = []"
| "recv_pieces (CallRecv buff n # calls) = take (nat n) buff # recv_pieces calls"
| "recv_pieces (_ # calls) = recv_pieces calls"

lemma recv_pieces_append [simp]: "recv_pieces (xs @ ys) = recv_pieces xs @ recv_pieces ys"
  by (induction xs rule: recv_pieces.induct) auto

text \<open>
  The calls as the events of the Linux half; a receive that failed (a length of -1) has no such event.
\<close>

fun connect_events :: "IPAddr \<Rightarrow> Port \<Rightarrow> Port \<Rightarrow> connect_call list \<Rightarrow> socket_event list" where
  "connect_events ip port lport [] = []"
| "connect_events ip port lport (CallConnect # calls) = EvConnect ip port lport # connect_events ip port lport calls"
| "connect_events ip port lport (CallDisconnect # calls) = EvDisconnect ip port lport # connect_events ip port lport calls"
| "connect_events ip port lport (CallRecv buff n # calls) =
     (if 0 \<le> n then [EvRecv ip port lport (take (nat n) buff)] else []) @ connect_events ip port lport calls"

lemma WinConnect_loop_delivers:
  assumes "running c" "con_handler c" "length (con_buff c) = nat MAX_SOCKET_MSG_BUFF_LENGTH"
    "\<forall>bs \<in> set bss. bs \<noteq> [] \<and> length bs \<le> nat MAX_SOCKET_MSG_BUFF_LENGTH"
  shows "\<exists>c' calls. WinConnect_loop (map ReadBytes bss @ [ReadBytes []]) c = Inr (c', calls, True) \<and> recv_pieces calls = bss \<and>
    connect_events ip port lport calls = map (EvRecv ip port lport) bss \<and> con_handler c' \<and> con_local_sock c' = con_local_sock c"
  using assms
proof (induction bss arbitrary: c)
  case Nil
  then show ?case by (simp add: WinConnect_pass_def bind_res_def)
next
  case (Cons bs bss)
  let ?buff = "bs @ drop (length bs) (con_buff c)"
  let ?c = "c\<lparr>con_buff := ?buff\<rparr>"
  have pass: "WinConnect_pass (ReadBytes bs) c = Inr (?c, [CallRecv ?buff (int (length bs))], True)"
    using Cons.prems by (simp add: WinConnect_pass_def memcpy_def bind_res_def MAX_SOCKET_MSG_BUFF_LENGTH_def)
  obtain c' calls where "WinConnect_loop (map ReadBytes bss @ [ReadBytes []]) ?c = Inr (c', calls, True)" "recv_pieces calls = bss"
    "connect_events ip port lport calls = map (EvRecv ip port lport) bss" "con_handler c'" "con_local_sock c' = con_local_sock c"
    using Cons.IH[of ?c] Cons.prems by auto
  then show ?case using pass by (simp add: bind_res_def)
qed

section \<open>Lost bytes\<close>

text \<open>
  The first receive is started before the maps know the socket: bytes that arrive in between are dropped
  and the receive is started again as if they had been handled.
\<close>

lemma recv_before_register_dropped:
  assumes "handles w h = Some sock" "ios w p = Some io" "io_type io = IO_RECV" "io_transferred io = 0"
    "length (io_buffer io) = nat MAX_SOCKET_MSG_BUFF_LENGTH" "received \<noteq> []" "length received \<le> nat MAX_SOCKET_MSG_BUFF_LENGTH"
    "wa_sock_endpoint_map w sock = None" "next \<noteq> WSA_FAILED"
  shows "\<exists>w'. ServerWorkThread_pass True (int (length received)) (Some h) (Some p) received next w = Inr (w', [], [WsaRecv sock p], True)"
  using assms by (simp add: ServerWorkThread_pass_def worker_recv_def memcpy_def read_mem_def bind_res_def Let_def
      MAX_SOCKET_MSG_BUFF_LENGTH_def)

text \<open>A failed completion before the maps know the socket dereferences the end of the map.\<close>

lemma break_before_register:
  assumes "handles w h = Some sock" "ios w p = Some io" "wa_sock_endpoint_map w sock = None"
  shows "ServerWorkThread_pass False bytes (Some h) (Some p) received next w = Inl OutOfBounds"
  using assms by (simp add: ServerWorkThread_pass_def worker_disconnect_def)

text \<open>The client: a failed \<^verbatim>\<open>recv\<close> is handed to the handler as -1 bytes, and the loop goes on.\<close>

lemma WinConnect_recv_error:
  assumes "running c" "con_handler c"
  shows "WinConnect_pass ReadError c = Inr (c, [CallRecv (con_buff c) (- 1)], True)"
  using assms by (simp add: WinConnect_pass_def)

text \<open>A message longer than the buffer of an operation is refused, whoever it is for.\<close>

lemma WinAccept_Write_too_long:
  assumes "MAX_SOCKET_MSG_BUFF_LENGTH < len"
  shows "WinAccept_Write alloc send ip port data len w = Inr (False, w, [])"
  using assms by (simp add: WinAccept_Write_defs split: option.splits)

section \<open>Threads that overlap\<close>

text \<open>
  Where a thread stands: \<^verbatim>\<open>Write\<close> before \<^verbatim>\<open>WSASend\<close> and before the marker is put into the queue, a worker that has taken the
  next transfer before \<^verbatim>\<open>WSASend\<close> and before its marker, or a worker that returned because \<^verbatim>\<open>WSASend\<close> failed.
\<close>

datatype win_point =
    Idle
  | AtWrite nat int nat io_data "byte list"
  | AtMark int
  | AtSend nat int nat nat
  | AtSendMark int nat
  | Stopped

record race_run =
  r_win :: WinAccept
  r_sends :: "(int \<times> nat \<times> nat) list"
  r_recvs :: "(nat \<times> nat) list"
  r_written :: "int \<Rightarrow> byte list list"
  r_issued :: "int \<Rightarrow> byte list list"
  r_points :: "nat \<Rightarrow> win_point"

definition append_to :: "int \<Rightarrow> byte list \<Rightarrow> (int \<Rightarrow> byte list list) \<Rightarrow> int \<Rightarrow> byte list list" where
  "append_to sock bs f = f(sock := f sock @ [bs])"

text \<open>
  One step of one thread. The sends under way are kept with their socket and handle. Connections do
  not break; the parts between two accesses to the shared queue are single steps.
\<close>

inductive race_step :: "race_run \<Rightarrow> race_run \<Rightarrow> bool" where
  race_accept: "h \<notin> dom (handles (r_win r)) \<Longrightarrow> p \<notin> dom (ios (r_win r)) \<Longrightarrow> sock \<notin> ran (handles (r_win r)) \<Longrightarrow>
     WinAccept_accept (Some sock) (Some h) True (Some p) recv (r_win r) = (Some sock, w, acts) \<Longrightarrow>
     race_step r (r\<lparr>r_win := w, r_recvs := r_recvs r @ [(h, p)]\<rparr>)"
| race_register: "sock \<in> ran (handles (r_win r)) \<Longrightarrow>
     race_step r (r\<lparr>r_win := fst (WinAccept_register sock ip rport port (r_win r))\<rparr>)"
| race_write_returns: "r_points r t = Idle \<Longrightarrow> p \<notin> dom (ios (r_win r)) \<Longrightarrow>
     map_find Endpoint_less \<lparr>remote_ip_addr = ip, remote_port = port, local_port = wa_local_port (r_win r)\<rparr>
       (wa_endpoint_sock_map (r_win r)) = Some sock \<Longrightarrow>
     Write_prepare (Some p) ip port (Some bs) (int (length bs)) (r_win r) = Inr (WriteReturns ok, w) \<Longrightarrow>
     race_step r (r\<lparr>r_win := w, r_written := (if ok then append_to sock bs (r_written r) else r_written r)\<rparr>)"
| race_write_begins: "r_points r t = Idle \<Longrightarrow> p \<notin> dom (ios (r_win r)) \<Longrightarrow>
     Write_prepare (Some p) ip port (Some bs) (int (length bs)) (r_win r) = Inr (WriteSends sock p io, w) \<Longrightarrow>
     handles (r_win r) h = Some sock \<Longrightarrow>
     race_step r (r\<lparr>r_win := w, r_points := (r_points r)(t := AtWrite h sock p io bs)\<rparr>)"
| race_write_fails: "r_points r t = AtWrite h sock p io bs \<Longrightarrow>
     race_step r (r\<lparr>r_points := (r_points r)(t := Idle)\<rparr>)"
| race_write_sends: "r_points r t = AtWrite h sock p io bs \<Longrightarrow> send \<noteq> WSA_FAILED \<Longrightarrow>
     race_step r (r\<lparr>r_sends := r_sends r @ [(sock, h, p)], r_written := append_to sock bs (r_written r),
       r_issued := append_to sock (io_payload io) (r_issued r),
       r_points := (r_points r)(t := (if send = WSA_PENDING then AtMark sock else Idle))\<rparr>)"
| race_mark: "r_points r t = AtMark sock \<Longrightarrow>
     race_step r (r\<lparr>r_win := push_marker sock (r_win r), r_points := (r_points r)(t := Idle)\<rparr>)"
| race_complete: "r_points r t = Idle \<Longrightarrow> (sock, h, p) \<in> set (r_sends r) \<Longrightarrow> ios (r_win r) p = Some io \<Longrightarrow> io_len io \<le> bytes \<Longrightarrow>
     worker_pop sock (r_win r) = (None, w) \<Longrightarrow>
     race_step r (r\<lparr>r_win := io_free p w, r_sends := remove1 (sock, h, p) (r_sends r)\<rparr>)"
| race_complete_takes: "r_points r t = Idle \<Longrightarrow> (sock, h, p) \<in> set (r_sends r) \<Longrightarrow> ios (r_win r) p = Some io \<Longrightarrow> io_len io \<le> bytes \<Longrightarrow>
     worker_pop sock (r_win r) = (Some n, w) \<Longrightarrow>
     race_step r (r\<lparr>r_win := w, r_sends := remove1 (sock, h, p) (r_sends r), r_points := (r_points r)(t := AtSend h sock p n)\<rparr>)"
| race_complete_part: "r_points r t = Idle \<Longrightarrow> (sock, h, p) \<in> set (r_sends r) \<Longrightarrow> ios (r_win r) p = Some io \<Longrightarrow> 0 < bytes \<Longrightarrow> bytes < io_len io \<Longrightarrow>
     worker_send bytes send sock p (io\<lparr>io_transferred := io_transferred io + bytes\<rparr>) (r_win r) = Inr (w, evs, acts, True) \<Longrightarrow>
     race_step r (r\<lparr>r_win := w\<rparr>)"
| race_next_fails: "r_points r t = AtSend h sock p n \<Longrightarrow> race_step r (r\<lparr>r_points := (r_points r)(t := Stopped)\<rparr>)"
| race_next_done: "r_points r t = AtSend h sock p n \<Longrightarrow> ios (r_win r) n = Some nio \<Longrightarrow>
     race_step r (r\<lparr>r_win := io_free p (r_win r), r_sends := r_sends r @ [(sock, h, n)],
       r_issued := append_to sock (io_payload nio) (r_issued r), r_points := (r_points r)(t := Idle)\<rparr>)"
| race_next_pending: "r_points r t = AtSend h sock p n \<Longrightarrow> ios (r_win r) n = Some nio \<Longrightarrow>
     race_step r (r\<lparr>r_sends := r_sends r @ [(sock, h, n)],
       r_issued := append_to sock (io_payload nio) (r_issued r), r_points := (r_points r)(t := AtSendMark sock p)\<rparr>)"
| race_next_mark: "r_points r t = AtSendMark sock p \<Longrightarrow>
     race_step r (r\<lparr>r_win := io_free p (push_marker sock (r_win r)), r_points := (r_points r)(t := Idle)\<rparr>)"
| race_recv: "r_points r t = Idle \<Longrightarrow> (h, p) \<in> set (r_recvs r) \<Longrightarrow> ios (r_win r) p = Some io \<Longrightarrow> io_type io = IO_RECV \<Longrightarrow> 0 < bytes \<Longrightarrow>
     ServerWorkThread_pass True bytes (Some h) (Some p) received next (r_win r) = Inr (w, evs, acts, True) \<Longrightarrow>
     race_step r (r\<lparr>r_win := w\<rparr>)"

inductive race_reachable :: "race_run \<Rightarrow> bool" where
  race_start: "WinAccept_Listen_setup os port (WinAccept_new\<lparr>wa_handler := b\<rparr>) = (True, w) \<Longrightarrow>
     race_reachable \<lparr>r_win = w, r_sends = [], r_recvs = [], r_written = (\<lambda>_. []), r_issued = (\<lambda>_. []), r_points = (\<lambda>_. Idle)\<rparr>"
| race_next: "race_reachable r \<Longrightarrow> race_step r r' \<Longrightarrow> race_reachable r'"

text \<open>
  No send of the socket is under way or about to be started, and its queue is not empty: the socket
  waits for a completion that nothing will cause.
\<close>

definition about_to_send :: "int \<Rightarrow> win_point \<Rightarrow> bool" where
  "about_to_send sock pt = (case pt of AtWrite _ s _ _ _ \<Rightarrow> s = sock | AtSend _ s _ _ \<Rightarrow> s = sock | _ \<Rightarrow> False)"

definition stalled :: "race_run \<Rightarrow> int \<Rightarrow> bool" where
  "stalled r sock \<longleftrightarrow> send_queue (r_win r) sock \<noteq> [] \<and> sock \<in> ran (handles (r_win r)) \<and>
     (\<forall>h p. (sock, h, p) \<notin> set (r_sends r)) \<and> (\<forall>t. \<not> about_to_send sock (r_points r t))"

lemma about_to_send_simps [simp]:
  "\<not> about_to_send sock Idle" "\<not> about_to_send sock Stopped" "\<not> about_to_send sock (AtMark s)" "\<not> about_to_send sock (AtSendMark s p)"
  "about_to_send sock (AtWrite h s p io bs) = (s = sock)" "about_to_send sock (AtSend h s p n) = (s = sock)"
  by (simp_all add: about_to_send_def)

lemma stalledD:
  assumes "stalled r sock"
  shows "send_queue (r_win r) sock \<noteq> []" "sock \<in> ran (handles (r_win r))" "(sock, h, p) \<notin> set (r_sends r)"
    "r_points r t = AtWrite h s p io bs \<Longrightarrow> s \<noteq> sock" "r_points r t = AtSend h s p n \<Longrightarrow> s \<noteq> sock"
  using assms about_to_send_simps(5,6) unfolding stalled_def by metis+

text \<open>A stalled socket stays stalled when the queue is not emptied and nothing is started on it.\<close>

lemma stalledI:
  assumes "stalled r sock" and "send_queue (r_win r') sock \<noteq> []" and "ran (handles (r_win r)) \<subseteq> ran (handles (r_win r'))"
    and "\<And>h p. (sock, h, p) \<in> set (r_sends r') \<Longrightarrow> (sock, h, p) \<in> set (r_sends r)"
    and "\<And>t. r_points r' t = r_points r t \<or> \<not> about_to_send sock (r_points r' t)"
  shows "stalled r' sock"
  using assms unfolding stalled_def by (metis subsetD)

lemma Write_prepare_queue:
  assumes "Write_prepare (Some p) ip port (Some bs) len w = Inr (pt, w')" and "send_queue w sock \<noteq> []"
  shows "send_queue w' sock \<noteq> []" "handles w' = handles w" "pt = WriteSends s p' io \<Longrightarrow> s \<noteq> sock"
  using assms by (auto simp: Write_prepare_def Let_def bind_res_eq_Inr send_queue_def split: if_splits option.splits)

lemma worker_pop_queue:
  assumes "worker_pop s w = (new, w')"
  shows "sock \<noteq> s \<Longrightarrow> send_queue w' sock = send_queue w sock" "handles w' = handles w"
  using assms by (auto simp: worker_pop_def send_queue_def split: prod.splits)

lemma push_marker_queue:
  "send_queue w sock \<noteq> [] \<Longrightarrow> send_queue (push_marker s w) sock \<noteq> []" "handles (push_marker s w) = handles w"
  by (simp_all add: push_marker_def send_queue_def)

lemma io_free_queue [simp]: "send_queue (io_free p w) = send_queue w" "handles (io_free p w) = handles w"
  by (simp_all add: io_free_def)

lemma accept_keeps:
  assumes "WinAccept_accept (Some s) (Some h) True (Some p) recv w = (Some s, w', acts)" "h \<notin> dom (handles w)"
  shows "send_queue w' = send_queue w" "ran (handles w) \<subseteq> ran (handles w')"
proof -
  have "handles w' = (handles w)(h \<mapsto> s)" "send_queue w' = send_queue w"
    using assms(1) by (auto simp: WinAccept_accept_def Let_def send_queue_def fun_eq_iff split: if_splits)
  then show "send_queue w' = send_queue w" "ran (handles w) \<subseteq> ran (handles w')" using assms(2) by (auto simp: domIff)
qed

lemma register_keeps: "send_queue (fst (WinAccept_register s ip rport port w)) = send_queue w" "handles (fst (WinAccept_register s ip rport port w)) = handles w"
  by (simp_all add: WinAccept_register_def send_queue_def fun_eq_iff Let_def)

lemma part_keeps:
  assumes "worker_send bytes send s p io w = Inr (w', evs, acts, True)" "bytes < io_len io"
  shows "send_queue w' = send_queue w" "handles w' = handles w"
  using assms by (auto simp: worker_send_def Let_def split: if_splits)

lemma recv_keeps:
  assumes "ServerWorkThread_pass True bytes (Some h) (Some p) received next w = Inr (w', evs, acts, True)"
    "ios w p = Some io" "io_type io = IO_RECV" "0 < bytes"
  shows "send_queue w' = send_queue w" "handles w' = handles w"
  using assms by (auto simp: ServerWorkThread_pass_def worker_recv_def bind_res_eq_Inr Let_def split: option.splits if_splits)

lemma stalled_step:
  assumes "race_step r r'" and st: "stalled r sock"
  shows "stalled r' sock \<and> r_issued r' sock = r_issued r sock"
  using assms(1)
proof (cases rule: race_step.cases)
  case (race_accept h p s recv w acts)
  then show ?thesis using accept_keeps[OF race_accept(5,2)] stalledD(1)[OF st] by (auto intro!: stalledI[OF st] split: if_splits)
next
  case (race_register s ip rport port)
  then show ?thesis using register_keeps stalledD(1)[OF st] by (auto intro!: stalledI[OF st] split: if_splits)
next
  case (race_write_returns t p ip port s bs ok w)
  then show ?thesis using Write_prepare_queue[OF race_write_returns(5) stalledD(1)[OF st]] by (auto intro!: stalledI[OF st] split: if_splits)
next
  case (race_write_begins t p ip port bs s io w h)
  then show ?thesis using Write_prepare_queue[OF race_write_begins(4) stalledD(1)[OF st]] by (auto intro!: stalledI[OF st] split: if_splits)
next
  case (race_write_fails t h s p io bs)
  then show ?thesis using stalledD(1)[OF st] by (auto intro!: stalledI[OF st] split: if_splits)
next
  case (race_write_sends t h s p io bs send)
  then show ?thesis using stalledD(1)[OF st] stalledD(4)[OF st race_write_sends(2)] by (auto intro!: stalledI[OF st] simp: append_to_def split: if_splits)
next
  case (race_mark t s)
  then show ?thesis using push_marker_queue stalledD(1)[OF st] by (auto intro!: stalledI[OF st] split: if_splits)
next
  case (race_complete t s h p io bytes w)
  have "s \<noteq> sock" using race_complete(3) stalledD(3)[OF st] by blast
  then show ?thesis using race_complete(1) worker_pop_queue[OF race_complete(6)] stalledD(1)[OF st]
    by (auto intro!: stalledI[OF st] dest: notin_set_remove1 split: if_splits)
next
  case (race_complete_takes t s h p io bytes n w)
  have "s \<noteq> sock" using race_complete_takes(3) stalledD(3)[OF st] by blast
  then show ?thesis using race_complete_takes(1) worker_pop_queue[OF race_complete_takes(6)] stalledD(1)[OF st]
    by (auto intro!: stalledI[OF st] dest: notin_set_remove1 split: if_splits)
next
  case (race_complete_part t s h p io bytes send w evs acts)
  then show ?thesis using part_keeps[OF race_complete_part(7)] stalledD(1)[OF st] by (auto intro!: stalledI[OF st] split: if_splits)
next
  case (race_next_fails t h s p n)
  then show ?thesis using stalledD(1)[OF st] by (auto intro!: stalledI[OF st] split: if_splits)
next
  case (race_next_done t h s p n nio)
  then show ?thesis using stalledD(1)[OF st] stalledD(5)[OF st race_next_done(2)] by (auto intro!: stalledI[OF st] simp: append_to_def split: if_splits)
next
  case (race_next_pending t h s p n nio)
  then show ?thesis using stalledD(1)[OF st] stalledD(5)[OF st race_next_pending(2)] by (auto intro!: stalledI[OF st] simp: append_to_def split: if_splits)
next
  case (race_next_mark t s p)
  then show ?thesis using push_marker_queue stalledD(1)[OF st] by (auto intro!: stalledI[OF st] split: if_splits)
next
  case (race_recv t h p io bytes received nx w evs acts)
  then show ?thesis using recv_keeps[OF race_recv(7,4,5,6)] stalledD(1)[OF st] by (auto intro!: stalledI[OF st] split: if_splits)
qed

lemma stalled_forever:
  assumes "race_step\<^sup>*\<^sup>* r r'" and "stalled r sock"
  shows "stalled r' sock \<and> r_issued r' sock = r_issued r sock"
  using assms by (induction rule: rtranclp_induct) (auto dest: stalled_step)

text \<open>A message on an idle connection whose completion is taken before the marker is put into the queue.\<close>

lemma race_stalls:
  assumes idle: "r_points r t = Idle" "r_points r t' = Idle" "t \<noteq> t'" "\<forall>t. \<not> about_to_send sock (r_points r t)"
    and quiet: "send_queue (r_win r) sock = []" "\<forall>h p. (sock, h, p) \<notin> set (r_sends r)"
    and peer: "map_find Endpoint_less \<lparr>remote_ip_addr = ip, remote_port = port, local_port = wa_local_port (r_win r)\<rparr>
       (wa_endpoint_sock_map (r_win r)) = Some sock" "handles (r_win r) h = Some sock"
    and msg: "bs \<noteq> []" "int (length bs) \<le> MAX_SOCKET_MSG_BUFF_LENGTH" and fresh: "p \<notin> dom (ios (r_win r))"
  shows "\<exists>r'. race_step\<^sup>*\<^sup>* r r' \<and> r_points r' = r_points r \<and> stalled r' sock \<and> r_issued r' sock = r_issued r sock @ [bs]"
proof -
  let ?buf = "bs @ drop (length bs) (replicate (nat MAX_SOCKET_MSG_BUFF_LENGTH) 0)"
  define io where "io = \<lparr>io_buffer = ?buf, io_buf = 0, io_len = int (length bs), io_transferred = 0, io_type = IO_SEND\<rparr>"
  have io: "io_payload io = bs" "io_len io = int (length bs)" by (simp_all add: io_def io_payload_def)
  define w where "w = (r_win r)\<lparr>ios := (ios (r_win r))(p \<mapsto> io), send_queue_map := (send_queue_map (r_win r))(sock \<mapsto> [])\<rparr>"
  have "memcpy (replicate (nat MAX_SOCKET_MSG_BUFF_LENGTH) 0) 0 bs (int (length bs)) = Inr ?buf"
    using msg by (simp add: memcpy_def MAX_SOCKET_MSG_BUFF_LENGTH_def)
  then have wr: "Write_prepare (Some p) ip port (Some bs) (int (length bs)) (r_win r) = Inr (WriteSends sock p io, w)"
    using msg peer(1) quiet(1) by (simp add: Write_prepare_def Let_def io_def w_def)
  define r1 where "r1 = r\<lparr>r_win := w, r_points := (r_points r)(t := AtWrite h sock p io bs)\<rparr>"
  have 1: "race_step r r1" unfolding r1_def by (rule race_write_begins[OF idle(1) fresh wr peer(2)])
  define r2 where "r2 = r1\<lparr>r_sends := r_sends r1 @ [(sock, h, p)], r_written := append_to sock bs (r_written r1),
     r_issued := append_to sock (io_payload io) (r_issued r1),
     r_points := (r_points r1)(t := (if WSA_PENDING = WSA_PENDING then AtMark sock else Idle))\<rparr>"
  have 2: "race_step r1 r2" unfolding r2_def by (rule race_write_sends[where send = WSA_PENDING]) (simp_all add: r1_def)
  have q: "send_queue w sock = []" by (simp add: w_def send_queue_def)
  define r3 where "r3 = r2\<lparr>r_win := io_free p (w\<lparr>send_queue_map := (send_queue_map w)(sock \<mapsto> [])\<rparr>), r_sends := remove1 (sock, h, p) (r_sends r2)\<rparr>"
  have 3: "race_step r2 r3" unfolding r3_def
    by (rule race_complete[where t = t' and io = io and bytes = "io_len io"])
      (use idle(2,3) q in \<open>simp_all add: r1_def r2_def w_def worker_pop_def\<close>)
  define r4 where "r4 = r3\<lparr>r_win := push_marker sock (r_win r3), r_points := (r_points r3)(t := Idle)\<rparr>"
  have 4: "race_step r3 r4" unfolding r4_def by (rule race_mark) (simp add: r1_def r2_def r3_def)
  have pts: "r_points r4 = r_points r" using idle(1) by (auto simp: r1_def r2_def r3_def r4_def)
  have "stalled r4 sock"
    unfolding stalled_def pts using idle(4) quiet(2) peer(2)
    by (auto simp: r1_def r2_def r3_def r4_def push_marker_def w_def io_free_def remove1_append ran_def)
  moreover have "r_issued r4 sock = r_issued r sock @ [bs]" by (simp add: r1_def r2_def r3_def r4_def append_to_def io(1))
  moreover have "race_step\<^sup>*\<^sup>* r r4" using 1 2 3 4 by (meson rtranclp.rtrancl_refl rtranclp.rtrancl_into_rtrancl)
  ultimately show ?thesis using pts by blast
qed

section \<open>An example\<close>

text \<open>A run: a client is accepted, \<open>A\<close> is written and stays pending, \<open>B\<close> is written behind it.\<close>

lemma example_run:
  obtains r io e where "win_reachable r" "written r 5 = [[65], [66]]" "issued r 5 = [[65]]" "payloads (win r) 5 = [[66]]"
    "(1, 3) \<in> set (ops r)" "handles (win r) 1 = Some 5" "ios (win r) 3 = Some io" "io_type io = IO_SEND" "io_len io = 1"
    "(1, 2) \<in> set (ops r)" "wa_sock_endpoint_map (win r) 5 = Some e"
proof -
  let ?ip = "[49]"
  let ?os = "\<lparr>wl_startup = 0, wl_port = True, wl_threads = True, wl_socket = True, wl_bind = True, wl_listen = True\<rparr>"
  obtain w0 where w0: "WinAccept_Listen_setup ?os 80 (WinAccept_new\<lparr>wa_handler := True\<rparr>) = (True, w0)"
    "wa_endpoint_sock_map w0 = []" "wa_local_port w0 = 80" "handles w0 = Map.empty" "ios w0 = Map.empty" "send_queue_map w0 = Map.empty"
    by (auto simp: WinAccept_Listen_setup_def WinAccept_new_def)
  let ?r0 = "\<lparr>win = w0, ops = [], written = (\<lambda>_. []), issued = (\<lambda>_. [])\<rparr>"
  have r0: "win_reachable ?r0" by (rule win_start[OF w0(1)])
  obtain w1 where w1: "WinAccept_accept (Some 5) (Some 1) True (Some 2) WSA_PENDING w0 = (Some 5, w1, [WsaRecv 5 2])"
    "wa_endpoint_sock_map w1 = []" "wa_local_port w1 = 80" "handles w1 = [1 \<mapsto> 5]" "dom (ios w1) = {2}" "send_queue_map w1 = Map.empty"
    using w0 by (auto simp: WinAccept_accept_def Let_def)
  have r1: "win_reachable (?r0\<lparr>win := w1, ops := [] @ started 1 [WsaRecv 5 2]\<rparr>)"
    using win_accept[OF r0, of 1 2 5 WSA_PENDING w1 "[WsaRecv 5 2]"] w0 w1(1) by simp
  define w2 where "w2 = fst (WinAccept_register 5 ?ip 9 80 w1)"
  let ?e = "\<lparr>remote_ip_addr = ?ip, remote_port = 9, local_port = 80\<rparr> :: Endpoint"
  have w2: "map_find Endpoint_less ?e (wa_endpoint_sock_map w2) = Some 5" "wa_local_port w2 = 80" "handles w2 = [1 \<mapsto> 5]"
    "dom (ios w2) = {2}" "send_queue_map w2 = Map.empty" "wa_sock_endpoint_map w2 5 = Some ?e"
    using w1 by (simp_all add: w2_def WinAccept_register_def Let_def)
  have r2: "win_reachable (?r0\<lparr>win := w2, ops := [(1, 2)]\<rparr>)"
    using win_register[OF r1, of 5 ?ip 9 80] w1(4) by (simp add: w2_def)
  let ?io = "\<lambda>b. \<lparr>io_buffer = [b] @ drop 1 (replicate (nat MAX_SOCKET_MSG_BUFF_LENGTH) 0), io_buf = 0, io_len = 1, io_transferred = 0,
    io_type = IO_SEND\<rparr>"
  have cpy: "memcpy (replicate (nat MAX_SOCKET_MSG_BUFF_LENGTH) 0) 0 [b] 1
    = Inr ([b] @ drop 1 (replicate (nat MAX_SOCKET_MSG_BUFF_LENGTH) 0))" for b
    by (simp add: memcpy_def MAX_SOCKET_MSG_BUFF_LENGTH_def)
  let ?w3 = "w2\<lparr>ios := (ios w2)(3 \<mapsto> ?io 65), send_queue_map := [5 \<mapsto> [None]]\<rparr>"
  have wa: "WinAccept_Write (Some 3) WSA_PENDING ?ip 9 (Some [65]) (int (length [65::byte])) w2 = Inr (True, ?w3, [WsaSend 5 3 [65]])"
    using w2 cpy[of 65]
    by (simp add: WinAccept_Write_defs bind_res_def Let_def send_queue_def io_payload_def MAX_SOCKET_MSG_BUFF_LENGTH_def)
  have r3: "win_reachable (?r0\<lparr>win := ?w3, ops := [(1, 2), (1, 3)], written := (\<lambda>_. [])(5 := [[65]]), issued := (\<lambda>_. [])(5 := [[65]])\<rparr>)"
    using win_write[OF r2, of 3 ?ip 9 5 1 WSA_PENDING "[65]" True ?w3 "[WsaSend 5 3 [65]]"] w2 wa by (simp add: fun_upd_def)
  let ?w4 = "?w3\<lparr>ios := (ios ?w3)(4 \<mapsto> ?io 66), send_queue_map := [5 \<mapsto> [None, Some 4]]\<rparr>"
  have wr: "WinAccept_Write (Some 4) WSA_DONE ?ip 9 (Some [66]) (int (length [66::byte])) ?w3 = Inr (True, ?w4, [])"
    using w2 cpy[of 66]
    by (simp add: WinAccept_Write_defs bind_res_def Let_def send_queue_def io_payload_def MAX_SOCKET_MSG_BUFF_LENGTH_def)
  have "win_reachable (?r0\<lparr>win := ?w4, ops := [(1, 2), (1, 3)], written := (\<lambda>_. [])(5 := [[65], [66]]), issued := (\<lambda>_. [])(5 := [[65]])\<rparr>)"
    using win_write[OF r3, of 4 ?ip 9 5 1 WSA_DONE "[66]" True ?w4 "[]"] w2 wr by simp
  then show thesis
    by (rule that[where io = "?io 65" and e = ?e]) (simp_all add: w2 payloads_def queued_sends_def send_queue_def io_payload_def)
qed

section \<open>Properties\<close>

text \<open>
  C11: As long as neither calls of \<^verbatim>\<open>Write\<close> nor passes of workers overlap, no connection breaks and no \<^verbatim>\<open>WSASend\<close> of a worker
  fails, the messages \<^verbatim>\<open>Write\<close> accepted are first passed to \<^verbatim>\<open>WSASend\<close> in the order they were written, in whatever order
  they and the completions follow one another, whether a \<^verbatim>\<open>WSASend\<close> ends at once or stays pending and whether a
  completion is of all bytes or of a part: what was passed is a prefix of what was accepted, and
  the rest waits in the queue of the socket. Nothing waits without a send of that socket under
  way. The code takes no lock that keeps the calls apart; what overlapping ones can do is
  \<open>win_send_queue_stalls\<close>.
\<close>

theorem win_sends_in_order:
  assumes "win_reachable r"
  shows "issued r sock @ payloads (win r) sock = written r sock \<and>
    (payloads (win r) sock \<noteq> [] \<longrightarrow> sending (win r) (ops r) sock)"
proof -
  note inv = win_reachable_inv[OF assms]
  show ?thesis using win_invD(2,3)[OF inv, of sock]
    by (cases "send_queue (win r) sock") (auto simp: payloads_def queued_sends_def)
qed

theorem win_sends_in_order_witness:
  "\<exists>r. win_reachable r \<and> written r 5 = [[65], [66]] \<and> payloads (win r) 5 = [[66]] \<and> issued r 5 = [[65]] \<and> sending (win r) (ops r) 5"
proof -
  obtain r io e where r: "win_reachable r" "written r 5 = [[65], [66]]" "payloads (win r) 5 = [[66]]"
    by (rule example_run) blast
  from win_sends_in_order[OF r(1), of 5] r show ?thesis by (intro exI[of _ r]) auto
qed

text \<open>
  C38: The send queue of a connection can stop for good. On an idle connection a single message is enough: \<^verbatim>\<open>WSASend\<close> stays
  pending, a worker takes its completion and finds the queue empty, and only then \<^verbatim>\<open>Write\<close> puts the null pointer into
  the queue that says a send is under way. From then on, whatever is written, accepted, received and
  completed, no message of that socket is ever passed to \<^verbatim>\<open>WSASend\<close> again: all wait behind the marker.
\<close>

theorem win_send_queue_stalls:
  assumes "race_reachable r" and "r_points r t = Idle" and "r_points r t' = Idle" and "t \<noteq> t'"
    and "\<forall>t. \<not> about_to_send sock (r_points r t)" and "send_queue (r_win r) sock = []" and "\<forall>h p. (sock, h, p) \<notin> set (r_sends r)"
    and "map_find Endpoint_less \<lparr>remote_ip_addr = ip, remote_port = port, local_port = wa_local_port (r_win r)\<rparr>
       (wa_endpoint_sock_map (r_win r)) = Some sock" and "handles (r_win r) h = Some sock"
    and "bs \<noteq> []" and "int (length bs) \<le> MAX_SOCKET_MSG_BUFF_LENGTH" and "p \<notin> dom (ios (r_win r))"
  shows "\<exists>r1. race_step\<^sup>*\<^sup>* r r1 \<and> race_reachable r1 \<and> r_points r1 = r_points r \<and> r_issued r1 sock = r_issued r sock @ [bs] \<and>
    (\<forall>r2. race_step\<^sup>*\<^sup>* r1 r2 \<longrightarrow> r_issued r2 sock = r_issued r1 sock \<and> send_queue (r_win r2) sock \<noteq> [] \<and>
       (\<forall>h p. (sock, h, p) \<notin> set (r_sends r2)))"
proof -
  obtain r1 where r1: "race_step\<^sup>*\<^sup>* r r1" "r_points r1 = r_points r" "stalled r1 sock" "r_issued r1 sock = r_issued r sock @ [bs]"
    using race_stalls[OF assms(2-12)] by blast
  have "race_reachable r1" using r1(1) assms(1) by (induction rule: rtranclp_induct) (auto intro: race_next)
  moreover have "r_issued r2 sock = r_issued r1 sock \<and> send_queue (r_win r2) sock \<noteq> [] \<and> (\<forall>h p. (sock, h, p) \<notin> set (r_sends r2))"
    if "race_step\<^sup>*\<^sup>* r1 r2" for r2
    using stalled_forever[OF that r1(3)] stalledD(1,3) by blast
  ultimately show ?thesis using r1 by blast
qed

lemma race_example:
  obtains r where "race_reachable r" "r_points r = (\<lambda>_. Idle)" "r_sends r = []" "send_queue (r_win r) 5 = []" "wa_local_port (r_win r) = 80"
    "map_find Endpoint_less \<lparr>remote_ip_addr = [49], remote_port = 9, local_port = 80\<rparr> (wa_endpoint_sock_map (r_win r)) = Some 5"
    "handles (r_win r) 1 = Some 5" "3 \<notin> dom (ios (r_win r))" "r_issued r 5 = []"
proof -
  let ?os = "\<lparr>wl_startup = 0, wl_port = True, wl_threads = True, wl_socket = True, wl_bind = True, wl_listen = True\<rparr>"
  obtain w0 where w0: "WinAccept_Listen_setup ?os 80 (WinAccept_new\<lparr>wa_handler := True\<rparr>) = (True, w0)"
    "wa_endpoint_sock_map w0 = []" "wa_local_port w0 = 80" "handles w0 = Map.empty" "ios w0 = Map.empty" "send_queue_map w0 = Map.empty"
    by (auto simp: WinAccept_Listen_setup_def WinAccept_new_def)
  let ?r0 = "\<lparr>r_win = w0, r_sends = [], r_recvs = [], r_written = (\<lambda>_. []), r_issued = (\<lambda>_. []), r_points = (\<lambda>_. Idle)\<rparr>"
  obtain w1 where w1: "WinAccept_accept (Some 5) (Some 1) True (Some 2) WSA_PENDING w0 = (Some 5, w1, [WsaRecv 5 2])"
    "wa_endpoint_sock_map w1 = []" "wa_local_port w1 = 80" "handles w1 = [1 \<mapsto> 5]" "dom (ios w1) = {2}" "send_queue_map w1 = Map.empty"
    using w0 by (auto simp: WinAccept_accept_def Let_def)
  have r1: "race_reachable (?r0\<lparr>r_win := w1, r_recvs := [(1, 2)]\<rparr>)"
    using race_next[OF race_start[OF w0(1)] race_accept[of 1 _ 2 5 WSA_PENDING w1 "[WsaRecv 5 2]"]] w0 w1(1) by simp
  define w2 where "w2 = fst (WinAccept_register 5 [49] 9 80 w1)"
  have "race_reachable (?r0\<lparr>r_win := w2, r_recvs := [(1, 2)]\<rparr>)"
    using race_next[OF r1 race_register[of 5 _ "[49]" 9 80]] w1(4) by (simp add: w2_def)
  then show thesis
    by (rule that) (use w1 in \<open>simp_all add: w2_def WinAccept_register_def Let_def send_queue_def\<close>)
qed

theorem win_send_queue_stalls_witness:
  "\<exists>r1. race_reachable r1 \<and> r_points r1 = (\<lambda>_. Idle) \<and> r_issued r1 5 = [[65]] \<and> (\<forall>r2. race_step\<^sup>*\<^sup>* r1 r2 \<longrightarrow> r_issued r2 5 = [[65]])"
proof -
  obtain r where r: "race_reachable r" "r_points r = (\<lambda>_. Idle)" "r_sends r = []" "send_queue (r_win r) 5 = []" "wa_local_port (r_win r) = 80"
    "map_find Endpoint_less \<lparr>remote_ip_addr = [49], remote_port = 9, local_port = 80\<rparr> (wa_endpoint_sock_map (r_win r)) = Some 5"
    "handles (r_win r) 1 = Some 5" "3 \<notin> dom (ios (r_win r))" "r_issued r 5 = []" by (rule race_example)
  have i: "r_points r t = Idle" "\<forall>t. \<not> about_to_send 5 (r_points r t)" "\<forall>h p. (5, h, p) \<notin> set (r_sends r)" for t
    using r(2,3) by simp_all
  have m: "[65 :: byte] \<noteq> []" "int (length [65 :: byte]) \<le> MAX_SOCKET_MSG_BUFF_LENGTH" "(0 :: nat) \<noteq> 1"
    by (simp_all add: MAX_SOCKET_MSG_BUFF_LENGTH_def)
  obtain r1 where r1: "race_reachable r1" "r_points r1 = r_points r" "r_issued r1 5 = r_issued r 5 @ [[65]]"
    "\<forall>r2. race_step\<^sup>*\<^sup>* r1 r2 \<longrightarrow> r_issued r2 5 = r_issued r1 5 \<and> send_queue (r_win r2) 5 \<noteq> [] \<and> (\<forall>h p. (5, h, p) \<notin> set (r_sends r2))"
    using win_send_queue_stalls [OF r(1) i(1) i(1) m(3) i(2) r(4) i(3) r(6)[folded r(5)] r(7) m(1,2) r(8)] by blast
  have f: "r_issued r1 5 = [[65]]" unfolding r1(3) r(9) by simp
  show ?thesis using r1(1,2,4) unfolding f r(2) by (intro exI[of _ r1]) (intro conjI f, simp_all)
qed

text \<open>
  C39: A connection that breaks with two operations under way (a receive always is) is freed twice over:
  the worker that takes the first failed completion tells the handler, clears the maps and frees the
  \<^verbatim>\<open>PER_HANDLE_DATA\<close>; the worker that takes the second one reads it again.
\<close>

theorem win_broken_connection_use_after_free:
  assumes "win_reachable r" "(h, p) \<in> set (ops r)" "(h, p') \<in> set (ops r)" "p \<noteq> p'" "handles (win r) h = Some sock"
    "wa_sock_endpoint_map (win r) sock = Some e"
  shows "\<exists>w evs acts. ServerWorkThread_pass False b (Some h) (Some p) rc nx (win r) = Inr (w, evs, acts, True) \<and>
    evs = (if wa_handler (win r) then [EvDisconnect (remote_ip_addr e) (remote_port e) (local_port e)] else []) \<and>
    wa_sock_endpoint_map w sock = None \<and>
    ServerWorkThread_pass False b' (Some h) (Some p') rc' nx' w = Inl UseAfterFree"
proof -
  note places = win_invD(1)[OF win_reachable_inv[OF assms(1)]]
  obtain io where "ios (win r) p = Some io" using places_okD(2)[OF places assms(2)] by blast
  then show ?thesis using assms(5,6) by (auto simp: ServerWorkThread_pass_def worker_disconnect_def)
qed

theorem win_broken_connection_use_after_free_witness:
  "\<exists>r w evs acts. win_reachable r \<and> ServerWorkThread_pass False 0 (Some 1) (Some 2) [] WSA_DONE (win r) = Inr (w, evs, acts, True) \<and>
     ServerWorkThread_pass False 0 (Some 1) (Some 3) [] WSA_DONE w = Inl UseAfterFree"
proof -
  obtain r io e where r: "win_reachable r" "(1, 3) \<in> set (ops r)" "handles (win r) 1 = Some 5" "(1, 2) \<in> set (ops r)"
    "wa_sock_endpoint_map (win r) 5 = Some e"
    by (rule example_run) blast
  from win_broken_connection_use_after_free[OF r(1,4,2) _ r(3,5), of 0 "[]" WSA_DONE 0 "[]" WSA_DONE] r(1)
  show ?thesis by auto
qed

text \<open>
  On Windows a client that connects hears of the connection, then gets every piece the server sent,
  whole and in order, however the bytes were cut, and when the server closes it hears of that once;
  \<^verbatim>\<open>Connect\<close> returns true, with the socket closed and the object ready to connect again.
\<close>

theorem win_connect_delivers:
  assumes "\<not> running c" "con_handler c" "length (con_buff c) = nat MAX_SOCKET_MSG_BUFF_LENGTH"
    "wc_startup os = 0" "wc_socket os = Some sock" "wc_connect os"
    "\<forall>bs \<in> set bss. bs \<noteq> [] \<and> length bs \<le> nat MAX_SOCKET_MSG_BUFF_LENGTH"
  shows "\<exists>c' calls. WinConnect_Connect os (map ReadBytes bss @ [ReadBytes []]) ip port c
      = Inr (Some True, c', CallConnect # calls @ [CallDisconnect], [WinClose sock]) \<and> recv_pieces calls = bss \<and> \<not> running c'"
proof -
  let ?c = "c\<lparr>con_local_sock := sock, con_local_port := wc_local_port os, con_remote_ip := ip, con_remote_port := port, running := True\<rparr>"
  have conn: "WinConnect_open os ip port c = (True, ?c, [CallConnect], [])"
    using assms(1-6) by (simp add: WinConnect_open_def)
  obtain c' calls where "WinConnect_loop (map ReadBytes bss @ [ReadBytes []]) ?c = Inr (c', calls, True)" "recv_pieces calls = bss"
    "con_handler c'" "con_local_sock c' = sock"
    using WinConnect_loop_delivers[of ?c bss ip port 0] assms(2,3,7) by auto
  then show ?thesis using conn by (simp add: WinConnect_Connect_def WinConnect_close_def bind_res_def)
qed

theorem win_connect_delivers_witness:
  "\<exists>c' calls. WinConnect_Connect \<lparr>wc_startup = 0, wc_socket = Some 7, wc_connect = True, wc_local_port = 99\<rparr>
      [ReadBytes [1, 2], ReadBytes [3], ReadBytes []] [49] 80
      (SocketConnect_ResetHandler True (SocketConnect_new (replicate (nat MAX_SOCKET_MSG_BUFF_LENGTH) 0)))
      = Inr (Some True, c', CallConnect # calls @ [CallDisconnect], [WinClose 7]) \<and> recv_pieces calls = [[1, 2], [3]]"
proof -
  let ?c = "SocketConnect_ResetHandler True (SocketConnect_new (replicate (nat MAX_SOCKET_MSG_BUFF_LENGTH) 0))"
  have "\<not> running ?c" "con_handler ?c" "length (con_buff ?c) = nat MAX_SOCKET_MSG_BUFF_LENGTH"
    by (simp_all add: SocketConnect_ResetHandler_def SocketConnect_new_def)
  from win_connect_delivers[OF this, of "\<lparr>wc_startup = 0, wc_socket = Some 7, wc_connect = True, wc_local_port = 99\<rparr>" 7
      "[[1, 2], [3]]" "[49]" 80]
  show ?thesis by (auto simp: MAX_SOCKET_MSG_BUFF_LENGTH_def)
qed

end
