(* ===== verification/Spec2Isabelle.thy ===== *)
theory Spec2Isabelle
  imports Demo RpcNetwork ThreadPoolWin ThreadsWin Common Tools MysqlTest SocketsWin
begin

text \<open>
  \<^bold>\<open>The program.\<close> Elegance is a C++ network library: a reactor on sockets, framing of messages on a byte
  stream, typed messages, remote calls, and the memory, thread and helper classes these use. This
  development models its Linux and its Windows build and shows what its parts promise, and where they
  do not keep it. It reads from the bottom to the top:

  \<^item> bytes: \<open>ByteArray\<close>, \<open>QueueByteArray\<close>, \<open>StaticByteArray\<close>, \<open>FlexibleBuffer\<close> (\<^verbatim>\<open>elegance/memory\<close>);
  \<^item> memory and threads: \<open>MemPool\<close> (\<^verbatim>\<open>mempool.*\<close>, \<^verbatim>\<open>mutex.*\<close>), \<open>Threads\<close>, \<open>Signals\<close>, \<open>ThreadPool\<close>
    (\<^verbatim>\<open>elegance/platform/thread\<close>), and their Windows halves in \<open>ThreadsWin\<close> and \<open>ThreadPoolWin\<close>;
  \<^item> connections: \<open>SocketDef\<close>, \<open>Sockets\<close> (epoll) and \<open>SocketsWin\<close> (completion ports) for
    \<^verbatim>\<open>elegance/platform/network\<close>, \<open>NetworkPacker\<close> (framing,
    \<^verbatim>\<open>elegance/network/network_packer\<close>) and \<open>NetworkManager\<close> (\<^verbatim>\<open>elegance/network/network_manager.*\<close>); \<open>Connections\<close> puts
    the loops of the threads together and follows a connection from the constructors on;
  \<^item> messages: \<open>SerializeBase\<close> and \<open>SerializeManager\<close> (\<^verbatim>\<open>elegance/memory/serialize\<close>) and \<open>Protocol\<close>, the
    message classes of \<^verbatim>\<open>demo/src/serialize_demo\<close>;
  \<^item> remote calls: \<open>Rpc\<close> (\<^verbatim>\<open>elegance/rpc\<close>), and \<open>RpcNetwork\<close>, its manager as a handler of a network manager;
  \<^item> demo programs: \<open>Demo\<close> (\<^verbatim>\<open>demo/src/test_*.cpp\<close>), the start of the programs and their handlers as clients of the library;
  \<^item> helpers: \<open>Common\<close> (random numbers, time, debug messages), \<open>Tools\<close> (sizes as text), \<open>Mysql\<close>
    (\<^verbatim>\<open>database/mysql_connector.*\<close>) and \<open>MysqlTest\<close> (\<^verbatim>\<open>database/test.cpp\<close>);
  \<^item> \<open>Prelude\<close> and \<open>StdMap\<close>: machine types, results, raw memory and \<^verbatim>\<open>std::map\<close>.

  \<^bold>\<open>How the code is modelled.\<close> A class is a record, an enum a datatype, a member function a definition
  with the name of the function (with the class in front where the name is used twice) that takes
  and returns the object. A virtual interface is a record of functions (\<open>ByteArray\<close>, \<open>serialize_vt\<close>)
  and its contract a locale. Every buffer access, every \<^verbatim>\<open>int\<close> computation and every use of a pointer
  is checked: an operation that can leave defined behaviour returns \<open>'a res\<close>, where \<open>Inl\<close> says what
  went wrong. Objects other objects point to are kept in maps from numbers (\<open>accepts\<close>, \<open>connects\<close>, the
  heap of \<open>MemPool\<close>, the memory of \<open>Mysql\<close>), so that use after free, double free and overlap can be
  stated. What the system or a foreign library returns is an argument, and what the code
  asks of it is a list of actions in the result. Calls of user handlers are such actions too; the
  \<^verbatim>\<open>HandleCall\<close> of an RPC handler, whose result the code uses, is a parameter.

  \<^bold>\<open>How the parts interact.\<close> \<open>Sockets\<close> turns events into \<^verbatim>\<open>OnAccept\<close>, \<^verbatim>\<open>OnRecv\<close> and \<^verbatim>\<open>OnDisconnect\<close> calls
  of \<open>NetworkManager\<close>, which numbers the connections, passes bytes through \<open>NetworkPacker\<close> and calls
  the handlers, at once or, in single thread mode, from a queue of tasks in chunks of a
  \<open>MemoryPool\<close>. \<open>SerializeManager\<close> overrides the delivery and builds objects through the registry
  of \<open>SerializeBase\<close>; \<open>Protocol\<close> provides the classes. \<open>Rpc\<close> is a handler of the network manager that
  checks a key and then exchanges numbered requests and responses. \<open>ThreadPool\<close> owns a signal object
  of \<open>Signals\<close>; \<open>Mysql\<close> allocates from the \<open>MemoryPoolManager\<close>. \<open>SocketsWin\<close> produces the same events as
  \<open>Sockets\<close>, so that what is proved of the managers holds above both. \<open>RpcNetwork\<close> and \<open>Demo\<close> connect two
  managers: what one writes is the input of the other.

  \<^bold>\<open>Interfaces.\<close> \<open>key_order\<close> (a \<^verbatim>\<open>std::map\<close> with its comparison, also one that identifies keys, as that of
  endpoints), \<open>byte_array\<close> (typed writes are read back) and its extension \<open>object_array\<close> (so are raw
  objects), \<open>chunk_allocator\<close> (chunks handed out never
  overlap) and \<open>serialize_classes\<close> (an object is read back by the object the registry creates for its
  name). Each is interpreted on the definitions of the model: \<open>int_keys\<close>, \<open>string_keys\<close>,
  \<open>endpoint_keys\<close>; \<open>qba\<close>, \<open>sba\<close>, \<open>qoa\<close>, \<open>soa\<close>; \<open>pool\<close>, \<open>manager\<close>; \<open>protocol\<close>. What clients of an interface need is proved
  once in its locale, such as the arrival of typed messages in \<open>serialize_classes\<close>.

  \<^bold>\<open>What is shown.\<close>

  \<^item> Delivery: framing survives any cutting of the stream and refines a parser without a cache; what one
    manager sends another one delivers, as raw messages and as typed ones; single thread mode makes
    the same calls in the same order; a connection works from the constructors of both managers on,
    through the threads they start and the events of their sockets, as long as no read fills the buffer
    (\<open>connection_from_scratch\<close>); two RPC managers find each other through
    their networks when their keys agree and not otherwise (\<open>rpc_connects_over_network\<close>), and an RPC call
    returns its result to its request, also through the network managers of both sides; the typed demo, from
    its first call on and in single thread mode, counts for ever; a Windows client receives what a server sends.
  \<^item> Bytes: both byte arrays return what was written and agree on the wire, the queue with \<^verbatim>\<open>int\<close> and \<^verbatim>\<open>float\<close> only where a
    \<^verbatim>\<open>long\<close> has four bytes; the static one never leaves its buffer unless it is given a negative length;
    resizing a buffer keeps its contents.
  \<^item> Memory: no two live chunks of the pools overlap when calls do not overlap in time, and with a \<^verbatim>\<open>Free\<close> inside an
    \<^verbatim>\<open>Alloc\<close> one chunk is handed out twice (\<open>manager_free_race\<close>); the row of a query keeps its texts.
  \<^item> Names: connection numbers and request numbers are unique in every reachable state; a write
    reaches the descriptor of its peer, also when \<^verbatim>\<open>Disconnect\<close> left an old peer in the maps, unless two open peers
    have the same port and addresses of the same length.
  \<^item> Threads: a thread runs its task once; the pool runs every task once in any interleaving, and its
    workers come to rest only with the queue empty. On Windows the pool runs every task once too, but
    can lose a worker on \<^verbatim>\<open>Stop\<close>.
  \<^item> Overlapped sends on Windows: when writes and completions are handled one at a time, messages are
    passed on in the order of the writes; when they overlap, the queue of a connection can stop for
    good (\<open>win_send_queue_stalls\<close>).
  \<^item> Errors: inputs and interleavings on which the code is undefined, loses messages or hangs, each as
    a theorem, with the exact condition where there is one (\<open>typed_package_defined_iff\<close>).

  \<^bold>\<open>Bounds and assumptions.\<close> Linux on x86-64: 32-bit \<^verbatim>\<open>int\<close>, 64-bit \<^verbatim>\<open>long\<close> (a parameter, \<open>long_size\<close>, of the queue
  byte array, whose casts depend on it), little endian, \<^verbatim>\<open>RAND_MAX\<close> equal to
  \<^verbatim>\<open>INT_MAX\<close>. \<^verbatim>\<open>new\<close> succeeds. Debug output is left out except in \<open>Common\<close> and \<open>Mysql\<close>. A call into the
  network manager, an RPC object or the signal manager is one atomic step, except where a theorem is about
  an interleaving (\<open>AsyncCall_send\<close> and \<open>AsyncCall_register\<close>); the pools and the send queues of Windows are
  split into the parts between two accesses to shared state, and threads and the pool are stepped from one
  such access to the next. \<open>OsSend\<close> is a call of \<^verbatim>\<open>send\<close>: theorems about arrival are about all of its bytes
  arriving, which a short write on a non-blocking socket does not give. The thread pools are those whose
  threads all start, and the Windows one has its named events to itself. There is no fuel: loops are structural recursion, or, in
  \<open>UnPack\<close>, recursion with a termination proof on the bytes left and the position in the message.

  \<^bold>\<open>Not modelled.\<close> The MySQL client headers are third party code; the \<^verbatim>\<open>main\<close> of the demos calls one of the
  modelled test functions; the project creator prints and sleeps; \<^verbatim>\<open>elegance/platform/platform_def.hpp\<close>
  selects a platform. Unordered accesses of two threads to one container (the maps
  of the Windows server and of the Linux one, the task pool of the network manager) are undefined in the code;
  the model orders them and shows what an unlucky order does, not the corruption of a container. \<^verbatim>\<open>SyncRunning\<close> switches to single thread mode after the
  threads of \<^verbatim>\<open>SyncListen\<close> and \<^verbatim>\<open>SyncConnect\<close> were started; the demo is modelled for the order in which the
  switch comes before their first event. A signal that interrupts a client in a system call is not modelled.
  What remains are declarations in headers, debug output and comments.
\<close>

section \<open>Typed messages from end to end\<close>

text \<open>
  C3: The whole stack for the demo protocol. Messages passed to \<^verbatim>\<open>SendSerialize\<close> on an accepted
  connection are serialised, framed and written to the socket; however the network cuts the bytes
  into pieces, the receiving manager calls every typed handler with exactly those messages, in
  order, each after the raw package has been handed to the plain handlers.
\<close>

theorem messages_arrive_typed:
  assumes "accepted (net_manager sms) s fd"
    and "\<forall>m \<in> set ms. queue_message_ok m \<and>
      4 + int (length (typed_package m)) \<le> INT_MAX" and "ms \<noteq> []"
    and "\<not> single_thread_handle_mode (net_manager smr)" and "has_net_manager (packager (net_manager smr))"
    and "map_find Endpoint_less \<lparr>remote_ip_addr = ip, remote_port = port, local_port = lport\<rparr>
      (endpoint_to_net_id_map (net_manager smr)) = Some i" and "0 < i"
    and "holds (net_id_to_buffer_map (packager (net_manager smr)) i) []"
  shows "\<exists>acts. send_messages (protocol_vt long_size tmp1 tmp2) os s ms sms = Inr acts \<and>
    (\<forall>chunks. concat chunks = sent_bytes fd acts \<and> [] \<notin> set chunks \<longrightarrow>
      (\<exists>smr'. serialize_handle_events (protocol_vt long_size tmp1 tmp2) protocol_registry
          (map (EvRecv ip port lport) chunks) smr =
        Inr (smr', concat (map (\<lambda>m.
          map (\<lambda>h. CbNet (CbRecv h i (typed_package m)))
            (handler_list (net_manager smr)) @
          map (\<lambda>h. CbRecvSerialize h i m) (serialize_handler_list smr)) ms))))"
  using protocol.messages_arrive[OF assms(1), of ms long_size tmp1 tmp2 smr ip port lport i os] assms(2-)
  by (simp add: protocol_vt_def message_calls_def flip: typed_package_def del: length_package_of)

definition demo_message :: Message where
  "demo_message = MCSCheckServiceInfo \<lparr>check_service_type = 7\<rparr>"

lemma demo_message_ok:
  "queue_message_ok demo_message"
  "length (typed_package demo_message) = 22"
  by (simp_all add: demo_message_def queue_message_ok_def message_ok_def in_range_def queue_wire_def enc_all_def
      typed_package_def package_of_def str_def)

theorem messages_arrive_typed_witness:
  "\<exists>acts. send_messages demo_vt 2 1 [demo_message] demo_typed = Inr acts \<and>
    (\<exists>smr'. serialize_handle_events demo_vt protocol_registry
       (map (EvRecv (str ''10.0.0.1'') 5000 80) [take 3 (sent_bytes 7 acts), drop 3 (sent_bytes 7 acts)]) demo_typed =
       Inr (smr', [CbNet (CbRecv 1 1 (typed_package demo_message)),
         CbNet (CbRecv 4 1 (typed_package demo_message)),
         CbRecvSerialize 4 1 demo_message]))"
proof -
  have s: "send_messages demo_vt 2 1 [demo_message] demo_typed =
      Inr [OsSend 7 (frame (typed_package demo_message))]"
    using protocol.send_messages_packages[OF demo_typed_ok(1), of "[demo_message]"] demo_message_ok
    by (simp add: demo_vt_def protocol_vt_def INT_MAX_def flip: typed_package_def del: length_package_of)
  have l: "length (frame (typed_package demo_message)) = 26"
    using demo_message_ok(2) by (simp add: frame_def)
  from messages_arrive_typed [OF demo_typed_ok(1) _ _ demo_typed_ok(2-4) _ demo_typed_ok(5), of "[demo_message]" 8
      "\<lparr>project_project_type = 0, project_project_name = []\<rparr>"
      "\<lparr>operate_operate_type = 0, operate_operate_name = [], operate_operate_describe = []\<rparr>" 2]
    demo_message_ok s
  have A: "\<forall>chunks. concat chunks = sent_bytes 7
        [OsSend 7 (frame (typed_package demo_message))] \<and>
      [] \<notin> set chunks \<longrightarrow>
    (\<exists>smr'. serialize_handle_events demo_vt protocol_registry (map (EvRecv (str ''10.0.0.1'') 5000 80) chunks) demo_typed =
       Inr (smr', [CbNet (CbRecv 1 1 (typed_package demo_message)),
         CbNet (CbRecv 4 1 (typed_package demo_message)),
         CbRecvSerialize 4 1 demo_message]))"
    unfolding demo_vt_def by (simp add: INT_MAX_def demo_typed_ok(6,7))
  let ?f = "frame (typed_package demo_message)"
  have b: "sent_bytes 7 [OsSend 7 ?f] = ?f" by (simp add: sent_bytes_def)
  have "concat [take 3 ?f, drop 3 ?f] = sent_bytes 7 [OsSend 7 ?f] \<and> [] \<notin> set [take 3 ?f, drop 3 ?f]"
    using l by (simp add: b) (metis length_0_conv zero_neq_numeral)
  from A[rule_format, OF this] s show ?thesis unfolding b by (metis b)
qed

text \<open>
  C6: A Linux server and a Windows client: the bytes \<^verbatim>\<open>Send\<close> writes for a sequence of messages, however they
  are cut into receives, pass through the receive loop of \<^verbatim>\<open>SocketConnect\<close> on Windows, whose calls make the
  client's manager call every handler with exactly those messages, in order.
\<close>

theorem windows_client_receives_messages:
  assumes "accepted ms s fd" and "\<forall>msg \<in> set msgs. 4 + int (length msg) \<le> INT_MAX"
    and "msgs \<noteq> []" and "[] \<notin> set msgs"
    and "\<not> single_thread_handle_mode mr" and "has_net_manager (packager mr)"
    and "map_find Endpoint_less \<lparr>remote_ip_addr = ip, remote_port = port, local_port = lport\<rparr>
      (endpoint_to_net_id_map mr) = Some i" and "0 < i"
    and "holds (net_id_to_buffer_map (packager mr) i) []"
    and "running c" and "con_handler c" and "length (con_buff c) = nat MAX_SOCKET_MSG_BUFF_LENGTH"
  shows "\<exists>acts. send_all r s msgs ms = Inr acts \<and>
    (\<forall>chunks. concat chunks = sent_bytes fd acts \<and> (\<forall>ch \<in> set chunks. ch \<noteq> [] \<and> length ch \<le> nat MAX_SOCKET_MSG_BUFF_LENGTH) \<longrightarrow>
      (\<exists>c' calls mr'. WinConnect_loop (map ReadBytes chunks @ [ReadBytes []]) c = Inr (c', calls, True) \<and>
        handle_events (connect_events ip port lport calls) mr =
          Inr (mr', concat (map (\<lambda>msg. map (\<lambda>h. CbRecv h i msg) (handler_list mr)) msgs))))"
proof -
  obtain acts where acts: "send_all r s msgs ms = Inr acts" "sent_bytes fd acts = concat (map frame msgs)"
    using send_all_accepted[OF assms(1,2)] sent_bytes_frames by auto
  have "\<exists>c' calls mr'. WinConnect_loop (map ReadBytes chunks @ [ReadBytes []]) c = Inr (c', calls, True) \<and>
        handle_events (connect_events ip port lport calls) mr =
          Inr (mr', concat (map (\<lambda>msg. map (\<lambda>h. CbRecv h i msg) (handler_list mr)) msgs))"
    if joined: "concat chunks = concat (map frame msgs)" and pieces: "\<forall>ch \<in> set chunks. ch \<noteq> [] \<and> length ch \<le> nat MAX_SOCKET_MSG_BUFF_LENGTH" for chunks
  proof -
    obtain c' calls where c: "WinConnect_loop (map ReadBytes chunks @ [ReadBytes []]) c = Inr (c', calls, True)"
      "connect_events ip port lport calls = map (EvRecv ip port lport) chunks"
      using WinConnect_loop_delivers[OF assms(10-12) pieces] by blast
    obtain mr' where "handle_events (map (EvRecv ip port lport) chunks) mr =
        Inr (mr', concat (map (\<lambda>msg. map (\<lambda>h. CbRecv h i msg) (handler_list mr)) msgs))"
      using frames_handled[OF assms(2-9) joined] pieces by auto
    with c show ?thesis by auto
  qed
  with acts show ?thesis by auto
qed

theorem windows_client_receives_messages_witness:
  "\<exists>acts c' calls mr'. send_all 2 1 [[65, 66], [67]] demo_server = Inr acts \<and>
     WinConnect_loop [ReadBytes [2, 0], ReadBytes [0, 0, 65, 66, 1, 0, 0], ReadBytes [0, 67], ReadBytes []]
       (SocketConnect_ResetHandler True (SocketConnect_new (replicate (nat MAX_SOCKET_MSG_BUFF_LENGTH) 0))\<lparr>running := True\<rparr>)
       = Inr (c', calls, True) \<and>
     handle_events (connect_events (str ''10.0.0.1'') 5000 80 calls) demo_server = Inr (mr', [CbRecv 1 1 [65, 66], CbRecv 1 1 [67]])"
proof -
  let ?c = "SocketConnect_ResetHandler True (SocketConnect_new (replicate (nat MAX_SOCKET_MSG_BUFF_LENGTH) 0))\<lparr>running := True\<rparr>"
  let ?chunks = "[[2, 0], [0, 0, 65, 66, 1, 0, 0], [0, 67]] :: byte list list"
  have a: "accepted demo_server 1 7"
    using demo_reachable by (simp add: accepted_def demo_server_simps) (simp add: demo_connected_def)
  have c: "running ?c" "con_handler ?c" "length (con_buff ?c) = nat MAX_SOCKET_MSG_BUFF_LENGTH"
    by (simp_all add: SocketConnect_ResetHandler_def SocketConnect_new_def)
  have "map_find Endpoint_less \<lparr>remote_ip_addr = str ''10.0.0.1'', remote_port = 5000, local_port = 80\<rparr>
      (endpoint_to_net_id_map demo_server) = Some 1"
    by (simp add: demo_server_simps demo_peer_def)
  from windows_client_receives_messages [OF a, of "[[65, 66], [67]]" demo_server "str ''10.0.0.1''" 5000 80 1 ?c 2] this c
  obtain acts where acts: "send_all 2 1 [[65, 66], [67]] demo_server = Inr acts"
    and rest: "\<forall>chunks. concat chunks = sent_bytes 7 acts \<and>
        (\<forall>ch \<in> set chunks. ch \<noteq> [] \<and> length ch \<le> nat MAX_SOCKET_MSG_BUFF_LENGTH) \<longrightarrow>
      (\<exists>c' calls mr'. WinConnect_loop (map ReadBytes chunks @ [ReadBytes []]) ?c = Inr (c', calls, True) \<and>
        handle_events (connect_events (str ''10.0.0.1'') 5000 80 calls) demo_server =
          Inr (mr', concat (map (\<lambda>msg. map (\<lambda>h. CbRecv h 1 msg) (handler_list demo_server)) [[65, 66], [67]])))"
    by (auto simp: demo_server_simps INT_MAX_def holds_def)
  have "sent_bytes 7 acts = [2, 0, 0, 0, 65, 66, 1, 0, 0, 0, 67]"
    using acts send_all_accepted[OF a, of "[[65, 66], [67]]" 2]
    by (auto simp: INT_MAX_def sent_bytes_def frame_def header_bytes_def)
  with rest[rule_format, of ?chunks] obtain c' calls mr' where
    "WinConnect_loop (map ReadBytes ?chunks @ [ReadBytes []]) ?c = Inr (c', calls, True)"
    "handle_events (connect_events (str ''10.0.0.1'') 5000 80 calls) demo_server = Inr (mr', [CbRecv 1 1 [65, 66], CbRecv 1 1 [67]])"
    by (auto simp: demo_server_simps MAX_SOCKET_MSG_BUFF_LENGTH_def)
  with acts show ?thesis by (intro exI[of _ acts] exI[of _ c'] exI[of _ calls] exI[of _ mr']) simp
qed

text \<open>
  C24: What a package must be for a manager of the demo protocol to handle it: two bytes of length,
  and, when the length is one a class name may have, that many bytes of name. For every such
  package, whatever its contents, handling is defined; for every other one \<^verbatim>\<open>OnRecvPackage\<close> looks
  behind the end of the package, because it reads the length field without comparing with
  \<^verbatim>\<open>length\<close> and copies the name before the comparison that would refuse it.
\<close>

theorem typed_package_defined_iff:
  assumes "int (length data) \<le> INT_MAX"
  shows "is_ok (unserialize_package (protocol_vt long_size tmp1 tmp2) protocol_registry data (int (length data))) \<longleftrightarrow>
    2 \<le> length data \<and>
    (let n = sint (of_le_bytes (take 2 data) :: u16) in 0 < n \<and> n < 256 \<longrightarrow> 2 + n \<le> int (length data))"
proof -
  have "\<exists>ob q'. sv_Unserialize (protocol_vt long_size tmp1 tmp2) b q = Inr (ob, q')" for b q
    using queue_Unserialize_defined[of long_size tmp1 tmp2 b] by (simp add: always_reads_def protocol_vt_def)
  from unserialize_package_defined_iff[OF this assms] show ?thesis
    by (simp add: package_header_ok_def SERIALIZE_CLASS_NAME_MAX_LEN_def)
qed

theorem typed_package_defined_iff_witness:
  "\<not> is_ok (unserialize_package demo_vt protocol_registry [200, 0, 65] 3) \<and>
   is_ok (unserialize_package demo_vt protocol_registry [1, 0, 65] 3)"
  using typed_package_defined_iff [of "[200, 0, 65]"] typed_package_defined_iff [of "[1, 0, 65]"]
  by (simp add: demo_vt_def INT_MAX_def)

text \<open>
  Single thread mode does not reach the typed handlers. The mode promises that handlers are
  called from the thread in \<^verbatim>\<open>SyncRunning\<close>; the raw package is queued for that, but the object is
  handed to the typed handlers at once, by the thread that received it.
\<close>

theorem typed_handlers_bypass_single_thread_mode:
  assumes "single_thread_handle_mode (net_manager sm)" and "queue_ok (net_manager sm)" and "0 < i"
    and "queue_message_ok m" and "length (typed_package m) \<le> 4096"
  shows "\<exists>m1 t. Serialize_OnRecvPackage (protocol_vt long_size tmp1 tmp2) protocol_registry i
      (typed_package m) (int (length (typed_package m))) sm =
        Inr (sm\<lparr>net_manager := m1\<rparr>, map (\<lambda>h. CbRecvSerialize h i m) (serialize_handler_list sm)) \<and>
    queued m1 = queued (net_manager sm) @ [t] \<and> task_type t = ON_RECV"
proof -
  let ?n = "int (length (typed_package m))"
  have u: "unserialize_package (protocol_vt long_size tmp1 tmp2) protocol_registry (typed_package m) ?n = Inr (SerDelivered m)"
    using protocol.unserialize_own_package[OF assms(4), of long_size tmp1 tmp2] assms(5)
    by (simp add: protocol_vt_def INT_MAX_def flip: typed_package_def del: length_package_of)
  have n: "typed_package m \<noteq> []" by (simp add: typed_package_def package_of_def)
  obtain m1 t where "OnRecvPackage i (typed_package m) ?n (net_manager sm) = Inr (m1, [])"
    "queued m1 = queued (net_manager sm) @ [t]" "task_type t = ON_RECV"
    by (rule OnRecvPackage_queued[OF assms(1-3) n assms(5)])
  with u show ?thesis by (auto simp: Serialize_OnRecvPackage_def)
qed

theorem typed_handlers_bypass_single_thread_mode_witness:
  "\<exists>m1 t. Serialize_OnRecvPackage demo_vt protocol_registry 1 (typed_package demo_message)
      (int (length (typed_package demo_message))) \<lparr>net_manager = demo_manager True, serialize_handler_list = [4]\<rparr> =
      Inr (\<lparr>net_manager = m1, serialize_handler_list = [4]\<rparr>, [CbRecvSerialize 4 1 demo_message]) \<and>
    queued m1 = [t] \<and> task_type t = ON_RECV"
  using typed_handlers_bypass_single_thread_mode
    [of "\<lparr>net_manager = demo_manager True, serialize_handler_list = [4]\<rparr>" 1 demo_message 8
      "\<lparr>project_project_type = 0, project_project_name = []\<rparr>"
      "\<lparr>operate_operate_type = 0, operate_operate_name = [], operate_operate_describe = []\<rparr>"]
    demo_manager_ok[of True] demo_message_ok
  by (simp add: demo_vt_def demo_manager_def SetSingleThreadHandleMode_def)

end
